(* ===== verification/Prelude.thy ===== *)
theory Prelude
  imports Main "HOL-Library.Word" "HOL-Library.Monad_Syntax"
begin

text \<open>
  Shared ground of the development: the fault monad, the loop combinator, and byte blocks with
  big-endian fields.

  A C operation that may have undefined behaviour (a read or write outside a block, a use of a
  freed block, an uninitialised read) or that may not return is a function into \<open>'a option\<close>:
  \<open>None\<close> stands for \<open>no defined result\<close>. The error returns of the code itself (NULL, a
  negative number, 0) are ordinary values below \<open>Some\<close>, so they are never confused with a fault.
  Loops whose end is not obvious are instances of \<open>loop\<close>, whose body says for each state whether
  the loop goes on (\<open>Inl\<close>), leaves (\<open>Inr\<close>) or faults (\<open>None\<close>).
\<close>

unbundle bit_operations_syntax

named_theorems block_simps \<open>evaluation of reads from and writes to byte blocks\<close>
named_theorems loop_rules \<open>one-step rules of the loop combinator\<close>

type_synonym byte = "8 word"
type_synonym u16 = "16 word"
type_synonym u32 = "32 word"

subsection \<open>Loops\<close>

partial_function (option) loop :: "('s \<Rightarrow> ('s + 'r) option) \<Rightarrow> 's \<Rightarrow> 'r option" where
  "loop body s =
     Option.bind (body s) (\<lambda>x. case x of Inl s' \<Rightarrow> loop body s' | Inr r \<Rightarrow> Some r)"

declare loop.simps [code]

lemma loop_continue [loop_rules]: "body s = Some (Inl s') \<Longrightarrow> loop body s = loop body s'"
  by (simp add: loop.simps)

lemma loop_exit [loop_rules]: "body s = Some (Inr r) \<Longrightarrow> loop body s = Some r"
  by (simp add: loop.simps)

lemma loop_fault [loop_rules]: "body s = None \<Longrightarrow> loop body s = None"
  by (simp add: loop.simps)

text \<open>Total correctness: an invariant the body keeps, and a measure it decreases.\<close>

lemma loop_total:
  assumes "I s"
    and "\<And>s. I s \<Longrightarrow> \<exists>x. body s = Some x"
    and "\<And>s s'. I s \<Longrightarrow> body s = Some (Inl s') \<Longrightarrow> I s' \<and> (m s' :: nat) < m s"
    and "\<And>s r. I s \<Longrightarrow> body s = Some (Inr r) \<Longrightarrow> Q r"
  shows "\<exists>r. loop body s = Some r \<and> Q r"
  using assms(1)
proof (induction "m s" arbitrary: s rule: less_induct)
  case less
  from assms(2) [OF less.prems] obtain x where x: "body s = Some x" by blast
  show ?case
  proof (cases x)
    case (Inl s')
    with x assms(3) [OF less.prems] have "I s' \<and> m s' < m s" by simp
    with less.hyps have "\<exists>r. loop body s' = Some r \<and> Q r" by blast
    with x Inl show ?thesis by (simp add: loop_continue)
  next
    case (Inr r)
    with x assms(4) [OF less.prems] show ?thesis by (simp add: loop_exit)
  qed
qed

text \<open>The same with a measure into lexicographically ordered pairs.\<close>

lemma loop_total_wf:
  assumes "wf R" and "I s"
    and "\<And>s. I s \<Longrightarrow> \<exists>x. body s = Some x"
    and "\<And>s s'. I s \<Longrightarrow> body s = Some (Inl s') \<Longrightarrow> I s' \<and> (s', s) \<in> R"
    and "\<And>s r. I s \<Longrightarrow> body s = Some (Inr r) \<Longrightarrow> Q r"
  shows "\<exists>r. loop body s = Some r \<and> Q r"
  using assms(1,2)
proof (induction s rule: wf_induct_rule)
  case (less s)
  from assms(3) [OF less.prems] obtain x where x: "body s = Some x" by blast
  show ?case
  proof (cases x)
    case (Inl s')
    with x assms(4) [OF less.prems] have "I s' \<and> (s', s) \<in> R" by simp
    with less.IH have "\<exists>r. loop body s' = Some r \<and> Q r" by blast
    with x Inl show ?thesis by (simp add: loop_continue)
  next
    case (Inr r)
    with x assms(5) [OF less.prems] show ?thesis by (simp add: loop_exit)
  qed
qed

text \<open>Partial correctness: what every exit from a state of the invariant gives.\<close>

lemma loop_partial:
  assumes ret: "loop body s = Some r" and inv: "I s"
    and keep: "\<And>s s'. I s \<Longrightarrow> body s = Some (Inl s') \<Longrightarrow> I s'"
    and exit: "\<And>s r. I s \<Longrightarrow> body s = Some (Inr r) \<Longrightarrow> Q r"
  shows "Q r"
proof -
  have "body = body \<longrightarrow> I s \<longrightarrow> Q r"
  proof (rule loop.raw_induct [where P = "\<lambda>b s r. b = body \<longrightarrow> I s \<longrightarrow> Q r", OF _ ret])
    fix f b s r
    assume IH: "\<And>b s r. f b s = Some r \<Longrightarrow> b = body \<longrightarrow> I s \<longrightarrow> Q r"
      and eq: "Option.bind (b s) (\<lambda>x. case x of Inl s' \<Rightarrow> f b s' | Inr r \<Rightarrow> Some r) = Some r"
    show "b = body \<longrightarrow> I s \<longrightarrow> Q r"
    proof (intro impI)
      assume b: "b = body" and s: "I s"
      from eq b obtain x where x: "body s = Some x" by (cases "body s") auto
      then show "Q r"
        using eq b s IH keep exit by (cases x) auto
    qed
  qed
  with inv show ?thesis by blast
qed

text \<open>A body that maps a state to itself never leaves the loop.\<close>

lemma loop_stuck:
  assumes "body s = Some (Inl s)"
  shows "loop body s = None"
proof (rule ccontr)
  assume "loop body s \<noteq> None"
  then obtain r where "loop body s = Some r" by blast
  then show False
    by (rule loop_partial [where I = "\<lambda>t. t = s" and Q = "\<lambda>_. False"]) (use assms in auto)
qed

subsection \<open>The fault monad\<close>

text \<open>\<open>guard\<close> faults unless its condition holds.\<close>

definition guard :: "bool \<Rightarrow> unit option" where
  "guard b = (if b then Some () else None)"

lemma guard_True [simp]: "guard True = Some ()"
  by (simp add: guard_def)

lemma guard_False [simp]: "guard False = None"
  by (simp add: guard_def)

lemma guard_eq_Some [simp]: "guard b = Some u \<longleftrightarrow> b"
  by (simp add: guard_def)

subsection \<open>Blocks\<close>

text \<open>
  A block is the list of its cells. \<open>load\<close>, \<open>store\<close>, \<open>slice\<close> and \<open>blit\<close> fault outside it;
  \<open>slice\<close> and \<open>blit\<close> are the two halves of \<open>memmove\<close>.
\<close>

definition load :: "'a list \<Rightarrow> nat \<Rightarrow> 'a option" where
  "load m i = (if i < length m then Some (m ! i) else None)"

definition store :: "'a list \<Rightarrow> nat \<Rightarrow> 'a \<Rightarrow> 'a list option" where
  "store m i x = (if i < length m then Some (m[i := x]) else None)"

definition slice :: "'a list \<Rightarrow> nat \<Rightarrow> nat \<Rightarrow> 'a list option" where
  "slice m i n = (if i + n \<le> length m then Some (take n (drop i m)) else None)"

definition blit :: "'a list \<Rightarrow> nat \<Rightarrow> 'a list \<Rightarrow> 'a list option" where
  "blit m i xs =
     (if i + length xs \<le> length m then Some (take i m @ xs @ drop (i + length xs) m) else None)"

lemma load_Some [block_simps]: "i < length m \<Longrightarrow> load m i = Some (m ! i)"
  by (simp add: load_def)

lemma store_Some [block_simps]: "i < length m \<Longrightarrow> store m i x = Some (m[i := x])"
  by (simp add: store_def)

lemma slice_Some [block_simps]: "i + n \<le> length m \<Longrightarrow> slice m i n = Some (take n (drop i m))"
  by (simp add: slice_def)

lemma blit_Some [block_simps]:
  "i + length xs \<le> length m \<Longrightarrow> blit m i xs = Some (take i m @ xs @ drop (i + length xs) m)"
  by (simp add: blit_def)

lemma length_store: "store m i x = Some m' \<Longrightarrow> length m' = length m"
  by (auto simp: store_def split: if_splits)

lemma length_slice: "slice m i n = Some xs \<Longrightarrow> length xs = n"
  by (auto simp: slice_def split: if_splits)

lemma length_blit: "blit m i xs = Some m' \<Longrightarrow> length m' = length m"
  by (auto simp: blit_def split: if_splits)

lemma slice_blit: "blit m i xs = Some m' \<Longrightarrow> slice m' i (length xs) = Some xs"
  by (auto simp: blit_def slice_def split: if_splits)

lemma slice_blit_disjoint:
  assumes "blit m i xs = Some m'" and "j + n \<le> i \<or> i + length xs \<le> j"
  shows "slice m' j n = slice m j n"
proof -
  from assms(1) have m': "m' = take i m @ xs @ drop (i + length xs) m"
    and len: "i + length xs \<le> length m"
    by (auto simp: blit_def split: if_splits)
  have "length m' = length m" using assms(1) by (rule length_blit)
  moreover have "take n (drop j m') = take n (drop j m)" if "j + n \<le> length m"
    by (rule nth_equalityI) (use that assms(2) len in \<open>auto simp: m' nth_append\<close>)
  ultimately show ?thesis by (simp add: slice_def)
qed

subsection \<open>Words\<close>

text \<open>A small number survives the way into a 32-bit word and back, signed or not.\<close>

lemma unat_small: "k < 2 ^ 32 \<Longrightarrow> unat (of_nat k :: u32) = k"
  unfolding unat_of_nat by simp

lemma sint_small: "k < 2 ^ 31 \<Longrightarrow> sint (of_nat k :: u32) = int k"
  by (simp add: signed_of_nat signed_take_bit_int_eq_self)

lemma sint_unat: "unat (x :: u32) < 2 ^ 31 \<Longrightarrow> sint x = int (unat x)"
proof -
  assume a: "unat x < 2 ^ 31"
  have "of_nat (unat x) = x" by simp
  with sint_small [OF a] show ?thesis by (simp only:)
qed

subsection \<open>Big-endian fields\<close>

text \<open>The machine is a PowerPC, so multi-byte fields are read from blocks most significant byte first.\<close>

definition join16 :: "byte \<Rightarrow> byte \<Rightarrow> u16" where
  "join16 a b = push_bit 8 (ucast a) OR ucast b"

definition join32 :: "byte \<Rightarrow> byte \<Rightarrow> byte \<Rightarrow> byte \<Rightarrow> u32" where
  "join32 a b c d = push_bit 24 (ucast a) OR push_bit 16 (ucast b) OR push_bit 8 (ucast c) OR ucast d"

definition split32 :: "u32 \<Rightarrow> byte list" where
  "split32 w = [ucast (drop_bit 24 w), ucast (drop_bit 16 w), ucast (drop_bit 8 w), ucast w]"

definition split16 :: "u16 \<Rightarrow> byte list" where
  "split16 w = [ucast (drop_bit 8 w), ucast w]"

lemma length_split32 [simp]: "length (split32 w) = 4"
  by (simp add: split32_def)

lemma length_split16 [simp]: "length (split16 w) = 2"
  by (simp add: split16_def)

lemma bit_beyond: "LENGTH('a) \<le> n \<Longrightarrow> \<not> bit (w :: 'a::len word) n"
  by (simp add: bit_word.rep_eq)

lemma join32_split32:
  "join32 (ucast (drop_bit 24 w)) (ucast (drop_bit 16 w)) (ucast (drop_bit 8 w)) (ucast w) = w"
proof (rule bit_eqI)
  fix n assume n: "possible_bit TYPE(u32) n"
  consider "n < 8" | "8 \<le> n" "n < 16" | "16 \<le> n" "n < 24" | "24 \<le> n" "n < 32"
    using n by fastforce
  then show "bit (join32 (ucast (drop_bit 24 w)) (ucast (drop_bit 16 w)) (ucast (drop_bit 8 w))
      (ucast w)) n = bit w n"
    by cases (auto simp: join32_def bit_simps)
qed

lemma split32_join32: "split32 (join32 a b c d) = [a, b, c, d]"
  by (auto simp: split32_def join32_def bit_simps bit_beyond intro!: bit_eqI)

lemma join16_split16: "join16 (ucast (drop_bit 8 w)) (ucast w) = w"
  by (rule bit_eqI) (auto simp: join16_def bit_simps)

lemma split16_join16: "split16 (join16 a b) = [a, b]"
  by (auto simp: split16_def join16_def bit_simps bit_beyond intro!: bit_eqI)

definition be16 :: "byte list \<Rightarrow> nat \<Rightarrow> u16 option" where
  "be16 m i = (if i + 2 \<le> length m then Some (join16 (m ! i) (m ! (i + 1))) else None)"

definition be32 :: "byte list \<Rightarrow> nat \<Rightarrow> u32 option" where
  "be32 m i =
     (if i + 4 \<le> length m then Some (join32 (m ! i) (m ! (i + 1)) (m ! (i + 2)) (m ! (i + 3)))
      else None)"

definition put32 :: "byte list \<Rightarrow> nat \<Rightarrow> u32 \<Rightarrow> byte list option" where
  "put32 m i w = blit m i (split32 w)"

text \<open>A field is decided by its slice, and is read back after it is written.\<close>

lemma be32_slice: "slice m i 4 = Some (split32 w) \<Longrightarrow> be32 m i = Some w"
proof -
  assume "slice m i 4 = Some (split32 w)"
  then have len: "i + 4 \<le> length m" and s: "take 4 (drop i m) = split32 w"
    by (auto simp: slice_def split: if_splits)
  have "m ! (i + k) = split32 w ! k" if "k < 4" for k
    using arg_cong [OF s, of "\<lambda>xs. xs ! k"] len that by simp
  from this [of 0] this [of 1] this [of 2] this [of 3] len show ?thesis
    using join32_split32 [of w] by (simp add: be32_def split32_def numeral_2_eq_2 numeral_3_eq_3)
qed

lemma be32_put32: "put32 m i w = Some m' \<Longrightarrow> be32 m' i = Some w"
  using slice_blit [of m i "split32 w" m'] by (intro be32_slice) (simp add: put32_def)

lemma length_put32: "put32 m i w = Some m' \<Longrightarrow> length m' = length m"
  by (auto simp: put32_def dest: length_blit)

lemma be32_put32_other:
  assumes "put32 m i w = Some m'" and "j + 4 \<le> i \<or> i + 4 \<le> j"
  shows "be32 m' j = be32 m j"
proof -
  have m': "m' = take i m @ split32 w @ drop (i + 4) m" and len: "i + 4 \<le> length m"
    using assms(1) by (auto simp: put32_def blit_def split: if_splits)
  have "m' ! k = m ! k" if "k < i \<or> i + 4 \<le> k" "k < length m" for k
    using that len by (auto simp: m' nth_append)
  with assms len length_put32 [OF assms(1)] show ?thesis by (auto simp: be32_def)
qed

end
