(* ===== verification/Node_List.thy ===== *)
theory Node_List
  imports Prelude "HOL-Library.Multiset"
begin

text \<open>
  The doubly linked lists of \<open>src/src/support.h\<close> and \<open>src/src/support.c\<close> (\<open>list_t\<close>, \<open>node_t\<close>).
  The list header overlays two sentinel nodes: \<open>(node_t *) &l->l_head\<close> and
  \<open>(node_t *) &l->l_tail\<close> share the header's three words. The model keeps that overlay: memory
  maps addresses to 32-bit words, a node at \<open>p\<close> has its \<open>n_succ\<close> at \<open>p\<close> and its \<open>n_pred\<close> at
  \<open>p + 4\<close>, and a header at \<open>l\<close> has \<open>l_head\<close>, \<open>l_tail\<close>, \<open>l_tailpred\<close> at \<open>l\<close>, \<open>l + 4\<close>, \<open>l + 8\<close>.
  \<open>is_list\<close> is the abstraction to a list of node addresses; each operation is the sequence of
  its assignments, in the order of the source.
\<close>

type_synonym pmem = "u32 \<Rightarrow> u32"

definition new_list :: "u32 \<Rightarrow> pmem \<Rightarrow> pmem" where
  "new_list l m =
    (let m = m(l + 8 := l);
         m = m(l + 4 := 0);
         m = m(l := l + 4)
     in m)"

definition add_head :: "u32 \<Rightarrow> u32 \<Rightarrow> pmem \<Rightarrow> pmem" where
  "add_head l n m =
    (let m = m(n := m l);
         m = m(n + 4 := l);
         m = m(m l + 4 := n);
         m = m(l := n)
     in m)"

definition add_tail :: "u32 \<Rightarrow> u32 \<Rightarrow> pmem \<Rightarrow> pmem" where
  "add_tail l n m =
    (let m = m(n := l + 4);
         m = m(n + 4 := m (l + 8));
         m = m(m (l + 8) := n);
         m = m(l + 8 := n)
     in m)"

definition remove_node :: "u32 \<Rightarrow> pmem \<Rightarrow> pmem" where
  "remove_node n m =
    (let m = m(m (n + 4) := m n);
         m = m(m n + 4 := m (n + 4))
     in m)"

text \<open>\<open>list_new\<close> initialises the header \<open>malloc\<close> returned at \<open>self\<close>.\<close>

definition list_new :: "u32 \<Rightarrow> pmem \<Rightarrow> pmem" where
  "list_new self m =
    (let m = m(self := self + 4);
         m = m(self + 4 := 0);
         m = m(self + 8 := self)
     in m)"

definition list_append :: "u32 \<Rightarrow> u32 \<Rightarrow> pmem \<Rightarrow> pmem" where
  "list_append self n m =
    (let m = m(n := self + 4);
         m = m(n + 4 := m (self + 8));
         m = m(m (n + 4) := n);
         m = m(self + 8 := n)
     in m)"

subsection \<open>Abstraction\<close>

definition links :: "pmem \<Rightarrow> u32 \<Rightarrow> u32 \<Rightarrow> bool" where
  "links m a b \<longleftrightarrow> m a = b \<and> m (b + 4) = a"

fun linked :: "pmem \<Rightarrow> u32 \<Rightarrow> u32 list \<Rightarrow> u32 \<Rightarrow> bool" where
  "linked m a [] z \<longleftrightarrow> links m a z"
| "linked m a (x # xs) z \<longleftrightarrow> links m a x \<and> linked m x xs z"

text \<open>The words of the header and of the nodes are pairwise different.\<close>

definition cells :: "u32 list \<Rightarrow> u32 list" where
  "cells xs = concat (map (\<lambda>x. [x, x + 4]) xs)"

definition separate :: "u32 \<Rightarrow> u32 list \<Rightarrow> bool" where
  "separate l xs \<longleftrightarrow> distinct ([l, l + 4, l + 8] @ cells xs)"

definition is_list :: "pmem \<Rightarrow> u32 \<Rightarrow> u32 list \<Rightarrow> bool" where
  "is_list m l xs \<longleftrightarrow> linked m l xs (l + 4) \<and> m (l + 4) = 0 \<and> separate l xs"

lemma cells_simps [simp]:
  "cells [] = []" "cells (x # xs) = x # (x + 4) # cells xs" "cells (xs @ ys) = cells xs @ cells ys"
  by (simp_all add: cells_def)

lemma set_cells: "set (cells xs) = set xs \<union> (\<lambda>x. x + 4) ` set xs"
  by (auto simp: cells_def)

lemma header_distinct: "distinct [l, l + 4, l + 8 :: u32]"
  by simp

lemma separate_Nil [simp]: "separate l []"
  by (simp add: separate_def)

lemma separate_appendD: "separate l (xs @ ys) \<Longrightarrow> separate l xs"
  by (auto simp: separate_def)

lemma separate_perm: "mset xs = mset ys \<Longrightarrow> separate l xs = separate l ys"
proof -
  assume xs: "mset xs = mset ys"
  have "mset (cells zs) = (\<Sum>x\<in>#mset zs. {#x, x + 4#})" for zs
    by (induction zs) auto
  with xs have "mset ([l, l + 4, l + 8] @ cells xs) = mset ([l, l + 4, l + 8] @ cells ys)"
    by simp
  then show ?thesis unfolding separate_def by (metis mset_eq_imp_distinct_iff)
qed

lemma links_tail: "links m q (l + 4) \<longleftrightarrow> m q = l + 4 \<and> m (l + 8) = q"
proof -
  have "l + 4 + 4 = l + 8" by simp
  then show ?thesis unfolding links_def by metis
qed

lemma linked_append: "linked m a (xs @ y # ys) z \<longleftrightarrow> linked m a xs y \<and> linked m y ys z"
  by (induction xs arbitrary: a) auto

lemma linked_frame:
  assumes "linked m a xs z" and "p \<noteq> a" and "p \<notin> set (cells xs)" and "p \<noteq> z + 4"
  shows "linked (m(p := v)) a xs z"
  using assms by (induction xs arbitrary: a) (auto simp: links_def)

lemma linked_frame_tail:
  assumes "linked m a xs (l + 4)" and "p \<noteq> a" and "p \<notin> set (cells xs)" and "p \<noteq> l + 8"
  shows "linked (m(p := v)) a xs (l + 4)"
  using assms by (intro linked_frame) (auto simp: add.commute)

subsection \<open>The operations on the abstraction\<close>

lemma is_list_new_list: "is_list (new_list l m) l []"
  by (simp add: is_list_def new_list_def links_def)

lemma list_new_eq: "list_new l m = new_list l m"
  by (rule ext) (simp add: list_new_def new_list_def)

lemma list_append_eq:
  assumes "n \<noteq> l + 4"
  shows "list_append l n m = add_tail l n m"
  using assms by (simp add: list_append_def add_tail_def)



text \<open>What separation says of one node, in the form the frame rule wants.\<close>

lemma separate_snocD:
  assumes "separate l (xs @ [n])"
  shows "n \<noteq> l" "n \<noteq> l + 4" "n \<noteq> l + 8" "n + 4 \<noteq> l" "n + 4 \<noteq> l + 8"
    "n \<notin> set (cells xs)" "n + 4 \<notin> set (cells xs)"
    "l \<notin> set (cells xs)" "l + 4 \<notin> set (cells xs)" "l + 8 \<notin> set (cells xs)"
    "distinct (cells xs)"
  using assms by (auto simp: separate_def)

text \<open>
  Appending: the last node (or the header, in an empty list) is relinked to the new node, and the
  new node to the tail sentinel.
\<close>

lemma is_list_add_tail:
  assumes l: "is_list m l xs" and sep: "separate l (xs @ [n])"
  shows "is_list (add_tail l n m) l (xs @ [n])"
proof -
  note n = separate_snocD [OF sep]
  obtain q where q: "links m q (l + 4)" "q = l \<and> xs = [] \<or> (\<exists>ys. xs = ys @ [q] \<and> linked m l ys q)"
    using l by (cases xs rule: rev_cases) (auto simp: is_list_def linked_append)
  let ?m' = "m(n := l + 4, n + 4 := q, q := n, l + 8 := n)"
  have "m (l + 8) = q" using q(1) by (simp add: links_tail)
  then have eq: "add_tail l n m = ?m'"
    using n by (simp add: add_tail_def)
  have qn: "q \<noteq> l + 8" "q \<noteq> n" "q \<noteq> n + 4" "q \<noteq> l + 4" "q + 4 \<noteq> l + 8" "n \<noteq> q + 4"
    using q(2) n by auto
  have "links ?m' q n" "?m' (l + 4) = 0"
    using qn n l by (simp_all add: links_def is_list_def)
  moreover have "links ?m' n (l + 4)"
    using qn n by (simp add: links_tail)
  moreover have "linked ?m' l ys q" if "xs = ys @ [q]" "linked m l ys q" for ys
    using that(2) by (intro linked_frame) (use n qn that(1) in auto)
  ultimately show ?thesis
    using q(2) sep by (auto simp: is_list_def eq linked_append)
qed

lemma is_list_add_head:
  assumes l: "is_list m l xs" and sep: "separate l (n # xs)"
  shows "is_list (add_head l n m) l (n # xs)"
proof -
  from sep have "separate l (xs @ [n])" by (subst separate_perm [of _ "n # xs"]) simp_all
  note n = separate_snocD [OF this]
  obtain f where f: "links m l f" "f = l + 4 \<and> xs = [] \<or> (\<exists>ys. xs = f # ys \<and> linked m f ys (l + 4))"
    using l by (cases xs) (auto simp: is_list_def)
  let ?m' = "m(n := f, n + 4 := l, f + 4 := n, l := n)"
  have "m l = f" using f(1) by (simp add: links_def)
  then have eq: "add_head l n m = ?m'"
    using n by (simp add: add_head_def)
  have fn: "f + 4 \<noteq> l" "f \<noteq> n" "f \<noteq> n + 4" "f \<noteq> l" "f + 4 \<noteq> n" "f + 4 \<noteq> l + 4"
    using f(2) n by auto
  have "links ?m' l n" "links ?m' n f" "?m' (l + 4) = 0"
    using fn n l by (auto simp: links_def is_list_def)
  moreover have "linked ?m' f ys (l + 4)" if "xs = f # ys" "linked m f ys (l + 4)" for ys
    using that(2) by (intro linked_frame) (use n fn that(1) in auto)
  ultimately show ?thesis
    using f(2) sep by (auto simp: is_list_def eq)
qed

text \<open>Unlinking a node that is in the list joins its neighbours, sentinels included.\<close>

lemma is_list_remove_node:
  assumes l: "is_list m l (xs @ n # ys)"
  shows "is_list (remove_node n m) l (xs @ ys)"
proof -
  from l have sep: "separate l (xs @ n # ys)" by (simp add: is_list_def)
  then have "separate l ((xs @ ys) @ [n])" by (subst separate_perm [of _ "xs @ n # ys"]) simp_all
  note n = separate_snocD [OF this]
  obtain p where p: "links m p n" "p = l \<and> xs = [] \<or> (\<exists>zs. xs = zs @ [p] \<and> linked m l zs p)"
    using l by (cases xs rule: rev_cases) (auto simp: is_list_def linked_append)
  obtain s where s: "links m n s" "s = l + 4 \<and> ys = [] \<or> (\<exists>zs. ys = s # zs \<and> linked m s zs (l + 4))"
    using l by (cases ys) (auto simp: is_list_def linked_append)
  let ?m' = "m(p := s, s + 4 := p)"
  have ps: "p \<noteq> n" "p \<noteq> n + 4" "s + 4 \<noteq> n + 4" "p \<noteq> s + 4" "p \<noteq> l + 4" "s + 4 \<noteq> l + 4"
    "s + 4 \<noteq> l" "p \<noteq> l + 8" "s \<noteq> p"
    using p(2) s(2) n by auto
  then have eq: "remove_node n m = ?m'"
    using p(1) s(1) by (simp add: remove_node_def links_def)
  have px: "p \<notin> set (cells ys)" using p(2) n by auto
  have sx: "s + 4 \<notin> set (cells xs)"
    using s(2)
  proof (elim disjE exE conjE)
    assume "s = l + 4"
    then have "s + 4 = l + 8" by simp
    moreover have "l + 8 \<notin> set (cells xs)" using n(10) by simp
    ultimately show ?thesis by metis
  next
    fix zs assume "ys = s # zs"
    with n show ?thesis by auto
  qed
  have "links ?m' p s" "?m' (l + 4) = 0"
    using ps l by (simp_all add: links_def is_list_def)
  moreover have "linked ?m' l zs p" if "xs = zs @ [p]" "linked m l zs p" for zs
    using that(2) by (intro linked_frame) (use n ps sx that(1) in auto)
  moreover have "linked ?m' s zs (l + 4)" if "ys = s # zs" "linked m s zs (l + 4)" for zs
    using that(2) by (intro linked_frame_tail) (use n ps px that(1) in auto)
  moreover have "separate l (xs @ ys)"
    using sep by (auto simp: separate_def)
  ultimately show ?thesis
    using p(2) s(2) by (auto simp: is_list_def eq linked_append)
qed


subsection \<open>The contract the clients use\<close>

text \<open>
  Clients only build lists: they initialise a header and push nodes at one end. \<open>repr m l xs\<close> says
  that the header \<open>l\<close> holds the nodes \<open>xs\<close>, \<open>ok l xs\<close> that those nodes may be in one list.
\<close>

locale deque_store =
  fixes repr :: "'m \<Rightarrow> 'l \<Rightarrow> 'n list \<Rightarrow> bool"
    and ok :: "'l \<Rightarrow> 'n list \<Rightarrow> bool"
    and init :: "'l \<Rightarrow> 'm \<Rightarrow> 'm"
    and push_front :: "'l \<Rightarrow> 'n \<Rightarrow> 'm \<Rightarrow> 'm"
    and push_back :: "'l \<Rightarrow> 'n \<Rightarrow> 'm \<Rightarrow> 'm"
  assumes repr_init: "repr (init l m) l []"
    and repr_push_front: "repr m l xs \<Longrightarrow> ok l (n # xs) \<Longrightarrow> repr (push_front l n m) l (n # xs)"
    and repr_push_back: "repr m l xs \<Longrightarrow> ok l (xs @ [n]) \<Longrightarrow> repr (push_back l n m) l (xs @ [n])"
    and ok_prefix: "ok l (xs @ ys) \<Longrightarrow> ok l xs"
    and ok_perm: "mset xs = mset ys \<Longrightarrow> ok l xs = ok l ys"
begin

lemma push_back_all:
  "repr m l xs \<Longrightarrow> ok l (xs @ ns) \<Longrightarrow> repr (fold (push_back l) ns m) l (xs @ ns)"
proof (induction ns arbitrary: m xs)
  case Nil
  then show ?case by simp
next
  case (Cons n ns)
  from Cons.prems(2) have "ok l (xs @ [n])"
    using ok_prefix [of l "xs @ [n]" ns] by simp
  with Cons.prems(1) have "repr (push_back l n m) l (xs @ [n])"
    by (rule repr_push_back)
  from Cons.IH [OF this] Cons.prems(2) show ?case by simp
qed

lemma push_front_all:
  "repr m l xs \<Longrightarrow> ok l (xs @ ns) \<Longrightarrow> repr (fold (push_front l) ns m) l (rev ns @ xs)"
proof (induction ns arbitrary: m xs)
  case Nil
  then show ?case by simp
next
  case (Cons n ns)
  from Cons.prems(2) have ok: "ok l ((n # xs) @ ns)"
    by (subst ok_perm [of _ "xs @ n # ns"]) simp_all
  with Cons.prems(1) have "repr (push_front l n m) l (n # xs)"
    by (blast intro: repr_push_front ok_prefix)
  from Cons.IH [OF this ok] show ?case by simp
qed

lemma build_fifo: "ok l ns \<Longrightarrow> repr (fold (push_back l) ns (init l m)) l ns"
  using push_back_all [OF repr_init, of l ns m] by simp

lemma build_lifo: "ok l ns \<Longrightarrow> repr (fold (push_front l) ns (init l m)) l (rev ns)"
  using push_front_all [OF repr_init, of l ns m] by simp

end

lemma is_list_list_append:
  assumes "is_list m l xs" and "separate l (xs @ [n])"
  shows "is_list (list_append l n m) l (xs @ [n])"
  using is_list_add_tail [OF assms] separate_snocD(2) [OF assms(2)] by (simp add: list_append_eq)

interpretation header: deque_store is_list separate new_list add_head add_tail
  by unfold_locales
    (auto intro: is_list_new_list is_list_add_head is_list_add_tail separate_appendD separate_perm
      dest: separate_perm)

interpretation heap_header: deque_store is_list separate list_new add_head list_append
  by unfold_locales
    (auto simp: list_new_eq intro: is_list_new_list is_list_add_head is_list_list_append
      header.ok_prefix dest: separate_perm)

end
