(* ===== verification/Machine.thy ===== *)
theory Machine
  imports Node_List
begin

text \<open>
  The routines that act on the machine rather than on data: \<open>StackSwap\<close> of \<open>src/src/support.c\<close>,
  \<open>clear_bss\<close> and \<open>flush_cache\<close> of \<open>src/src/parthenope.c\<close>. Memory maps the addresses of longs to their
  values, as in \<open>Node_List\<close>; the stack pointer \<open>r1\<close> is passed and returned. \<open>wrteei\<close>, which masks
  interrupts, and the barriers between the cache instructions have no effect on values.
\<close>

subsection \<open>The stack\<close>

text \<open>The loop copies downwards, from the end of the two frames to the stack pointer.\<close>

definition swap_step :: "u32 \<Rightarrow> u32 \<times> u32 \<times> pmem \<Rightarrow> (u32 \<times> u32 \<times> pmem + u32 \<times> pmem) option" where
  "swap_step sp = (\<lambda>(dst, src, m).
     if src = sp then Some (Inr (dst, m))
     else let dst = dst - 4; src = src - 4 in Some (Inl (dst, src, m(dst := m src))))"

text \<open>The difference of two pointers to longs is defined when it is a whole number of longs.\<close>

definition StackSwap :: "u32 \<Rightarrow> u32 \<Rightarrow> pmem \<Rightarrow> (int \<times> u32 \<times> pmem) option" where
  "StackSwap sss sp m = do {
     let src = m sp;
     let src = m src;
     guard ((src - sp) mod 4 = 0);
     if sss = 0 then Some (sint (src - sp), sp, m)
     else do {
       let dst = m sss;
       let dst = dst + (src - sp);
       (dst, m) \<leftarrow> loop (swap_step sp) (dst, src, m);
       let m = m(sss := sp);
       Some (0, dst, m)
     }
   }"

definition copied :: "u32 \<Rightarrow> u32 \<Rightarrow> nat \<Rightarrow> pmem \<Rightarrow> pmem" where
  "copied d sp n m = (\<lambda>a. if \<exists>i < n. a = d + 4 * of_nat i then m (sp + (a - d)) else m a)"

lemma swap_loop:
  assumes "4 * n < 2 ^ 32" and "\<And>i j. i < n \<Longrightarrow> j < n \<Longrightarrow> d + 4 * of_nat i \<noteq> sp + 4 * of_nat j"
  shows "loop (swap_step sp) (d + 4 * of_nat n, sp + 4 * of_nat n, m) = Some (d, copied d sp n m)"
  using assms
proof (induction n arbitrary: m)
  case 0
  then show ?case by (simp add: swap_step_def copied_def loop_exit)
next
  case (Suc n)
  let ?m = "m(d + 4 * of_nat n := m (sp + 4 * of_nat n))"
  have "(4 * of_nat (Suc n) :: u32) = of_nat (4 * Suc n)" by simp
  also have "\<dots> \<noteq> 0" using Suc.prems(1) by (simp only: word_of_nat_eq_0_iff) (auto dest!: dvd_imp_le)
  finally have "sp + 4 * of_nat (Suc n) \<noteq> sp" by simp
  then have "loop (swap_step sp) (d + 4 * of_nat (Suc n), sp + 4 * of_nat (Suc n), m)
      = loop (swap_step sp) (d + 4 * of_nat n, sp + 4 * of_nat n, ?m)"
    by (intro loop_continue) (simp add: swap_step_def Let_def algebra_simps)
  also have "\<dots> = Some (d, copied d sp n ?m)" using Suc.prems by (intro Suc.IH) auto
  also have "copied d sp n ?m = copied d sp (Suc n) m"
  proof
    fix a
    show "copied d sp n ?m a = copied d sp (Suc n) m a"
    proof (cases "\<exists>i < n. a = d + 4 * of_nat i")
      case True
      then obtain i where i: "i < n" "a = d + 4 * of_nat i" by blast
      with Suc.prems(2) [of n i] have "sp + (a - d) \<noteq> d + 4 * of_nat n" by auto
      with True i show ?thesis by (auto simp: copied_def less_Suc_eq)
    qed (auto simp: copied_def less_Suc_eq)
  qed
  finally show ?case .
qed

text \<open>
  The two frames of \<open>n\<close> longs are copied to the new stack, which becomes the stack, and the old stack
  pointer is left in the structure; a second call goes back.
\<close>

lemma stack_swapped:
  assumes "m (m sp) = sp + 4 * of_nat n" and "4 * n < 2 ^ 32" and "sss \<noteq> 0"
    and "\<And>i j. i < n \<Longrightarrow> j < n \<Longrightarrow> m sss + 4 * of_nat i \<noteq> sp + 4 * of_nat j"
  shows "StackSwap sss sp m = Some (0, m sss, (copied (m sss) sp n m)(sss := sp))"
proof -
  have "unat (of_nat (4 * n) :: u32) = 4 * n" using assms(2) by (rule unat_small)
  then have "(of_nat (4 * n) :: u32) mod 4 = 0" by (simp only: word_arith_nat_mod) simp
  then have "(4 * of_nat n :: u32) mod 4 = 0" by simp
  with swap_loop [of n "m sss" sp m, OF assms(2,4)] assms(1,3) show ?thesis
    by (simp add: StackSwap_def guard_def)
qed

subsection \<open>The uninitialised data\<close>

definition bss_step :: "u32 \<Rightarrow> u32 \<times> pmem \<Rightarrow> (u32 \<times> pmem + pmem) option" where
  "bss_step end' = (\<lambda>(ptr, m). if ptr < end' then Some (Inl (ptr + 4, m(ptr := 0))) else Some (Inr m))"

definition clear_bss :: "u32 \<Rightarrow> u32 \<Rightarrow> pmem \<Rightarrow> pmem option" where
  "clear_bss bss_start end' m = loop (bss_step end') (bss_start, m)"

lemma unat_plus_small: "unat (s :: u32) + k < 2 ^ 32 \<Longrightarrow> unat (s + of_nat k) = unat s + k"
  by (simp add: unat_word_ariths unat_small)

lemma bss_cleared:
  assumes "unat s + 4 * n < 2 ^ 32"
  shows "clear_bss s (s + 4 * of_nat n) m = Some (\<lambda>a. if \<exists>i < n. a = s + 4 * of_nat i then 0 else m a)"
proof -
  define e where "e = s + 4 * of_nat n"
  have "loop (bss_step e) (s, m) = Some (\<lambda>a. if \<exists>i < n. a = s + 4 * of_nat i then 0 else m a)"
    using assms e_def
  proof (induction n arbitrary: s m)
    case 0
    then show ?case by (simp add: bss_step_def loop_exit)
  next
    case (Suc n)
    have e: "e = s + of_nat (4 * Suc n)" using Suc.prems(2) by simp
    have u: "unat e = unat s + 4 * Suc n" unfolding e by (rule unat_plus_small [OF Suc.prems(1)])
    have u4: "unat (s + 4) = unat s + 4" using Suc.prems(1) unat_plus_small [of s 4] by simp
    from u have "s < e" by (simp add: word_less_nat_alt)
    then have "loop (bss_step e) (s, m) = loop (bss_step e) (s + 4, m(s := 0))"
      by (intro loop_continue) (simp add: bss_step_def)
    also have "\<dots> = Some (\<lambda>a. if \<exists>i < n. a = (s + 4) + 4 * of_nat i then 0 else (m(s := 0)) a)"
      using Suc.prems by (intro Suc.IH) (simp_all add: u4 algebra_simps)
    also have "(\<lambda>a. if \<exists>i < n. a = (s + 4) + 4 * of_nat i then 0 else (m(s := 0)) a)
        = (\<lambda>a. if \<exists>i < Suc n. a = s + 4 * of_nat i then 0 else m a)"
      by (rule ext) (auto simp: Ex_less_Suc2 algebra_simps)
    finally show ?case .
  qed
  then show ?thesis by (simp add: clear_bss_def e_def)
qed

subsection \<open>The caches\<close>

text \<open>The addresses that \<open>dcbst\<close> and \<open>icbi\<close> get, in order.\<close>

definition flush_step :: "u32 \<Rightarrow> u32 \<times> u32 list \<Rightarrow> (u32 \<times> u32 list + u32 list) option" where
  "flush_step end' = (\<lambda>(ptr, ls). if ptr < end' then Some (Inl (ptr + 32, ls @ [ptr])) else Some (Inr ls))"

definition flush_cache :: "u32 \<Rightarrow> u32 \<Rightarrow> (u32 list \<times> u32 list) option" where
  "flush_cache start end' = do {
     let start = start AND 0xffffffe0;
     let end' = end' AND 0xffffffe0;
     stored \<leftarrow> loop (flush_step end') (start, []);
     invalidated \<leftarrow> loop (flush_step end') (start, []);
     Some (stored, invalidated)
   }"

text \<open>A line: the number of a byte, without its last five bits.\<close>

lemma line_unat: "unat (a AND 0xffffffe0 :: u32) = unat a div 32 * 32"
proof -
  have "(0xffffffe0 :: u32) = NOT (mask 5)" by (simp add: mask_eq_exp_minus_1)
  moreover have "a AND NOT (mask 5) = push_bit 5 (drop_bit 5 a)" by (rule bit_eqI) (auto simp: bit_simps)
  moreover have "unat (push_bit 5 (drop_bit 5 a)) = unat a div 32 * 32"
  proof -
    have "unat a div 32 * 32 \<le> unat a" by simp
    also have "\<dots> < 2 ^ 32" using unsigned_less [of a] by simp
    finally show ?thesis by (simp add: push_bit_eq_mult unat_word_ariths unat_drop_bit_eq drop_bit_eq_div)
  qed
  ultimately show ?thesis by simp
qed

lemma flush_lines:
  assumes "unat s = 32 * j" and "unat e = 32 * (j + n)"
  shows "loop (flush_step e) (s, ls) = Some (ls @ map (\<lambda>i. s + 32 * of_nat i) [0..<n])"
  using assms
proof (induction n arbitrary: s j ls)
  case 0
  then have "s = e" by (simp add: word_unat_eq_iff)
  then show ?case by (simp add: flush_step_def loop_exit)
next
  case (Suc n)
  have "unat e < 2 ^ 32" using unsigned_less [of e] by simp
  with Suc.prems have s: "unat (s + 32) = 32 * (j + 1)" by (simp add: unat_word_ariths)
  have "loop (flush_step e) (s, ls) = loop (flush_step e) (s + 32, ls @ [s])"
    using Suc.prems by (intro loop_continue) (simp add: flush_step_def word_less_nat_alt)
  also have "\<dots> = Some ((ls @ [s]) @ map (\<lambda>i. (s + 32) + 32 * of_nat i) [0..<n])"
    using Suc.prems(2) s by (intro Suc.IH [of _ "j + 1"]) simp_all
  also have "map (\<lambda>i. (s + 32) + 32 * of_nat i) [0..<n] = map (\<lambda>i. s + 32 * of_nat i) (map Suc [0..<n])"
    by (simp add: algebra_simps)
  also have "(ls @ [s]) @ map (\<lambda>i. s + 32 * of_nat i) (map Suc [0..<n]) = ls @ map (\<lambda>i. s + 32 * of_nat i) [0..<Suc n]"
    unfolding map_Suc_upt upt_conv_Cons [OF zero_less_Suc] by simp
  finally show ?case .
qed

text \<open>Every line from the one of \<open>s\<close> up to, but without, the one of \<open>e\<close> is written back and invalidated.\<close>

lemma cache_flushed:
  assumes "s \<le> e"
  shows "\<exists>ls. flush_cache s e = Some (ls, ls) \<and> set ls = {a. 32 dvd unat a \<and> s AND 0xffffffe0 \<le> a \<and> a < e AND 0xffffffe0}"
proof -
  let ?s = "s AND 0xffffffe0" and ?e = "e AND 0xffffffe0"
  define j n where "j = unat s div 32" and "n = unat e div 32 - unat s div 32"
  have "unat s div 32 \<le> unat e div 32" using assms by (simp add: word_le_nat_alt div_le_mono)
  then have u: "unat ?s = 32 * j" "unat ?e = 32 * (j + n)" by (simp_all add: line_unat j_def n_def)
  let ?ls = "map (\<lambda>i. ?s + 32 * of_nat i) [0..<n]"
  have "flush_cache s e = Some (?ls, ?ls)" using flush_lines [OF u] by (simp add: flush_cache_def Let_def)
  moreover have "set ?ls = {a. 32 dvd unat a \<and> ?s \<le> a \<and> a < ?e}"
  proof (intro set_eqI iffI)
    fix a assume "a \<in> set ?ls"
    then obtain i where i: "i < n" "a = ?s + 32 * of_nat i" by auto
    have "unat ?e < 2 ^ 32" using unsigned_less [of ?e] by simp
    with i u have "unat a = 32 * (j + i)" by (simp add: unat_word_ariths unat_of_nat)
    then show "a \<in> {a. 32 dvd unat a \<and> ?s \<le> a \<and> a < ?e}"
      using i(1) u by (simp add: word_le_nat_alt word_less_nat_alt)
  next
    fix a assume "a \<in> {a. 32 dvd unat a \<and> ?s \<le> a \<and> a < ?e}"
    then obtain k where k: "unat a = 32 * k" and l: "32 * j \<le> 32 * k" "32 * k < 32 * (j + n)"
      using u by (auto simp: word_le_nat_alt word_less_nat_alt)
    have "unat a < 2 ^ 32" using unsigned_less [of a] by simp
    with k l u have "unat (?s + of_nat (32 * (k - j))) = unat a" by (subst unat_plus_small) simp_all
    then have "a = ?s + 32 * of_nat (k - j)" by (simp add: word_unat_eq_iff)
    moreover have "k - j < n" using l by auto
    ultimately show "a \<in> set ?ls" by auto
  qed
  ultimately show ?thesis by blast
qed

text \<open>So the line of the last bytes before \<open>e\<close> is left out unless \<open>e\<close> is the start of a line.\<close>

lemma last_line_kept:
  assumes "s \<le> e" and "\<not> 32 dvd unat e"
  shows "\<exists>ls. flush_cache s e = Some (ls, ls) \<and> (e - 1) AND 0xffffffe0 \<notin> set ls"
proof -
  from cache_flushed [OF assms(1)] obtain ls where l: "flush_cache s e = Some (ls, ls)"
    "set ls = {a. 32 dvd unat a \<and> s AND 0xffffffe0 \<le> a \<and> a < e AND 0xffffffe0}" by blast
  have "e \<noteq> 0" using assms(2) by auto
  then have "unat (e - 1) = unat e - 1" by (rule unat_minus_one)
  moreover have "(unat e - 1) div 32 = unat e div 32"
    using assms(2) by (cases "unat e") (simp_all add: div_Suc dvd_eq_mod_eq_0)
  ultimately have "(e - 1) AND 0xffffffe0 = e AND 0xffffffe0" by (simp only: word_unat_eq_iff line_unat)
  with l show ?thesis by auto
qed

end
