(* ===== verification/Context.thy ===== *)
theory Context
  imports Prelude
begin

text \<open>
  The interface to U-Boot: \<open>src/src/uboot.h\<close>, \<open>src/src/context.h\<close> and \<open>src/src/context.c\<close>. U-Boot
  hands the program a table of callbacks; what they do is not part of the program, so the table is a
  record of functions over an arbitrary world \<open>'w\<close> (disks, network, console, environment, heap), and
  every definition that calls U-Boot takes it as an argument and threads the world. A routine that
  fills a memory block takes the block and returns it. Left out of the table are the members that have
  no use on values (\<open>c_printf\<close>, \<open>c_sprintf\<close>, \<open>c_free_mem\<close>, \<open>c_memmove\<close>, which is modelled with the C
  library) and the ones the program never calls. Of a scan handle only \<open>ush_device\<close> is used.
\<close>

record 'w block_dev_desc =
  bd_if_type :: int
  bd_dev :: int
  bd_part_type :: byte
  bd_target :: byte
  bd_lun :: byte
  bd_type :: byte
  bd_removable :: byte
  bd_lba48 :: byte
  bd_lba :: u32
  bd_blksz :: u32
  bd_vendor :: "byte list"
  bd_product :: "byte list"
  bd_revision :: "byte list"
  bd_block_read :: "int \<Rightarrow> u32 \<Rightarrow> u32 \<Rightarrow> byte list \<Rightarrow> 'w \<Rightarrow> (u32 \<times> byte list) \<times> 'w"
  bd_block_write :: "int \<Rightarrow> u32 \<Rightarrow> u32 \<Rightarrow> byte list \<Rightarrow> 'w \<Rightarrow> u32 \<times> 'w"

record disk_partition_t =
  dp_start :: u32
  dp_size :: u32
  dp_blksz :: u32
  dp_name :: "byte list"
  dp_type :: "byte list"

record 'w scan_unit =
  ush_device :: "'w block_dev_desc"

abbreviation (input) DEV_TYPE_HARDDISK :: byte where "DEV_TYPE_HARDDISK \<equiv> 0x00"
abbreviation (input) DEV_TYPE_CDROM :: byte where "DEV_TYPE_CDROM \<equiv> 0x05"
abbreviation (input) DEV_TYPE_NETBOOT :: byte where "DEV_TYPE_NETBOOT \<equiv> 0x81"

text \<open>
  An argument of \<open>bootm\<close>: a string, or an address printed with \<open>%p\<close>, which stands for the block there.
\<close>

datatype boot_arg = Arg string | Address "byte list"

record 'w context_t =
  c_getc :: "'w \<Rightarrow> int \<times> 'w"
  c_curr_device :: "'w scan_unit option"
  c_start_unit_scan :: "string option list \<Rightarrow> 'w \<Rightarrow> ('w scan_unit option \<times> u32) \<times> 'w"
  c_next_unit_scan :: "'w scan_unit \<Rightarrow> 'w \<Rightarrow> ('w scan_unit option \<times> u32) \<times> 'w"
  c_open_specific_unit :: "'w scan_unit \<Rightarrow> 'w \<Rightarrow> int \<times> 'w"
  c_end_unit_scan :: "'w scan_unit option \<Rightarrow> 'w \<Rightarrow> 'w"
  c_end_global_scan :: "'w \<Rightarrow> 'w"
  c_loadsector :: "u32 \<Rightarrow> u32 \<Rightarrow> u32 \<Rightarrow> byte list \<Rightarrow> 'w \<Rightarrow> (int \<times> byte list) \<times> 'w"
  c_my_netloop :: "string \<Rightarrow> byte list \<Rightarrow> 'w \<Rightarrow> (int \<times> byte list) \<times> 'w"
  c_getenv :: "string \<Rightarrow> 'w \<Rightarrow> string option"
  c_setenv :: "string \<Rightarrow> string \<Rightarrow> 'w \<Rightarrow> 'w"
  c_alloc_mem_for_anythingelse :: "int \<Rightarrow> 'w \<Rightarrow> byte list \<times> 'w"
  c_video_clear :: "'w \<Rightarrow> 'w"
  c_video_draw_box :: "int \<Rightarrow> int \<Rightarrow> string \<Rightarrow> int \<Rightarrow> int \<Rightarrow> int \<Rightarrow> int \<Rightarrow> int \<Rightarrow> 'w \<Rightarrow> 'w"
  c_video_draw_text :: "int \<Rightarrow> int \<Rightarrow> int \<Rightarrow> string \<Rightarrow> int \<Rightarrow> 'w \<Rightarrow> 'w"
  c_video_repeat_char :: "int \<Rightarrow> int \<Rightarrow> int \<Rightarrow> int \<Rightarrow> int \<Rightarrow> 'w \<Rightarrow> 'w"
  c_set_partial_scroll_limits :: "int \<Rightarrow> int \<Rightarrow> 'w \<Rightarrow> int \<times> 'w"
  c_video_get_key :: "'w \<Rightarrow> int \<times> 'w"
  c_do_bootm :: "int \<Rightarrow> boot_arg list \<Rightarrow> 'w \<Rightarrow> int \<times> 'w"
  c_tstc :: "'w \<Rightarrow> int \<times> 'w"
  c_udelay :: "u32 \<Rightarrow> 'w \<Rightarrow> 'w"
  c_ext2fs_set_blk_dev_full :: "'w block_dev_desc \<Rightarrow> disk_partition_t \<Rightarrow> 'w \<Rightarrow> int \<times> 'w"
  c_ext2fs_open :: "string \<Rightarrow> 'w \<Rightarrow> int \<times> 'w"
  c_ext2fs_read :: "byte list \<Rightarrow> int \<Rightarrow> 'w \<Rightarrow> (int \<times> byte list) \<times> 'w"
  c_ext2fs_mount :: "u32 \<Rightarrow> 'w \<Rightarrow> int \<times> 'w"
  c_ext2fs_close :: "'w \<Rightarrow> 'w"
  c_bootu :: "string \<Rightarrow> 'w \<Rightarrow> int \<times> 'w"

subsection \<open>The calls\<close>

text \<open>The table of device classes \<open>get_scan_list\<close> returns instead of U-Boot's own.\<close>

definition get_scan_list :: "string option list" where
  "get_scan_list =
     [Some ''s4sii'', Some ''s4siicdrom'', Some ''net'', Some ''ssii'', Some ''ssiicdrom'', None, None]"

definition getc :: "'w context_t \<Rightarrow> 'w \<Rightarrow> int \<times> 'w" where
  "getc ctx = c_getc ctx"

definition get_curr_device :: "'w context_t \<Rightarrow> 'w scan_unit option" where
  "get_curr_device ctx = c_curr_device ctx"

definition start_unit_scan ::
    "'w context_t \<Rightarrow> string option list \<Rightarrow> 'w \<Rightarrow> ('w scan_unit option \<times> u32) \<times> 'w" where
  "start_unit_scan ctx scan_list = c_start_unit_scan ctx scan_list"

definition next_unit_scan ::
    "'w context_t \<Rightarrow> 'w scan_unit \<Rightarrow> 'w \<Rightarrow> ('w scan_unit option \<times> u32) \<times> 'w" where
  "next_unit_scan ctx h = c_next_unit_scan ctx h"

definition open_specific_unit :: "'w context_t \<Rightarrow> 'w scan_unit \<Rightarrow> 'w \<Rightarrow> int \<times> 'w" where
  "open_specific_unit ctx h = c_open_specific_unit ctx h"

definition end_unit_scan :: "'w context_t \<Rightarrow> 'w scan_unit option \<Rightarrow> 'w \<Rightarrow> 'w" where
  "end_unit_scan ctx h = c_end_unit_scan ctx h"

definition end_global_scan :: "'w context_t \<Rightarrow> 'w \<Rightarrow> 'w" where
  "end_global_scan ctx = c_end_global_scan ctx"

definition loadsector ::
    "'w context_t \<Rightarrow> u32 \<Rightarrow> u32 \<Rightarrow> u32 \<Rightarrow> byte list \<Rightarrow> 'w \<Rightarrow> (int \<times> byte list) \<times> 'w" where
  "loadsector ctx sectn sect_size numb_sects dest = c_loadsector ctx sectn sect_size numb_sects dest"

definition netloop ::
    "'w context_t \<Rightarrow> string \<Rightarrow> byte list \<Rightarrow> 'w \<Rightarrow> (int \<times> byte list) \<times> 'w" where
  "netloop ctx filename dump_here = c_my_netloop ctx filename dump_here"

text \<open>\<open>malloc\<close>: the fresh block with whatever it contains.\<close>

definition malloc :: "'w context_t \<Rightarrow> int \<Rightarrow> 'w \<Rightarrow> byte list \<times> 'w" where
  "malloc ctx n = c_alloc_mem_for_anythingelse ctx n"

text \<open>What the theorems rely on: the block has the size that was asked for.\<close>

definition alloc_ok :: "'w context_t \<Rightarrow> bool" where
  "alloc_ok ctx \<longleftrightarrow> (\<forall>n w. 0 \<le> n \<longrightarrow> length (fst (malloc ctx n w)) = nat n)"

text \<open>\<open>calloc\<close> of \<open>support.c\<close>: the product is an \<open>int\<close>, and the block is not cleared.\<close>

definition calloc :: "'w context_t \<Rightarrow> int \<Rightarrow> int \<Rightarrow> 'w \<Rightarrow> (byte list \<times> 'w) option" where
  "calloc ctx size' n w = do {
     guard (- (2 ^ 31) \<le> size' * n \<and> size' * n < 2 ^ 31);
     Some (malloc ctx (size' * n) w)
   }"

definition getenv :: "'w context_t \<Rightarrow> string \<Rightarrow> 'w \<Rightarrow> string option" where
  "getenv ctx var = c_getenv ctx var"

definition setenv :: "'w context_t \<Rightarrow> string \<Rightarrow> string \<Rightarrow> 'w \<Rightarrow> 'w" where
  "setenv ctx var v = c_setenv ctx var v"

definition tstc :: "'w context_t \<Rightarrow> 'w \<Rightarrow> int \<times> 'w" where
  "tstc ctx = c_tstc ctx"

definition udelay :: "'w context_t \<Rightarrow> u32 \<Rightarrow> 'w \<Rightarrow> 'w" where
  "udelay ctx t = c_udelay ctx t"

definition video_clear :: "'w context_t \<Rightarrow> 'w \<Rightarrow> 'w" where
  "video_clear ctx = c_video_clear ctx"

definition video_draw_box ::
    "'w context_t \<Rightarrow> int \<Rightarrow> int \<Rightarrow> string \<Rightarrow> int \<Rightarrow> int \<Rightarrow> int \<Rightarrow> int \<Rightarrow> int \<Rightarrow> 'w \<Rightarrow> 'w" where
  "video_draw_box ctx style attr title sep x y w h = c_video_draw_box ctx style attr title sep x y w h"

definition video_draw_text ::
    "'w context_t \<Rightarrow> int \<Rightarrow> int \<Rightarrow> int \<Rightarrow> string \<Rightarrow> int \<Rightarrow> 'w \<Rightarrow> 'w" where
  "video_draw_text ctx x y attr txt field = c_video_draw_text ctx x y attr txt field"

definition video_repeat_char ::
    "'w context_t \<Rightarrow> int \<Rightarrow> int \<Rightarrow> int \<Rightarrow> int \<Rightarrow> int \<Rightarrow> 'w \<Rightarrow> 'w" where
  "video_repeat_char ctx x y repcnt repchar attr = c_video_repeat_char ctx x y repcnt repchar attr"

definition video_set_partial_scroll_limits :: "'w context_t \<Rightarrow> int \<Rightarrow> int \<Rightarrow> 'w \<Rightarrow> int \<times> 'w" where
  "video_set_partial_scroll_limits ctx start stop = c_set_partial_scroll_limits ctx start stop"

definition video_get_key :: "'w context_t \<Rightarrow> 'w \<Rightarrow> int \<times> 'w" where
  "video_get_key ctx = c_video_get_key ctx"

definition ext2fs_set_blk_dev_full ::
    "'w context_t \<Rightarrow> 'w block_dev_desc \<Rightarrow> disk_partition_t \<Rightarrow> 'w \<Rightarrow> int \<times> 'w" where
  "ext2fs_set_blk_dev_full ctx rbdd p = c_ext2fs_set_blk_dev_full ctx rbdd p"

definition ext2fs_open :: "'w context_t \<Rightarrow> string \<Rightarrow> 'w \<Rightarrow> int \<times> 'w" where
  "ext2fs_open ctx filename = c_ext2fs_open ctx filename"

definition ext2fs_read :: "'w context_t \<Rightarrow> byte list \<Rightarrow> int \<Rightarrow> 'w \<Rightarrow> (int \<times> byte list) \<times> 'w" where
  "ext2fs_read ctx buf len = c_ext2fs_read ctx buf len"

definition ext2fs_mount :: "'w context_t \<Rightarrow> u32 \<Rightarrow> 'w \<Rightarrow> int \<times> 'w" where
  "ext2fs_mount ctx part_length = c_ext2fs_mount ctx part_length"

definition ext2fs_close :: "'w context_t \<Rightarrow> 'w \<Rightarrow> 'w" where
  "ext2fs_close ctx = c_ext2fs_close ctx"

definition bootm :: "'w context_t \<Rightarrow> int \<Rightarrow> boot_arg list \<Rightarrow> 'w \<Rightarrow> int \<times> 'w" where
  "bootm ctx flag argv = c_do_bootm ctx flag argv"

text \<open>\<open>bootu\<close> is the one wrapper with a body: the device also becomes \<open>boot1\<close> of the environment.\<close>

definition bootu :: "'w context_t \<Rightarrow> string \<Rightarrow> 'w \<Rightarrow> int \<times> 'w" where
  "bootu ctx device w = c_bootu ctx device (setenv ctx ''boot1'' device w)"

end
