(* ===== verification/Support.thy ===== *)
theory Support
  imports Prelude
begin

text \<open>
  The freestanding C library of \<open>src/src/support.c\<close>. A \<open>char *\<close> that is only read is the rest of
  its block from the pointer on (a \<open>char list\<close>, terminator and whatever follows it included), so
  running past the block is \<open>None\<close>. A \<open>char *\<close> that is written is a block and an offset.
  \<open>cstr\<close> is the C string a pointer denotes, and the lemmas state each routine over it.
  \<open>char\<close> is unsigned, as the PowerPC ABI has it. \<open>StackSwap\<close> is in \<open>Machine\<close>,
  \<open>calloc\<close> next to \<open>malloc\<close> in \<open>Context\<close>.
\<close>

abbreviation NUL :: char where
  "NUL \<equiv> CHR 0x00"

abbreviation chr_tab :: char where "chr_tab \<equiv> CHR 0x09"
abbreviation chr_nl :: char where "chr_nl \<equiv> CHR 0x0A"

abbreviation code :: "char \<Rightarrow> int" where
  "code c \<equiv> of_char c"

subsection \<open>Character classes\<close>

definition isblank :: "char \<Rightarrow> bool" where
  "isblank c \<longleftrightarrow> c = CHR '' '' \<or> c = CHR 0x09"

definition isspace :: "char \<Rightarrow> bool" where
  "isspace c \<longleftrightarrow> c = CHR '' '' \<or> c = CHR 0x09 \<or> c = CHR 0x0C \<or> c = CHR 0x0A \<or> c = CHR 0x0D
     \<or> c = CHR 0x0B"

definition isdigit :: "char \<Rightarrow> bool" where
  "isdigit c \<longleftrightarrow> code CHR ''0'' \<le> code c \<and> code c \<le> code CHR ''9''"

definition tolower :: "char \<Rightarrow> char" where
  "tolower c =
     (if code CHR ''A'' \<le> code c \<and> code c \<le> code CHR ''Z''
      then char_of (code c - (code CHR ''A'' - code CHR ''a'')) else c)"

subsection \<open>Reading strings\<close>

fun strlen :: "char list \<Rightarrow> nat option" where
  "strlen [] = None"
| "strlen (c # s) = (if c = NUL then Some 0 else map_option Suc (strlen s))"

fun strncasecmp :: "char list \<Rightarrow> char list \<Rightarrow> int \<Rightarrow> int option" where
  "strncasecmp s1 s2 lim =
     (if lim = 0 then Some 0
      else case (s1, s2) of
        (a # s1', b # s2') \<Rightarrow>
          (let diff = code (tolower b) - code (tolower a)
           in if diff \<noteq> 0 \<or> a = NUL then Some diff else strncasecmp s1' s2' (lim - 1))
      | _ \<Rightarrow> None)"

fun strcasecmp :: "char list \<Rightarrow> char list \<Rightarrow> int option" where
  "strcasecmp (a # s1) (b # s2) =
     (let diff = code (tolower b) - code (tolower a)
      in if diff \<noteq> 0 \<or> a = NUL then Some diff else strcasecmp s1 s2)"
| "strcasecmp _ _ = None"

fun strncmp :: "char list \<Rightarrow> char list \<Rightarrow> int \<Rightarrow> int option" where
  "strncmp s1 s2 lim =
     (if lim = 0 then Some 0
      else case (s1, s2) of
        (a # s1', b # s2') \<Rightarrow>
          (let diff = code b - code a
           in if diff \<noteq> 0 \<or> a = NUL then Some diff else strncmp s1' s2' (lim - 1))
      | _ \<Rightarrow> None)"

fun strcmp :: "char list \<Rightarrow> char list \<Rightarrow> int option" where
  "strcmp (a # s1) (b # s2) =
     (let diff = code b - code a
      in if diff \<noteq> 0 \<or> a = NUL then Some diff else strcmp s1 s2)"
| "strcmp _ _ = None"

text \<open>The result of \<open>strchr\<close>: \<open>Some None\<close> is NULL, \<open>Some (Some i)\<close> the pointer \<open>s + i\<close>.\<close>

fun strchr :: "char list \<Rightarrow> char \<Rightarrow> nat option option" where
  "strchr [] c = None"
| "strchr (x # s) c =
     (if x = NUL then Some None
      else if x = c then Some (Some 0)
      else map_option (map_option Suc) (strchr s c))"

text \<open>
  \<open>strtol\<close> walks the string from its last character to its first. The C is \<open>int\<close> arithmetic; the
  model keeps 32 bits and wraps, and a caller reads the result with \<open>sint\<close>.
\<close>

fun strtol_loop :: "char list \<Rightarrow> u32 \<Rightarrow> u32 \<Rightarrow> u32" where
  "strtol_loop [] m l = l"
| "strtol_loop (c # s) m l = strtol_loop s (m * 10) (l + (of_char c - 48) * m)"

definition strtol :: "char list \<Rightarrow> u32 option" where
  "strtol s = do { n \<leftarrow> strlen s; Some (strtol_loop (rev (take n s)) 1 0) }"

subsection \<open>Writing blocks\<close>

text \<open>
  \<open>memmove\<close> itself is U-Boot's (\<open>c_memmove\<close>), the C library's routine: it copies \<open>n\<close> cells as if
  through a buffer. \<open>memcpy\<close> and \<open>strncpy\<close> only forward to it, so \<open>strncpy\<close> neither stops at a
  terminator nor pads.
\<close>

definition memmove :: "'a list \<Rightarrow> nat \<Rightarrow> 'a list \<Rightarrow> nat \<Rightarrow> 'a list option" where
  "memmove dest d src n = do { xs \<leftarrow> slice src 0 n; blit dest d xs }"

definition memcpy :: "'a list \<Rightarrow> nat \<Rightarrow> 'a list \<Rightarrow> nat \<Rightarrow> 'a list option" where
  "memcpy dest d src n = memmove dest d src n"

definition strncpy :: "char list \<Rightarrow> nat \<Rightarrow> char list \<Rightarrow> nat \<Rightarrow> char list option" where
  "strncpy dest d src n = memmove dest d src n"

definition strcpy :: "char list \<Rightarrow> nat \<Rightarrow> char list \<Rightarrow> char list option" where
  "strcpy dest d src = do { n \<leftarrow> strlen src; memmove dest d src (n + 1) }"

text \<open>The contents of the fresh block do not matter: \<open>strcpy\<close> overwrites all of it.\<close>

definition strdup :: "char list \<Rightarrow> char list option" where
  "strdup s = do { n \<leftarrow> strlen s; strcpy (replicate (n + 1) NUL) 0 s }"

text \<open>
  \<open>bzero\<close> counts its \<open>int\<close> length down to zero, so a negative length runs off every block;
  \<open>memset\<close> stops at once on one.
\<close>

function bzero :: "byte list \<Rightarrow> nat \<Rightarrow> int \<Rightarrow> byte list option" where
  "bzero m d len =
     (if len = 0 then Some m
      else do { m' \<leftarrow> store m d 0; bzero m' (d + 1) (len - 1) })"
  by pat_completeness auto
termination
  by (relation "measure (\<lambda>(m, d, len). length m - d)") (auto simp: store_def split: if_splits)

fun memset :: "byte list \<Rightarrow> nat \<Rightarrow> byte \<Rightarrow> nat \<Rightarrow> byte list option" where
  "memset m d c 0 = Some m"
| "memset m d c (Suc n) = do { m' \<leftarrow> store m d c; memset m' (d + 1) c n }"

declare strncasecmp.simps [simp del] strncmp.simps [simp del] bzero.simps [simp del]

subsection \<open>The string a pointer denotes\<close>

definition cstr :: "char list \<Rightarrow> string" where
  "cstr m = takeWhile (\<lambda>c. c \<noteq> NUL) m"

definition terminated :: "char list \<Rightarrow> bool" where
  "terminated m \<longleftrightarrow> NUL \<in> set m"

named_theorems cstr_simps \<open>C string routines in terms of cstr\<close>

lemma cstr_Cons [simp]: "cstr (c # m) = (if c = NUL then [] else c # cstr m)"
  by (simp add: cstr_def)

lemma cstr_Nil [simp]: "cstr [] = []"
  by (simp add: cstr_def)

lemma terminated_Cons [simp]: "terminated (c # m) \<longleftrightarrow> c = NUL \<or> terminated m"
  by (auto simp: terminated_def)

lemma terminated_Nil [simp]: "\<not> terminated []"
  by (simp add: terminated_def)

lemma NUL_notin_cstr [simp]: "NUL \<notin> set (cstr m)"
  by (auto simp: cstr_def dest: set_takeWhileD)

lemma cstr_append_NUL: "NUL \<notin> set s \<Longrightarrow> cstr (s @ NUL # r) = s"
  by (induction s) auto

lemma cstr_append: "terminated m \<Longrightarrow> cstr (m @ r) = cstr m"
  by (induction m) auto

lemma terminated_append [simp]: "terminated (m @ r) \<longleftrightarrow> terminated m \<or> terminated r"
  by (auto simp: terminated_def)

lemma terminated_split: "terminated m \<Longrightarrow> \<exists>r. m = cstr m @ NUL # r"
  by (induction m) auto

lemma length_cstr_le: "length (cstr m) \<le> length m"
  by (simp add: cstr_def length_takeWhile_le)

lemma length_cstr_less: "terminated m \<Longrightarrow> length (cstr m) < length m"
  by (induction m) auto

lemma cstr_cstr_NUL [simp]: "cstr (cstr m @ [NUL]) = cstr m"
  by (rule cstr_append_NUL) simp

lemma terminated_drop_le: "terminated m \<Longrightarrow> i \<le> length (cstr m) \<Longrightarrow> terminated (drop i m)"
  by (induction m arbitrary: i) (auto simp: drop_Cons split: nat.splits if_splits)

lemma cstr_drop: "i \<le> length (cstr m) \<Longrightarrow> cstr (drop i m) = drop i (cstr m)"
  by (induction m arbitrary: i) (auto simp: drop_Cons split: nat.splits if_splits)


subsection \<open>Reading strings, in terms of the denoted strings\<close>

lemma strlen_cstr [cstr_simps]: "terminated m \<Longrightarrow> strlen m = Some (length (cstr m))"
  by (induction m) auto

lemma strlen_defined_iff: "strlen m \<noteq> None \<longleftrightarrow> terminated m"
  by (induction m) auto

lemma strchr_cstr [cstr_simps]:
  assumes "terminated m" and "c \<noteq> NUL"
  shows "strchr m c =
    Some (if c \<in> set (cstr m) then Some (length (takeWhile (\<lambda>x. x \<noteq> c) (cstr m))) else None)"
  using assms by (induction m) auto

lemma code_eq_iff: "code a - code b = 0 \<longleftrightarrow> a = b"
  by (simp add: of_char_eq_iff)

lemma strcmp_cstr:
  assumes "terminated m1" and "terminated m2"
  shows "\<exists>d. strcmp m1 m2 = Some d \<and> (d = 0 \<longleftrightarrow> cstr m1 = cstr m2)"
  using assms
proof (induction m1 m2 rule: strcmp.induct)
  case (1 a s1 b s2)
  then show ?case
    by (cases "a = b") (auto simp: Let_def code_eq_iff)
qed auto

text \<open>A string constant in memory, and comparing with it.\<close>

definition lit :: "string \<Rightarrow> char list" where
  "lit s = s @ [NUL]"

lemma cstr_lit: "NUL \<notin> set s \<Longrightarrow> cstr (lit s) = s"
  by (simp add: lit_def cstr_append_NUL)

lemma terminated_lit [simp]: "terminated (lit s)"
  by (simp add: lit_def)

text \<open>\<open>strcmp\<close> as the code uses it: is the result zero?\<close>

definition streq :: "char list \<Rightarrow> string \<Rightarrow> bool option" where
  "streq m s = map_option (\<lambda>d. d = 0) (strcmp m (lit s))"

lemma streq_cstr [cstr_simps]:
  "terminated m \<Longrightarrow> NUL \<notin> set s \<Longrightarrow> streq m s = Some (cstr m = s)"
  using strcmp_cstr [of m "lit s"] by (auto simp: streq_def cstr_lit)

lemma tolower_NUL_iff [simp]: "tolower c = NUL \<longleftrightarrow> c = NUL"
proof
  assume "tolower c = NUL"
  then have "code (tolower c) = 0" by simp
  then have "code c = code NUL"
    by (auto simp: tolower_def split: if_splits)
  then show "c = NUL" by (simp only: of_char_eq_iff)
qed (simp add: tolower_def)

lemma strcasecmp_map: "strcasecmp m1 m2 = strcmp (map tolower m1) (map tolower m2)"
  by (induction m1 m2 rule: strcasecmp.induct) (auto simp: Let_def)

lemma terminated_map_tolower [simp]: "terminated (map tolower m) = terminated m"
  by (induction m) auto

lemma cstr_map_tolower: "cstr (map tolower m) = map tolower (cstr m)"
  by (induction m) auto

lemma strcasecmp_cstr:
  assumes "terminated m1" and "terminated m2"
  shows "\<exists>d. strcasecmp m1 m2 = Some d
    \<and> (d = 0 \<longleftrightarrow> map tolower (cstr m1) = map tolower (cstr m2))"
  using strcmp_cstr [of "map tolower m1" "map tolower m2"] assms
  by (simp add: strcasecmp_map cstr_map_tolower)

lemma strncmp_0: "strncmp m1 m2 0 = Some 0"
  by (subst strncmp.simps) simp

lemma strncmp_step:
  "k \<noteq> 0 \<Longrightarrow> strncmp (a # m1) (b # m2) k =
     (if a \<noteq> b \<or> a = NUL then Some (code b - code a) else strncmp m1 m2 (k - 1))"
  by (subst strncmp.simps) (simp add: Let_def)

lemma strncmp_cstr:
  assumes "terminated m1" and "terminated m2"
  shows "\<exists>d. strncmp m1 m2 (int n) = Some d
    \<and> (d = 0 \<longleftrightarrow> take n (cstr m1) = take n (cstr m2))"
  using assms
proof (induction n arbitrary: m1 m2)
  case 0
  then show ?case by (simp add: strncmp_0)
next
  case (Suc n)
  then obtain a s1 b s2 where m: "m1 = a # s1" "m2 = b # s2"
    by (cases m1; cases m2) auto
  show ?case
  proof (cases "a = b \<and> a \<noteq> NUL")
    case True
    with Suc.prems m have "terminated s1" "terminated s2" by auto
    from Suc.IH [OF this] True m show ?thesis by (auto simp: strncmp_step)
  next
    case False
    then have "strncmp m1 m2 (int (Suc n)) = Some (code b - code a)"
      unfolding m by (subst strncmp_step) auto
    moreover have "code b - code a = 0 \<longleftrightarrow> b = a" by (rule code_eq_iff)
    ultimately show ?thesis using False m by (cases "a = b"; cases "a = NUL") auto
  qed
qed

subsection \<open>Writing strings\<close>

lemma strdup_cstr [cstr_simps]: "terminated m \<Longrightarrow> strdup m = Some (cstr m @ [NUL])"
proof -
  assume m: "terminated m"
  then obtain r where "m = cstr m @ NUL # r" using terminated_split by blast
  then have "take (Suc (length (cstr m))) m = cstr m @ [NUL]"
    by (metis append.assoc append_Cons append_Nil append_eq_conv_conj length_append_singleton)
  moreover from m have "Suc (length (cstr m)) \<le> length m"
    using length_cstr_less [of m] by simp
  ultimately show ?thesis
    using m by (simp add: strdup_def strcpy_def memmove_def strlen_cstr slice_def blit_def)
qed

subsection \<open>Printing numbers\<close>

text \<open>The digits \<open>sprintf\<close> writes for \<open>%d\<close>.\<close>

fun decimal :: "nat \<Rightarrow> string" where
  "decimal n = (if n < 10 then [char_of (48 + n)] else decimal (n div 10) @ [char_of (48 + n mod 10)])"

declare decimal.simps [simp del]

definition print_d :: "int \<Rightarrow> string" where
  "print_d i = (if i < 0 then CHR ''-'' # decimal (nat (- i)) else decimal (nat i))"

end
