(* ===== verification/Rdb.thy ===== *)
theory Rdb
  imports Context Support
begin

text \<open>
  The Rigid Disk Block partition table of \<open>src/src/rdb.c\<close> and \<open>src/src/rdb.h\<close>. Disk blocks are byte
  lists, their fields big-endian words at the offsets of the C structs. A read through
  \<open>block_read\<close> goes to the device descriptor; \<open>reads_from\<close> is the hypothesis that the device is a
  disk whose contents do not change.
\<close>

abbreviation (input) RDB_LOCATION_LIMIT :: nat where "RDB_LOCATION_LIMIT \<equiv> 16"

abbreviation (input) IDNAME_RIGIDDISK :: u32 where "IDNAME_RIGIDDISK \<equiv> 0x5244534B"
abbreviation (input) IDNAME_BADBLOCK :: u32 where "IDNAME_BADBLOCK \<equiv> 0x42414442"
abbreviation (input) IDNAME_PARTITION :: u32 where "IDNAME_PARTITION \<equiv> 0x50415254"
abbreviation (input) IDNAME_FILESYSHEADER :: u32 where "IDNAME_FILESYSHEADER \<equiv> 0x46534844"
abbreviation (input) IDNAME_LOADSEG :: u32 where "IDNAME_LOADSEG \<equiv> 0x4C534547"
abbreviation (input) IDNAME_BOOT :: u32 where "IDNAME_BOOT \<equiv> 0x424f4f54"
abbreviation (input) IDNAME_FREE :: u32 where "IDNAME_FREE \<equiv> 0xffffffff"

subsection \<open>Block layouts\<close>

text \<open>Offsets of the fields of \<open>AmigaBlock\<close>, which every block starts with.\<close>

definition amiga_ID :: "byte list \<Rightarrow> u32 option" where "amiga_ID b = be32 b 0"
definition amiga_SummedLongss :: "byte list \<Rightarrow> u32 option" where "amiga_SummedLongss b = be32 b 4"
definition amiga_ChkSum :: "byte list \<Rightarrow> u32 option" where "amiga_ChkSum b = be32 b 8"

text \<open>\<open>RigidDiskBlock\<close>.\<close>

definition rdb_BlockBytes :: "byte list \<Rightarrow> u32 option" where "rdb_BlockBytes b = be32 b 16"
definition rdb_PartitionList :: "byte list \<Rightarrow> u32 option" where "rdb_PartitionList b = be32 b 28"
definition rdb_BootBlockList :: "byte list \<Rightarrow> u32 option" where "rdb_BootBlockList b = be32 b 40"
definition rdb_RDBBlocksLo :: "byte list \<Rightarrow> u32 option" where "rdb_RDBBlocksLo b = be32 b 128"
definition rdb_RDBBlocksHi :: "byte list \<Rightarrow> u32 option" where "rdb_RDBBlocksHi b = be32 b 132"

text \<open>\<open>PartitionBlock\<close>, and \<open>AmigaPartitionGeometry\<close> over its \<open>pb_Environment\<close> at offset 128.\<close>

definition pb_Next :: "byte list \<Rightarrow> u32 option" where "pb_Next b = be32 b 16"
definition pb_DriveName :: "byte list \<Rightarrow> byte list" where "pb_DriveName b = drop 36 b"
definition apg_Surfaces :: "byte list \<Rightarrow> u32 option" where "apg_Surfaces b = be32 b (128 + 12)"
definition apg_BlockPerTrack :: "byte list \<Rightarrow> u32 option" where "apg_BlockPerTrack b = be32 b (128 + 20)"
definition apg_LowCyl :: "byte list \<Rightarrow> u32 option" where "apg_LowCyl b = be32 b (128 + 36)"
definition apg_HighCyl :: "byte list \<Rightarrow> u32 option" where "apg_HighCyl b = be32 b (128 + 40)"
definition apg_DosType :: "byte list \<Rightarrow> u32 option" where "apg_DosType b = be32 b (128 + 64)"

subsection \<open>Checksums\<close>

fun sum_longs :: "byte list \<Rightarrow> nat \<Rightarrow> u32 option" where
  "sum_longs b 0 = Some 0"
| "sum_longs b (Suc i) = do { s \<leftarrow> sum_longs b i; v \<leftarrow> be32 b (4 * i); Some (s + v) }"

text \<open>
  The count is clipped to 512 longs, but the copy it runs over has 512 bytes: a count above 128
  reads past it.
\<close>

definition checksum :: "byte list \<Rightarrow> u32 option" where
  "checksum blk = do {
     header \<leftarrow> slice blk 0 512;
     n \<leftarrow> amiga_SummedLongss header;
     header \<leftarrow> (if n > 512 then put32 header 4 512 else Some header);
     n \<leftarrow> amiga_SummedLongss header;
     sum_longs header (unat n)
   }"

subsection \<open>The boot disk\<close>

text \<open>\<open>get_dev\<close>: a copy of the first hard disk of the unit scan, \<open>None\<close> for NULL.\<close>

definition get_dev_step ::
    "'w context_t \<Rightarrow> 'w scan_unit option \<times> 'w
     \<Rightarrow> ('w scan_unit option \<times> 'w + ('w scan_unit option \<times> 'w block_dev_desc option) \<times> 'w) option" where
  "get_dev_step ctx = (\<lambda>(hnd, w).
     case hnd of
       None \<Rightarrow> Some (Inr ((None, None), w))
     | Some h \<Rightarrow>
         if bd_type (ush_device h) = DEV_TYPE_HARDDISK
         then (case malloc ctx 104 w of (_, w) \<Rightarrow> Some (Inr ((Some h, Some (ush_device h)), w)))
         else (case next_unit_scan ctx h w of ((hnd', _), w') \<Rightarrow> Some (Inl (hnd', w'))))"

definition get_dev :: "'w context_t \<Rightarrow> 'w \<Rightarrow> ('w block_dev_desc option \<times> 'w) option" where
  "get_dev ctx w =
     (case start_unit_scan ctx get_scan_list w of ((hnd, _), w) \<Rightarrow>
        do {
          ((hnd, bdev), w) \<leftarrow> loop (get_dev_step ctx) (hnd, w);
          Some (bdev, end_global_scan ctx (end_unit_scan ctx hnd w))
        })"

definition block_read ::
    "'w block_dev_desc \<Rightarrow> u32 \<Rightarrow> byte list \<Rightarrow> 'w \<Rightarrow> (u32 \<times> byte list) \<times> 'w" where
  "block_read dev start buffer w = bd_block_read dev (bd_dev dev) start 1 buffer w"

fun get_rdb_loop ::
    "'w block_dev_desc \<Rightarrow> nat list \<Rightarrow> byte list \<Rightarrow> 'w \<Rightarrow> (byte list option \<times> 'w) option" where
  "get_rdb_loop dev [] buffer w = Some (None, w)"
| "get_rdb_loop dev (i # is) buffer w =
     (case block_read dev (of_nat i) buffer w of ((res, buffer), w) \<Rightarrow>
        if res = 1 then do {
          rdb_id \<leftarrow> amiga_ID buffer;
          if rdb_id = IDNAME_RIGIDDISK then do {
            sum \<leftarrow> checksum buffer;
            if sum \<noteq> 0 then get_rdb_loop dev is buffer w else Some (Some buffer, w)
          } else get_rdb_loop dev is buffer w
        } else get_rdb_loop dev is buffer w)"

definition get_rdb :: "'w context_t \<Rightarrow> 'w block_dev_desc \<Rightarrow> 'w \<Rightarrow> (byte list option \<times> 'w) option" where
  "get_rdb ctx dev_desc w =
     (case malloc ctx (uint (bd_blksz dev_desc)) w of (block_buffer, w) \<Rightarrow>
        get_rdb_loop dev_desc [0..<RDB_LOCATION_LIMIT] block_buffer w)"

subsection \<open>Partitions\<close>

text \<open>
  The walk along the list of partition blocks: the state is \<open>block\<close>, \<open>part\<close>, the buffer, whether \<open>p\<close>
  points to it (or is NULL), and the world. Its exit value is the final buffer, if \<open>p\<close> is not NULL.
  After a bad checksum the loop goes on with the same block number and \<open>p\<close> still set.
\<close>

type_synonym 'w part_st = "u32 \<times> int \<times> byte list \<times> bool \<times> 'w"

definition part_step ::
    "'w block_dev_desc \<Rightarrow> 'w part_st \<Rightarrow> ('w part_st + byte list option \<times> 'w) option" where
  "part_step dev = (\<lambda>(block, part, buffer, p, w).
     if block = IDNAME_FREE then Some (Inr (if p then Some buffer else None, w))
     else case block_read dev block buffer w of ((res, buffer), w) \<Rightarrow>
       if res \<noteq> 0 then do {
         pb_id \<leftarrow> amiga_ID buffer;
         if pb_id = IDNAME_PARTITION then do {
           sum \<leftarrow> checksum buffer;
           if sum \<noteq> 0 then Some (Inl (block, part, buffer, True, w))
           else if part = 0 then Some (Inr (Some buffer, w))
           else do {
             next_block \<leftarrow> pb_Next buffer;
             Some (Inl (next_block, part - 1, buffer, False, w))
           }
         } else Some (Inl (IDNAME_FREE, part, buffer, False, w))
       } else Some (Inl (IDNAME_FREE, part, buffer, p, w)))"

text \<open>
  The fields of \<open>info\<close>. \<open>strcpy\<close> copies the drive name up to a terminator into \<open>name[32]\<close>; the rest
  of both arrays is what \<open>malloc\<close> left there.
\<close>

definition copy_name :: "byte list \<Rightarrow> byte list \<Rightarrow> byte list option" where
  "copy_name dest src = do {
     let n = length (takeWhile (\<lambda>c. c \<noteq> 0) src);
     guard (n < length src);
     memmove dest 0 src (n + 1)
   }"

definition disk_type_bytes :: "u32 \<Rightarrow> byte list" where
  "disk_type_bytes t =
     [ucast (drop_bit 24 (t AND 0xFF000000)), ucast (drop_bit 16 (t AND 0x00FF0000)),
      ucast (drop_bit 8 (t AND 0x0000FF00)), 0x5C, ucast ((t AND 0x000000FF) + 0x30), 0]"

definition partition_info ::
    "byte list \<Rightarrow> byte list \<Rightarrow> disk_partition_t \<Rightarrow> disk_partition_t option" where
  "partition_info rdb p info = do {
     low \<leftarrow> apg_LowCyl p;
     high \<leftarrow> apg_HighCyl p;
     bpt \<leftarrow> apg_BlockPerTrack p;
     surf \<leftarrow> apg_Surfaces p;
     bytes \<leftarrow> rdb_BlockBytes rdb;
     name \<leftarrow> copy_name (dp_name info) (pb_DriveName p);
     dos \<leftarrow> apg_DosType p;
     ty \<leftarrow> blit (dp_type info) 0 (disk_type_bytes dos);
     Some \<lparr>dp_start = low * bpt * surf, dp_size = (high - low + 1) * bpt * surf - 1,
           dp_blksz = bytes, dp_name = name, dp_type = ty\<rparr>
   }"

definition get_partition_info ::
    "'w context_t \<Rightarrow> 'w block_dev_desc \<Rightarrow> byte list \<Rightarrow> int \<Rightarrow> disk_partition_t \<Rightarrow> 'w
     \<Rightarrow> ((int \<times> disk_partition_t) \<times> 'w) option" where
  "get_partition_info ctx dev_desc rdb part info w = do {
     block \<leftarrow> rdb_PartitionList rdb;
     let (block_buffer, w) = malloc ctx (uint (bd_blksz dev_desc)) w;
     (p, w) \<leftarrow> loop (part_step dev_desc) (block, part, block_buffer, False, w);
     case p of
       None \<Rightarrow> Some ((-1, info), w)
     | Some p \<Rightarrow> do { info \<leftarrow> partition_info rdb p info; Some ((0, info), w) }
   }"

subsection \<open>The partition table\<close>

record 'w RdbPartition =
  rp_name :: "byte list"
  rp_disk :: byte
  rp_partition :: byte
  rp_dev_desc :: "'w block_dev_desc"
  rp_info :: disk_partition_t

text \<open>
  The static \<open>table\<close>: an entry whose name is NULL is \<open>None\<close>, since nothing reads its other fields.
  The name points one past the length byte of the drive name.
\<close>

type_synonym 'w rdb_table = "'w RdbPartition option list"

text \<open>A fresh \<open>disk_partition_t\<close>: three words and two arrays of 32 bytes.\<close>

definition new_info :: "'w context_t \<Rightarrow> 'w \<Rightarrow> (disk_partition_t \<times> 'w) option" where
  "new_info ctx w =
     (case malloc ctx 76 w of (b, w) \<Rightarrow> do {
        start \<leftarrow> be32 b 0;
        size \<leftarrow> be32 b 4;
        blksz \<leftarrow> be32 b 8;
        name \<leftarrow> slice b 12 32;
        ty \<leftarrow> slice b 44 32;
        Some (\<lparr>dp_start = start, dp_size = size, dp_blksz = blksz, dp_name = name, dp_type = ty\<rparr>, w)
      })"

fun fill_table ::
    "'w context_t \<Rightarrow> 'w block_dev_desc \<Rightarrow> byte list \<Rightarrow> nat list \<Rightarrow> 'w rdb_table \<Rightarrow> 'w
     \<Rightarrow> ('w rdb_table \<times> 'w) option" where
  "fill_table ctx dev_desc rdb [] table w = Some (table, w)"
| "fill_table ctx dev_desc rdb (i # is) table w = do {
     (info, w) \<leftarrow> new_info ctx w;
     ((r, info), w) \<leftarrow> get_partition_info ctx dev_desc rdb (int i) info w;
     if r \<noteq> 0 then fill_table ctx dev_desc rdb is table w
     else fill_table ctx dev_desc rdb is
       (table[i := Some \<lparr>rp_name = drop 1 (dp_name info), rp_disk = 0, rp_partition = of_nat i,
                        rp_dev_desc = dev_desc, rp_info = info\<rparr>]) w
   }"

definition RdbPartitionTable_init :: "'w context_t \<Rightarrow> 'w \<Rightarrow> ('w rdb_table \<times> 'w) option" where
  "RdbPartitionTable_init ctx w = do {
     let table = replicate RDB_LOCATION_LIMIT None;
     (dev_desc, w) \<leftarrow> get_dev ctx w;
     case dev_desc of
       None \<Rightarrow> Some (table, w)
     | Some dev_desc \<Rightarrow> do {
         (rdb, w) \<leftarrow> get_rdb ctx dev_desc w;
         case rdb of
           None \<Rightarrow> Some (table, w)
         | Some rdb \<Rightarrow> fill_table ctx dev_desc rdb [0..<RDB_LOCATION_LIMIT] table w
       }
   }"

definition RdbPartitionTable_get :: "'w rdb_table \<Rightarrow> byte \<Rightarrow> byte \<Rightarrow> 'w RdbPartition option" where
  "RdbPartitionTable_get table disk part =
     (if RDB_LOCATION_LIMIT \<le> unat part then None else table ! unat part)"

text \<open>Bytes of a name as characters, for the string routines.\<close>

definition chars :: "byte list \<Rightarrow> char list" where
  "chars = map (\<lambda>b. char_of (unat b))"

fun getbyname_loop :: "string \<Rightarrow> 'w rdb_table \<Rightarrow> 'w RdbPartition option option" where
  "getbyname_loop name [] = Some None"
| "getbyname_loop name (None # ps) = Some None"
| "getbyname_loop name (Some p # ps) = do {
     d \<leftarrow> strcasecmp name (chars (rp_name p));
     if d = 0 then Some (Some p) else getbyname_loop name ps
   }"

definition RdbPartitionTable_getbyname ::
    "'w rdb_table \<Rightarrow> char list \<Rightarrow> 'w RdbPartition option option" where
  "RdbPartitionTable_getbyname table name = getbyname_loop name (take RDB_LOCATION_LIMIT table)"

text \<open>\<open>RdbPartitionTable_dump\<close>: the lines it prints, number and name.\<close>

fun dump_loop :: "nat \<Rightarrow> 'w rdb_table \<Rightarrow> (nat \<times> byte list) list" where
  "dump_loop i (Some p # ps) = (i, rp_name p) # dump_loop (Suc i) ps"
| "dump_loop i ps = []"

definition RdbPartitionTable_dump :: "'w rdb_table \<Rightarrow> (nat \<times> byte list) list" where
  "RdbPartitionTable_dump table = dump_loop 0 (take RDB_LOCATION_LIMIT table)"

subsection \<open>Checksums, in closed form\<close>

definition long_at :: "byte list \<Rightarrow> nat \<Rightarrow> u32" where
  "long_at b i = join32 (b ! (4 * i)) (b ! (4 * i + 1)) (b ! (4 * i + 2)) (b ! (4 * i + 3))"

lemma be32_long_at: "4 * i + 4 \<le> length b \<Longrightarrow> be32 b (4 * i) = Some (long_at b i)"
  by (simp add: be32_def long_at_def)

lemma sum_longs_eq:
  "4 * n \<le> length b \<Longrightarrow> sum_longs b n = Some (sum (long_at b) {..<n})"
  by (induction n) (simp_all add: be32_long_at)

lemma sum_longs_beyond:
  assumes "length b < 4 * n"
  shows "sum_longs b n = None"
  using assms
proof (induction n)
  case (Suc n)
  show ?case
  proof (cases "length b < 4 * n")
    case False
    with Suc have "be32 b (4 * n) = None" by (simp add: be32_def)
    then show ?thesis by (cases "sum_longs b n") simp_all
  qed (use Suc in simp)
qed simp

text \<open>A disk block with a count its copy can hold has the sum of that many longs.\<close>

definition summed_longs :: "byte list \<Rightarrow> nat" where
  "summed_longs b = unat (long_at b 1)"

lemma long_at_take: "4 * i + 4 \<le> n \<Longrightarrow> n \<le> length b \<Longrightarrow> long_at (take n b) i = long_at b i"
  by (simp add: long_at_def)

lemma checksum_eq:
  assumes "512 \<le> length b" and "summed_longs b \<le> 128"
  shows "checksum b = Some (sum (long_at b) {..<summed_longs b})"
proof -
  let ?h = "take 512 b"
  have sl: "amiga_SummedLongss ?h = Some (long_at b 1)"
    using assms(1) be32_long_at [of 1 ?h] by (simp add: amiga_SummedLongss_def long_at_take)
  have "\<not> long_at b 1 > 512"
    using assms(2) by (simp add: summed_longs_def word_less_nat_alt)
  then have "checksum b = sum_longs ?h (summed_longs b)"
    using assms(1) sl by (simp add: checksum_def slice_def summed_longs_def)
  also have "\<dots> = Some (sum (long_at ?h) {..<summed_longs b})"
    using assms by (intro sum_longs_eq) simp
  also have "(sum (long_at ?h) {..<summed_longs b}) = (sum (long_at b) {..<summed_longs b})"
    using assms by (intro sum.cong) (simp_all add: long_at_take)
  finally show ?thesis .
qed

lemma checksum_overread:
  assumes "512 \<le> length b" and "128 < summed_longs b"
  shows "checksum b = None"
proof -
  let ?h = "take 512 b"
  have sl: "amiga_SummedLongss ?h = Some (long_at b 1)"
    using assms(1) be32_long_at [of 1 ?h] by (simp add: amiga_SummedLongss_def long_at_take)
  show ?thesis
  proof (cases "long_at b 1 > 512")
    case True
    have h: "length ?h = 512" using assms(1) by simp
    then obtain h' where h': "put32 ?h 4 512 = Some h'" using assms(1) by (auto simp: put32_def blit_def)
    then have len: "length h' = 512" using h by (auto simp: put32_def dest: length_blit)
    have "slice h' 4 4 = Some (split32 512)" using slice_blit [of ?h 4 "split32 512" h'] h' by (simp add: put32_def)
    then have "be32 h' 4 = Some 512"
      using len be32_slice [of h' 4] by simp
    moreover have "sum_longs h' 512 = None" using len by (intro sum_longs_beyond) simp
    ultimately show ?thesis
      using assms(1) sl True h' by (simp add: checksum_def slice_def amiga_SummedLongss_def)
  next
    case False
    have "sum_longs ?h (summed_longs b) = None" using assms by (intro sum_longs_beyond) simp
    with False show ?thesis
      using assms(1) sl by (simp add: checksum_def slice_def summed_longs_def)
  qed
qed

subsection \<open>Reading a disk\<close>

text \<open>\<open>disk\<close> gives the blocks that can be read; any other read returns 0 and leaves the buffer.\<close>

definition reads_from :: "'w block_dev_desc \<Rightarrow> (u32 \<Rightarrow> byte list option) \<Rightarrow> bool" where
  "reads_from dev disk \<longleftrightarrow>
     (\<forall>b buffer w. block_read dev b buffer w
        = (case disk b of Some blk \<Rightarrow> ((1, blk), w) | None \<Rightarrow> ((0, buffer), w)))"

lemma reads_fromD:
  "reads_from dev disk \<Longrightarrow> block_read dev b buffer w
    = (case disk b of Some blk \<Rightarrow> ((1, blk), w) | None \<Rightarrow> ((0, buffer), w))"
  by (simp add: reads_from_def)

definition block_ok :: "byte list \<Rightarrow> bool" where
  "block_ok b \<longleftrightarrow> 512 \<le> length b \<and> summed_longs b \<le> 128"

definition zero_sum :: "byte list \<Rightarrow> bool" where
  "zero_sum b \<longleftrightarrow> sum (long_at b) {..<summed_longs b} = 0"

lemma block_checksum: "block_ok b \<Longrightarrow> checksum b = Some (sum (long_at b) {..<summed_longs b})"
  by (simp add: block_ok_def checksum_eq)

lemma block_id: "block_ok b \<Longrightarrow> amiga_ID b = Some (long_at b 0)"
  using be32_long_at [of 0 b] by (simp add: amiga_ID_def block_ok_def)

text \<open>The boot disk's RDB is the first valid one among the first 16 blocks.\<close>

definition is_rdb :: "byte list \<Rightarrow> bool" where
  "is_rdb b \<longleftrightarrow> long_at b 0 = IDNAME_RIGIDDISK \<and> zero_sum b"

lemma get_rdb_loop_eq:
  assumes "reads_from dev disk" and "\<And>i b. i \<in> set is \<Longrightarrow> disk (of_nat i) = Some b \<Longrightarrow> block_ok b"
  shows "get_rdb_loop dev is buffer w
    = Some (map_option (\<lambda>i. the (disk (of_nat i)))
        (find (\<lambda>i. \<exists>b. disk (of_nat i) = Some b \<and> is_rdb b) is), w)"
  using assms(2)
proof (induction "is" arbitrary: buffer)
  case (Cons i "is")
  note r = reads_fromD [OF assms(1), of "of_nat i" buffer w]
  have IH: "get_rdb_loop dev is buffer' w
    = Some (map_option (\<lambda>i. the (disk (of_nat i)))
        (find (\<lambda>i. \<exists>b. disk (of_nat i) = Some b \<and> is_rdb b) is), w)" for buffer'
    using Cons.prems by (intro Cons.IH) auto
  show ?case
  proof (cases "disk (of_nat i)")
    case None
    with r IH show ?thesis by simp
  next
    case (Some b)
    then have "block_ok b" using Cons.prems [of i b] by simp
    with Some r IH show ?thesis
      by (simp add: block_id block_checksum is_rdb_def zero_sum_def)
  qed
qed simp

subsection \<open>The list of partitions\<close>

text \<open>The partition blocks a disk holds from a block number on, in the order of their links.\<close>

definition is_part :: "byte list \<Rightarrow> bool" where
  "is_part p \<longleftrightarrow> block_ok p \<and> long_at p 0 = IDNAME_PARTITION"

inductive chain :: "(u32 \<Rightarrow> byte list option) \<Rightarrow> u32 \<Rightarrow> byte list list \<Rightarrow> bool" for disk where
  chain_free: "chain disk IDNAME_FREE []"
| chain_unread: "disk b = None \<Longrightarrow> chain disk b []"
| chain_other: "disk b = Some p \<Longrightarrow> block_ok p \<Longrightarrow> long_at p 0 \<noteq> IDNAME_PARTITION \<Longrightarrow> chain disk b []"
| chain_part: "b \<noteq> IDNAME_FREE \<Longrightarrow> disk b = Some p \<Longrightarrow> is_part p \<Longrightarrow> zero_sum p \<Longrightarrow>
    chain disk (long_at p 4) ps \<Longrightarrow> chain disk b (p # ps)"

inductive_cases chain_ConsE: "chain disk b (p # ps)"

lemma pb_Next_long: "block_ok p \<Longrightarrow> pb_Next p = Some (long_at p 4)"
  using be32_long_at [of 4 p] by (simp add: pb_Next_def block_ok_def)

lemma part_stop: "loop (part_step dev) (IDNAME_FREE, part, buffer, False, w) = Some (None, w)"
  by (rule loop_exit) (simp add: part_step_def)

lemma part_walk:
  assumes "reads_from dev disk" and "chain disk b ps"
  shows "loop (part_step dev) (b, int k, buffer, False, w)
    = Some (if k < length ps then Some (ps ! k) else None, w)"
  using assms(2)
proof (induction arbitrary: k buffer rule: chain.induct)
  case chain_free
  then show ?case by (simp add: part_stop)
next
  case (chain_unread b)
  show ?case
  proof (cases "b = IDNAME_FREE")
    case False
    have "loop (part_step dev) (b, int k, buffer, False, w)
        = loop (part_step dev) (IDNAME_FREE, int k, buffer, False, w)"
      using chain_unread reads_fromD [OF assms(1)] False by (intro loop_continue) (simp add: part_step_def)
    then show ?thesis by (simp add: part_stop)
  qed (simp add: part_stop)
next
  case (chain_other b p)
  show ?case
  proof (cases "b = IDNAME_FREE")
    case False
    have "loop (part_step dev) (b, int k, buffer, False, w)
        = loop (part_step dev) (IDNAME_FREE, int k, p, False, w)"
      using chain_other reads_fromD [OF assms(1)] False
      by (intro loop_continue) (simp add: part_step_def block_id)
    then show ?thesis by (simp add: part_stop)
  qed (simp add: part_stop)
next
  case (chain_part b p ps)
  then have p: "block_ok p" "long_at p 0 = IDNAME_PARTITION" "checksum p = Some 0"
    by (simp_all add: is_part_def block_checksum zero_sum_def)
  note r = reads_fromD [OF assms(1), of b]
  show ?case
  proof (cases k)
    case 0
    with chain_part p r show ?thesis
      by (intro loop_exit) (simp add: part_step_def block_id)
  next
    case (Suc j)
    have "loop (part_step dev) (b, int k, buffer, False, w)
        = loop (part_step dev) (long_at p 4, int j, p, False, w)"
      using chain_part p r Suc
      by (intro loop_continue) (simp add: part_step_def block_id pb_Next_long)
    then show ?thesis using chain_part.IH Suc by simp
  qed
qed

text \<open>A partition block with a bad checksum is read for ever.\<close>

lemma bad_checksum_stuck:
  assumes dev: "reads_from dev disk" and b: "b \<noteq> IDNAME_FREE" "disk b = Some p"
    and p: "is_part p" "\<not> zero_sum p"
  shows "loop (part_step dev) (b, part, buffer, q, w) = None"
proof -
  from p have s: "block_ok p" "long_at p 0 = IDNAME_PARTITION"
      "checksum p = Some (sum (long_at p) {..<summed_longs p})" "sum (long_at p) {..<summed_longs p} \<noteq> 0"
    by (simp_all add: is_part_def block_checksum zero_sum_def)
  have step: "part_step dev (b, part, buffer', q', w) = Some (Inl (b, part, p, True, w))" for buffer' q'
    using b s reads_fromD [OF dev] by (simp add: part_step_def block_id)
  have "loop (part_step dev) (b, part, buffer, q, w) = loop (part_step dev) (b, part, p, True, w)"
    by (rule loop_continue) (rule step)
  also have "\<dots> = None" by (rule loop_stuck) (rule step)
  finally show ?thesis .
qed

subsection \<open>The partition table\<close>

text \<open>The drive name is a non-empty string that fits its field.\<close>

definition drive_name :: "byte list \<Rightarrow> byte list" where
  "drive_name p = takeWhile (\<lambda>c. c \<noteq> 0) (pb_DriveName p)"

definition name_ok :: "byte list \<Rightarrow> bool" where
  "name_ok p \<longleftrightarrow> 0 < length (drive_name p) \<and> length (drive_name p) < 32"

text \<open>What the table says of partition block \<open>p\<close>, the \<open>i\<close>-th of the list.\<close>

definition describes :: "byte list \<Rightarrow> 'w block_dev_desc \<Rightarrow> nat \<Rightarrow> byte list \<Rightarrow> 'w RdbPartition \<Rightarrow> bool" where
  "describes rdb dev i p r \<longleftrightarrow>
     takeWhile (\<lambda>c. c \<noteq> 0) (rp_name r) = drop 1 (drive_name p) \<and> rp_disk r = 0
     \<and> rp_partition r = of_nat i \<and> rp_dev_desc r = dev
     \<and> dp_start (rp_info r) = long_at p 41 * long_at p 37 * long_at p 35
     \<and> dp_size (rp_info r) = (long_at p 42 - long_at p 41 + 1) * long_at p 37 * long_at p 35 - 1
     \<and> dp_blksz (rp_info r) = long_at rdb 4"

lemma new_info_ok:
  assumes "alloc_ok ctx"
  shows "\<exists>info w'. new_info ctx w = Some (info, w') \<and> length (dp_name info) = 32 \<and> length (dp_type info) = 32"
proof -
  obtain b w' where b: "malloc ctx 76 w = (b, w')" by force
  moreover have "length b = 76"
    using assms b unfolding alloc_ok_def by (metis fst_conv nat_numeral zero_le_numeral)
  ultimately show ?thesis by (simp add: new_info_def be32_def slice_def)
qed

lemma copy_name_eq:
  assumes "name_ok p" and "block_ok p" and "length dest = 32"
  shows "\<exists>junk. copy_name dest (pb_DriveName p) = Some (drive_name p @ 0 # junk)"
proof -
  let ?n = "length (drive_name p)"
  have lt: "?n < length (pb_DriveName p)"
    using assms(1,2) by (auto simp: name_ok_def pb_DriveName_def block_ok_def)
  have n: "pb_DriveName p ! ?n = 0"
    using nth_length_takeWhile [of "\<lambda>c. c \<noteq> 0" "pb_DriveName p"] lt by (simp add: drive_name_def)
  have "take (?n + 1) (pb_DriveName p) = drive_name p @ [0]"
    using n lt takeWhile_eq_take [of "\<lambda>c. c \<noteq> 0" "pb_DriveName p"]
    by (simp add: take_Suc_conv_app_nth drive_name_def)
  then have "copy_name dest (pb_DriveName p) = Some ((drive_name p @ [0]) @ drop (?n + 1) dest)"
    using lt assms(1,3)
    by (simp add: copy_name_def drive_name_def [symmetric] memmove_def slice_def blit_def name_ok_def)
  then show ?thesis by simp
qed

lemma partition_info_ok:
  assumes p: "block_ok p" "name_ok p" and rdb: "block_ok rdb"
    and info: "length (dp_name info) = 32" "length (dp_type info) = 32"
  shows "\<exists>info'. partition_info rdb p info = Some info'
    \<and> describes rdb dev i p \<lparr>rp_name = drop 1 (dp_name info'), rp_disk = 0, rp_partition = of_nat i,
         rp_dev_desc = dev, rp_info = info'\<rparr>"
proof -
  have len: "512 \<le> length p" "512 \<le> length rdb" using p rdb by (simp_all add: block_ok_def)
  have f: "apg_LowCyl p = Some (long_at p 41)" "apg_HighCyl p = Some (long_at p 42)"
    "apg_BlockPerTrack p = Some (long_at p 37)" "apg_Surfaces p = Some (long_at p 35)"
    "apg_DosType p = Some (long_at p 48)" "rdb_BlockBytes rdb = Some (long_at rdb 4)"
    using len be32_long_at [of 41 p] be32_long_at [of 42 p] be32_long_at [of 37 p]
      be32_long_at [of 35 p] be32_long_at [of 48 p] be32_long_at [of 4 rdb]
    by (simp_all add: apg_LowCyl_def apg_HighCyl_def apg_BlockPerTrack_def apg_Surfaces_def
        apg_DosType_def rdb_BlockBytes_def)
  from copy_name_eq [OF p(2,1) info(1)] obtain junk where
    name: "copy_name (dp_name info) (pb_DriveName p) = Some (drive_name p @ 0 # junk)" by blast
  have ne: "drive_name p \<noteq> []" using p(2) by (auto simp: name_ok_def)
  have "\<forall>c \<in> set (drop 1 (drive_name p)). c \<noteq> 0"
    by (auto simp: drive_name_def dest: in_set_dropD set_takeWhileD)
  then have "takeWhile (\<lambda>c. c \<noteq> 0) (drop 1 (drive_name p) @ 0 # junk) = drop 1 (drive_name p)"
    by (simp add: takeWhile_append2)
  with ne have "takeWhile (\<lambda>c. c \<noteq> 0) (drop 1 (drive_name p @ 0 # junk)) = drop 1 (drive_name p)"
    by (cases "drive_name p") simp_all
  with f name info(2) show ?thesis
    by (simp add: partition_info_def describes_def blit_def disk_type_bytes_def)
qed

lemma get_partition_info_ok:
  assumes alloc: "alloc_ok ctx" and dev: "reads_from dev disk" and rdb: "block_ok rdb"
    and ch: "chain disk (long_at rdb 7) ps" and ps: "\<forall>p \<in> set ps. block_ok p \<and> name_ok p"
    and info: "length (dp_name info) = 32" "length (dp_type info) = 32"
  shows "\<exists>r info' w'. get_partition_info ctx dev rdb (int i) info w = Some ((r, info'), w')
    \<and> (if i < length ps
       then r = 0 \<and> describes rdb dev i (ps ! i) \<lparr>rp_name = drop 1 (dp_name info'), rp_disk = 0,
         rp_partition = of_nat i, rp_dev_desc = dev, rp_info = info'\<rparr>
       else r = -1)"
proof -
  have pl: "rdb_PartitionList rdb = Some (long_at rdb 7)"
    using rdb be32_long_at [of 7 rdb] by (simp add: rdb_PartitionList_def block_ok_def)
  obtain buf w1 where m: "malloc ctx (uint (bd_blksz dev)) w = (buf, w1)" by force
  note walk = part_walk [OF dev ch, of i buf w1]
  show ?thesis
  proof (cases "i < length ps")
    case True
    then have "block_ok (ps ! i)" "name_ok (ps ! i)" using ps by simp_all
    from partition_info_ok [OF this rdb info, of dev i] True walk pl m show ?thesis
      by (auto simp: get_partition_info_def)
  next
    case False
    with walk pl m show ?thesis by (simp add: get_partition_info_def)
  qed
qed

lemma fill_table_ok:
  assumes alloc: "alloc_ok ctx" and dev: "reads_from dev disk" and rdb: "block_ok rdb"
    and ch: "chain disk (long_at rdb 7) ps" and ps: "\<forall>p \<in> set ps. block_ok p \<and> name_ok p"
    and tab: "length table = RDB_LOCATION_LIMIT" "k \<le> RDB_LOCATION_LIMIT"
      "\<forall>i < k. i < length ps \<longrightarrow> (\<exists>r. table ! i = Some r \<and> describes rdb dev i (ps ! i) r)"
      "\<forall>i < RDB_LOCATION_LIMIT. i < k \<and> i < length ps \<or> table ! i = None"
  shows "\<exists>t w'. fill_table ctx dev rdb [k..<RDB_LOCATION_LIMIT] table w = Some (t, w')
    \<and> length t = RDB_LOCATION_LIMIT
    \<and> (\<forall>i < RDB_LOCATION_LIMIT. if i < length ps then \<exists>r. t ! i = Some r \<and> describes rdb dev i (ps ! i) r
         else t ! i = None)"
  using tab
proof (induction "RDB_LOCATION_LIMIT - k" arbitrary: k table w)
  case 0
  then have "k = RDB_LOCATION_LIMIT" by simp
  then show ?case using 0 by (auto simp: less_Suc_eq)
next
  case (Suc n)
  then have k: "k < RDB_LOCATION_LIMIT" by simp
  then have upt: "[k..<RDB_LOCATION_LIMIT] = k # [Suc k..<RDB_LOCATION_LIMIT]" by (simp add: upt_conv_Cons)
  from new_info_ok [OF alloc, of w] obtain info w1 where info: "new_info ctx w = Some (info, w1)"
    "length (dp_name info) = 32" "length (dp_type info) = 32" by blast
  from get_partition_info_ok [OF alloc dev rdb ch ps info(2,3), of k w1] obtain r info' w2 where
    gpi: "get_partition_info ctx dev rdb (int k) info w1 = Some ((r, info'), w2)"
    and r: "if k < length ps
       then r = 0 \<and> describes rdb dev k (ps ! k) \<lparr>rp_name = drop 1 (dp_name info'), rp_disk = 0,
         rp_partition = of_nat k, rp_dev_desc = dev, rp_info = info'\<rparr>
       else r = -1" by blast
  let ?e = "\<lparr>rp_name = drop 1 (dp_name info'), rp_disk = 0, rp_partition = of_nat k,
              rp_dev_desc = dev, rp_info = info'\<rparr>"
  let ?t = "if k < length ps then table[k := Some ?e] else table"
  have "fill_table ctx dev rdb [k..<RDB_LOCATION_LIMIT] table w
      = fill_table ctx dev rdb [Suc k..<RDB_LOCATION_LIMIT] ?t w2"
    using r unfolding upt by (simp add: info(1) gpi split: if_splits)
  moreover have "\<exists>t w'. fill_table ctx dev rdb [Suc k..<RDB_LOCATION_LIMIT] ?t w2 = Some (t, w')
    \<and> length t = RDB_LOCATION_LIMIT
    \<and> (\<forall>i < RDB_LOCATION_LIMIT. if i < length ps then \<exists>r. t ! i = Some r \<and> describes rdb dev i (ps ! i) r
         else t ! i = None)"
  proof (rule Suc.hyps(1))
    show "n = RDB_LOCATION_LIMIT - Suc k" using Suc.hyps(2) by simp
    show "length ?t = RDB_LOCATION_LIMIT" "Suc k \<le> RDB_LOCATION_LIMIT" using Suc.prems k by simp_all
    show "\<forall>i < Suc k. i < length ps \<longrightarrow> (\<exists>r. ?t ! i = Some r \<and> describes rdb dev i (ps ! i) r)"
      using Suc.prems k r by (auto simp: less_Suc_eq nth_list_update split: if_splits)
    show "\<forall>i < RDB_LOCATION_LIMIT. i < Suc k \<and> i < length ps \<or> ?t ! i = None"
      using Suc.prems k by (auto simp: less_Suc_eq nth_list_update)
  qed
  ultimately show ?case by simp
qed

subsection \<open>From the unit scan to the table\<close>

text \<open>The units a scan that ends goes through, from a handle on.\<close>

inductive scanned :: "'w context_t \<Rightarrow> 'w scan_unit option \<Rightarrow> 'w \<Rightarrow> 'w scan_unit list \<Rightarrow> bool" for ctx where
  scan_end: "scanned ctx None w []"
| scan_unit: "next_unit_scan ctx h w = ((hnd, bs), w') \<Longrightarrow> scanned ctx hnd w' us
    \<Longrightarrow> scanned ctx (Some h) w (h # us)"

lemma scan_finds:
  assumes "scanned ctx hnd w us"
    and none: "\<And>w. step (None, w) = Some (Inr ((None, None), w))"
    and hit: "\<And>h w. P h \<Longrightarrow> \<exists>w'. step (Some h, w) = Some (Inr ((Some h, Some (ush_device h)), w'))"
    and miss: "\<And>h w. \<not> P h
      \<Longrightarrow> step (Some h, w) = (case next_unit_scan ctx h w of ((hnd', _), w') \<Rightarrow> Some (Inl (hnd', w')))"
  shows "\<exists>w'. loop step (hnd, w) = Some ((find P us, map_option ush_device (find P us)), w')"
  using assms(1)
proof (induction rule: scanned.induct)
  case (scan_end w)
  have "loop step (None, w) = Some ((None, None), w)" using none by (rule loop_exit)
  then show ?case by simp
next
  case (scan_unit h w hnd bs w' us)
  show ?case
  proof (cases "P h")
    case True
    from hit [OF True, of w] obtain w1 where "step (Some h, w) = Some (Inr ((Some h, Some (ush_device h)), w1))" by blast
    then have "loop step (Some h, w) = Some ((Some h, Some (ush_device h)), w1)" by (rule loop_exit)
    with True show ?thesis by simp
  next
    case False
    with scan_unit(1) miss have "loop step (Some h, w) = loop step (hnd, w')" by (intro loop_continue) simp
    with False scan_unit.IH show ?thesis by simp
  qed
qed

definition is_disk :: "'w scan_unit \<Rightarrow> bool" where
  "is_disk h \<longleftrightarrow> bd_type (ush_device h) = DEV_TYPE_HARDDISK"

lemma get_dev_scan:
  assumes "scanned ctx hnd w us"
  shows "\<exists>w'. loop (get_dev_step ctx) (hnd, w)
    = Some ((find is_disk us, map_option ush_device (find is_disk us)), w')"
  using assms by (rule scan_finds) (auto simp: get_dev_step_def is_disk_def split: prod.splits)

lemma get_dev_first:
  assumes "start_unit_scan ctx get_scan_list w = ((hnd, bs), w1)" and "scanned ctx hnd w1 us"
  shows "\<exists>w'. get_dev ctx w = Some (map_option ush_device (find is_disk us), w')"
  using get_dev_scan [OF assms(2)] assms(1) by (auto simp: get_dev_def)

text \<open>A disk as the boot loader expects it: an RDB whose partition list is well formed.\<close>

definition has_rdb :: "(u32 \<Rightarrow> byte list option) \<Rightarrow> byte list \<Rightarrow> bool" where
  "has_rdb disk rdb \<longleftrightarrow>
     (\<forall>i < RDB_LOCATION_LIMIT. \<forall>b. disk (of_nat i) = Some b \<longrightarrow> block_ok b)
     \<and> (\<exists>i. find (\<lambda>i. \<exists>b. disk (of_nat i) = Some b \<and> is_rdb b) [0..<RDB_LOCATION_LIMIT] = Some i
          \<and> disk (of_nat i) = Some rdb)"

definition boot_disk :: "(u32 \<Rightarrow> byte list option) \<Rightarrow> byte list \<Rightarrow> byte list list \<Rightarrow> bool" where
  "boot_disk disk rdb ps \<longleftrightarrow>
     has_rdb disk rdb \<and> chain disk (long_at rdb 7) ps \<and> (\<forall>p \<in> set ps. block_ok p \<and> name_ok p)"

lemma get_rdb_ok:
  assumes "reads_from dev disk" and "has_rdb disk rdb"
  shows "\<exists>w'. get_rdb ctx dev w = Some (Some rdb, w')" and "block_ok rdb"
proof -
  from assms(2) obtain i where i:
    "find (\<lambda>i. \<exists>b. disk (of_nat i) = Some b \<and> is_rdb b) [0..<RDB_LOCATION_LIMIT] = Some i"
    "disk (of_nat i) = Some rdb" by (auto simp: has_rdb_def)
  have lim: "i < RDB_LOCATION_LIMIT" using i(1) by (auto simp: find_Some_iff)
  then show "block_ok rdb" using assms(2) i(2) by (auto simp: has_rdb_def)
  obtain buf w2 where m: "malloc ctx (uint (bd_blksz dev)) w = (buf, w2)" by force
  have "get_rdb_loop dev [0..<RDB_LOCATION_LIMIT] buf w2 = Some (Some rdb, w2)"
    using assms(2) i by (subst get_rdb_loop_eq [OF assms(1)]) (auto simp: has_rdb_def)
  then show "\<exists>w'. get_rdb ctx dev w = Some (Some rdb, w')" using m by (simp add: get_rdb_def)
qed

lemma boot_disk_table:
  assumes alloc: "alloc_ok ctx" and dev: "reads_from dev disk" and disk: "boot_disk disk rdb ps"
    and get: "get_dev ctx w = Some (Some dev, w1)"
  shows "\<exists>t w'. RdbPartitionTable_init ctx w = Some (t, w') \<and> length t = RDB_LOCATION_LIMIT
    \<and> (\<forall>i < RDB_LOCATION_LIMIT. if i < length ps then \<exists>r. t ! i = Some r \<and> describes rdb dev i (ps ! i) r
         else t ! i = None)"
proof -
  have rdb: "has_rdb disk rdb" using disk by (simp add: boot_disk_def)
  from get_rdb_ok(1) [OF dev rdb, of ctx w1] obtain w2 where "get_rdb ctx dev w1 = Some (Some rdb, w2)" by blast
  moreover have "\<exists>t w'. fill_table ctx dev rdb [0..<RDB_LOCATION_LIMIT] (replicate RDB_LOCATION_LIMIT None) w2
      = Some (t, w') \<and> length t = RDB_LOCATION_LIMIT
    \<and> (\<forall>i < RDB_LOCATION_LIMIT. if i < length ps then \<exists>r. t ! i = Some r \<and> describes rdb dev i (ps ! i) r
         else t ! i = None)"
    using disk by (intro fill_table_ok [OF alloc dev get_rdb_ok(2) [OF dev rdb], of ps _ 0])
      (auto simp: boot_disk_def)
  ultimately show ?thesis using get by (auto simp: RdbPartitionTable_init_def)
qed

lemma table_get: "i < RDB_LOCATION_LIMIT \<Longrightarrow> RdbPartitionTable_get t d (of_nat i) = t ! i"
  by (simp add: RdbPartitionTable_get_def unat_of_nat)

text \<open>A first partition block with a bad checksum hangs the boot loader.\<close>

lemma bad_partition_hang:
  assumes dev: "reads_from dev disk" and rdb: "has_rdb disk rdb" and get: "get_dev ctx w = Some (Some dev, w1)"
    and p: "long_at rdb 7 \<noteq> IDNAME_FREE" "disk (long_at rdb 7) = Some p" "is_part p" "\<not> zero_sum p"
  shows "RdbPartitionTable_init ctx w = None"
proof -
  from get_rdb_ok(1) [OF dev rdb, of ctx w1] obtain w2 where r: "get_rdb ctx dev w1 = Some (Some rdb, w2)" by blast
  have "rdb_PartitionList rdb = Some (long_at rdb 7)"
    using get_rdb_ok(2) [OF dev rdb] be32_long_at [of 7 rdb] by (simp add: rdb_PartitionList_def block_ok_def)
  then have "get_partition_info ctx dev rdb 0 info w = None" for info w
    using bad_checksum_stuck [OF dev p] by (simp add: get_partition_info_def split: prod.splits)
  then have "fill_table ctx dev rdb (0 # is) t w2 = None" for t "is"
    by (simp add: bind_eq_None_conv)
  then show ?thesis
    using get r by (simp add: RdbPartitionTable_init_def upt_conv_Cons [of 0 16])
qed

subsection \<open>Looking partitions up\<close>

definition table_name :: "'w RdbPartition \<Rightarrow> string" where
  "table_name r = cstr (chars (rp_name r))"

text \<open>The used part of the table, up to the first free entry, and its search by name.\<close>

definition used_entries :: "'w rdb_table \<Rightarrow> 'w RdbPartition list" where
  "used_entries table = map the (takeWhile (\<lambda>e. e \<noteq> None) (take RDB_LOCATION_LIMIT table))"

lemma getbyname_loop_eq:
  assumes "terminated name" and "\<forall>r. Some r \<in> set es \<longrightarrow> terminated (chars (rp_name r))"
  shows "getbyname_loop name es = Some (find (\<lambda>r. map tolower (table_name r) = map tolower (cstr name))
    (map the (takeWhile (\<lambda>e. e \<noteq> None) es)))"
  using assms(2)
proof (induction es)
  case (Cons e es)
  show ?case
  proof (cases e)
    case (Some r)
    with Cons.prems have "terminated (chars (rp_name r))" by simp
    from strcasecmp_cstr [OF assms(1) this] obtain d where
      "strcasecmp name (chars (rp_name r)) = Some d"
      "d = 0 \<longleftrightarrow> map tolower (cstr name) = map tolower (table_name r)"
      by (auto simp: table_name_def)
    with Some Cons show ?thesis by auto
  qed simp
qed simp

end
