(* ===== verification/Install.thy ===== *)
theory Install
  imports Rdb
begin

text \<open>
  The installer \<open>src/tools/parthenope-install.c\<close>: it writes the second-level boot loader (SLB) as a
  chain of checksummed blocks into the free blocks of the reserved area and links the chain into the
  RDB. The disk is the byte list of the file \<open>/dev/sda\<close>; \<open>fseek\<close>, \<open>fread\<close> and \<open>fwrite\<close> are modelled as
  the C library's (a short read leaves the rest of the buffer, a write past the end extends the
  file). \<open>fresh\<close> is what a \<open>malloc (512)\<close> returns, with unspecified contents, and \<open>fresh_slb\<close> the block for
  the file.
\<close>

subsection \<open>Blocks of the disk\<close>

text \<open>The offset is computed in 32 bits.\<close>

definition seek_pos :: "u32 \<Rightarrow> nat" where
  "seek_pos block = unat (block * 512)"

definition fread :: "byte list \<Rightarrow> nat \<Rightarrow> nat \<Rightarrow> byte list \<Rightarrow> byte list" where
  "fread dev pos n buf = (let xs = take n (drop pos dev) in xs @ drop (length xs) buf)"

definition fwrite :: "byte list \<Rightarrow> nat \<Rightarrow> byte list \<Rightarrow> byte list" where
  "fwrite dev pos xs =
     take pos (dev @ replicate (pos - length dev) 0) @ xs @ drop (pos + length xs) dev"

definition install_checksum :: "byte list \<Rightarrow> u32 option" where
  "install_checksum blk = checksum blk"

definition calculate_checksum :: "byte list \<Rightarrow> byte list option" where
  "calculate_checksum blk = do {
     c \<leftarrow> amiga_ChkSum blk;
     s \<leftarrow> install_checksum blk;
     put32 blk 8 (c - s)
   }"

text \<open>The block, and whether the result is not NULL.\<close>

definition read_block :: "byte list \<Rightarrow> byte list \<Rightarrow> u32 \<Rightarrow> (byte list \<times> bool) option" where
  "read_block dev blk block = do {
     let blk = fread dev (seek_pos block) 512 blk;
     s \<leftarrow> install_checksum blk;
     Some (blk, s = 0)
   }"

definition read_rdb :: "byte list \<Rightarrow> byte list \<Rightarrow> u32 \<Rightarrow> byte list" where
  "read_rdb dev blk block = fread dev (seek_pos block) 256 blk"

fun find_rdb_loop :: "byte list \<Rightarrow> nat list \<Rightarrow> byte list \<Rightarrow> (byte list \<times> u32) option option" where
  "find_rdb_loop dev [] rdb = Some None"
| "find_rdb_loop dev (i # is) rdb = do {
     (rdb, ok) \<leftarrow> read_block dev rdb (of_nat i);
     rid \<leftarrow> amiga_ID rdb;
     if \<not> ok \<or> rid \<noteq> IDNAME_RIGIDDISK then find_rdb_loop dev is rdb
     else do {
       s \<leftarrow> install_checksum rdb;
       if s \<noteq> 0 then find_rdb_loop dev is rdb
       else Some (Some (read_rdb dev rdb (of_nat i), of_nat i))
     }
   }"

definition find_rdb :: "byte list \<Rightarrow> byte list \<Rightarrow> (byte list \<times> u32) option option" where
  "find_rdb dev fresh = find_rdb_loop dev [0..<RDB_LOCATION_LIMIT] fresh"

definition IS_FREE :: "byte list \<Rightarrow> bool option" where
  "IS_FREE blk = do {
     i \<leftarrow> amiga_ID blk;
     Some (i \<noteq> IDNAME_RIGIDDISK \<and> i \<noteq> IDNAME_BADBLOCK \<and> i \<noteq> IDNAME_PARTITION
       \<and> i \<noteq> IDNAME_FILESYSHEADER \<and> i \<noteq> IDNAME_LOADSEG \<and> i \<noteq> IDNAME_BOOT)
   }"

text \<open>
  The search for a free block: the body reads the next block, whatever its checksum, and goes on while
  the block is in use and the pointer is below the limit. The result is the block found and the
  pointer; \<open>None\<close> stands for a negative result, which a block number above \<open>2 ^ 31\<close> is too.
\<close>

definition next_free_step ::
    "byte list \<Rightarrow> u32 \<Rightarrow> u32 \<times> byte list \<Rightarrow> (u32 \<times> byte list + u32 option \<times> u32) option" where
  "next_free_step dev nblocks = (\<lambda>(free_pointer, blk). do {
     let free_pointer = free_pointer + 1;
     (blk, _) \<leftarrow> read_block dev blk free_pointer;
     free_block \<leftarrow> IS_FREE blk;
     Some (if \<not> free_block \<and> free_pointer < nblocks then Inl (free_pointer, blk)
           else Inr (if free_block \<and> 0 \<le> sint free_pointer then Some free_pointer else None,
                     free_pointer))
   })"

definition next_free_block ::
    "byte list \<Rightarrow> u32 \<Rightarrow> u32 \<Rightarrow> byte list \<Rightarrow> (u32 option \<times> u32) option" where
  "next_free_block dev free_pointer nblocks fresh = loop (next_free_step dev nblocks) (free_pointer, fresh)"

definition write_block :: "byte list \<Rightarrow> byte list \<Rightarrow> u32 \<Rightarrow> byte list" where
  "write_block dev blk block = fwrite dev (seek_pos block) (take 512 blk)"

subsection \<open>Erasing and writing the boot loader\<close>

definition bcb_Next :: "byte list \<Rightarrow> u32 option" where "bcb_Next b = be32 b 16"

definition erase_step ::
    "u32 \<times> byte list \<times> byte list \<Rightarrow> (u32 \<times> byte list \<times> byte list + byte list) option" where
  "erase_step = (\<lambda>(block, blk, dev).
     if block = IDNAME_FREE then Some (Inr dev)
     else do {
       (blk, ok) \<leftarrow> read_block dev blk block;
       if \<not> ok then Some (Inr dev)
       else do {
         i \<leftarrow> amiga_ID blk;
         if i \<noteq> IDNAME_BOOT then Some (Inr dev)
         else do {
           blk \<leftarrow> put32 blk 0 IDNAME_FREE;
           blk \<leftarrow> calculate_checksum blk;
           next_block \<leftarrow> bcb_Next blk;
           Some (Inl (next_block, blk, write_block dev blk block))
         }
       }
     })"

definition erase_slb :: "byte list \<Rightarrow> byte list \<Rightarrow> byte list \<Rightarrow> byte list option" where
  "erase_slb dev rdb fresh = do {
     block \<leftarrow> rdb_BootBlockList rdb;
     loop erase_step (block, fresh, dev)
   }"

text \<open>One block of the boot loader: 123 longs of \<open>slb\<close> from \<open>offset\<close> on.\<close>

definition fill_boot_block ::
    "byte list \<Rightarrow> byte list \<Rightarrow> u32 \<Rightarrow> u32 \<Rightarrow> u32 \<Rightarrow> byte list option" where
  "fill_boot_block blk slb slb_size offset next_block = do {
     blk \<leftarrow> put32 blk 0 IDNAME_BOOT;
     blk \<leftarrow> put32 blk 4 128;
     blk \<leftarrow> put32 blk 12 0;
     blk \<leftarrow> put32 blk 16 next_block;
     blk \<leftarrow> (if slb_size - offset \<le> 123
            then do { blk \<leftarrow> put32 blk 4 (5 + slb_size - offset); put32 blk 16 IDNAME_FREE }
            else Some blk);
     xs \<leftarrow> slice slb (4 * unat offset) (123 * 4);
     blk \<leftarrow> blit blk 20 xs;
     calculate_checksum blk
   }"

type_synonym install_st = "u32 \<times> u32 \<times> u32 \<times> byte list \<times> byte list"

text \<open>State: \<open>offset\<close>, \<open>block\<close>, \<open>free_block_pointer\<close>, \<open>blk\<close> and the disk.\<close>

definition install_step ::
    "byte list \<Rightarrow> u32 \<Rightarrow> u32 \<Rightarrow> byte list \<Rightarrow> install_st \<Rightarrow> (install_st + byte list) option" where
  "install_step slb slb_size nblocks fresh = (\<lambda>(offset, block, free_pointer, blk, dev).
     if \<not> offset < slb_size then Some (Inr dev)
     else do {
       (next_block, free_pointer) \<leftarrow> next_free_block dev free_pointer nblocks fresh;
       case next_block of
         None \<Rightarrow> Some (Inr dev)
       | Some next_block \<Rightarrow> do {
           blk \<leftarrow> fill_boot_block blk slb slb_size offset next_block;
           Some (Inl (offset + 123, next_block, free_pointer, blk, write_block dev blk block))
         }
     })"

definition install_slb ::
    "byte list \<Rightarrow> byte list \<Rightarrow> byte list \<Rightarrow> u32 \<Rightarrow> byte list \<Rightarrow> (byte list \<times> byte list) option" where
  "install_slb dev rdb slb slb_size fresh = do {
     lo \<leftarrow> rdb_RDBBlocksLo rdb;
     hi \<leftarrow> rdb_RDBBlocksHi rdb;
     (block, free_pointer) \<leftarrow> next_free_block dev 0 (hi - lo) fresh;
     case block of
       None \<Rightarrow> Some (rdb, dev)
     | Some block \<Rightarrow> do {
         rdb \<leftarrow> put32 rdb 40 block;
         dev \<leftarrow> loop (install_step slb slb_size (hi - lo) fresh) (0, block, free_pointer, fresh, dev);
         Some (rdb, dev)
       }
   }"

text \<open>
  \<open>main\<close>: \<open>sda\<close>, \<open>size'\<close> and \<open>file\<close> are \<open>None\<close> when \<open>fopen\<close> or \<open>lstat\<close> fails. Opening \<open>/dev/sda\<close> with \<open>"w+"\<close>
  leaves a device alone, but empties a regular file. \<open>lstat\<close> does not follow a symbolic link: \<open>size'\<close> is
  the length of the file only when the argument is no link. The result is the exit value and the disk.
\<close>

definition install_main ::
    "int \<Rightarrow> (bool \<times> byte list) option \<Rightarrow> nat option \<Rightarrow> byte list option \<Rightarrow> byte list \<Rightarrow> byte list
     \<Rightarrow> (int \<times> byte list option) option" where
  "install_main argc sda size' file fresh fresh_slb =
     (if argc \<noteq> 2 then Some (-1, map_option snd sda)
      else case sda of
        None \<Rightarrow> Some (-1, None)
      | Some (device, bytes) \<Rightarrow> do {
          let disk = (if device then bytes else []);
          rdb \<leftarrow> find_rdb disk fresh;
          case rdb of
            None \<Rightarrow> Some (-1, Some disk)
          | Some (rdb, rdb_block) \<Rightarrow>
              (case size' of
                 None \<Rightarrow> Some (-1, Some disk)
               | Some st_size \<Rightarrow>
                   (case file of
                      None \<Rightarrow> Some (-1, Some disk)
                    | Some f \<Rightarrow> do {
                        let slb_size = of_nat (st_size div 4);
                        let slb = fread f 0 st_size fresh_slb;
                        disk \<leftarrow> erase_slb disk rdb fresh;
                        (rdb, disk) \<leftarrow> install_slb disk rdb slb slb_size fresh;
                        rdb \<leftarrow> calculate_checksum rdb;
                        Some (0, Some (write_block disk rdb rdb_block))
                      }))
        })"

subsection \<open>Reading and writing blocks\<close>

definition blk_at :: "byte list \<Rightarrow> nat \<Rightarrow> byte list" where
  "blk_at dev b = take 512 (drop (512 * b) dev)"

text \<open>
  A disk whose first \<open>N\<close> blocks, those the installer has to do with, can be checksummed; what is behind
  them, the data of the partitions, may be anything.
\<close>

definition disk_ok :: "byte list \<Rightarrow> nat \<Rightarrow> bool" where
  "disk_ok dev N \<longleftrightarrow>
     512 * N \<le> length dev \<and> N \<le> 2 ^ 22 \<and> (\<forall>b < N. summed_longs (blk_at dev b) \<le> 128)"

lemma length_blk_at:
  assumes "disk_ok dev N" and "b < N"
  shows "length (blk_at dev b) = 512"
proof -
  have "512 * b + 512 \<le> 512 * N" "512 * N \<le> length dev" using assms by (simp_all add: disk_ok_def)
  then have "512 * b + 512 \<le> length dev" by (rule order.trans)
  then show ?thesis by (simp add: blk_at_def)
qed

text \<open>Disks that agree from some block on have the same length.\<close>

lemma same_length:
  assumes "512 * N \<le> length a" and "512 * N \<le> length b" and "\<forall>j \<ge> N. blk_at a j = blk_at b j"
  shows "length a = length b"
proof -
  have less: "\<not> length x < length y" if "512 * N \<le> length x" "\<forall>j \<ge> N. blk_at x j = blk_at y j" for x y :: "byte list"
  proof
    assume l: "length x < length y"
    have "N \<le> length x div 512" using that(1) by (simp add: less_eq_div_iff_mult_less_eq mult.commute)
    with that(2) have "length (blk_at x (length x div 512)) = length (blk_at y (length x div 512))" by simp
    moreover have "length x - 512 * (length x div 512) < 512" by (simp add: minus_mult_div_eq_mod)
    moreover have "512 * (length x div 512) \<le> length x" by simp
    ultimately show False using l by (auto simp: blk_at_def min_def split: if_splits)
  qed
  from less [of a b] less [of b a] assms show ?thesis by (metis linorder_neqE_nat)
qed

lemma block_ok_blk_at: "disk_ok dev N \<Longrightarrow> b < N \<Longrightarrow> block_ok (blk_at dev b)"
  using length_blk_at [of dev N b] by (simp add: block_ok_def disk_ok_def)

lemma seek_pos_of_nat: "b < 2 ^ 22 \<Longrightarrow> seek_pos (of_nat b) = 512 * b"
proof -
  assume b: "b < 2 ^ 22"
  have "of_nat b * 512 = (of_nat (512 * b) :: u32)" by (simp add: mult.commute)
  moreover have "unat (of_nat (512 * b) :: u32) = 512 * b"
    unfolding unat_of_nat using b by simp
  ultimately show ?thesis by (simp only: seek_pos_def)
qed

lemma unat_block: "b < 2 ^ 22 \<Longrightarrow> unat (of_nat b :: u32) = b"
  by (simp add: unat_of_nat take_bit_nat_eq_self)

lemma block_not_free: "b < 2 ^ 22 \<Longrightarrow> (of_nat b :: u32) \<noteq> IDNAME_FREE"
proof
  assume b: "b < 2 ^ 22" "(of_nat b :: u32) = IDNAME_FREE"
  from unat_block [OF b(1)] b(2) have "b = unat IDNAME_FREE" by simp
  with b(1) show False by simp
qed

lemma read_one_block:
  assumes "block_ok (blk_at dev b)" and "b < 2 ^ 22" and "length blk = 512"
  shows "read_block dev blk (of_nat b) = Some (blk_at dev b, zero_sum (blk_at dev b))"
proof -
  have "512 \<le> length (blk_at dev b)" using assms(1) by (simp add: block_ok_def)
  then have "fread dev (512 * b) 512 blk = blk_at dev b" using assms(3) by (simp add: fread_def blk_at_def Let_def)
  then show ?thesis
    using block_checksum [OF assms(1)] assms(2)
    by (simp add: read_block_def seek_pos_of_nat install_checksum_def zero_sum_def Let_def)
qed

lemma read_block_ok:
  assumes "disk_ok dev N" and "b < N" and "length blk = 512"
  shows "read_block dev blk (of_nat b) = Some (blk_at dev b, zero_sum (blk_at dev b))"
  by (rule read_one_block [OF block_ok_blk_at [OF assms(1,2)] _ assms(3)]) (use assms in \<open>simp add: disk_ok_def\<close>)

lemma write_block_ok:
  assumes "disk_ok dev N" and "b < N" and "length blk = 512"
  shows "length (write_block dev blk (of_nat b)) = length dev"
    and "blk_at (write_block dev blk (of_nat b)) j = (if j = b then blk else blk_at dev j)"
proof -
  have b: "b < 2 ^ 22" and len: "512 * N \<le> length dev" using assms by (simp_all add: disk_ok_def)
  have w: "write_block dev blk (of_nat b)
      = take (512 * b) dev @ blk @ drop (512 * b + 512) dev"
    using assms len by (simp add: write_block_def seek_pos_of_nat [OF b] fwrite_def)
  have l: "512 * b + 512 \<le> length dev" using assms len by simp
  then show "length (write_block dev blk (of_nat b)) = length dev" using assms w by simp
  show "blk_at (write_block dev blk (of_nat b)) j = (if j = b then blk else blk_at dev j)"
  proof (cases "j = b")
    case True
    with w l assms show ?thesis by (simp add: blk_at_def)
  next
    case False
    then consider "512 * j + 512 \<le> 512 * b" | "512 * b + 512 \<le> 512 * j" by linarith
    then show ?thesis
    proof cases
      case 1
      then have "take 512 (drop (512 * j) (take (512 * b) dev @ blk @ drop (512 * b + 512) dev))
          = take 512 (drop (512 * j) dev)"
        using l by (simp add: drop_take)
      with False w show ?thesis by (simp add: blk_at_def)
    next
      case 2
      then have "drop (512 * j) (take (512 * b) dev @ blk @ drop (512 * b + 512) dev) = drop (512 * j) dev"
        using l assms(3) by simp
      with False w show ?thesis by (simp add: blk_at_def)
    qed
  qed
qed

lemma disk_ok_write:
  assumes "disk_ok dev N" and "b < N" and "length blk = 512" and "summed_longs blk \<le> 128"
  shows "disk_ok (write_block dev blk (of_nat b)) N"
  using write_block_ok [OF assms(1-3)] assms(1,4) by (simp add: disk_ok_def)

subsection \<open>Checksums\<close>

lemma long_at_put32:
  assumes "put32 b (4 * i) w = Some b'" and "4 * j + 4 \<le> length b"
  shows "long_at b' j = (if j = i then w else long_at b j)"
proof -
  have len: "length b' = length b" using assms(1) by (rule length_put32)
  show ?thesis
  proof (cases "j = i")
    case True
    then show ?thesis using be32_put32 [OF assms(1)] be32_long_at [of j b'] assms(2) len by simp
  next
    case False
    then have "be32 b' (4 * j) = be32 b (4 * j)" by (intro be32_put32_other [OF assms(1)]) linarith
    then show ?thesis using False be32_long_at [of j b'] be32_long_at [of j b] assms(2) len by simp
  qed
qed

lemma put32_defined: "i + 4 \<le> length b \<Longrightarrow> \<exists>b'. put32 b i w = Some b'"
  by (simp add: put32_def blit_def)

text \<open>The new checksum makes the sum zero, if the sum includes it.\<close>

lemma calculate_checksum_ok:
  assumes len: "length b = 512" and sl: "3 \<le> summed_longs b" "summed_longs b \<le> 128"
  shows "\<exists>b'. calculate_checksum b = Some b' \<and> length b' = 512 \<and> zero_sum b'
    \<and> (\<forall>j < 128. j \<noteq> 2 \<longrightarrow> long_at b' j = long_at b j)"
proof -
  let ?n = "summed_longs b"
  let ?s = "sum (long_at b) {..<?n}"
  have chk: "install_checksum b = Some ?s"
    using len sl by (simp add: install_checksum_def block_checksum block_ok_def)
  have c: "amiga_ChkSum b = Some (long_at b 2)"
    using be32_long_at [of 2 b] len by (simp add: amiga_ChkSum_def)
  obtain b' where b': "put32 b (4 * 2) (long_at b 2 - ?s) = Some b'" using put32_defined [of 8 b] len by auto
  have l: "long_at b' j = (if j = 2 then long_at b 2 - ?s else long_at b j)" if "j < 128" for j
    using long_at_put32 [OF b'] that len by simp
  have n: "summed_longs b' = ?n" using l [of 1] by (simp add: summed_longs_def)
  have split: "sum f {..<?n} = f 2 + sum f ({..<?n} - {2})" for f :: "nat \<Rightarrow> u32"
    using sl(1) by (intro sum.remove) auto
  have "sum (long_at b') ({..<?n} - {2}) = sum (long_at b) ({..<?n} - {2})"
    using l sl(2) by (intro sum.cong) auto
  then have "sum (long_at b') {..<?n} = 0"
    using split [of "long_at b'"] split [of "long_at b"] l [of 2] by simp
  then have "zero_sum b'" by (simp add: zero_sum_def n)
  moreover have "calculate_checksum b = Some b'" using chk c b' by (simp add: calculate_checksum_def)
  ultimately show ?thesis using l length_put32 [OF b'] len by auto
qed

subsection \<open>The search for free blocks\<close>

definition is_free :: "byte list \<Rightarrow> bool" where
  "is_free b \<longleftrightarrow> long_at b 0 \<notin> {IDNAME_RIGIDDISK, IDNAME_BADBLOCK, IDNAME_PARTITION,
     IDNAME_FILESYSHEADER, IDNAME_LOADSEG, IDNAME_BOOT}"

lemma IS_FREE_eq: "block_ok b \<Longrightarrow> IS_FREE b = Some (is_free b)"
  by (simp add: IS_FREE_def block_id is_free_def)

definition free_after :: "byte list \<Rightarrow> nat \<Rightarrow> nat \<Rightarrow> nat list" where
  "free_after dev nb b = filter (\<lambda>j. is_free (blk_at dev j)) [Suc b..<Suc nb]"

lemma free_after_Suc:
  "b < nb \<Longrightarrow> free_after dev nb b
    = (if is_free (blk_at dev (Suc b)) then [Suc b] else []) @ free_after dev nb (Suc b)"
  by (simp add: free_after_def upt_conv_Cons [of "Suc b"] del: upt_Suc)

lemma free_after_cong:
  "(\<And>j. b < j \<Longrightarrow> blk_at dev' j = blk_at dev j) \<Longrightarrow> free_after dev' nb b = free_after dev nb b"
  unfolding free_after_def by (rule filter_cong) auto

lemma free_after_Cons:
  assumes "free_after dev nb b = f # fs"
  shows "b < f" and "f \<le> nb" and "free_after dev nb f = fs"
proof -
  from assms have "b < f \<and> f \<le> nb \<and> free_after dev nb f = fs"
  proof (induction "nb - b" arbitrary: b)
    case 0
    then show ?case by (simp add: free_after_def)
  next
    case (Suc k)
    then have b: "b < nb" by simp
    show ?case
    proof (cases "is_free (blk_at dev (Suc b))")
      case True
      with Suc.prems b show ?thesis by (auto simp: free_after_Suc [OF b])
    next
      case False
      then have "free_after dev nb (Suc b) = f # fs" using Suc.prems by (simp add: free_after_Suc [OF b])
      moreover have "k = nb - Suc b" using Suc.hyps(2) by simp
      ultimately show ?thesis using Suc.hyps(1) [of "Suc b"] by auto
    qed
  qed
  then show "b < f" "f \<le> nb" "free_after dev nb f = fs" by simp_all
qed

lemma sint_block: "b < 2 ^ 22 \<Longrightarrow> 0 \<le> sint (of_nat b :: u32)"
  by (simp add: signed_of_nat signed_take_bit_int_eq_self)

lemma next_free_ok:
  assumes disk: "disk_ok dev N" "nb < N" and "length blk = 512" and "b < nb"
  shows "loop (next_free_step dev (of_nat nb)) (of_nat b, blk)
    = Some (case free_after dev nb b of f # _ \<Rightarrow> (Some (of_nat f), of_nat f) | [] \<Rightarrow> (None, of_nat nb))"
  using assms(3,4)
proof (induction "nb - b" arbitrary: b blk)
  case (Suc k)
  let ?B = "blk_at dev (Suc b)"
  have lt: "Suc b < N" "Suc b < 2 ^ 22" "nb < 2 ^ 22" using Suc.prems disk by (simp_all add: disk_ok_def)
  have rd: "read_block dev blk (of_nat b + 1) = Some (?B, zero_sum ?B)"
    using read_block_ok [OF disk(1) lt(1) Suc.prems(1)] by (simp add: add.commute)
  have lim: "(of_nat b + 1 :: u32) < of_nat nb \<longleftrightarrow> Suc b < nb"
    using unat_block [OF lt(2)] unat_block [OF lt(3)] by (simp add: word_less_nat_alt add.commute)
  have nn: "0 \<le> sint (of_nat b + 1 :: u32)" using sint_block [OF lt(2)] by (simp add: add.commute)
  have fr: "IS_FREE ?B = Some (is_free ?B)" using block_ok_blk_at [OF disk(1) lt(1)] by (rule IS_FREE_eq)
  show ?case
  proof (cases "is_free ?B")
    case True
    then show ?thesis using rd fr nn Suc.prems
      by (subst loop.simps) (simp add: next_free_step_def free_after_Suc Let_def add.commute)
  next
    case False
    show ?thesis
    proof (cases "Suc b < nb")
      case True
      have "loop (next_free_step dev (of_nat nb)) (of_nat b, blk)
          = loop (next_free_step dev (of_nat nb)) (of_nat (Suc b), ?B)"
        using rd fr False lim True by (intro loop_continue) (simp add: next_free_step_def Let_def add.commute)
      also have "\<dots> = Some (case free_after dev nb (Suc b) of f # _ \<Rightarrow> (Some (of_nat f), of_nat f)
          | [] \<Rightarrow> (None, of_nat nb))"
        using Suc.hyps length_blk_at [OF disk(1) lt(1)] True by (intro Suc.hyps(1)) simp_all
      finally show ?thesis using False Suc.prems by (simp add: free_after_Suc)
    next
      case no: False
      with Suc.prems have nb: "nb = Suc b" by simp
      show ?thesis using rd fr False lim
        by (subst loop.simps) (simp add: next_free_step_def free_after_def Let_def add.commute nb)
    qed
  qed
qed simp

subsection \<open>One block of the boot loader\<close>

lemma long_at_blit:
  assumes "blit b (4 * i) xs = Some b'" and "length xs = 4 * n" and "4 * j + 4 \<le> length b"
  shows "long_at b' j = (if i \<le> j \<and> j < i + n then long_at xs (j - i) else long_at b j)"
proof -
  from assms(1,2) have b': "b' = take (4 * i) b @ xs @ drop (4 * i + 4 * n) b" and len: "4 * i + 4 * n \<le> length b"
    by (auto simp: blit_def split: if_splits)
  consider "j < i" | "i \<le> j" "j < i + n" | "i + n \<le> j" by linarith
  then show ?thesis
  proof cases
    case 1
    with len show ?thesis by (simp add: b' long_at_def nth_append)
  next
    case 2
    have "b' ! (4 * j + k) = xs ! (4 * (j - i) + k)" if "k < 4" for k
    proof -
      have "4 * j + k - 4 * i = 4 * (j - i) + k" "4 * (j - i) + k < 4 * n" using 2 that by linarith+
      with 2 len that assms(2) show ?thesis by (simp add: b' nth_append)
    qed
    from this [of 0] this [of 1] this [of 2] this [of 3] 2 show ?thesis by (simp add: long_at_def)
  next
    case 3
    have "b' ! (4 * j + k) = b ! (4 * j + k)" if "k < 4" for k
    proof -
      have "\<not> 4 * j + k - 4 * i < 4 * n" "4 * i + 4 * n + (4 * j + k - 4 * i - 4 * n) = 4 * j + k"
        using 3 by linarith+
      with 3 len that assms(2,3) show ?thesis by (simp add: b' nth_append)
    qed
    from this [of 0] this [of 1] this [of 2] this [of 3] 3 show ?thesis by (simp add: long_at_def)
  qed
qed

lemma long_at_slice:
  assumes "slice m (4 * i) (4 * n) = Some xs" and "j < n"
  shows "long_at xs j = long_at m (i + j)"
  using assms by (auto simp: slice_def long_at_def algebra_simps split: if_splits)

lemma fill_boot_block_ok:
  assumes len: "length blk = 512" and off: "off < n" "n < 2 ^ 32" and slb: "4 * (off + 123) \<le> length slb"
  shows "\<exists>b. fill_boot_block blk slb (of_nat n) (of_nat off) next = Some b \<and> length b = 512 \<and> zero_sum b
    \<and> long_at b 0 = IDNAME_BOOT \<and> summed_longs b = 5 + min 123 (n - off)
    \<and> long_at b 4 = (if n - off \<le> 123 then IDNAME_FREE else next)
    \<and> (\<forall>j < 123. long_at b (5 + j) = long_at slb (off + j))"
proof -
  have small: "unat (of_nat k :: u32) = k" if "k \<le> n" for k
    unfolding unat_of_nat using off that by simp
  have u: "unat (of_nat off :: u32) = off" "(of_nat n - of_nat off :: u32) = of_nat (n - off)"
    "unat (of_nat (n - off) :: u32) = n - off"
    using off small [of off] small [of "n - off"] by (simp_all del: of_nat_diff add: of_nat_diff [symmetric])
  then have last: "(of_nat n - of_nat off :: u32) \<le> 123 \<longleftrightarrow> n - off \<le> 123"
    by (simp add: word_le_nat_alt)
  obtain b1 where b1: "put32 blk (4 * 0) IDNAME_BOOT = Some b1" using put32_defined [of 0 blk] len by auto
  obtain b2 where b2: "put32 b1 (4 * 1) 128 = Some b2"
    using put32_defined [of 4 b1] len length_put32 [OF b1] by auto
  obtain b3 where b3: "put32 b2 (4 * 3) 0 = Some b3"
    using put32_defined [of 12 b2] len length_put32 [OF b1] length_put32 [OF b2] by auto
  obtain b4 where b4: "put32 b3 (4 * 4) next = Some b4"
    using put32_defined [of 16 b3] len length_put32 [OF b1] length_put32 [OF b2] length_put32 [OF b3] by auto
  have len4: "length b4 = 512"
    using len length_put32 [OF b1] length_put32 [OF b2] length_put32 [OF b3] length_put32 [OF b4] by simp
  obtain b5 where b5: "put32 b4 (4 * 1) (5 + of_nat n - of_nat off) = Some b5"
    using put32_defined [of 4 b4] len4 by auto
  obtain b6 where b6: "put32 b5 (4 * 4) IDNAME_FREE = Some b6"
    using put32_defined [of 16 b5] len4 length_put32 [OF b5] by auto
  define c where "c = (if n - off \<le> 123 then b6 else b4)"
  have c: "(if (of_nat n - of_nat off :: u32) \<le> 123
       then Option.bind (put32 b4 4 (5 + of_nat n - of_nat off)) (\<lambda>b. put32 b 16 IDNAME_FREE) else Some b4) = Some c"
    unfolding last c_def using b5 b6 by simp
  have lenc: "length c = 512" using len4 length_put32 [OF b5] length_put32 [OF b6] by (simp add: c_def)
  have f: "long_at b1 0 = IDNAME_BOOT" "long_at b2 0 = long_at b1 0" "long_at b2 1 = 128"
    "long_at b3 0 = long_at b2 0" "long_at b3 1 = long_at b2 1"
    "long_at b4 0 = long_at b3 0" "long_at b4 1 = long_at b3 1" "long_at b4 4 = next"
    "long_at b5 0 = long_at b4 0" "long_at b5 1 = 5 + of_nat n - of_nat off"
    "long_at b6 0 = long_at b5 0" "long_at b6 1 = long_at b5 1" "long_at b6 4 = IDNAME_FREE"
    using len len4 length_put32 [OF b1] length_put32 [OF b2] length_put32 [OF b3] length_put32 [OF b4]
      length_put32 [OF b5]
    by (simp_all add: long_at_put32 [OF b1] long_at_put32 [OF b2] long_at_put32 [OF b3] long_at_put32 [OF b4]
        long_at_put32 [OF b5] long_at_put32 [OF b6])
  have five: "(5 + of_nat n - of_nat off :: u32) = of_nat (5 + (n - off))"
    using u(2) by (simp add: algebra_simps)
  have u5: "unat (5 + of_nat n - of_nat off :: u32) = 5 + (n - off)" if "n - off \<le> 123"
    unfolding five unat_of_nat using that by simp
  have cs: "long_at c 0 = IDNAME_BOOT" "long_at c 4 = (if n - off \<le> 123 then IDNAME_FREE else next)"
    "unat (long_at c 1) = 5 + min 123 (n - off)"
    using f u5 by (simp_all add: c_def min_def)
  obtain xs where xs: "slice slb (4 * off) (4 * 123) = Some xs" using slb by (simp add: slice_def)
  have lx: "length xs = 4 * 123" using length_slice [OF xs] by simp
  obtain d where d: "blit c (4 * 5) xs = Some d" using lx lenc by (simp add: blit_def)
  note ld = long_at_blit [OF d lx]
  have lend: "length d = 512" using length_blit [OF d] lenc by simp
  have ds: "long_at d 0 = IDNAME_BOOT" "long_at d 4 = (if n - off \<le> 123 then IDNAME_FREE else next)"
    "summed_longs d = 5 + min 123 (n - off)"
    using cs lenc by (simp_all add: ld summed_longs_def)
  have dd: "long_at d (5 + j) = long_at slb (off + j)" if "j < 123" for j
    using that lenc long_at_slice [OF xs that] by (simp add: ld)
  from calculate_checksum_ok [OF lend] ds(3) obtain e where e: "calculate_checksum d = Some e" "length e = 512"
    "zero_sum e" "\<forall>j < 128. j \<noteq> 2 \<longrightarrow> long_at e j = long_at d j" by auto
  have "fill_boot_block blk slb (of_nat n) (of_nat off) next = Some e"
    using b1 b2 b3 b4 c xs d e(1) u(1) by (simp add: fill_boot_block_def)
  moreover have "summed_longs e = summed_longs d" using e(4) by (simp add: summed_longs_def)
  ultimately show ?thesis using e ds dd by simp
qed

subsection \<open>The chain of boot blocks\<close>

text \<open>
  \<open>boot_chain dev b bs ds\<close>: from block number \<open>b\<close> on, the disk holds the boot blocks \<open>bs\<close>, each with
  its checksum and the number of the next, and their data are the longs \<open>ds\<close>.
\<close>

definition is_boot :: "byte list \<Rightarrow> bool" where
  "is_boot b \<longleftrightarrow> long_at b 0 = IDNAME_BOOT \<and> zero_sum b \<and> 5 \<le> summed_longs b"

definition boot_data :: "byte list \<Rightarrow> u32 list" where
  "boot_data b = map (long_at b) [5..<summed_longs b]"

inductive boot_chain :: "byte list \<Rightarrow> u32 \<Rightarrow> nat list \<Rightarrow> u32 list \<Rightarrow> bool" for dev where
  boot_end: "boot_chain dev IDNAME_FREE [] []"
| boot_block: "is_boot (blk_at dev b) \<Longrightarrow> boot_chain dev (long_at (blk_at dev b) 4) bs ds
    \<Longrightarrow> boot_chain dev (of_nat b) (b # bs) (boot_data (blk_at dev b) @ ds)"

lemma boot_chain_cong:
  assumes "boot_chain dev b bs ds" and "\<forall>j \<in> set bs. blk_at dev' j = blk_at dev j"
  shows "boot_chain dev' b bs ds"
  using assms
proof (induction rule: boot_chain.induct)
  case boot_end
  show ?case by (rule boot_chain.boot_end)
next
  case (boot_block b bs ds)
  then show ?case using boot_chain.boot_block [of dev' b bs ds] by simp
qed

lemma boot_data_take:
  assumes "summed_longs b = 5 + min 123 (n - off)" and "\<forall>j < 123. long_at b (5 + j) = long_at slb (off + j)"
  shows "boot_data b = map (long_at slb) [off..<off + min 123 (n - off)]"
  by (rule nth_equalityI) (use assms in \<open>simp_all add: boot_data_def\<close>)

text \<open>One iteration: block \<open>b\<close> gets the next 123 longs and the number of the next free block.\<close>

lemma install_one:
  assumes disk: "disk_ok dev N" "nb < N" and free: "b \<le> nb" "free_after dev nb b = f # fs"
    and off: "off < n" "n < 2 ^ 31" and slb: "4 * (off + 123) \<le> length slb"
    and len: "length fresh = 512" "length blk = 512"
  shows "\<exists>c. loop (install_step slb (of_nat n) (of_nat nb) fresh) (of_nat off, of_nat b, of_nat b, blk, dev)
      = loop (install_step slb (of_nat n) (of_nat nb) fresh)
          (of_nat (off + 123), of_nat f, of_nat f, c, write_block dev c (of_nat b))
    \<and> length c = 512 \<and> disk_ok (write_block dev c (of_nat b)) N
    \<and> (\<forall>j. blk_at (write_block dev c (of_nat b)) j = (if j = b then c else blk_at dev j))
    \<and> is_boot c \<and> boot_data c = map (long_at slb) [off..<off + min 123 (n - off)]
    \<and> long_at c 4 = (if n - off \<le> 123 then IDNAME_FREE else of_nat f)"
proof -
  have b: "b < nb" "b < N" using free_after_Cons [OF free(2)] disk by simp_all
  have nf: "next_free_block dev (of_nat b) (of_nat nb) fresh = Some (Some (of_nat f), of_nat f)"
    unfolding next_free_block_def using next_free_ok [OF disk len(1) b(1)] free by simp
  have lt: "(of_nat off :: u32) < of_nat n"
  proof -
    have "unat (of_nat off :: u32) = off" "unat (of_nat n :: u32) = n"
      unfolding unat_of_nat using off by simp_all
    then show ?thesis using off(1) by (simp add: word_less_nat_alt)
  qed
  from fill_boot_block_ok [OF len(2) off(1), of slb "of_nat f"] off(2) slb obtain c where
    c: "fill_boot_block blk slb (of_nat n) (of_nat off) (of_nat f) = Some c" "length c = 512" "zero_sum c"
      "long_at c 0 = IDNAME_BOOT" "summed_longs c = 5 + min 123 (n - off)"
      "long_at c 4 = (if n - off \<le> 123 then IDNAME_FREE else of_nat f)"
      "\<forall>j < 123. long_at c (5 + j) = long_at slb (off + j)" by auto
  have "loop (install_step slb (of_nat n) (of_nat nb) fresh) (of_nat off, of_nat b, of_nat b, blk, dev)
      = loop (install_step slb (of_nat n) (of_nat nb) fresh)
          (of_nat (off + 123), of_nat f, of_nat f, c, write_block dev c (of_nat b))"
    using lt nf c(1) by (intro loop_continue) (simp add: install_step_def add.commute)
  moreover have "disk_ok (write_block dev c (of_nat b)) N"
    using disk_ok_write [OF disk(1) b(2) c(2)] c(5) by simp
  ultimately show ?thesis
    using c write_block_ok(2) [OF disk(1) b(2) c(2)] boot_data_take [OF c(5,7)] by (auto simp: is_boot_def)
qed

text \<open>
  Writing the rest of the boot loader, from long \<open>off\<close> on, into block \<open>b\<close> and the free blocks \<open>fs\<close>
  after it: one block for each 123 longs, and one free block more for the search that follows each.
\<close>

lemma install_run:
  assumes "disk_ok dev N" and "nb < N" and "b \<le> nb" and "free_after dev nb b = fs" and "m \<le> length fs"
    and "off < n" and "off + 123 * m < n + 123" and "n \<le> off + 123 * m" and "n < 2 ^ 31"
    and "4 * (off + 123 * m) \<le> length slb" and "length fresh = 512" and "length blk = 512"
  shows "\<exists>dev'. loop (install_step slb (of_nat n) (of_nat nb) fresh) (of_nat off, of_nat b, of_nat b, blk, dev)
      = Some dev'
    \<and> disk_ok dev' N \<and> boot_chain dev' (of_nat b) (take m (b # fs)) (map (long_at slb) [off..<n])
    \<and> (\<forall>j. j \<notin> set (take m (b # fs)) \<longrightarrow> blk_at dev' j = blk_at dev j)"
  using assms
proof (induction m arbitrary: off b fs blk dev)
  case (Suc m)
  note prems = Suc.prems
  obtain f fs' where fs: "fs = f # fs'" using prems(5) by (cases fs) auto
  note free = prems(4) [unfolded fs]
  note f = free_after_Cons [OF free]
  have room: "4 * (off + 123) \<le> length slb" using prems(10) by simp
  from install_one [OF prems(1,2,3) free prems(6,9) room prems(11,12)] obtain c where
    step: "loop (install_step slb (of_nat n) (of_nat nb) fresh) (of_nat off, of_nat b, of_nat b, blk, dev)
      = loop (install_step slb (of_nat n) (of_nat nb) fresh)
          (of_nat (off + 123), of_nat f, of_nat f, c, write_block dev c (of_nat b))"
    and c: "length c = 512" "disk_ok (write_block dev c (of_nat b)) N"
      "is_boot c" "boot_data c = map (long_at slb) [off..<off + min 123 (n - off)]"
      "long_at c 4 = (if n - off \<le> 123 then IDNAME_FREE else of_nat f)"
    and blks: "\<forall>j. blk_at (write_block dev c (of_nat b)) j = (if j = b then c else blk_at dev j)" by auto
  let ?dev = "write_block dev c (of_nat b)"
  show ?case
  proof (cases "n - off \<le> 123")
    case True
    have "\<not> (of_nat (off + 123) :: u32) < of_nat n"
    proof -
      have "unat (of_nat (off + 123) :: u32) = off + 123" "unat (of_nat n :: u32) = n"
        unfolding unat_of_nat using prems(6,9) by simp_all
      then show ?thesis using True by (simp add: word_less_nat_alt)
    qed
    then have stop: "loop (install_step slb (of_nat n) (of_nat nb) fresh)
        (of_nat (off + 123), of_nat f, of_nat f, c, ?dev) = Some ?dev"
      by (intro loop_exit) (simp add: install_step_def)
    have m: "m = 0" using True prems(6,7) by simp
    have "boot_chain ?dev (of_nat b) [b] (boot_data c @ [])"
      using boot_chain.boot_block [of ?dev b "[]" "[]"] c True boot_chain.boot_end [of ?dev]
      by (simp add: blks)
    moreover have "boot_data c = map (long_at slb) [off..<n]" using c(4) True prems(6) by (simp add: min_def)
    ultimately show ?thesis using step stop c(2) m by (simp add: blks)
  next
    case False
    have "free_after ?dev nb f = fs'"
      using free_after_cong [of f ?dev dev nb] f(1,3) by (simp add: blks)
    moreover have "off + 123 < n" "off + 123 + 123 * m < n + 123" "n \<le> off + 123 + 123 * m"
      "m \<le> length fs'" "4 * (off + 123 + 123 * m) \<le> length slb"
      using prems(5-10) False fs by simp_all
    ultimately obtain dev' where d: "loop (install_step slb (of_nat n) (of_nat nb) fresh)
        (of_nat (off + 123), of_nat f, of_nat f, c, ?dev) = Some dev'" "disk_ok dev' N"
      "boot_chain dev' (of_nat f) (take m (f # fs')) (map (long_at slb) [off + 123..<n])"
      "\<forall>j. j \<notin> set (take m (f # fs')) \<longrightarrow> blk_at dev' j = blk_at ?dev j"
      using Suc.IH [OF c(2) prems(2) f(2) _ _ _ _ _ prems(9) _ prems(11) c(1), of fs' "off + 123"] by blast
    have "b \<notin> set fs'" using f(1,3) by (auto simp: free_after_def)
    then have "b \<notin> set (take m (f # fs'))" using f(1) in_set_takeD [of b m "f # fs'"] by auto
    with d(4) have at: "blk_at dev' b = c" by (simp add: blks)
    have "boot_chain dev' (of_nat b) (b # take m (f # fs')) (boot_data c @ map (long_at slb) [off + 123..<n])"
      using boot_chain.boot_block [of dev' b, unfolded at] c d(3) False by simp
    moreover have "boot_data c @ map (long_at slb) [off + 123..<n] = map (long_at slb) [off..<n]"
      using c(4) False upt_add_eq_append [of off "off + 123" "n - (off + 123)"]
      by (simp add: min_def map_append [symmetric] del: map_append)
    ultimately show ?thesis using step d fs by (simp add: blks)
  qed
qed simp

text \<open>The last block copies 123 longs whatever is left of the file: a shorter rest is read past its end.\<close>

lemma install_overread:
  assumes "disk_ok dev N" and "nb < N" and "b \<le> nb" and "free_after dev nb b = fs" and "m \<le> length fs"
    and "off < n" and "off + 123 * m < n + 123" and "n \<le> off + 123 * m" and "n < 2 ^ 31"
    and "length slb < 4 * (off + 123 * m)" and "length fresh = 512" and "length blk = 512"
  shows "loop (install_step slb (of_nat n) (of_nat nb) fresh) (of_nat off, of_nat b, of_nat b, blk, dev) = None"
  using assms
proof (induction m arbitrary: off b fs blk dev)
  case (Suc m)
  note prems = Suc.prems
  obtain f fs' where fs: "fs = f # fs'" using prems(5) by (cases fs) auto
  note free = prems(4) [unfolded fs]
  note f = free_after_Cons [OF free]
  have u: "unat (of_nat off :: u32) = off" "unat (of_nat n :: u32) = n"
    unfolding unat_of_nat using prems(6,9) by simp_all
  show ?case
  proof (cases "4 * (off + 123) \<le> length slb")
    case True
    from install_one [OF prems(1,2,3) free prems(6,9) True prems(11,12)] obtain c where
      step: "loop (install_step slb (of_nat n) (of_nat nb) fresh) (of_nat off, of_nat b, of_nat b, blk, dev)
        = loop (install_step slb (of_nat n) (of_nat nb) fresh)
            (of_nat (off + 123), of_nat f, of_nat f, c, write_block dev c (of_nat b))"
      and c: "length c = 512" "disk_ok (write_block dev c (of_nat b)) N"
      and blks: "\<forall>j. blk_at (write_block dev c (of_nat b)) j = (if j = b then c else blk_at dev j)" by auto
    have "free_after (write_block dev c (of_nat b)) nb f = fs'"
      using free_after_cong [of f "write_block dev c (of_nat b)" dev nb] f(1,3) by (simp add: blks)
    moreover have "off + 123 < n" "off + 123 + 123 * m < n + 123" "n \<le> off + 123 + 123 * m"
      "m \<le> length fs'" "length slb < 4 * (off + 123 + 123 * m)"
      using prems(5-10) True fs by (cases m; simp)+
    ultimately show ?thesis
      unfolding step
      using Suc.IH [OF c(2) prems(2) f(2) _ _ _ _ _ prems(9) _ prems(11) c(1), of fs' "off + 123"] by blast
  next
    case False
    then have "fill_boot_block blk slb (of_nat n) (of_nat off) next = None" for "next"
      using u by (simp add: fill_boot_block_def slice_def put32_def bind_eq_None_conv)
    moreover have "b < nb" using f by simp
    ultimately show ?thesis
      using u prems(6) next_free_ok [OF prems(1,2,11)] free
      by (intro loop_fault) (simp add: install_step_def word_less_nat_alt next_free_block_def)
  qed
qed simp

subsection \<open>Erasing the old boot loader\<close>

lemma blk_long: "disk_ok dev N \<Longrightarrow> b < N \<Longrightarrow> i < 128 \<Longrightarrow> be32 (blk_at dev b) (4 * i) = Some (long_at (blk_at dev b) i)"
  using length_blk_at [of dev N b] by (intro be32_long_at) simp

text \<open>What \<open>erase_slb\<close> makes of the blocks of a chain: free blocks, the rest of the disk untouched.\<close>

definition erased :: "byte list \<Rightarrow> nat list \<Rightarrow> byte list \<Rightarrow> bool" where
  "erased dev bs dev' \<longleftrightarrow>
     (\<forall>j. if j \<in> set bs then long_at (blk_at dev' j) 0 = IDNAME_FREE else blk_at dev' j = blk_at dev j)"

lemma erase_run:
  assumes "disk_ok dev N" and "boot_chain dev b bs ds" and "set bs \<subseteq> {..<N}" and "distinct bs"
    and "length blk = 512"
  shows "\<exists>dev'. loop erase_step (b, blk, dev) = Some dev' \<and> disk_ok dev' N \<and> erased dev bs dev'"
  using assms
proof (induction bs arbitrary: b ds blk dev)
  case Nil
  then have "b = IDNAME_FREE" by (auto elim: boot_chain.cases)
  then have "loop erase_step (b, blk, dev) = Some dev" by (intro loop_exit) (simp add: erase_step_def)
  with Nil show ?case by (simp add: erased_def)
next
  case (Cons k bs)
  let ?B = "blk_at dev k"
  from Cons.prems(2) obtain ds' where b: "b = of_nat k" "is_boot ?B" "boot_chain dev (long_at ?B 4) bs ds'"
    by (cases rule: boot_chain.cases) auto
  have k: "k < N" "k < 2 ^ 22" using Cons.prems(1,3) by (auto simp: disk_ok_def)
  have len: "length ?B = 512" using Cons.prems(1) k(1) by (rule length_blk_at)
  have sl: "summed_longs ?B \<le> 128" "5 \<le> summed_longs ?B"
    using Cons.prems(1) k(1) b(2) by (simp_all add: disk_ok_def is_boot_def)
  obtain c1 where c1: "put32 ?B (4 * 0) IDNAME_FREE = Some c1" using put32_defined [of 0 ?B] len by auto
  have l1: "length c1 = 512" using length_put32 [OF c1] len by simp
  have at1: "long_at c1 j = (if j = 0 then IDNAME_FREE else long_at ?B j)" if "j < 128" for j
    using that len by (simp add: long_at_put32 [OF c1])
  have s1: "summed_longs c1 = summed_longs ?B" using at1 [of 1] by (simp add: summed_longs_def)
  from calculate_checksum_ok [OF l1] sl s1 obtain c2 where c2: "calculate_checksum c1 = Some c2"
    "length c2 = 512" "\<forall>j < 128. j \<noteq> 2 \<longrightarrow> long_at c2 j = long_at c1 j" by auto
  let ?dev = "write_block dev c2 (of_nat k)"
  have s2: "summed_longs c2 \<le> 128" using c2(3) s1 sl by (simp add: summed_longs_def)
  have ok: "disk_ok ?dev N" using disk_ok_write [OF Cons.prems(1) k(1) c2(2) s2] .
  note blks = write_block_ok(2) [OF Cons.prems(1) k(1) c2(2)]
  have next_block: "bcb_Next c2 = Some (long_at ?B 4)"
    using be32_long_at [of 4 c2] c2(2,3) at1 [of 4] by (simp add: bcb_Next_def)
  have "b \<noteq> IDNAME_FREE" using block_not_free [OF k(2)] b(1) by simp
  then have step: "loop erase_step (b, blk, dev) = loop erase_step (long_at ?B 4, c2, ?dev)"
    using read_block_ok [OF Cons.prems(1) k(1) Cons.prems(5)] b c1 c2(1) next_block
      block_id [OF block_ok_blk_at [OF Cons.prems(1) k(1)]]
    by (intro loop_continue) (simp add: erase_step_def is_boot_def)
  have "boot_chain ?dev (long_at ?B 4) bs ds'"
    using b(3) by (rule boot_chain_cong) (use Cons.prems(4) in \<open>auto simp: blks\<close>)
  from Cons.IH [OF ok this _ _ c2(2)] Cons.prems(3,4) obtain dev' where
    d: "loop erase_step (long_at ?B 4, c2, ?dev) = Some dev'" "disk_ok dev' N" "erased ?dev bs dev'" by auto
  have "erased dev (k # bs) dev'"
    using d(3) Cons.prems(4) c2(3) at1 [of 0] by (auto simp: erased_def blks)
  with step d show ?case by auto
qed

lemma erased_free: "erased dev bs dev' \<Longrightarrow> is_free (blk_at dev' j) \<longleftrightarrow> j \<in> set bs \<or> is_free (blk_at dev j)"
  by (cases "j \<in> set bs") (auto simp: erased_def is_free_def)

subsection \<open>The whole installation\<close>

definition find_rdb_block :: "byte list \<Rightarrow> nat option" where
  "find_rdb_block dev = find (\<lambda>i. is_rdb (blk_at dev i)) [0..<RDB_LOCATION_LIMIT]"

lemma fread_prefix:
  assumes "length (blk_at dev i) = 512"
  shows "fread dev (512 * i) 256 (blk_at dev i) = blk_at dev i"
proof -
  have "take 256 (drop (512 * i) dev) = take 256 (blk_at dev i)" by (simp add: blk_at_def)
  then show ?thesis using assms by (simp add: fread_def)
qed

lemma find_rdb_loop_ok:
  assumes "disk_ok dev N" and "\<forall>i \<in> set is. i < N" and "length rdb = 512"
  shows "find_rdb_loop dev is rdb
    = Some (map_option (\<lambda>i. (blk_at dev i, of_nat i)) (find (\<lambda>i. is_rdb (blk_at dev i)) is))"
  using assms(2,3)
proof (induction "is" arbitrary: rdb)
  case (Cons i "is")
  then have i: "i < N" by simp
  note rd = read_block_ok [OF assms(1) i Cons.prems(2)]
  note bid = block_id [OF block_ok_blk_at [OF assms(1) i]]
  note chk = block_checksum [OF block_ok_blk_at [OF assms(1) i]]
  have len: "length (blk_at dev i) = 512" using assms(1) i by (rule length_blk_at)
  have "i < 2 ^ 22" using assms(1) i by (simp add: disk_ok_def)
  then have "read_rdb dev (blk_at dev i) (of_nat i) = blk_at dev i"
    using fread_prefix [OF len] by (simp add: read_rdb_def seek_pos_of_nat)
  then show ?case
    using rd bid chk Cons.IH [OF _ len] Cons.prems
    by (auto simp: is_rdb_def zero_sum_def install_checksum_def)
qed simp

lemma rdb_fields:
  assumes "length rdb = 512"
  shows "rdb_RDBBlocksLo rdb = Some (long_at rdb 32)" and "rdb_RDBBlocksHi rdb = Some (long_at rdb 33)"
    and "rdb_BootBlockList rdb = Some (long_at rdb 10)"
  using assms be32_long_at [of 32 rdb] be32_long_at [of 33 rdb] be32_long_at [of 10 rdb]
  by (simp_all add: rdb_RDBBlocksLo_def rdb_RDBBlocksHi_def rdb_BootBlockList_def)

text \<open>The number of blocks the reserved area of an RDB offers.\<close>

definition area :: "byte list \<Rightarrow> nat" where
  "area rdb = unat (long_at rdb 33 - long_at rdb 32)"

text \<open>With \<open>k\<close> blocks to write and more than \<open>k\<close> free ones, the first \<open>k\<close> hold the boot loader.\<close>

lemma install_slb_start:
  assumes disk: "disk_ok dev N" "area rdb < N" and rdb: "length rdb = 512" and fresh: "length fresh = 512"
    and free: "free_after dev (area rdb) 0 = f # fs"
  shows "\<exists>rdb'. length rdb' = 512 \<and> (\<forall>j < 128. long_at rdb' j = (if j = 10 then of_nat f else long_at rdb j))
    \<and> install_slb dev rdb slb slb_size fresh
      = Option.bind (loop (install_step slb slb_size (of_nat (area rdb)) fresh) (of_nat 0, of_nat f, of_nat f, fresh, dev))
          (\<lambda>dev'. Some (rdb', dev'))"
proof -
  have pos: "0 < area rdb" using free_after_Cons [OF free] by simp
  obtain rdb' where r: "put32 rdb (4 * 10) (of_nat f) = Some rdb'" using put32_defined [of 40 rdb] rdb by auto
  have "next_free_block dev 0 (of_nat (area rdb)) fresh = Some (Some (of_nat f), of_nat f)"
    unfolding next_free_block_def using next_free_ok [OF disk fresh pos] free by simp
  then have "install_slb dev rdb slb slb_size fresh
      = Option.bind (loop (install_step slb slb_size (of_nat (area rdb)) fresh) (of_nat 0, of_nat f, of_nat f, fresh, dev))
          (\<lambda>dev'. Some (rdb', dev'))"
    using r rdb by (simp add: install_slb_def rdb_fields area_def)
  then show ?thesis
    using r rdb length_put32 [OF r] by (auto simp: long_at_put32 [OF r])
qed

lemma install_slb_ok:
  assumes disk: "disk_ok dev N" "area rdb < N" and rdb: "length rdb = 512" and fresh: "length fresh = 512"
    and free: "free_after dev (area rdb) 0 = f # fs" and k: "0 < k" "k \<le> length fs" and slb: "length slb = 492 * k"
  shows "\<exists>rdb' dev'. install_slb dev rdb slb (of_nat (length slb div 4)) fresh = Some (rdb', dev')
    \<and> length rdb' = 512 \<and> (\<forall>j < 128. long_at rdb' j = (if j = 10 then of_nat f else long_at rdb j))
    \<and> disk_ok dev' N \<and> boot_chain dev' (of_nat f) (take k (f # fs)) (map (long_at slb) [0..<123 * k])
    \<and> (\<forall>j. j \<notin> set (take k (f # fs)) \<longrightarrow> blk_at dev' j = blk_at dev j)"
proof -
  note f = free_after_Cons [OF free]
  have "length fs \<le> area rdb - f"
    using length_filter_le [of "\<lambda>j. is_free (blk_at dev j)" "[Suc f..<Suc (area rdb)]"] f(3)
    by (simp add: free_after_def del: upt_Suc)
  moreover have "N \<le> 4194304" using disk(1) by (simp add: disk_ok_def)
  ultimately have "k \<le> 4194304" using k disk(2) by linarith
  then have n: "123 * k < 2 ^ 31" by simp
  from install_run [OF disk f(2,3) k(2) _ _ _ n _ fresh fresh, of 0 slb] k slb obtain dev' where
    "loop (install_step slb (of_nat (123 * k)) (of_nat (area rdb)) fresh) (of_nat 0, of_nat f, of_nat f, fresh, dev)
      = Some dev'"
    "disk_ok dev' N" "boot_chain dev' (of_nat f) (take k (f # fs)) (map (long_at slb) [0..<123 * k])"
    "\<forall>j. j \<notin> set (take k (f # fs)) \<longrightarrow> blk_at dev' j = blk_at dev j" by auto
  moreover have "length slb div 4 = 123 * k" using slb by simp
  ultimately show ?thesis
    using install_slb_start [OF disk rdb fresh free, of slb "of_nat (123 * k)"] by auto
qed

text \<open>
  A disk the installer can work on: \<open>r\<close> is its RDB block, \<open>bs\<close> its old boot blocks, and \<open>f # fs\<close> the
  blocks of the reserved area that are free once those are erased.
\<close>

definition installable :: "byte list \<Rightarrow> nat \<Rightarrow> nat \<Rightarrow> nat list \<Rightarrow> nat list \<Rightarrow> bool" where
  "installable dev N r bs fs \<longleftrightarrow>
     disk_ok dev N \<and> RDB_LOCATION_LIMIT \<le> N \<and> find_rdb_block dev = Some r
     \<and> 3 \<le> summed_longs (blk_at dev r) \<and> area (blk_at dev r) < N
     \<and> (\<exists>ds. boot_chain dev (long_at (blk_at dev r) 10) bs ds) \<and> distinct bs \<and> set bs \<subseteq> {..<N}
     \<and> fs = filter (\<lambda>j. j \<in> set bs \<or> is_free (blk_at dev j)) [1..<Suc (area (blk_at dev r))]"

lemma boot_chain_boot: "boot_chain dev b bs ds \<Longrightarrow> j \<in> set bs \<Longrightarrow> is_boot (blk_at dev j)"
  by (induction rule: boot_chain.induct) auto

lemma find_rdb_ok:
  assumes "disk_ok dev N" and "RDB_LOCATION_LIMIT \<le> N" and "find_rdb_block dev = Some r" and "length fresh = 512"
  shows "find_rdb dev fresh = Some (Some (blk_at dev r, of_nat r))" and "r < N" and "is_rdb (blk_at dev r)"
proof -
  show "find_rdb dev fresh = Some (Some (blk_at dev r, of_nat r))"
    using find_rdb_loop_ok [OF assms(1) _ assms(4), of "[0..<RDB_LOCATION_LIMIT]"] assms(2,3)
    by (simp add: find_rdb_def find_rdb_block_def del: upt_Suc upt_rec_numeral)
  show "r < N" "is_rdb (blk_at dev r)" using assms(2,3) by (auto simp: find_rdb_block_def find_Some_iff)
qed

lemma installable_erase:
  assumes "installable dev N r bs fs" and "length fresh = 512"
  shows "\<exists>dev1. erase_slb dev (blk_at dev r) fresh = Some dev1 \<and> disk_ok dev1 N \<and> erased dev bs dev1
    \<and> blk_at dev1 r = blk_at dev r \<and> r \<notin> set bs \<and> r \<notin> set fs \<and> free_after dev1 (area (blk_at dev r)) 0 = fs"
proof -
  from assms(1) obtain ds where i: "disk_ok dev N" "RDB_LOCATION_LIMIT \<le> N" "find_rdb_block dev = Some r"
    "boot_chain dev (long_at (blk_at dev r) 10) bs ds" "distinct bs" "set bs \<subseteq> {..<N}"
    "fs = filter (\<lambda>j. j \<in> set bs \<or> is_free (blk_at dev j)) [1..<Suc (area (blk_at dev r))]"
    by (auto simp: installable_def)
  note r = find_rdb_ok(2,3) [OF i(1-3) assms(2)]
  have "length (blk_at dev r) = 512" using i(1) r(1) by (rule length_blk_at)
  then obtain dev1 where e: "erase_slb dev (blk_at dev r) fresh = Some dev1" "disk_ok dev1 N" "erased dev bs dev1"
    using erase_run [OF i(1,4,6,5) assms(2)] by (auto simp: erase_slb_def rdb_fields)
  have nb: "r \<notin> set bs"
  proof
    assume "r \<in> set bs"
    with boot_chain_boot [OF i(4)] have "is_boot (blk_at dev r)" by simp
    with r(2) show False by (simp add: is_boot_def is_rdb_def)
  qed
  have "\<not> is_free (blk_at dev r)" using r(2) by (simp add: is_free_def is_rdb_def)
  with nb i(7) have "r \<notin> set fs" by simp
  moreover have "free_after dev1 (area (blk_at dev r)) 0 = fs"
    using erased_free [OF e(3)] i(7) by (simp add: free_after_def)
  ultimately show ?thesis using e nb by (auto simp: erased_def)
qed

lemma install_main_ok:
  assumes inst: "installable dev N r bs fs" and fresh: "length fresh = 512"
    and slb: "length slb = 492 * k" "0 < k" and k: "k < length fs"
    and buf: "length fresh_slb = length slb"
  shows "\<exists>dev'. install_main 2 (Some (True, dev)) (Some (length slb)) (Some slb) fresh fresh_slb = Some (0, Some dev')
    \<and> length dev' = length dev \<and> disk_ok dev' N
    \<and> is_rdb (blk_at dev' r)
    \<and> boot_chain dev' (long_at (blk_at dev' r) 10) (take k fs) (map (long_at slb) [0..<123 * k])
    \<and> (\<forall>j < 128. j \<notin> {2, 10} \<longrightarrow> long_at (blk_at dev' r) j = long_at (blk_at dev r) j)
    \<and> (\<forall>j \<in> set bs - set (take k fs). long_at (blk_at dev' j) 0 = IDNAME_FREE)
    \<and> (\<forall>j. j \<notin> {r} \<union> set bs \<union> set (take k fs) \<longrightarrow> blk_at dev' j = blk_at dev j)"
proof -
  let ?R = "blk_at dev r"
  from inst have i: "disk_ok dev N" "RDB_LOCATION_LIMIT \<le> N" "find_rdb_block dev = Some r"
    "3 \<le> summed_longs ?R" "area ?R < N" by (auto simp: installable_def)
  note r = find_rdb_ok [OF i(1-3) fresh]
  have lenR: "length ?R = 512" using i(1) r(2) by (rule length_blk_at)
  from installable_erase [OF inst fresh] obtain dev1 where e: "erase_slb dev ?R fresh = Some dev1"
    "disk_ok dev1 N" "erased dev bs dev1" "r \<notin> set bs" "r \<notin> set fs"
    and free: "free_after dev1 (area ?R) 0 = fs" by auto
  obtain f fs' where fs: "fs = f # fs'" using k by (cases fs) auto
  from install_slb_ok [OF e(2) i(5) lenR fresh free [unfolded fs] slb(2) _ slb(1)] k fs obtain rdb' dev2 where
    s: "install_slb dev1 ?R slb (of_nat (length slb div 4)) fresh = Some (rdb', dev2)"
      "length rdb' = 512" "\<forall>j < 128. long_at rdb' j = (if j = 10 then of_nat f else long_at ?R j)"
      "disk_ok dev2 N" "boot_chain dev2 (of_nat f) (take k fs) (map (long_at slb) [0..<123 * k])"
      "\<forall>j. j \<notin> set (take k fs) \<longrightarrow> blk_at dev2 j = blk_at dev1 j" by auto
  have sl: "summed_longs rdb' = summed_longs ?R" using s(3) by (simp add: summed_longs_def)
  moreover have "summed_longs ?R \<le> 128" using i(1) r(2) by (simp add: disk_ok_def)
  ultimately obtain c where c: "calculate_checksum rdb' = Some c" "length c = 512" "zero_sum c"
    "\<forall>j < 128. j \<noteq> 2 \<longrightarrow> long_at c j = long_at rdb' j"
    using calculate_checksum_ok [OF s(2)] i(4) by auto
  have slc: "summed_longs c \<le> 128" using c(4) sl \<open>summed_longs ?R \<le> 128\<close> by (simp add: summed_longs_def)
  let ?dev = "write_block dev2 c (of_nat r)"
  note blks = write_block_ok(2) [OF s(4) r(2) c(2)]
  have R: "blk_at ?dev r = c" by (simp add: blks)
  have "install_main 2 (Some (True, dev)) (Some (length slb)) (Some slb) fresh fresh_slb = Some (0, Some ?dev)"
    using r(1) e(1) s(1) c(1) buf by (simp add: install_main_def fread_def)
  moreover have "disk_ok ?dev N" using disk_ok_write [OF s(4) r(2) c(2) slc] .
  moreover have "is_rdb c" using r(3) c(3,4) s(3) by (simp add: is_rdb_def)
  moreover have "boot_chain ?dev (long_at c 10) (take k fs) (map (long_at slb) [0..<123 * k])"
  proof -
    have "long_at c 10 = of_nat f" using c(4) s(3) by simp
    moreover have "boot_chain ?dev (of_nat f) (take k fs) (map (long_at slb) [0..<123 * k])"
      using s(5) by (rule boot_chain_cong) (use e(5) in \<open>auto simp: blks dest: in_set_takeD\<close>)
    ultimately show ?thesis by simp
  qed
  moreover have "\<forall>j. j \<notin> {r} \<union> set bs \<union> set (take k fs) \<longrightarrow> blk_at ?dev j = blk_at dev j"
    using s(6) e(3) by (auto simp: blks erased_def)
  moreover have "\<forall>j \<in> set bs - set (take k fs). long_at (blk_at ?dev j) 0 = IDNAME_FREE"
    using s(6) e(3,4) by (auto simp: blks erased_def)
  moreover have "length ?dev = length dev"
  proof (rule same_length)
    show "512 * N \<le> length ?dev" using \<open>disk_ok ?dev N\<close> by (simp add: disk_ok_def)
    show "512 * N \<le> length dev" using i(1) by (simp add: disk_ok_def)
    show "\<forall>j \<ge> N. blk_at ?dev j = blk_at dev j"
    proof (intro allI impI)
      fix j assume "N \<le> j"
      moreover have "set bs \<subseteq> {..<N}" "set fs \<subseteq> {..<N}" using inst by (auto simp: installable_def)
      ultimately have "j \<notin> {r} \<union> set bs \<union> set (take k fs)" using r(2) by (auto dest: in_set_takeD)
      then show "blk_at ?dev j = blk_at dev j"
        using \<open>\<forall>j. j \<notin> {r} \<union> set bs \<union> set (take k fs) \<longrightarrow> blk_at ?dev j = blk_at dev j\<close> by blast
    qed
  qed
  ultimately show ?thesis using c(4) s(3) by (intro exI [of _ ?dev]) (simp add: R)
qed

lemma install_main_overread:
  assumes inst: "installable dev N r bs fs" and fresh: "length fresh = 512"
    and slb: "492 * k + 4 \<le> length slb" "length slb < 492 * (k + 1)" and k: "k + 1 < length fs"
    and buf: "length fresh_slb = length slb"
  shows "install_main 2 (Some (True, dev)) (Some (length slb)) (Some slb) fresh fresh_slb = None"
proof -
  let ?R = "blk_at dev r"
  let ?n = "length slb div 4"
  from inst have i: "disk_ok dev N" "RDB_LOCATION_LIMIT \<le> N" "find_rdb_block dev = Some r" "area ?R < N"
    by (auto simp: installable_def)
  note r = find_rdb_ok [OF i(1-3) fresh]
  have lenR: "length ?R = 512" using i(1) r(2) by (rule length_blk_at)
  from installable_erase [OF inst fresh] obtain dev1 where e: "erase_slb dev ?R fresh = Some dev1"
    "disk_ok dev1 N" and free: "free_after dev1 (area ?R) 0 = fs" by auto
  obtain f fs' where fs: "fs = f # fs'" using k by (cases fs) auto
  note f = free_after_Cons [OF free [unfolded fs]]
  have "length fs' \<le> area ?R - f"
    using length_filter_le [of "\<lambda>j. is_free (blk_at dev1 j)" "[Suc f..<Suc (area ?R)]"] f(3)
    by (simp add: free_after_def del: upt_Suc)
  moreover have "N \<le> 4194304" using i(1) by (simp add: disk_ok_def)
  ultimately have "k \<le> 4194304" using k i(4) fs by simp
  then have n: "?n < 2 ^ 31" "0 < ?n" "0 + 123 * (k + 1) < ?n + 123" "?n \<le> 0 + 123 * (k + 1)"
    "length slb < 4 * (0 + 123 * (k + 1))" using slb by auto
  have m: "k + 1 \<le> length fs'" using k fs by simp
  from install_overread [OF e(2) i(4) f(2,3) m n(2,3,4,1,5) fresh fresh]
  have "install_slb dev1 ?R slb (of_nat ?n) fresh = None"
    using install_slb_start [OF e(2) i(4) lenR fresh free [unfolded fs], of slb "of_nat ?n"] by auto
  then show ?thesis using r(1) e(1) buf by (simp add: install_main_def fread_def)
qed

text \<open>The search starts before it looks at its limit, so past the area it takes the next block.\<close>

lemma next_free_beyond:
  assumes "512 * (b + 2) \<le> length dev" and small: "b + 2 \<le> 2 ^ 22" and "summed_longs (blk_at dev (Suc b)) \<le> 128"
    and len: "length fresh = 512" and b: "nb \<le> b"
  shows "next_free_block dev (of_nat b) (of_nat nb) fresh
    = Some (if is_free (blk_at dev (Suc b)) then Some (of_nat (Suc b)) else None, of_nat (Suc b))"
proof -
  let ?B = "blk_at dev (Suc b)"
  have ok: "block_ok ?B" using assms(1,3) by (simp add: block_ok_def blk_at_def)
  have lt: "Suc b < 2 ^ 22" "nb < 2 ^ 22" using b small by simp_all
  have rd: "read_block dev fresh (of_nat b + 1) = Some (?B, zero_sum ?B)"
    using read_one_block [OF ok lt(1) len] by (simp add: add.commute)
  have lim: "\<not> (of_nat b + 1 :: u32) < of_nat nb"
    using unat_block [OF lt(1)] unat_block [OF lt(2)] b by (simp add: word_less_nat_alt add.commute)
  have nn: "0 \<le> sint (of_nat b + 1 :: u32)" using sint_block [OF lt(1)] by (simp add: add.commute)
  have fr: "IS_FREE ?B = Some (is_free ?B)" using ok by (rule IS_FREE_eq)
  show ?thesis
    unfolding next_free_block_def
    using rd fr lim nn by (intro loop_exit) (simp add: next_free_step_def Let_def add.commute)
qed

end
