(* ===== verification/Samples.thy ===== *)
theory Samples
  imports Install
begin

text \<open>
  Concrete blocks, disks and a trivial U-Boot: the inputs at which the properties with hypotheses are
  instantiated. \<open>block_of\<close> lays out a disk block from its longs, \<open>sample_context\<close> is a table of
  callbacks that do nothing, over an arbitrary world.
\<close>

subsection \<open>Blocks from their longs\<close>

lemma take_drop_concat:
  assumes "\<forall>x \<in> set xss. length x = n" and "i < length xss"
  shows "take n (drop (n * i) (concat xss)) = xss ! i"
  using assms
proof (induction xss arbitrary: i)
  case (Cons x xss)
  then show ?case by (cases i) simp_all
qed simp

lemma length_concat_const: "\<forall>x \<in> set xss. length x = n \<Longrightarrow> length (concat xss) = n * length xss"
  by (induction xss) simp_all

definition block_of :: "(nat \<Rightarrow> u32) \<Rightarrow> byte list" where
  "block_of f = concat (map (\<lambda>i. split32 (f i)) [0..<128])"

lemma length_block_of [simp]: "length (block_of f) = 512"
  unfolding block_of_def by (subst length_concat_const [where n = 4]) simp_all

lemma slice_block_of: "j < 128 \<Longrightarrow> slice (block_of f) (4 * j) 4 = Some (split32 (f j))"
  using take_drop_concat [of "map (\<lambda>i. split32 (f i)) [0..<128]" 4 j] length_block_of [of f]
  by (simp add: slice_def block_of_def)

lemma long_at_block_of [simp]:
  assumes "j < 128" shows "long_at (block_of f) j = f j"
proof -
  have "be32 (block_of f) (4 * j) = Some (f j)" using slice_block_of [OF assms] by (rule be32_slice)
  moreover have "4 * j + 4 \<le> length (block_of f)" using assms by simp
  ultimately show ?thesis using be32_long_at [of j "block_of f"] by simp
qed

lemma drop_block_of:
  assumes "j < 128"
  shows "drop (4 * j) (block_of f) = split32 (f j) @ drop (4 * Suc j) (block_of f)"
proof -
  have "take 4 (drop (4 * j) (block_of f)) = split32 (f j)"
    using slice_block_of [OF assms, of f] assms by (simp add: slice_def)
  then show ?thesis
    by (metis append_take_drop_id drop_drop add.commute mult_Suc_right)
qed

lemma summed_block_of [simp]: "summed_longs (block_of f) = unat (f 1)"
  using long_at_block_of [of 1 f] by (simp add: summed_longs_def)

lemma zero_sum_block_of:
  assumes "f 1 = 3" and "f 0 + 3 + f 2 = 0"
  shows "zero_sum (block_of f)"
proof -
  have "unat (f 1) = 3" using assms(1) by simp
  moreover have "{..<3 :: nat} = {0, 1, 2}" by auto
  ultimately show ?thesis using assms by (simp only: zero_sum_def summed_block_of) (simp add: algebra_simps)
qed

lemma block_ok_block_of: "unat (f 1) \<le> 128 \<Longrightarrow> block_ok (block_of f)"
  by (simp add: block_ok_def)

text \<open>A block of the given type with the given contents, whose checksum covers three longs.\<close>

definition typed_block :: "u32 \<Rightarrow> (nat \<Rightarrow> u32) \<Rightarrow> byte list" where
  "typed_block i f = block_of (f(0 := i, 1 := 3, 2 := - (i + 3)))"

lemma typed_block_simps [simp]:
  "length (typed_block i f) = 512" "long_at (typed_block i f) 0 = i" "zero_sum (typed_block i f)"
  "summed_longs (typed_block i f) = 3" "block_ok (typed_block i f)"
  by (simp_all add: typed_block_def zero_sum_block_of block_ok_block_of)

lemma long_at_typed_block [simp]: "3 \<le> j \<Longrightarrow> j < 128 \<Longrightarrow> long_at (typed_block i f) j = f j"
  by (simp add: typed_block_def)

subsection \<open>An RDB disk\<close>

definition sample_rdb :: "byte list" where
  "sample_rdb = typed_block IDNAME_RIGIDDISK
     ((\<lambda>_. 0)(4 := 512, 7 := 1, 10 := IDNAME_FREE, 33 := 4))"

definition sample_part :: "u32 \<Rightarrow> byte list" where
  "sample_part next_block = typed_block IDNAME_PARTITION
     ((\<lambda>_. 0)(4 := next_block, 9 := 0x03444830, 35 := 1, 37 := 1, 41 := 2, 42 := 9))"

lemma drive_name_sample: "drive_name (sample_part n) = [3, 0x44, 0x48, 0x30]"
proof -
  let ?f = "((\<lambda>_. 0)(4 := n, 9 := 0x03444830, 35 := 1, 37 := 1, 41 := 2, 42 := 9))
    (0 := IDNAME_PARTITION, 1 := 3, 2 := - (IDNAME_PARTITION + 3)) :: nat \<Rightarrow> u32"
  have "drop 36 (block_of ?f) = split32 (?f 9) @ split32 (?f 10) @ drop 44 (block_of ?f)"
    using drop_block_of [of 9 ?f] drop_block_of [of 10 ?f] by simp
  then show ?thesis
    by (simp add: drive_name_def pb_DriveName_def sample_part_def typed_block_def split32_def)
qed

lemma sample_part_ok: "block_ok (sample_part n)" "name_ok (sample_part n)" "zero_sum (sample_part n)"
  "is_part (sample_part n)" "long_at (sample_part n) 4 = n"
  by (simp_all add: name_ok_def drive_name_sample) (simp_all add: sample_part_def is_part_def)

definition sample_disk :: "u32 \<Rightarrow> byte list option" where
  "sample_disk b = (if b = 0 then Some sample_rdb else if b = 1 then Some (sample_part IDNAME_FREE) else None)"

lemma sample_boot_disk: "boot_disk sample_disk sample_rdb [sample_part IDNAME_FREE]"
proof -
  have "long_at sample_rdb 7 = 1" by (simp add: sample_rdb_def)
  moreover have "chain sample_disk 1 [sample_part IDNAME_FREE]"
    using chain.chain_free [of sample_disk]
    by (intro chain.chain_part) (simp_all add: sample_disk_def sample_part_ok)
  moreover have "is_rdb sample_rdb" "block_ok sample_rdb" by (simp_all add: sample_rdb_def is_rdb_def)
  moreover have "find (\<lambda>i. \<exists>b. sample_disk (of_nat i) = Some b \<and> is_rdb b) [0..<RDB_LOCATION_LIMIT] = Some 0"
    using \<open>is_rdb sample_rdb\<close> by (simp add: sample_disk_def upt_conv_Cons [of 0 16])
  ultimately have "has_rdb sample_disk sample_rdb"
    by (auto simp: has_rdb_def sample_disk_def sample_part_ok split: if_splits)
  then show ?thesis
    using \<open>long_at sample_rdb 7 = 1\<close> \<open>chain sample_disk 1 [sample_part IDNAME_FREE]\<close>
    by (simp add: boot_disk_def sample_part_ok)
qed

subsection \<open>A trivial U-Boot\<close>

definition sample_dev :: "(u32 \<Rightarrow> byte list option) \<Rightarrow> byte \<Rightarrow> 'w block_dev_desc" where
  "sample_dev disk type' =
     \<lparr>bd_if_type = 0, bd_dev = 0, bd_part_type = 0, bd_target = 0, bd_lun = 0, bd_type = type',
      bd_removable = 0, bd_lba48 = 0, bd_lba = 0, bd_blksz = 512, bd_vendor = [], bd_product = [],
      bd_revision = [],
      bd_block_read = (\<lambda>_ start _ buffer w.
        case disk start of Some blk \<Rightarrow> ((1, blk), w) | None \<Rightarrow> ((0, buffer), w)),
      bd_block_write = (\<lambda>_ _ _ _ w. (0, w))\<rparr>"

lemma sample_reads_from: "reads_from (sample_dev disk t) disk"
  by (simp add: reads_from_def block_read_def sample_dev_def split: option.splits)

definition sample_context :: "'w context_t" where
  "sample_context =
     \<lparr>c_getc = (\<lambda>w. (0, w)), c_curr_device = None, c_start_unit_scan = (\<lambda>_ w. ((None, 512), w)),
      c_next_unit_scan = (\<lambda>_ w. ((None, 512), w)), c_open_specific_unit = (\<lambda>_ w. (0, w)),
      c_end_unit_scan = (\<lambda>_ w. w), c_end_global_scan = (\<lambda>w. w),
      c_loadsector = (\<lambda>_ _ _ buf w. ((0, buf), w)), c_my_netloop = (\<lambda>_ buf w. ((-1, buf), w)),
      c_getenv = (\<lambda>_ _. Some ''vga''), c_setenv = (\<lambda>_ _ w. w),
      c_alloc_mem_for_anythingelse = (\<lambda>n w. (replicate (nat n) 0, w)), c_video_clear = (\<lambda>w. w),
      c_video_draw_box = (\<lambda>_ _ _ _ _ _ _ _ w. w), c_video_draw_text = (\<lambda>_ _ _ _ _ w. w),
      c_video_repeat_char = (\<lambda>_ _ _ _ _ w. w), c_set_partial_scroll_limits = (\<lambda>_ _ w. (0, w)),
      c_video_get_key = (\<lambda>w. (0, w)), c_do_bootm = (\<lambda>_ _ w. (0, w)), c_tstc = (\<lambda>w. (0, w)),
      c_udelay = (\<lambda>_ w. w), c_ext2fs_set_blk_dev_full = (\<lambda>_ _ w. (0, w)), c_ext2fs_open = (\<lambda>_ w. (-1, w)),
      c_ext2fs_read = (\<lambda>buf _ w. ((0, buf), w)), c_ext2fs_mount = (\<lambda>_ w. (0, w)), c_ext2fs_close = (\<lambda>w. w),
      c_bootu = (\<lambda>_ w. (0, w))\<rparr>"

lemma sample_alloc_ok: "alloc_ok (sample_context\<lparr>c_start_unit_scan := f\<rparr>)"
  by (simp add: alloc_ok_def malloc_def sample_context_def)

text \<open>A machine whose unit scan finds just the given unit.\<close>

definition sample_machine :: "'w block_dev_desc \<Rightarrow> 'w context_t" where
  "sample_machine dev = sample_context\<lparr>c_start_unit_scan := (\<lambda>_ w. ((Some \<lparr>ush_device = dev\<rparr>, 512), w))\<rparr>"

lemma sample_machine_alloc: "alloc_ok (sample_machine dev)"
  unfolding sample_machine_def by (rule sample_alloc_ok)

lemma sample_scan:
  "start_unit_scan (sample_machine dev) get_scan_list w = ((Some \<lparr>ush_device = dev\<rparr>, 512), w)"
  "scanned (sample_machine dev) (Some \<lparr>ush_device = dev\<rparr>) w [\<lparr>ush_device = dev\<rparr>]"
  using scan_unit [OF _ scan_end, of "sample_machine dev" "\<lparr>ush_device = dev\<rparr>" w 512]
  by (simp_all add: start_unit_scan_def sample_machine_def next_unit_scan_def sample_context_def)

subsection \<open>A disk for the installer\<close>

text \<open>Sixteen blocks, and behind them data that are no blocks with a checksum.\<close>

definition sample_device :: "byte list" where
  "sample_device = concat (sample_rdb # replicate 15 (block_of (\<lambda>_. 0))) @ replicate 1024 0xFF"

lemma length_sample_device: "length sample_device = 512 * 18"
  unfolding sample_device_def length_append
  by (subst length_concat_const [where n = 512]) (auto simp: sample_rdb_def)

lemma blk_at_sample:
  assumes "i < 16"
  shows "blk_at sample_device i = (if i = 0 then sample_rdb else block_of (\<lambda>_. 0))"
proof -
  let ?bs = "sample_rdb # replicate 15 (block_of (\<lambda>_. 0))"
  have len: "\<forall>x \<in> set ?bs. length x = 512" by (auto simp: sample_rdb_def)
  have "length (concat ?bs) = 512 * length ?bs" using len by (rule length_concat_const)
  with assms have "blk_at sample_device i = take 512 (drop (512 * i) (concat ?bs))"
    by (simp add: blk_at_def sample_device_def del: concat.simps)
  also have "\<dots> = ?bs ! i" using len assms by (intro take_drop_concat) simp_all
  finally show ?thesis using assms by (simp add: nth_Cons split: nat.splits)
qed

lemma sample_installable: "installable sample_device 16 0 [] [1, 2, 3, 4]"
proof -
  have rdb: "is_rdb sample_rdb" "area sample_rdb = 4" "long_at sample_rdb 10 = IDNAME_FREE"
    "summed_longs sample_rdb = 3"
    by (simp_all add: sample_rdb_def is_rdb_def area_def)
  have "find_rdb_block sample_device = Some 0"
    using rdb by (simp add: find_rdb_block_def upt_conv_Cons [of 0 16] blk_at_sample)
  moreover have "disk_ok sample_device 16" using rdb by (simp add: disk_ok_def blk_at_sample length_sample_device)
  moreover have "boot_chain sample_device IDNAME_FREE [] []" by (rule boot_end)
  moreover have "[1, 2, 3, 4] = filter (\<lambda>j. j \<in> set [] \<or> is_free (blk_at sample_device j)) [1..<Suc 4]"
    by (simp add: upt_rec_numeral upt_conv_Cons [of "Suc 0" 5] blk_at_sample is_free_def numeral_2_eq_2 [symmetric])
  ultimately show ?thesis using rdb by (auto simp: installable_def blk_at_sample simp del: filter.simps)
qed

end
