(* ===== verification/Sfs.thy ===== *)
theory Sfs
  imports Rdb
begin

text \<open>
  The Smart File System reader of \<open>src/src/sfs.c\<close> and \<open>src/src/sfs.h\<close>. A pointer into a buffer that is
  only read (\<open>struct SfsObject *\<close>, \<open>struct BNode *\<close>) is the rest of the buffer from there on, so a read
  past the buffer faults; fields are big-endian words at the offsets of the C structs. File names are
  strings without their terminator.
\<close>

abbreviation (input) SRB_ID :: u32 where "SRB_ID \<equiv> 0x53465300"
abbreviation (input) SOC_ID :: u32 where "SOC_ID \<equiv> 0x4F424A43"
abbreviation (input) OTYPE_DIR :: byte where "OTYPE_DIR \<equiv> 128"

subsection \<open>Block layouts\<close>

definition sbh_id :: "byte list \<Rightarrow> u32 option" where "sbh_id b = be32 b 0"

definition srb_blocksize :: "byte list \<Rightarrow> u32 option" where "srb_blocksize b = be32 b 52"
definition srb_rootobjectcontainer :: "byte list \<Rightarrow> u32 option" where "srb_rootobjectcontainer b = be32 b 104"
definition srb_extentbnoderoot :: "byte list \<Rightarrow> u32 option" where "srb_extentbnoderoot b = be32 b 108"

definition so_objectnode :: "byte list \<Rightarrow> u32 option" where "so_objectnode o' = be32 o' 4"
definition so_data :: "byte list \<Rightarrow> u32 option" where "so_data o' = be32 o' 12"
definition so_size :: "byte list \<Rightarrow> u32 option" where "so_size o' = be32 o' 16"
definition so_firstdirblock :: "byte list \<Rightarrow> u32 option" where "so_firstdirblock o' = be32 o' 16"
definition so_bits :: "byte list \<Rightarrow> byte option" where "so_bits o' = load o' 24"
definition so_name :: "byte list \<Rightarrow> byte list" where "so_name o' = drop 25 o'"

definition soc_next :: "byte list \<Rightarrow> u32 option" where "soc_next b = be32 b 16"
definition soc_object :: "byte list \<Rightarrow> byte list" where "soc_object b = drop 24 b"

definition btc_nodecount :: "byte list \<Rightarrow> u16 option" where "btc_nodecount b = be16 b 12"
definition btc_isleaf :: "byte list \<Rightarrow> byte option" where "btc_isleaf b = load b 14"
definition btc_nodesize :: "byte list \<Rightarrow> byte option" where "btc_nodesize b = load b 15"
definition btc_bnode :: "byte list \<Rightarrow> byte list" where "btc_bnode b = drop 16 b"

definition bnode_key :: "byte list \<Rightarrow> u32 option" where "bnode_key b = be32 b 0"
definition bnode_data :: "byte list \<Rightarrow> u32 option" where "bnode_data b = be32 b 4"

definition sebn_next :: "byte list \<Rightarrow> u32 option" where "sebn_next b = be32 b 4"
definition sebn_blocks :: "byte list \<Rightarrow> u16 option" where "sebn_blocks b = be16 b 12"

record 'w sfs_boot_dev_t =
  sd_partition :: "'w RdbPartition"
  sd_root :: "byte list"
  sd_extentbnoderoot :: u32
  sd_blocksize :: u32

subsection \<open>Reading blocks\<close>

text \<open>
  The checksum field is set to 0 in the buffer, and the longs are added up while the remaining size,
  an unsigned number, is not 0.
\<close>

definition calc_step :: "byte list \<Rightarrow> nat \<times> u32 \<times> u32 \<Rightarrow> (nat \<times> u32 \<times> u32 + u32) option" where
  "calc_step block = (\<lambda>(i, checksum, blocksize).
     if blocksize > 0 then do {
       v \<leftarrow> be32 block (4 * i);
       Some (Inl (i + 1, checksum + v, blocksize - 4))
     } else Some (Inr (- checksum)))"

definition calcchecksum :: "byte list \<Rightarrow> u32 \<Rightarrow> (u32 \<times> byte list) option" where
  "calcchecksum block blocksize = do {
     block \<leftarrow> put32 block 4 0;
     c \<leftarrow> loop (calc_step block) (0, 1, blocksize);
     Some (c, block)
   }"

definition sfs_loadsector ::
    "'w context_t \<Rightarrow> 'w sfs_boot_dev_t \<Rightarrow> u32 \<Rightarrow> byte list \<Rightarrow> 'w \<Rightarrow> (int \<times> byte list) \<times> 'w" where
  "sfs_loadsector ctx self block buffer w =
     (let info = rp_info (sd_partition self)
      in loadsector ctx (dp_start info + block * (sd_blocksize self div 512)) (dp_blksz info)
           (sd_blocksize self div 512) buffer w)"

subsection \<open>Directories\<close>

text \<open>The object after \<open>o\<close> follows its name and its comment, at an even offset.\<close>

fun skip_names :: "byte list \<Rightarrow> nat \<Rightarrow> nat \<Rightarrow> nat option" where
  "skip_names p 0 off = Some off"
| "skip_names [] (Suc i) off = None"
| "skip_names (b # p) (Suc i) off = skip_names p (if b = 0 then i else Suc i) (Suc off)"

definition sfs_nextobject :: "byte list \<Rightarrow> byte list option" where
  "sfs_nextobject o' = do {
     p \<leftarrow> skip_names (so_name o') 2 25;
     Some (drop (if odd p then p + 1 else p) o')
   }"

definition object_step ::
    "string \<Rightarrow> byte \<Rightarrow> byte list \<Rightarrow> (byte list + byte list option) option" where
  "object_step dirname type o' = do {
     objectnode \<leftarrow> so_objectnode o';
     if objectnode > 0 then do {
       d \<leftarrow> strcasecmp (chars (so_name o')) (dirname @ [NUL]);
       bits \<leftarrow> so_bits o';
       if d = 0 \<and> (type = 0 \<or> bits AND type \<noteq> 0) then Some (Inr (Some o'))
       else do { o' \<leftarrow> sfs_nextobject o'; Some (Inl o') }
     } else Some (Inr None)
   }"

definition container_step ::
    "'w context_t \<Rightarrow> 'w sfs_boot_dev_t \<Rightarrow> string \<Rightarrow> byte \<Rightarrow> u32 \<times> byte list \<times> 'w
     \<Rightarrow> (u32 \<times> byte list \<times> 'w + byte list option \<times> 'w) option" where
  "container_step ctx self dirname type = (\<lambda>(next_block, buffer, w).
     if next_block = 0 then Some (Inr (None, w))
     else case sfs_loadsector ctx self next_block buffer w of ((_, buffer), w) \<Rightarrow> do {
       (c, buffer) \<leftarrow> calcchecksum buffer (sd_blocksize self);
       if c = 0 then Some (Inr (None, w))
       else do {
         i \<leftarrow> sbh_id buffer;
         if i \<noteq> SOC_ID then Some (Inr (None, w))
         else do {
           found \<leftarrow> loop (object_step dirname type) (soc_object buffer);
           case found of
             Some o' \<Rightarrow> Some (Inr (Some o', w))
           | None \<Rightarrow> do { next_block \<leftarrow> soc_next buffer; Some (Inl (next_block, buffer, w)) }
         }
       }
     })"

definition sfs_findobject ::
    "'w context_t \<Rightarrow> 'w sfs_boot_dev_t \<Rightarrow> byte list \<Rightarrow> string \<Rightarrow> byte \<Rightarrow> 'w
     \<Rightarrow> (byte list option \<times> 'w) option" where
  "sfs_findobject ctx self cwd dirname type w = do {
     let (buffer, w) = malloc ctx (uint (sd_blocksize self)) w;
     next_block \<leftarrow> so_firstdirblock cwd;
     loop (container_step ctx self dirname type) (next_block, buffer, w)
   }"

text \<open>The path is split at each \<open>/\<close>; every part but the last has to be a directory.\<close>

definition find_step ::
    "'w context_t \<Rightarrow> 'w sfs_boot_dev_t \<Rightarrow> byte list option \<times> string \<times> 'w
     \<Rightarrow> (byte list option \<times> string \<times> 'w + byte list option \<times> string \<times> 'w) option" where
  "find_step ctx self = (\<lambda>(root, filename, w).
     case root of
       None \<Rightarrow> Some (Inr (None, filename, w))
     | Some r \<Rightarrow> do {
         p \<leftarrow> strchr (filename @ [NUL]) CHR ''/'';
         case p of
           None \<Rightarrow> Some (Inr (Some r, filename, w))
         | Some n \<Rightarrow> do {
             let directory = take n filename;
             (root, w) \<leftarrow> sfs_findobject ctx self r directory OTYPE_DIR w;
             Some (Inl (root, drop (length directory + 1) filename, w))
           }
       })"

definition sfs_find ::
    "'w context_t \<Rightarrow> 'w sfs_boot_dev_t \<Rightarrow> string \<Rightarrow> 'w \<Rightarrow> (byte list option \<times> 'w) option" where
  "sfs_find ctx self filename w = do {
     let filename = (if take 1 filename = ''/'' then drop 1 filename else filename);
     let (_, w) = malloc ctx (int (length filename) + 1) w;
     (root, filename, w) \<leftarrow> loop (find_step ctx self) (Some (sd_root self), filename, w);
     case root of
       None \<Rightarrow> Some (None, w)
     | Some root \<Rightarrow> sfs_findobject ctx self root filename 0 w
   }"

subsection \<open>Extents and files\<close>

text \<open>
  The search of a node runs down from the last entry and has no lower end: below entry 0 the 16-bit
  index wraps around.
\<close>

definition bnode_step :: "byte list \<Rightarrow> nat \<Rightarrow> u32 \<Rightarrow> u16 \<Rightarrow> (u16 + byte list) option" where
  "bnode_step bnodes nodesize key i = do {
     let tmp = drop (unat i * nodesize) bnodes;
     k \<leftarrow> bnode_key tmp;
     Some (if k \<le> key then Inr tmp else Inl (i - 1))
   }"

text \<open>
  State: the block number, \<open>bnode\<close> as an offset into the buffer (or NULL), the buffer and the world.
\<close>

definition tree_step ::
    "'w context_t \<Rightarrow> 'w sfs_boot_dev_t \<Rightarrow> u32 \<Rightarrow> u32 \<times> nat option \<times> byte list \<times> 'w
     \<Rightarrow> (u32 \<times> nat option \<times> byte list \<times> 'w + byte list option \<times> 'w) option" where
  "tree_step ctx self key = (\<lambda>(next_block, bnode, buffer, w).
     case sfs_loadsector ctx self next_block buffer w of ((res, buffer), w) \<Rightarrow>
       if res = 0 then Some (Inr (map_option (\<lambda>off. drop off buffer) bnode, w))
       else do {
         (c, buffer) \<leftarrow> calcchecksum buffer (sd_blocksize self);
         if c = 0 then Some (Inr (None, w))
         else do {
           count \<leftarrow> btc_nodecount buffer;
           nodesize \<leftarrow> btc_nodesize buffer;
           b \<leftarrow> loop (bnode_step (btc_bnode buffer) (unat nodesize) key) (count - 1);
           isleaf \<leftarrow> btc_isleaf buffer;
           if isleaf \<noteq> 0 then Some (Inr (Some b, w))
           else do {
             d \<leftarrow> bnode_data b;
             Some (Inl (d, Some (length buffer - length b), buffer, w))
           }
         }
       })"

definition get_bnode ::
    "'w context_t \<Rightarrow> 'w sfs_boot_dev_t \<Rightarrow> u32 \<Rightarrow> 'w \<Rightarrow> (byte list option \<times> 'w) option" where
  "get_bnode ctx self key w = do {
     let (buffer, w) = malloc ctx (uint (sd_blocksize self)) w;
     loop (tree_step ctx self key) (sd_extentbnoderoot self, None, buffer, w)
   }"

text \<open>The blocks of one extent: state \<open>readed\<close>, the file buffer, the block buffer and the world.\<close>

fun extent_loop ::
    "'w context_t \<Rightarrow> 'w sfs_boot_dev_t \<Rightarrow> u32 \<Rightarrow> u32 \<Rightarrow> nat list \<Rightarrow> u32 \<times> byte list \<times> byte list \<times> 'w
     \<Rightarrow> (u32 \<times> byte list \<times> byte list \<times> 'w) option" where
  "extent_loop ctx self next_block fsize [] s = Some s"
| "extent_loop ctx self next_block fsize (i # is) (readed, filebuffer, buffer, w) =
     (case sfs_loadsector ctx self (next_block + of_nat i) buffer w of ((_, buffer), w) \<Rightarrow> do {
        let tocopy = (if fsize - readed \<ge> sd_blocksize self then sd_blocksize self else fsize - readed);
        filebuffer \<leftarrow> memmove filebuffer (unat readed) buffer (unat tocopy);
        extent_loop ctx self next_block fsize is (readed + tocopy, filebuffer, buffer, w)
      })"

definition file_step ::
    "'w context_t \<Rightarrow> 'w sfs_boot_dev_t \<Rightarrow> u32 \<Rightarrow> u32 \<times> u32 \<times> byte list \<times> byte list \<times> 'w
     \<Rightarrow> (u32 \<times> u32 \<times> byte list \<times> byte list \<times> 'w + (int \<times> byte list) \<times> 'w) option" where
  "file_step ctx self fsize = (\<lambda>(next_block, readed, filebuffer, buffer, w).
     if \<not> (next_block \<noteq> 0 \<and> readed < fsize) then Some (Inr ((sint readed, filebuffer), w))
     else do {
       (sebn, w) \<leftarrow> get_bnode ctx self next_block w;
       sebn \<leftarrow> sebn;
       blocks \<leftarrow> sebn_blocks sebn;
       (readed, filebuffer, buffer, w) \<leftarrow>
         extent_loop ctx self next_block fsize [0..<unat blocks] (readed, filebuffer, buffer, w);
       next_block \<leftarrow> sebn_next sebn;
       Some (Inl (next_block, readed, filebuffer, buffer, w))
     })"

definition sfs_loadfile ::
    "'w context_t \<Rightarrow> 'w sfs_boot_dev_t \<Rightarrow> string \<Rightarrow> byte list \<Rightarrow> 'w
     \<Rightarrow> ((int \<times> byte list) \<times> 'w) option" where
  "sfs_loadfile ctx self filename filebuffer w = do {
     (obj, w) \<leftarrow> sfs_find ctx self filename w;
     case obj of
       None \<Rightarrow> Some ((-1, filebuffer), w)
     | Some o' \<Rightarrow> do {
         let (buffer, w) = malloc ctx (uint (sd_blocksize self)) w;
         next_block \<leftarrow> so_data o';
         fsize \<leftarrow> so_size o';
         loop (file_step ctx self fsize) (next_block, 0, filebuffer, buffer, w)
       }
   }"

definition sfs_create ::
    "'w context_t \<Rightarrow> 'w RdbPartition \<Rightarrow> 'w \<Rightarrow> ('w sfs_boot_dev_t option \<times> 'w) option" where
  "sfs_create ctx partition' w = do {
     let (_, w) = malloc ctx 24 w;
     let (buffer, w) = malloc ctx (64 * 512) w;
     let ((_, buffer), w) = loadsector ctx (dp_start (rp_info partition')) (dp_blksz (rp_info partition')) 64 buffer w;
     i \<leftarrow> sbh_id buffer;
     if i \<noteq> SRB_ID then Some (None, w)
     else do {
       extentbnoderoot \<leftarrow> srb_extentbnoderoot buffer;
       blocksize \<leftarrow> srb_blocksize buffer;
       rootobjectcontainer \<leftarrow> srb_rootobjectcontainer buffer;
       let boot = \<lparr>sd_partition = partition', sd_root = [], sd_extentbnoderoot = extentbnoderoot,
                   sd_blocksize = blocksize\<rparr>;
       let ((_, buffer), w) = sfs_loadsector ctx boot rootobjectcontainer buffer w;
       i \<leftarrow> sbh_id buffer;
       if i \<noteq> SOC_ID then Some (None, w)
       else do {
         let (_, w) = malloc ctx 28 w;
         root \<leftarrow> slice (soc_object buffer) 0 28;
         Some (Some (boot\<lparr>sd_root := root\<rparr>), w)
       }
     }
   }"

end
