(* ===== verification/Sfs_Dirs.thy ===== *)
theory Sfs_Dirs
  imports Sfs
begin

text \<open>
  What the SFS reader finds, for a file system whose blocks do not change: \<open>fs\<close> gives the blocks that
  can be read. Objects are described by their bytes (25 bytes of fixed fields, name, comment, padding),
  directories by the chain of their object containers, paths by the directories they go through.
\<close>

subsection \<open>Blocks and checksums\<close>

definition sfs_reads :: "'w context_t \<Rightarrow> 'w sfs_boot_dev_t \<Rightarrow> (u32 \<Rightarrow> byte list option) \<Rightarrow> bool" where
  "sfs_reads ctx self fs \<longleftrightarrow>
     (\<forall>b buf w. sfs_loadsector ctx self b buf w
        = (case fs b of Some blk \<Rightarrow> ((1, blk), w) | None \<Rightarrow> ((0, buf), w)))
     \<and> (\<forall>b blk. fs b = Some blk \<longrightarrow> length blk = unat (sd_blocksize self))
     \<and> (\<exists>k \<ge> 8. unat (sd_blocksize self) = 4 * k)"

lemma sfs_readsD:
  assumes "sfs_reads ctx self fs"
  shows "sfs_loadsector ctx self b buf w = (case fs b of Some blk \<Rightarrow> ((1, blk), w) | None \<Rightarrow> ((0, buf), w))"
    and "fs b = Some blk \<Longrightarrow> length blk = unat (sd_blocksize self)"
    and "\<exists>k \<ge> 8. unat (sd_blocksize self) = 4 * k"
  using assms by (simp_all add: sfs_reads_def)

text \<open>The block with its checksum field cleared, and the code's criterion for a good one.\<close>

definition cleared :: "byte list \<Rightarrow> byte list" where
  "cleared blk = take 4 blk @ [0, 0, 0, 0] @ drop 8 blk"

definition sfs_good :: "byte list \<Rightarrow> bool" where
  "sfs_good blk \<longleftrightarrow> 1 + sum (long_at (cleared blk)) {..<length blk div 4} \<noteq> 0"

lemma put32_cleared: "8 \<le> length blk \<Longrightarrow> put32 blk 4 0 = Some (cleared blk)"
  by (simp add: put32_def blit_def cleared_def split32_def)

lemma length_cleared: "8 \<le> length blk \<Longrightarrow> length (cleared blk) = length blk"
  by (simp add: cleared_def)

lemma drop_cleared: "8 \<le> n \<Longrightarrow> 8 \<le> length blk \<Longrightarrow> drop n (cleared blk) = drop n blk"
  by (simp add: cleared_def drop_Cons' min_def)

lemma be32_drop: "be32 (drop i m) j = be32 m (i + j)"
  by (auto simp: be32_def add.assoc)

lemma be32_cleared:
  assumes "8 \<le> length blk" and "i = 0 \<or> 8 \<le> i"
  shows "be32 (cleared blk) i = be32 blk i"
proof (cases "i = 0")
  case False
  then show ?thesis using assms be32_drop [of 8 "cleared blk" "i - 8"] be32_drop [of 8 blk "i - 8"]
    by (simp add: drop_cleared)
qed (use assms in \<open>simp add: be32_def cleared_def nth_append\<close>)

lemma calc_loop:
  assumes "length blk = 4 * k" and "i \<le> k" and "4 * k < 2 ^ 32"
  shows "loop (calc_step blk) (i, s, of_nat (4 * (k - i))) = Some (- (s + sum (long_at blk) {i..<k}))"
  using assms(2)
proof (induction "k - i" arbitrary: i s)
  case 0
  then have "i = k" by simp
  then show ?case by (intro loop_exit [THEN trans]) (simp_all add: calc_step_def)
next
  case (Suc n)
  then have i: "i < k" by simp
  have u: "unat (of_nat (4 * (k - i)) :: u32) = 4 * (k - i)"
    unfolding unat_of_nat using assms(3) by simp
  then have pos: "(0 :: u32) < of_nat (4 * (k - i))" using i by (simp add: word_less_nat_alt)
  have "of_nat (4 * (k - i)) - (4 :: u32) = of_nat (4 * (k - Suc i))"
    using i by (simp add: algebra_simps Suc_diff_Suc [symmetric])
  then have "loop (calc_step blk) (i, s, of_nat (4 * (k - i)))
      = loop (calc_step blk) (Suc i, s + long_at blk i, of_nat (4 * (k - Suc i)))"
    using pos i assms(1) by (intro loop_continue) (simp add: calc_step_def be32_long_at)
  also have "\<dots> = Some (- (s + long_at blk i + sum (long_at blk) {Suc i..<k}))"
    using Suc.hyps(2) i by (intro Suc.hyps(1)) (simp_all add: Suc_diff_Suc)
  also have "s + long_at blk i + sum (long_at blk) {Suc i..<k} = s + sum (long_at blk) {i..<k}"
    using i by (simp add: sum.atLeast_Suc_lessThan)
  finally show ?case .
qed

lemma calcchecksum_eq:
  assumes "sfs_reads ctx self fs" and "fs b = Some blk"
  shows "\<exists>c. calcchecksum blk (sd_blocksize self) = Some (c, cleared blk) \<and> (c = 0 \<longleftrightarrow> \<not> sfs_good blk)"
proof -
  from sfs_readsD(3) [OF assms(1)] obtain k where k: "8 \<le> k" "unat (sd_blocksize self) = 4 * k" by blast
  have len: "length blk = 4 * k" using sfs_readsD(2) [OF assms] k by simp
  have bs: "sd_blocksize self = of_nat (4 * (k - 0))" unfolding k(2) [symmetric] minus_nat.diff_0 by simp
  have "unat (sd_blocksize self) < 2 ^ LENGTH(32)" by (rule unsigned_less)
  then have lim: "4 * k < 2 ^ 32" using k(2) by simp
  have lc: "length (cleared blk) = 4 * k" using len k(1) by (simp add: length_cleared)
  have "calcchecksum blk (sd_blocksize self) = Some (- (1 + sum (long_at (cleared blk)) {0..<k}), cleared blk)"
    unfolding calcchecksum_def bs using put32_cleared [of blk] len k(1) calc_loop [OF lc _ lim, of 0 1] by simp
  moreover have "- (1 + sum (long_at (cleared blk)) {0..<k}) = 0 \<longleftrightarrow> \<not> sfs_good blk"
    unfolding sfs_good_def neg_equal_0_iff_equal using len by (simp add: atLeast0LessThan)
  ultimately show ?thesis by blast
qed

subsection \<open>Objects\<close>

text \<open>The fixed fields up to \<open>bits\<close>, the name and the comment; neither contains a 0.\<close>

record sfs_object =
  ob_fixed :: "byte list"
  ob_name :: "byte list"
  ob_comment :: "byte list"

definition object_ok :: "sfs_object \<Rightarrow> bool" where
  "object_ok ob \<longleftrightarrow> length (ob_fixed ob) = 25 \<and> 0 \<notin> set (ob_name ob) \<and> 0 \<notin> set (ob_comment ob)
     \<and> be32 (ob_fixed ob) 4 \<noteq> Some 0"

definition object_bytes :: "sfs_object \<Rightarrow> byte list" where
  "object_bytes ob =
     (let s = ob_fixed ob @ ob_name ob @ 0 # ob_comment ob @ [0] in if odd (length s) then s @ [0] else s)"

text \<open>The end of a container: an object whose node number is 0.\<close>

definition container_end :: "byte list \<Rightarrow> bool" where
  "container_end t \<longleftrightarrow> be32 t 4 = Some 0"

lemma skip_names_one:
  "0 \<notin> set s \<Longrightarrow> skip_names (s @ 0 # r) (Suc i) off = skip_names r i (off + length s + 1)"
  by (induction s arbitrary: off) auto

lemma object_bytes_pad:
  assumes "length (ob_fixed ob) = 25"
  shows "\<exists>pad. object_bytes ob = ob_fixed ob @ ob_name ob @ 0 # ob_comment ob @ 0 # pad
    \<and> length pad = (if odd (25 + length (ob_name ob) + 1 + length (ob_comment ob) + 1) then 1 else 0)"
  using assms
  by (intro exI [of _ "if odd (25 + length (ob_name ob) + 1 + length (ob_comment ob) + 1) then [0] else []"])
    (simp add: object_bytes_def Let_def)

lemma nextobject_eq:
  assumes "object_ok ob"
  shows "sfs_nextobject (object_bytes ob @ rest) = Some rest"
proof -
  let ?n = "25 + length (ob_name ob) + 1 + length (ob_comment ob) + 1"
  have len: "length (ob_fixed ob) = 25" using assms by (simp add: object_ok_def)
  obtain pad where pad: "object_bytes ob = ob_fixed ob @ ob_name ob @ 0 # ob_comment ob @ 0 # pad"
    "length pad = (if odd ?n then 1 else 0)"
    using object_bytes_pad [OF len] by blast
  have "so_name (object_bytes ob @ rest) = ob_name ob @ 0 # ob_comment ob @ 0 # pad @ rest"
    using len by (simp add: so_name_def pad)
  then have "skip_names (so_name (object_bytes ob @ rest)) 2 25 = Some ?n"
    using assms by (simp add: object_ok_def numeral_2_eq_2 skip_names_one)
  moreover have "length (object_bytes ob) = (if odd ?n then ?n + 1 else ?n)"
    using len pad by (simp split: if_splits)
  ultimately show ?thesis by (simp add: sfs_nextobject_def split: if_splits)
qed

definition object_matches :: "string \<Rightarrow> byte \<Rightarrow> sfs_object \<Rightarrow> bool" where
  "object_matches name type ob \<longleftrightarrow>
     map tolower (chars (ob_name ob)) = map tolower name
     \<and> (type = 0 \<or> (ob_fixed ob ! 24) AND type \<noteq> 0)"

lemma chars_0_iff: "NUL \<in> set (chars bs) \<longleftrightarrow> 0 \<in> set bs"
proof -
  have "char_of (unat b) = NUL \<longleftrightarrow> b = 0" for b :: byte
  proof
    assume "char_of (unat b) = NUL"
    then have "(of_char (char_of (unat b)) :: nat) = of_char NUL" by simp
    then have "unat b mod 256 = 0" by simp
    moreover have "unat b < 2 ^ LENGTH(8)" by (rule unsigned_less)
    ultimately show "b = 0" by (simp add: unsigned_eq_0_iff)
  qed (simp add: char_of_def)
  then show ?thesis unfolding chars_def by (induction bs) (simp_all add: eq_commute [of NUL])
qed

lemma object_step_eq:
  assumes ob: "object_ok ob" and name: "NUL \<notin> set name"
  shows "object_step name type (object_bytes ob @ rest)
    = Some (if object_matches name type ob then Inr (Some (object_bytes ob @ rest)) else Inl rest)"
proof -
  let ?o = "object_bytes ob @ rest"
  have len: "length (ob_fixed ob) = 25" using ob by (simp add: object_ok_def)
  obtain r where r: "?o = ob_fixed ob @ ob_name ob @ 0 # r" using object_bytes_pad [OF len] by auto
  have "so_objectnode ?o = be32 (ob_fixed ob) 4"
    unfolding r using len by (simp add: so_objectnode_def be32_def nth_append)
  moreover obtain v where v: "be32 (ob_fixed ob) 4 = Some v" "v \<noteq> 0"
    using ob len by (cases "be32 (ob_fixed ob) 4") (auto simp: object_ok_def be32_def)
  moreover have bits: "so_bits ?o = Some (ob_fixed ob ! 24)"
    unfolding r using len by (simp add: so_bits_def load_def nth_append)
  moreover have nm: "chars (so_name ?o) = chars (ob_name ob) @ NUL # chars r"
    unfolding r using len by (simp add: so_name_def chars_def char_of_def)
  have nul: "NUL \<notin> set (chars (ob_name ob))" using ob by (simp add: chars_0_iff object_ok_def)
  have "terminated (chars (so_name ?o))" "cstr (chars (so_name ?o)) = chars (ob_name ob)"
    using nul by (simp_all add: nm cstr_append_NUL)
  with strcasecmp_cstr [of "chars (so_name ?o)" "name @ [NUL]"] name obtain d where
    "strcasecmp (chars (so_name ?o)) (name @ [NUL]) = Some d"
    "d = 0 \<longleftrightarrow> map tolower (chars (ob_name ob)) = map tolower name"
    by (auto simp: cstr_append_NUL)
  ultimately show ?thesis
    using nextobject_eq [OF ob, of rest] by (auto simp: object_step_def object_matches_def word_greater_zero_iff)
qed

lemma object_loop_eq:
  assumes "\<forall>ob \<in> set obs. object_ok ob" and "NUL \<notin> set name" and "container_end t"
  shows "\<exists>rest. loop (object_step name type) (concat (map object_bytes obs) @ t)
    = Some (map_option (\<lambda>ob. object_bytes ob @ rest) (find (object_matches name type) obs))"
  using assms(1)
proof (induction obs)
  case Nil
  have "loop (object_step name type) t = Some None"
    using assms(3) by (intro loop_exit) (simp add: object_step_def container_end_def so_objectnode_def)
  then show ?case by simp
next
  case (Cons ob obs)
  let ?r = "concat (map object_bytes obs) @ t"
  have s: "object_step name type (object_bytes ob @ ?r)
    = Some (if object_matches name type ob then Inr (Some (object_bytes ob @ ?r)) else Inl ?r)"
    using Cons.prems assms(2) by (intro object_step_eq) simp_all
  show ?case
  proof (cases "object_matches name type ob")
    case True
    with s have "loop (object_step name type) (object_bytes ob @ ?r) = Some (Some (object_bytes ob @ ?r))"
      by (intro loop_exit) simp
    with True show ?thesis by auto
  next
    case False
    with s have "loop (object_step name type) (object_bytes ob @ ?r) = loop (object_step name type) ?r"
      by (intro loop_continue) simp
    with False Cons show ?thesis by simp
  qed
qed

subsection \<open>Directories\<close>

definition container :: "(u32 \<Rightarrow> byte list option) \<Rightarrow> u32 \<Rightarrow> sfs_object list \<Rightarrow> u32 \<Rightarrow> bool" where
  "container fs b obs n \<longleftrightarrow> b \<noteq> 0 \<and>
     (\<exists>blk t. fs b = Some blk \<and> sfs_good blk \<and> be32 blk 0 = Some SOC_ID \<and> be32 blk 16 = Some n
        \<and> drop 24 blk = concat (map object_bytes obs) @ t \<and> container_end t \<and> (\<forall>ob \<in> set obs. object_ok ob))"

inductive dir_chain :: "(u32 \<Rightarrow> byte list option) \<Rightarrow> u32 \<Rightarrow> sfs_object list \<Rightarrow> bool" for fs where
  dir_end: "dir_chain fs 0 []"
| dir_more: "container fs b obs n \<Longrightarrow> dir_chain fs n obs' \<Longrightarrow> dir_chain fs b (obs @ obs')"

lemma container_step_eq:
  assumes reads: "sfs_reads ctx self fs" and name: "NUL \<notin> set name" and c: "container fs b obs n"
  shows "\<exists>rest buf'. container_step ctx self name type (b, buf, w)
    = Some (case find (object_matches name type) obs of
        Some ob \<Rightarrow> Inr (Some (object_bytes ob @ rest), w) | None \<Rightarrow> Inl (n, buf', w))"
proof -
  from c obtain blk t where b: "b \<noteq> 0" "fs b = Some blk" "sfs_good blk" "be32 blk 0 = Some SOC_ID"
    "be32 blk 16 = Some n" "drop 24 blk = concat (map object_bytes obs) @ t" "container_end t"
    "\<forall>ob \<in> set obs. object_ok ob" by (auto simp: container_def)
  from calcchecksum_eq [OF reads b(2)] b(3) obtain c where
    chk: "calcchecksum blk (sd_blocksize self) = Some (c, cleared blk)" "c \<noteq> 0" by auto
  from sfs_readsD(2,3) [OF reads] b(2) have len: "8 \<le> length blk" by fastforce
  from object_loop_eq [OF b(8) name b(7), of type] obtain rest where
    "loop (object_step name type) (soc_object (cleared blk))
      = Some (map_option (\<lambda>ob. object_bytes ob @ rest) (find (object_matches name type) obs))"
    by (auto simp: soc_object_def drop_cleared [OF _ len] b(6))
  then show ?thesis
    using b(1,2,4,5) chk sfs_readsD(1) [OF reads]
    by (auto simp: container_step_def sbh_id_def soc_next_def be32_cleared [OF len] split: option.splits)
qed

lemma dir_loop_eq:
  assumes reads: "sfs_reads ctx self fs" and name: "NUL \<notin> set name" and "dir_chain fs b obs"
  shows "\<exists>rest. loop (container_step ctx self name type) (b, buf, w)
    = Some (map_option (\<lambda>ob. object_bytes ob @ rest) (find (object_matches name type) obs), w)"
  using assms(3)
proof (induction arbitrary: buf rule: dir_chain.induct)
  case dir_end
  have "loop (container_step ctx self name type) (0, buf, w) = Some (None, w)"
    by (rule loop_exit) (simp add: container_step_def)
  then show ?case by simp
next
  case (dir_more b obs n obs')
  from container_step_eq [OF reads name dir_more(1), of type buf w] obtain rest buf' where
    s: "container_step ctx self name type (b, buf, w)
      = Some (case find (object_matches name type) obs of
          Some ob \<Rightarrow> Inr (Some (object_bytes ob @ rest), w) | None \<Rightarrow> Inl (n, buf', w))" by blast
  have app: "find (object_matches name type) (obs @ obs')
      = (case find (object_matches name type) obs of Some ob \<Rightarrow> Some ob | None \<Rightarrow> find (object_matches name type) obs')"
    by (induction obs) auto
  show ?case
  proof (cases "find (object_matches name type) obs")
    case None
    with s have "loop (container_step ctx self name type) (b, buf, w)
        = loop (container_step ctx self name type) (n, buf', w)"
      by (intro loop_continue) simp
    with None dir_more.IH [of buf'] show ?thesis by (simp add: app)
  next
    case (Some ob)
    with s have "loop (container_step ctx self name type) (b, buf, w) = Some (Some (object_bytes ob @ rest), w)"
      by (intro loop_exit) simp
    with Some show ?thesis by (auto simp: app)
  qed
qed

lemma findobject_eq:
  assumes "sfs_reads ctx self fs" and "NUL \<notin> set name" and "dir_chain fs b obs" and "be32 cwd 16 = Some b"
  shows "\<exists>rest w'. sfs_findobject ctx self cwd name type w
    = Some (map_option (\<lambda>ob. object_bytes ob @ rest) (find (object_matches name type) obs), w')"
proof -
  obtain buf w1 where m: "malloc ctx (uint (sd_blocksize self)) w = (buf, w1)" by force
  from dir_loop_eq [OF assms(1-3), of type buf w1] obtain rest where
    "loop (container_step ctx self name type) (b, buf, w1)
      = Some (map_option (\<lambda>ob. object_bytes ob @ rest) (find (object_matches name type) obs), w1)" by blast
  with m assms(4) show ?thesis by (auto simp: sfs_findobject_def so_firstdirblock_def)
qed

subsection \<open>Paths\<close>

fun join_path :: "string list \<Rightarrow> string" where
  "join_path [] = []"
| "join_path [d] = d"
| "join_path (d # e # ds) = d @ CHR ''/'' # join_path (e # ds)"

text \<open>The object a path leads to from the directory whose first block is \<open>b\<close>, \<open>None\<close> if there is none.\<close>

inductive lookup :: "(u32 \<Rightarrow> byte list option) \<Rightarrow> u32 \<Rightarrow> string list \<Rightarrow> sfs_object option \<Rightarrow> bool" for fs where
  look_last: "dir_chain fs b obs \<Longrightarrow> lookup fs b [name] (find (object_matches name 0) obs)"
| look_none: "dir_chain fs b obs \<Longrightarrow> find (object_matches d OTYPE_DIR) obs = None
    \<Longrightarrow> lookup fs b (d # e # path) None"
| look_dir: "dir_chain fs b obs \<Longrightarrow> find (object_matches d OTYPE_DIR) obs = Some ob
    \<Longrightarrow> be32 (ob_fixed ob) 16 = Some n \<Longrightarrow> lookup fs n (e # path) res \<Longrightarrow> lookup fs b (d # e # path) res"

definition path_ok :: "string list \<Rightarrow> bool" where
  "path_ok path \<longleftrightarrow> (\<forall>d \<in> set path. NUL \<notin> set d \<and> CHR ''/'' \<notin> set d)"

lemma dir_chain_ok: "dir_chain fs b obs \<Longrightarrow> ob \<in> set obs \<Longrightarrow> object_ok ob"
  by (induction rule: dir_chain.induct) (auto simp: container_def)

lemma object_firstdirblock:
  assumes "object_ok ob"
  shows "be32 (object_bytes ob @ rest) 16 = be32 (ob_fixed ob) 16"
proof -
  have "length (ob_fixed ob) = 25" using assms by (simp add: object_ok_def)
  moreover obtain r where "object_bytes ob @ rest = ob_fixed ob @ r"
    using object_bytes_pad [of ob] calculation by auto
  ultimately show ?thesis by (simp add: be32_def nth_append)
qed

lemma find_step_last:
  assumes "NUL \<notin> set d" and "CHR ''/'' \<notin> set d"
  shows "find_step ctx self (Some r, d, w) = Some (Inr (Some r, d, w))"
proof -
  have "cstr (d @ [NUL]) = d" using assms(1) by (rule cstr_append_NUL)
  with assms show ?thesis by (simp add: find_step_def strchr_cstr)
qed

lemma find_step_dir:
  assumes "NUL \<notin> set d" and "CHR ''/'' \<notin> set d" and "NUL \<notin> set p"
  shows "find_step ctx self (Some r, d @ CHR ''/'' # p, w)
    = map_option (\<lambda>(root, w). Inl (root, p, w)) (sfs_findobject ctx self r d OTYPE_DIR w)"
proof -
  have c: "cstr ((d @ CHR ''/'' # p) @ [NUL]) = d @ CHR ''/'' # p"
    using assms by (intro cstr_append_NUL) auto
  have "takeWhile (\<lambda>x. x \<noteq> CHR ''/'') (d @ CHR ''/'' # p) = d"
    using assms(2) by (induction d) auto
  with c have "strchr ((d @ CHR ''/'' # p) @ [NUL]) CHR ''/'' = Some (Some (length d))"
    by (subst strchr_cstr) simp_all
  then show ?thesis
    by (cases "sfs_findobject ctx self r d OTYPE_DIR w") (auto simp: find_step_def Let_def)
qed

lemma find_loop_eq:
  assumes reads: "sfs_reads ctx self fs" and "lookup fs b path res" and "path_ok path" and "be32 r 16 = Some b"
  shows "\<exists>root fn w'. loop (find_step ctx self) (Some r, join_path path, w) = Some (root, fn, w')
    \<and> (case root of None \<Rightarrow> res = None
       | Some root \<Rightarrow> NUL \<notin> set fn \<and> (\<exists>b' obs. be32 root 16 = Some b' \<and> dir_chain fs b' obs
           \<and> res = find (object_matches fn 0) obs))"
  using assms(2-4)
proof (induction arbitrary: r w rule: lookup.induct)
  case (look_last b obs name)
  have n: "NUL \<notin> set name" "CHR ''/'' \<notin> set name" using look_last(2) by (simp_all add: path_ok_def)
  have "loop (find_step ctx self) (Some r, name, w) = Some (Some r, name, w)"
    by (rule loop_exit) (rule find_step_last [OF n])
  with look_last n show ?case by auto
next
  case (look_none b obs d e path)
  have d: "NUL \<notin> set d" "CHR ''/'' \<notin> set d" using look_none(3) by (simp_all add: path_ok_def)
  have p: "NUL \<notin> set (join_path (e # path))"
    using look_none(3) by (induction "e # path" arbitrary: e path rule: join_path.induct) (auto simp: path_ok_def)
  from findobject_eq [OF reads d(1) look_none(1,4), of OTYPE_DIR w] look_none(2) obtain w' where
    "sfs_findobject ctx self r d OTYPE_DIR w = Some (None, w')" by auto
  then have "loop (find_step ctx self) (Some r, join_path (d # e # path), w)
      = loop (find_step ctx self) (None, join_path (e # path), w')"
    by (intro loop_continue) (simp add: find_step_dir [OF d p])
  also have "\<dots> = Some (None, join_path (e # path), w')"
    by (rule loop_exit) (simp add: find_step_def)
  finally show ?case by auto
next
  case (look_dir b obs d ob n e path res)
  have d: "NUL \<notin> set d" "CHR ''/'' \<notin> set d" "path_ok (e # path)" using look_dir.prems(1) by (simp_all add: path_ok_def)
  have p: "NUL \<notin> set (join_path (e # path))"
    using d(3) by (induction "e # path" arbitrary: e path rule: join_path.induct) (auto simp: path_ok_def)
  from findobject_eq [OF reads d(1) look_dir(1) look_dir.prems(2), of OTYPE_DIR w] look_dir(2) obtain rest w' where
    f: "sfs_findobject ctx self r d OTYPE_DIR w = Some (Some (object_bytes ob @ rest), w')" by auto
  have "ob \<in> set obs" using look_dir(2) by (auto simp: find_Some_iff)
  then have "object_ok ob" by (rule dir_chain_ok [OF look_dir(1)])
  then have "be32 (object_bytes ob @ rest) 16 = Some n" using look_dir(3) by (simp add: object_firstdirblock)
  from look_dir.IH [OF d(3) this, of w'] obtain root fn w2 where
    l: "loop (find_step ctx self) (Some (object_bytes ob @ rest), join_path (e # path), w') = Some (root, fn, w2)"
    "case root of None \<Rightarrow> res = None
       | Some root \<Rightarrow> NUL \<notin> set fn \<and> (\<exists>b' obs. be32 root 16 = Some b' \<and> dir_chain fs b' obs
           \<and> res = find (object_matches fn 0) obs)" by blast
  have "loop (find_step ctx self) (Some r, join_path (d # e # path), w)
      = loop (find_step ctx self) (Some (object_bytes ob @ rest), join_path (e # path), w')"
    using f by (intro loop_continue) (simp add: find_step_dir [OF d(1,2) p])
  with l show ?case by (intro exI [of _ root] exI [of _ fn] exI [of _ w2]) simp
qed

lemma sfs_find_eq:
  assumes reads: "sfs_reads ctx self fs" and look: "lookup fs b path res" and path: "path_ok path" "hd path \<noteq> []"
    and root: "be32 (sd_root self) 16 = Some b" and fn: "filename = join_path path \<or> filename = CHR ''/'' # join_path path"
  shows "\<exists>rest w'. sfs_find ctx self filename w = Some (map_option (\<lambda>ob. object_bytes ob @ rest) res, w')"
proof -
  have ne: "path \<noteq> []" using look by (cases rule: lookup.cases) auto
  have "take 1 (join_path path) \<noteq> ''/''"
  proof -
    obtain c cs ds where "path = (c # cs) # ds" "c \<noteq> CHR ''/''"
      using ne path by (cases path; cases "hd path") (auto simp: path_ok_def)
    then show ?thesis by (cases ds) auto
  qed
  with fn have strip: "(if take 1 filename = ''/'' then drop 1 filename else filename) = join_path path" by auto
  obtain buf w1 where m: "malloc ctx (int (length (join_path path)) + 1) w = (buf, w1)" by force
  from find_loop_eq [OF reads look path(1) root, of w1] obtain r fn' w2 where
    l: "loop (find_step ctx self) (Some (sd_root self), join_path path, w1) = Some (r, fn', w2)"
    and r: "case r of None \<Rightarrow> res = None
       | Some root \<Rightarrow> NUL \<notin> set fn' \<and> (\<exists>b' obs. be32 root 16 = Some b' \<and> dir_chain fs b' obs
           \<and> res = find (object_matches fn' 0) obs)" by blast
  show ?thesis
  proof (cases r)
    case None
    with l r m show ?thesis unfolding sfs_find_def Let_def strip by simp
  next
    case (Some root)
    with r obtain b' obs where o': "NUL \<notin> set fn'" "be32 root 16 = Some b'" "dir_chain fs b' obs"
      "res = find (object_matches fn' 0) obs" by auto
    from findobject_eq [OF reads o'(1,3,2), of 0 w2] o'(4) Some l m show ?thesis
      unfolding sfs_find_def Let_def strip by simp
  qed
qed

end
