(* ===== verification/Sfs_Files.thy ===== *)
theory Sfs_Files
  imports Sfs_Dirs
begin

text \<open>
  Reading SFS files: the search of the extent B-tree, the chain of extents of a file, and the contents
  \<open>sfs_loadfile\<close> puts into the buffer.
\<close>

subsection \<open>The extent tree\<close>

text \<open>Entry \<open>i\<close> of a node is the last one whose key does not exceed \<open>key\<close>.\<close>

definition entry_for :: "byte list \<Rightarrow> nat \<Rightarrow> nat \<Rightarrow> u32 \<Rightarrow> nat \<Rightarrow> bool" where
  "entry_for blk count nodesize key i \<longleftrightarrow> i < count
     \<and> (\<exists>k. bnode_key (drop (i * nodesize) (btc_bnode blk)) = Some k \<and> k \<le> key)
     \<and> (\<forall>j. i < j \<and> j < count \<longrightarrow> (\<exists>k. bnode_key (drop (j * nodesize) (btc_bnode blk)) = Some k \<and> key < k))"

lemma bnode_search:
  assumes e: "entry_for blk (unat count) nodesize key i" and "i \<le> j" and "j < unat (count :: u16)"
  shows "loop (bnode_step (btc_bnode blk) nodesize key) (of_nat j) = Some (drop (i * nodesize) (btc_bnode blk))"
  using assms(2,3)
proof (induction "j - i" arbitrary: j)
  case (0 j)
  have "unat count < 2 ^ LENGTH(16)" by (rule unsigned_less)
  then have u: "unat (of_nat j :: u16) = j" unfolding unat_of_nat using 0 by simp
  with 0 e show ?case
    by (intro loop_exit) (auto simp: bnode_step_def entry_for_def Let_def)
next
  case (Suc n j)
  have "unat count < 2 ^ LENGTH(16)" by (rule unsigned_less)
  then have u: "unat (of_nat j :: u16) = j" unfolding unat_of_nat using Suc by simp
  from Suc have j: "i < j" "j < unat count" by simp_all
  with e obtain k where k: "bnode_key (drop (j * nodesize) (btc_bnode blk)) = Some k" "key < k"
    by (auto simp: entry_for_def)
  have "(of_nat j :: u16) - 1 = of_nat (j - 1)" using j by (simp add: of_nat_diff)
  with k u have "loop (bnode_step (btc_bnode blk) nodesize key) (of_nat j)
      = loop (bnode_step (btc_bnode blk) nodesize key) (of_nat (j - 1))"
    by (intro loop_continue) (simp add: bnode_step_def Let_def)
  also have "\<dots> = Some (drop (i * nodesize) (btc_bnode blk))"
    using Suc.hyps(2) j by (intro Suc.hyps(1)) simp_all
  finally show ?case .
qed

text \<open>The leaf entry a search for \<open>key\<close> ends at, from the node in block \<open>b\<close> on.\<close>

inductive locates :: "(u32 \<Rightarrow> byte list option) \<Rightarrow> u32 \<Rightarrow> u32 \<Rightarrow> byte list \<Rightarrow> bool" for fs where
  loc_leaf: "fs b = Some blk \<Longrightarrow> sfs_good blk \<Longrightarrow> btc_nodecount blk = Some count \<Longrightarrow> btc_nodesize blk = Some ns
    \<Longrightarrow> entry_for blk (unat count) (unat ns) key i \<Longrightarrow> btc_isleaf blk = Some l \<Longrightarrow> l \<noteq> 0
    \<Longrightarrow> locates fs b key (drop (i * unat ns) (btc_bnode blk))"
| loc_node: "fs b = Some blk \<Longrightarrow> sfs_good blk \<Longrightarrow> btc_nodecount blk = Some count \<Longrightarrow> btc_nodesize blk = Some ns
    \<Longrightarrow> entry_for blk (unat count) (unat ns) key i \<Longrightarrow> btc_isleaf blk = Some 0
    \<Longrightarrow> bnode_data (drop (i * unat ns) (btc_bnode blk)) = Some n \<Longrightarrow> locates fs n key e
    \<Longrightarrow> locates fs b key e"

lemma nth_cleared: "8 \<le> i \<Longrightarrow> 8 \<le> length blk \<Longrightarrow> cleared blk ! i = blk ! i"
  using nth_drop [of 8 "cleared blk" "i - 8"] nth_drop [of 8 blk "i - 8"] by (simp add: drop_cleared length_cleared)

lemma cleared_node:
  assumes "8 \<le> length blk"
  shows "btc_nodecount (cleared blk) = btc_nodecount blk" and "btc_nodesize (cleared blk) = btc_nodesize blk"
    and "btc_isleaf (cleared blk) = btc_isleaf blk" and "btc_bnode (cleared blk) = btc_bnode blk"
  using assms by (simp_all add: btc_nodecount_def btc_nodesize_def btc_isleaf_def btc_bnode_def be16_def load_def
      length_cleared nth_cleared drop_cleared)

lemma tree_node:
  assumes reads: "sfs_reads ctx self fs" and b: "fs b = Some blk" "sfs_good blk" "btc_nodecount blk = Some count"
    "btc_nodesize blk = Some ns" "entry_for blk (unat count) (unat ns) key i"
  shows "\<exists>x. tree_step ctx self key (b, p, buf, w) = do {
      l \<leftarrow> btc_isleaf blk;
      if l \<noteq> 0 then Some (Inr (Some (drop (i * unat ns) (btc_bnode blk)), w))
      else do { d \<leftarrow> bnode_data (drop (i * unat ns) (btc_bnode blk)); Some (Inl (d, x, cleared blk, w)) } }"
proof -
  from calcchecksum_eq [OF reads b(1)] b(2) obtain c where
    chk: "calcchecksum blk (sd_blocksize self) = Some (c, cleared blk)" "c \<noteq> 0" by auto
  from sfs_readsD(2,3) [OF reads] b(1) have len: "8 \<le> length blk" by fastforce
  have pos: "i < unat count" using b(5) by (simp add: entry_for_def)
  have "count - 1 = of_nat (unat count - 1)" using pos by (simp add: of_nat_diff)
  moreover have "loop (bnode_step (btc_bnode blk) (unat ns) key) (of_nat (unat count - 1))
      = Some (drop (i * unat ns) (btc_bnode blk))"
    using pos by (intro bnode_search [OF b(5)]) simp_all
  ultimately show ?thesis
    using chk b(1,3,4) sfs_readsD(1) [OF reads]
    by (intro exI [of _ "Some (length (cleared blk) - length (drop (i * unat ns) (btc_bnode blk)))"])
      (simp add: tree_step_def cleared_node [OF len])
qed

lemma tree_loop:
  assumes reads: "sfs_reads ctx self fs" and "locates fs b key e"
  shows "loop (tree_step ctx self key) (b, p, buf, w) = Some (Some e, w)"
  using assms(2)
proof (induction arbitrary: p buf rule: locates.induct)
  case (loc_leaf b blk count ns key i l)
  from tree_node [OF reads loc_leaf(1-5), of p buf w] loc_leaf(6,7) show ?case
    by (intro loop_exit) auto
next
  case (loc_node b blk count ns key i n e)
  from tree_node [OF reads loc_node(1-5), of p buf w] loc_node(6,7) obtain x where
    "tree_step ctx self key (b, p, buf, w) = Some (Inl (n, x, cleared blk, w))" by auto
  then have "loop (tree_step ctx self key) (b, p, buf, w) = loop (tree_step ctx self key) (n, x, cleared blk, w)"
    by (rule loop_continue)
  with loc_node.IH show ?case by simp
qed

lemma get_bnode_eq:
  assumes "sfs_reads ctx self fs" and "locates fs (sd_extentbnoderoot self) key e"
  shows "\<exists>w'. get_bnode ctx self key w = Some (Some e, w')"
  using tree_loop [OF assms] by (simp add: get_bnode_def split: prod.splits)

subsection \<open>Files\<close>

text \<open>The blocks of a file, along its extents from the one that starts at block \<open>b\<close>.\<close>

inductive extents :: "(u32 \<Rightarrow> byte list option) \<Rightarrow> u32 \<Rightarrow> u32 \<Rightarrow> byte list list \<Rightarrow> bool" for fs root where
  ext_end: "extents fs root 0 []"
| ext_more: "b \<noteq> 0 \<Longrightarrow> locates fs root b e \<Longrightarrow> sebn_blocks e = Some n \<Longrightarrow> sebn_next e = Some nx
    \<Longrightarrow> map (\<lambda>i. fs (b + of_nat i)) [0..<unat n] = map Some blks \<Longrightarrow> extents fs root nx blks'
    \<Longrightarrow> extents fs root b (blks @ blks')"

text \<open>The buffer after the first bytes of \<open>data\<close> have been put into it, \<open>n\<close> at most.\<close>

definition filled :: "nat \<Rightarrow> byte list \<Rightarrow> byte list \<Rightarrow> u32 \<times> byte list" where
  "filled n data fb = (let r = min n (length data) in (of_nat r, take r data @ drop r fb))"

lemma filled_block:
  assumes n: "n < 2 ^ 31" "n \<le> length fb" and blk: "length blk = unat bs" "0 < unat bs"
    and f: "filled n data fb = (readed, fb1)"
  shows "\<exists>fb2 tc. tc = (if of_nat n - readed \<ge> bs then bs else of_nat n - readed)
    \<and> memmove fb1 (unat readed) blk (unat tc) = Some fb2 \<and> filled n (data @ blk) fb = (readed + tc, fb2)"
proof -
  let ?r = "min n (length data)"
  let ?t = "min (unat bs) (n - ?r)"
  have small: "unat (of_nat k :: u32) = k" if "k \<le> n" for k
    unfolding unat_of_nat using n(1) that by simp
  have r: "readed = of_nat ?r" "fb1 = take ?r data @ drop ?r fb" using f by (simp_all add: filled_def Let_def)
  have sub: "(of_nat n :: u32) - of_nat ?r = of_nat (n - ?r)" by (simp add: of_nat_diff)
  let ?tc = "if of_nat n - readed \<ge> bs then bs else of_nat n - readed"
  define d where "d = n - ?r"
  have ud: "unat (of_nat d :: u32) = d" unfolding d_def by (rule small) simp
  have sd: "of_nat n - readed = of_nat d" unfolding r(1) d_def by (rule sub)
  have "(of_nat d \<ge> bs) = (unat bs \<le> d)" by (simp only: word_le_nat_alt ud)
  then have "unat (if of_nat d \<ge> bs then bs else of_nat d) = min (unat bs) d" by (simp add: ud)
  then have tc: "unat ?tc = ?t" unfolding sd d_def .
  have word_id: "of_nat (unat x) = x" for x :: u32 by simp
  have tn: "?tc = of_nat ?t" unfolding tc [symmetric] by (rule word_id [symmetric])
  have len: "length fb1 = length fb" using r n(2) by auto
  have mm: "memmove fb1 ?r blk ?t = Some (take ?r fb1 @ take ?t blk @ drop (?r + ?t) fb1)"
    using len n(2) blk(1) by (simp add: memmove_def slice_def blit_def)
  have sum: "?r + ?t = min n (length (data @ blk))" using blk(1) by auto
  have "take ?r fb1 @ take ?t blk @ drop (?r + ?t) fb1
      = take (?r + ?t) (data @ blk) @ drop (?r + ?t) fb"
  proof (cases "n \<le> length data")
    case True
    then show ?thesis using r(2) by simp
  next
    case False
    then have "?r = length data" by simp
    then show ?thesis using r(2) by (simp add: add.commute)
  qed
  with sum have "filled n (data @ blk) fb = (of_nat (?r + ?t), take ?r fb1 @ take ?t blk @ drop (?r + ?t) fb1)"
    by (simp only: filled_def Let_def)
  moreover have "readed + ?tc = of_nat (?r + ?t)" using tn r(1) by simp
  moreover have "unat readed = ?r" using r(1) small by simp
  ultimately show ?thesis using mm tc by (intro exI conjI) (rule refl, simp_all)
qed

lemma extent_loop_eq:
  assumes reads: "sfs_reads ctx self fs" and n: "n < 2 ^ 31" "n \<le> length fb"
    and "map (\<lambda>i. fs (b + of_nat i)) is = map Some blks" and "filled n data fb = (readed, fb1)"
  shows "\<exists>buf' readed' fb2. extent_loop ctx self b (of_nat n) is (readed, fb1, buf, w) = Some (readed', fb2, buf', w)
    \<and> filled n (data @ concat blks) fb = (readed', fb2)"
  using assms(4,5)
proof (induction "is" arbitrary: blks data readed fb1 buf)
  case (Cons i "is")
  from Cons.prems(1) obtain blk blks' where b: "blks = blk # blks'" "fs (b + of_nat i) = Some blk"
    "map (\<lambda>i. fs (b + of_nat i)) is = map Some blks'" by auto
  have len: "length blk = unat (sd_blocksize self)" using reads b(2) by (rule sfs_readsD)
  have pos: "0 < unat (sd_blocksize self)" using sfs_readsD(3) [OF reads] by auto
  from filled_block [OF n len pos Cons.prems(2)] obtain fb2 tc where
    tc: "tc = (if of_nat n - readed \<ge> sd_blocksize self then sd_blocksize self else of_nat n - readed)"
    and m: "memmove fb1 (unat readed) blk (unat tc) = Some fb2" and f: "filled n (data @ blk) fb = (readed + tc, fb2)"
    by blast
  from Cons.IH [OF b(3) f, of blk] obtain buf' readed' fb3 where
    "extent_loop ctx self b (of_nat n) is (readed + tc, fb2, blk, w) = Some (readed', fb3, buf', w)"
    "filled n ((data @ blk) @ concat blks') fb = (readed', fb3)" by blast
  then show ?case
    using sfs_readsD(1) [OF reads] b(1,2) m tc [symmetric] by (simp add: Let_def)
qed simp

lemma file_loop_eq:
  assumes reads: "sfs_reads ctx self fs" and n: "n < 2 ^ 31" "n \<le> length fb"
    and "extents fs (sd_extentbnoderoot self) b blks" and "filled n data fb = (readed, fb1)"
    and "n \<le> length (data @ concat blks)"
  shows "\<exists>w'. loop (file_step ctx self (of_nat n)) (b, readed, fb1, buf, w)
    = Some ((int n, take n (data @ concat blks) @ drop n fb), w')"
  using assms(4-)
proof (induction arbitrary: data readed fb1 buf w rule: extents.induct)
  case ext_end
  then have "readed = of_nat n" "fb1 = take n data @ drop n fb" by (auto simp: filled_def Let_def)
  moreover have "sint (of_nat n :: u32) = int n" using n(1) by (simp add: signed_of_nat signed_take_bit_int_eq_self)
  ultimately show ?case by (subst loop_exit [of _ _ "((int n, take n data @ drop n fb), w)"]) (auto simp: file_step_def)
next
  case (ext_more b e k nx blks blks')
  show ?case
  proof (cases "n \<le> length data")
    case True
    then have "readed = of_nat n" "fb1 = take n data @ drop n fb" using ext_more.prems(1) by (auto simp: filled_def Let_def)
    moreover have "sint (of_nat n :: u32) = int n" using n(1) by (simp add: signed_of_nat signed_take_bit_int_eq_self)
    ultimately show ?thesis using True
      by (subst loop_exit [of _ _ "((int n, take n data @ drop n fb), w)"]) (auto simp: file_step_def)
  next
    case False
    have "unat readed = length data"
      using False ext_more.prems(1) n(1) by (auto simp: filled_def Let_def unat_of_nat min_def)
    moreover have "unat (of_nat n :: u32) = n" unfolding unat_of_nat using n(1) by simp
    ultimately have lt: "readed < of_nat n" using False by (simp add: word_less_nat_alt)
    from get_bnode_eq [OF reads ext_more(2), of w] obtain w1 where g: "get_bnode ctx self b w = Some (Some e, w1)" by blast
    from extent_loop_eq [OF reads n ext_more(5) ext_more.prems(1), of buf w1] obtain buf' readed' fb2 where
      x: "extent_loop ctx self b (of_nat n) [0..<unat k] (readed, fb1, buf, w1) = Some (readed', fb2, buf', w1)"
      "filled n (data @ concat blks) fb = (readed', fb2)" by blast
    have "loop (file_step ctx self (of_nat n)) (b, readed, fb1, buf, w)
        = loop (file_step ctx self (of_nat n)) (nx, readed', fb2, buf', w1)"
      using ext_more(1,3,4) lt g x(1) by (intro loop_continue) (simp add: file_step_def)
    moreover have "n \<le> length ((data @ concat blks) @ concat blks')" using ext_more.prems(2) by simp
    ultimately show ?thesis using ext_more.IH [OF x(2), of buf' w1] by simp
  qed
qed

lemma object_fields:
  assumes "object_ok ob" and "i \<le> 20"
  shows "be32 (object_bytes ob @ rest) i = be32 (ob_fixed ob) i"
proof -
  have "length (ob_fixed ob) = 25" using assms by (simp add: object_ok_def)
  moreover obtain r where "object_bytes ob @ rest = ob_fixed ob @ r"
    using object_bytes_pad [of ob] calculation by auto
  ultimately show ?thesis using assms(2) by (simp add: be32_def nth_append)
qed

lemma lookup_ok: "lookup fs b path (Some ob) \<Longrightarrow> object_ok ob"
  by (induction b path "Some ob" rule: lookup.induct) (auto simp: find_Some_iff intro: dir_chain_ok [OF _ nth_mem])

lemma sfs_loadfile_eq:
  assumes reads: "sfs_reads ctx self fs" and look: "lookup fs b path (Some ob)" and path: "path_ok path" "hd path \<noteq> []"
    and root: "be32 (sd_root self) 16 = Some b" and fn: "filename = join_path path \<or> filename = CHR ''/'' # join_path path"
    and ob: "be32 (ob_fixed ob) 12 = Some first" "be32 (ob_fixed ob) 16 = Some (of_nat n)"
    and ext: "extents fs (sd_extentbnoderoot self) first blks" and n: "n \<le> length (concat blks)" "n < 2 ^ 31" "n \<le> length fb"
  shows "\<exists>w'. sfs_loadfile ctx self filename fb w = Some ((int n, take n (concat blks) @ drop n fb), w')"
proof -
  from sfs_find_eq [OF reads look path root fn, of w] obtain rest w1 where
    f: "sfs_find ctx self filename w = Some (Some (object_bytes ob @ rest), w1)" by auto
  have flds: "so_data (object_bytes ob @ rest) = Some first" "so_size (object_bytes ob @ rest) = Some (of_nat n)"
    using object_fields [OF lookup_ok [OF look]] ob by (simp_all add: so_data_def so_size_def)
  obtain buf w2 where m: "malloc ctx (uint (sd_blocksize self)) w1 = (buf, w2)" by force
  have "filled n [] fb = (0, fb)" by (simp add: filled_def)
  from file_loop_eq [OF reads n(2,3) ext this, of buf w2] n(1) show ?thesis
    using f flds m by (simp add: sfs_loadfile_def)
qed

lemma sfs_loadfile_missing:
  assumes reads: "sfs_reads ctx self fs" and look: "lookup fs b path None" and path: "path_ok path" "hd path \<noteq> []"
    and root: "be32 (sd_root self) 16 = Some b" and fn: "filename = join_path path \<or> filename = CHR ''/'' # join_path path"
  shows "\<exists>w'. sfs_loadfile ctx self filename fb w = Some ((-1, fb), w')"
  using sfs_find_eq [OF reads look path root fn, of w] by (auto simp: sfs_loadfile_def)

subsection \<open>Opening a partition\<close>

text \<open>
  A partition with an SFS file system: its root block \<open>sb\<close> is the first of what is read from its start, and
  its blocks are those of \<open>fs\<close>, with the root directory at \<open>b\<close> and the extents at \<open>x\<close>.
\<close>

definition sfs_partition ::
    "'w context_t \<Rightarrow> 'w RdbPartition \<Rightarrow> (u32 \<Rightarrow> byte list option) \<Rightarrow> u32 \<Rightarrow> u32 \<Rightarrow> bool" where
  "sfs_partition ctx p fs b x \<longleftrightarrow> (\<exists>sb bs rc blk.
     (\<forall>buf w. \<exists>r w'. loadsector ctx (dp_start (rp_info p)) (dp_blksz (rp_info p)) 64 buf w = ((r, sb), w'))
     \<and> be32 sb 0 = Some SRB_ID \<and> be32 sb 52 = Some bs \<and> be32 sb 104 = Some rc \<and> be32 sb 108 = Some x
     \<and> sfs_reads ctx \<lparr>sd_partition = p, sd_root = [], sd_extentbnoderoot = x, sd_blocksize = bs\<rparr> fs
     \<and> fs rc = Some blk \<and> be32 blk 0 = Some SOC_ID \<and> 52 \<le> length blk \<and> be32 blk 40 = Some b)"

lemma sfs_create_ok:
  assumes "sfs_partition ctx p fs b x"
  shows "\<exists>self w'. sfs_create ctx p w = Some (Some self, w') \<and> sfs_reads ctx self fs
    \<and> be32 (sd_root self) 16 = Some b \<and> sd_extentbnoderoot self = x"
proof -
  from assms obtain sb bs rc blk where
    ld: "\<And>buf w. \<exists>r w'. loadsector ctx (dp_start (rp_info p)) (dp_blksz (rp_info p)) 64 buf w = ((r, sb), w')"
    and sb: "be32 sb 0 = Some SRB_ID" "be32 sb 52 = Some bs" "be32 sb 104 = Some rc" "be32 sb 108 = Some x"
    and rd: "sfs_reads ctx \<lparr>sd_partition = p, sd_root = [], sd_extentbnoderoot = x, sd_blocksize = bs\<rparr> fs"
    and blk: "fs rc = Some blk" "be32 blk 0 = Some SOC_ID" "52 \<le> length blk" "be32 blk 40 = Some b"
    unfolding sfs_partition_def by blast
  define boot where "boot = \<lparr>sd_partition = p, sd_root = [], sd_extentbnoderoot = x, sd_blocksize = bs\<rparr>"
  obtain buf w1 where m: "malloc ctx (64 * 512) (snd (malloc ctx 24 w)) = (buf, w1)" by force
  from ld obtain r w2 where l: "loadsector ctx (dp_start (rp_info p)) (dp_blksz (rp_info p)) 64 buf w1 = ((r, sb), w2)" by blast
  have l2: "sfs_loadsector ctx boot rc sb w2 = ((1, blk), w2)"
    using sfs_readsD(1) [OF rd [folded boot_def]] blk(1) by simp
  define self where "self = boot\<lparr>sd_root := take 28 (drop 24 blk)\<rparr>"
  have "sfs_create ctx p w = Some (Some self, snd (malloc ctx 28 w2))"
    using m l sb l2 [unfolded boot_def] blk
    by (simp add: sfs_create_def sbh_id_def srb_extentbnoderoot_def srb_blocksize_def srb_rootobjectcontainer_def
        soc_object_def slice_def self_def boot_def case_prod_beta)
  moreover have "sfs_reads ctx self fs"
    using rd by (simp add: sfs_reads_def sfs_loadsector_def self_def boot_def)
  moreover have "be32 (sd_root self) 16 = Some b"
    using blk(3,4) by (simp add: self_def be32_def)
  ultimately show ?thesis by (simp add: self_def boot_def)
qed

end
