(* ===== verification/Samples_Sfs.thy ===== *)
theory Samples_Sfs
  imports Samples Sfs_Files
begin

text \<open>A small SFS file system: block 2 is the root directory with one file, block 3 the extent tree.\<close>

lemma nth_block_of:
  assumes "j < 128" and "k < 4"
  shows "block_of f ! (4 * j + k) = split32 (f j) ! k"
proof -
  have "take 4 (drop (4 * j) (block_of f)) = split32 (f j)"
    using slice_block_of [OF assms(1), of f] assms(1) by (simp add: slice_def)
  then have "take 4 (drop (4 * j) (block_of f)) ! k = split32 (f j) ! k" by simp
  then show ?thesis using assms by simp
qed

lemma cleared_block_of: "cleared (block_of f) = block_of (f(1 := 0))"
proof -
  have u: "[0..<128] = [0, 1] @ [2..<128]" by (simp add: upt_conv_Cons [of 0 128] upt_conv_Cons [of "Suc 0" 128] numeral_2_eq_2)
  have m: "map (\<lambda>i. split32 ((f(1 := 0)) i)) [2..<128] = map (\<lambda>i. split32 (f i)) [2..<128]" by simp
  have b: "block_of g = split32 (g 0) @ split32 (g 1) @ concat (map (\<lambda>i. split32 (g i)) [2..<128])" for g
    unfolding block_of_def u by simp
  show ?thesis unfolding cleared_def b [of f] b [of "f(1 := 0)"] m by (simp add: split32_def)
qed

lemma sum_upd: "i < n \<Longrightarrow> sum (f(i := v)) {..<n} = sum f {..<n} - f i + (v :: u32)" for n :: nat
  by (subst (1 2) sum.remove [of _ i]) (auto intro!: sum.cong)

lemma sfs_good_block_of:
  "sfs_good (block_of f) \<longleftrightarrow> 1 + (sum f {..<128} - f 1) \<noteq> 0"
proof -
  have "sum (long_at (block_of (f(1 := 0)))) {..<128} = sum (f(1 := 0)) {..<128}"
    by (rule sum.cong) simp_all
  then show ?thesis by (simp add: sfs_good_def cleared_block_of sum_upd del: fun_upd_apply)
qed

definition sfs_dir_longs :: "nat \<Rightarrow> u32" where
  "sfs_dir_longs = (\<lambda>_. 0)(0 := SOC_ID, 7 := 1, 9 := 4, 10 := 5, 12 := 0x00410000)"

definition sfs_node_longs :: "nat \<Rightarrow> u32" where
  "sfs_node_longs = (\<lambda>_. 0)(3 := 0x0001010E, 4 := 4, 7 := 0x00010000)"

text \<open>The container of the root object and the root block.\<close>

definition sfs_top_longs :: "nat \<Rightarrow> u32" where
  "sfs_top_longs = (\<lambda>_. 0)(0 := SOC_ID, 10 := 2)"

definition sfs_root_longs :: "nat \<Rightarrow> u32" where
  "sfs_root_longs = (\<lambda>_. 0)(0 := SRB_ID, 13 := 512, 26 := 5, 27 := 3)"

definition sfs_data :: "byte list" where
  "sfs_data = block_of (\<lambda>_. 0x01020304)"

lemma length_sfs_data [simp]: "length sfs_data = 512"
  by (simp add: sfs_data_def)

definition sample_fs :: "u32 \<Rightarrow> byte list option" where
  "sample_fs b = (if b = 2 then Some (block_of sfs_dir_longs) else if b = 3 then Some (block_of sfs_node_longs)
     else if b = 4 then Some sfs_data else if b = 5 then Some (block_of sfs_top_longs) else None)"

definition sample_file_object :: sfs_object where
  "sample_file_object =
     \<lparr>ob_fixed = concat (map split32 [0, 1, 0, 4, 5, 0]) @ [0], ob_name = [0x41], ob_comment = []\<rparr>"

lemma sample_object_bytes:
  "object_bytes sample_file_object = concat (map split32 [0, 1, 0, 4, 5, 0, 0x00410000])"
  by (simp add: object_bytes_def sample_file_object_def split32_def)

lemma sample_object_ok: "object_ok sample_file_object"
  by (simp add: object_ok_def sample_file_object_def split32_def be32_def join32_def)

lemma drop_longs:
  "i + length xs \<le> 128 \<Longrightarrow> (\<forall>j < length xs. f (i + j) = xs ! j)
    \<Longrightarrow> drop (4 * i) (block_of f) = concat (map split32 xs) @ drop (4 * (i + length xs)) (block_of f)"
proof (induction xs arbitrary: i)
  case (Cons x xs)
  have "f i = x" using Cons.prems(2) by (metis add.right_neutral length_greater_0_conv list.discI nth_Cons_0)
  moreover have "\<forall>j < length xs. f (Suc i + j) = xs ! j"
  proof (intro allI impI)
    fix j assume "j < length xs"
    then have "f (i + Suc j) = (x # xs) ! Suc j" using Cons.prems(2) by (intro Cons.prems(2) [rule_format]) simp
    then show "f (Suc i + j) = xs ! j" by simp
  qed
  ultimately show ?case using Cons.IH [of "Suc i"] Cons.prems(1) drop_block_of [of i f] by simp
qed simp

lemma be32_block_of: "j < 128 \<Longrightarrow> be32 (block_of f) (4 * j) = Some (f j)"
  using slice_block_of by (rule be32_slice)

lemma sample_container: "container sample_fs 2 [sample_file_object] 0"
proof -
  have g: "sfs_good (block_of sfs_dir_longs)"
    unfolding sfs_good_block_of by (simp add: sfs_dir_longs_def sum_upd del: fun_upd_apply) simp
  have "\<forall>j < 7. sfs_dir_longs (6 + j) = [0, 1, 0, 4, 5, 0, 0x00410000] ! j"
    by (simp add: sfs_dir_longs_def All_less_Suc numeral_eq_Suc)
  then have d: "drop 24 (block_of sfs_dir_longs)
      = object_bytes sample_file_object @ drop 52 (block_of sfs_dir_longs)"
    using drop_longs [of 6 "[0, 1, 0, 4, 5, 0, 0x00410000]" sfs_dir_longs] by (simp add: sample_object_bytes)
  have e: "container_end (drop 52 (block_of sfs_dir_longs))"
    using be32_block_of [of 14 sfs_dir_longs] by (simp add: container_end_def be32_drop sfs_dir_longs_def)
  have "be32 (block_of sfs_dir_longs) 0 = Some SOC_ID" "be32 (block_of sfs_dir_longs) 16 = Some 0"
    using be32_block_of [of 0 sfs_dir_longs] be32_block_of [of 4 sfs_dir_longs] by (simp_all add: sfs_dir_longs_def)
  with g d e show ?thesis by (auto simp: container_def sample_fs_def sample_object_ok)
qed

lemma sample_lookup:
  "lookup sample_fs 2 [''a''] (Some sample_file_object)" "lookup sample_fs 2 [''b''] None"
proof -
  have d: "dir_chain sample_fs 2 ([sample_file_object] @ [])"
    using sample_container dir_end by (rule dir_more)
  have m: "object_matches ''a'' 0 sample_file_object" "\<not> object_matches ''b'' 0 sample_file_object"
    by (simp_all add: object_matches_def sample_file_object_def chars_def tolower_def char_of_def bit_Suc_0_iff)
  from look_last [OF d, of "''a''"] m(1) show "lookup sample_fs 2 [''a''] (Some sample_file_object)" by simp
  from look_last [OF d, of "''b''"] m(2) show "lookup sample_fs 2 [''b''] None" by simp
qed

lemma sample_node:
  "btc_nodecount (block_of sfs_node_longs) = Some 1" "btc_nodesize (block_of sfs_node_longs) = Some 14"
  "btc_isleaf (block_of sfs_node_longs) = Some 1"
  using nth_block_of [of 3 0 sfs_node_longs] nth_block_of [of 3 1 sfs_node_longs]
    nth_block_of [of 3 2 sfs_node_longs] nth_block_of [of 3 3 sfs_node_longs]
  by (simp_all add: btc_nodecount_def btc_nodesize_def btc_isleaf_def be16_def load_def sfs_node_longs_def
      split32_def join16_def)

lemma node_extents:
  assumes "fs 3 = Some (block_of sfs_node_longs)" and "fs 4 = Some data"
  shows "extents fs 3 4 [data]"
proof -
  let ?e = "drop (0 * unat (14 :: byte)) (btc_bnode (block_of sfs_node_longs))"
  have f: "bnode_key ?e = Some 4" "sebn_next ?e = Some 0"
    using be32_block_of [of 4 sfs_node_longs] be32_block_of [of 5 sfs_node_longs]
    by (simp_all add: bnode_key_def sebn_next_def btc_bnode_def be32_drop sfs_node_longs_def)
  have n: "sebn_blocks ?e = Some 1"
    using nth_block_of [of 7 0 sfs_node_longs] nth_block_of [of 7 1 sfs_node_longs]
    by (simp add: sebn_blocks_def btc_bnode_def be16_def sfs_node_longs_def split32_def join16_def)
  have g: "sfs_good (block_of sfs_node_longs)"
    unfolding sfs_good_block_of by (simp add: sfs_node_longs_def sum_upd del: fun_upd_apply) simp
  have "entry_for (block_of sfs_node_longs) (unat (1 :: u16)) (unat (14 :: byte)) 4 0"
    using f(1) by (auto simp: entry_for_def)
  then have "locates fs 3 4 ?e"
    using g assms(1) by (intro loc_leaf [OF _ _ sample_node(1,2) _ sample_node(3)]) simp_all
  from ext_more [OF _ this n f(2) _ ext_end, of "[data]"] show ?thesis
    using assms(2) by simp
qed

lemma sample_extents: "extents sample_fs 3 4 [sfs_data]"
  by (rule node_extents) (simp_all add: sample_fs_def)

text \<open>A machine whose partition at \<open>start\<close> has the blocks of \<open>fs\<close>.\<close>

definition sector_of :: "(u32 \<Rightarrow> byte list option) \<Rightarrow> u32 \<Rightarrow> u32 \<Rightarrow> u32 \<Rightarrow> u32 \<Rightarrow> byte list \<Rightarrow> 'w \<Rightarrow> (int \<times> byte list) \<times> 'w" where
  "sector_of fs start b s n buf w = (if n = 64 then ((1, block_of sfs_root_longs), w)
     else case fs (b - start) of Some blk \<Rightarrow> ((1, blk), w) | None \<Rightarrow> ((0, buf), w))"

lemma sector_partition:
  assumes ld: "c_loadsector ctx = sector_of fs (dp_start (rp_info p))" and len: "\<forall>b blk. fs b = Some blk \<longrightarrow> length blk = 512"
    and top: "fs 5 = Some (block_of sfs_top_longs)"
  shows "sfs_partition ctx p fs 2 3"
proof -
  have "sfs_reads ctx \<lparr>sd_partition = p, sd_root = [], sd_extentbnoderoot = 3, sd_blocksize = 512\<rparr> fs"
    using len unfolding sfs_reads_def
    by (auto simp: sfs_loadsector_def loadsector_def ld sector_of_def split: option.splits intro!: exI [of _ 128])
  moreover have "loadsector ctx s z 64 buf w = ((1, block_of sfs_root_longs), w)" for s z buf w
    by (simp add: loadsector_def ld sector_of_def)
  moreover have "be32 (block_of sfs_root_longs) 0 = Some SRB_ID" "be32 (block_of sfs_root_longs) 52 = Some 512"
    "be32 (block_of sfs_root_longs) 104 = Some 5" "be32 (block_of sfs_root_longs) 108 = Some 3"
    using be32_block_of [of 0 sfs_root_longs] be32_block_of [of 13 sfs_root_longs] be32_block_of [of 26 sfs_root_longs]
      be32_block_of [of 27 sfs_root_longs]
    by (simp_all add: sfs_root_longs_def)
  moreover have "be32 (block_of sfs_top_longs) 0 = Some SOC_ID" "be32 (block_of sfs_top_longs) 40 = Some 2"
    using be32_block_of [of 0 sfs_top_longs] be32_block_of [of 10 sfs_top_longs] by (simp_all add: sfs_top_longs_def)
  ultimately show ?thesis
    unfolding sfs_partition_def
    by (intro exI [of _ "block_of sfs_root_longs"] exI [of _ 512] exI [of _ 5] exI [of _ "block_of sfs_top_longs"])
      (simp add: top)
qed

definition sample_sfs :: "unit sfs_boot_dev_t" where
  "sample_sfs =
     \<lparr>sd_partition = \<lparr>rp_name = [0], rp_disk = 0, rp_partition = 0, rp_dev_desc = sample_dev sample_disk 0,
        rp_info = \<lparr>dp_start = 0, dp_size = 0, dp_blksz = 512, dp_name = [], dp_type = []\<rparr>\<rparr>,
      sd_root = replicate 19 0 @ [2] @ replicate 8 0, sd_extentbnoderoot = 3, sd_blocksize = 512\<rparr>"

definition sfs_machine :: "unit context_t" where
  "sfs_machine = sample_context\<lparr>c_loadsector := sector_of sample_fs 0\<rparr>"

lemma sample_sfs_reads: "sfs_reads sfs_machine sample_sfs sample_fs"
proof -
  have "unat (sd_blocksize sample_sfs) = 4 * 128" by (simp add: sample_sfs_def)
  then show ?thesis
    unfolding sfs_reads_def
    by (auto simp: sfs_loadsector_def loadsector_def sfs_machine_def sector_of_def sample_sfs_def sample_fs_def sfs_data_def
        split: option.splits if_splits intro!: exI [of _ 128])
qed

lemma sample_sfs_root: "be32 (sd_root sample_sfs) 16 = Some 2"
  by (simp add: be32_def sample_sfs_def nth_append join32_def)

lemma sample_sfs_partition: "sfs_partition sfs_machine (sd_partition sample_sfs) sample_fs 2 3"
  by (rule sector_partition) (auto simp: sfs_machine_def sample_sfs_def sample_fs_def split: if_splits)

end
