(* ===== verification/Cdrom.thy ===== *)
theory Cdrom
  imports Rdb
begin

text \<open>
  The ISO 9660 reader of \<open>src/src/cdrom.c\<close>, with the Rock Ridge names. The device object keeps the
  volume descriptor, the root directory record and a one-sector cache. The fields of packed structs
  are read at their offsets. \<open>block\<close>, \<open>offset\<close> and \<open>size\<close> of the file search are C \<open>int\<close>s.
\<close>

abbreviation (input) ISO9660_RR_DOT :: byte where "ISO9660_RR_DOT \<equiv> 2"
abbreviation (input) ISO9660_RR_DOTDOT :: byte where "ISO9660_RR_DOTDOT \<equiv> 4"
abbreviation (input) ISO9660_MAX_DEPTH :: nat where "ISO9660_MAX_DEPTH \<equiv> 8"

subsection \<open>Layouts\<close>

abbreviation (input) dir_size :: nat where "dir_size \<equiv> 33"

definition dir_len :: "byte list \<Rightarrow> byte option" where "dir_len d = load d 0"
definition dir_first_sector_be :: "byte list \<Rightarrow> u32 option" where "dir_first_sector_be d = be32 d 6"
definition dir_size_be :: "byte list \<Rightarrow> u32 option" where "dir_size_be d = be32 d 14"
definition dir_flags :: "byte list \<Rightarrow> byte option" where "dir_flags d = load d 25"
definition dir_namelen :: "byte list \<Rightarrow> byte option" where "dir_namelen d = load d 32"

definition voldesc_magic :: "byte list \<Rightarrow> byte list" where "voldesc_magic v = drop 1 v"
definition voldesc_rootdir :: "byte list \<Rightarrow> byte list" where "voldesc_rootdir v = drop 156 v"

definition susp_len :: "byte list \<Rightarrow> byte option" where "susp_len e = load e 2"
definition susp_data :: "byte list \<Rightarrow> nat \<Rightarrow> byte option" where "susp_data e i = load e (4 + i)"

definition ce_blk_be :: "byte list \<Rightarrow> u32 option" where "ce_blk_be e = be32 e 8"
definition ce_off_be :: "byte list \<Rightarrow> u32 option" where "ce_off_be e = be32 e 16"
definition ce_len_be :: "byte list \<Rightarrow> u32 option" where "ce_len_be e = be32 e 24"

text \<open>\<open>sig[0] == a && sig[1] == b\<close>.\<close>

definition sig_is :: "byte list \<Rightarrow> byte \<Rightarrow> byte \<Rightarrow> bool option" where
  "sig_is e a b = do {
     x \<leftarrow> load e 0;
     if x = a then do { y \<leftarrow> load e 1; Some (y = b) } else Some False
   }"

record 'w cdrom_boot_dev_t =
  cd_phys :: "'w block_dev_desc"
  cd_voldesc :: "byte list"
  cd_rootdir :: "byte list"
  cd_tmpbuf :: "byte list"
  cd_sector_in_buf :: u32
  cd_rr :: byte
  cd_susp_skip :: byte

subsection \<open>Reading the disc\<close>

function skip_sectors :: "u32 \<Rightarrow> u32 \<Rightarrow> u32 \<times> u32" where
  "skip_sectors block offset = (if offset \<ge> 2048 then skip_sectors (block + 1) (offset - 2048) else (block, offset))"
  by auto

termination skip_sectors
proof (relation "measure (\<lambda>(block, offset). unat offset)")
  fix block offset :: u32
  assume "2048 \<le> offset"
  then have "unat (offset - 2048) = unat offset - 2048" by (simp add: unat_sub)
  moreover have "2048 \<le> unat offset" using \<open>2048 \<le> offset\<close> by (simp add: word_le_nat_alt)
  ultimately show "((block + 1, offset - 2048), block, offset) \<in> measure (\<lambda>(block, offset). unat offset)"
    by simp
qed simp

declare skip_sectors.simps [simp del]

text \<open>The sector cache; the result is \<open>False\<close> when the device cannot read the sector.\<close>

definition cache_sector ::
    "'w cdrom_boot_dev_t \<Rightarrow> u32 \<Rightarrow> 'w \<Rightarrow> bool \<times> 'w cdrom_boot_dev_t \<times> 'w" where
  "cache_sector boot block w =
     (if cd_sector_in_buf boot \<noteq> block
      then case bd_block_read (cd_phys boot) (bd_dev (cd_phys boot)) block 1 (cd_tmpbuf boot) w of
        ((res, buf), w) \<Rightarrow>
          if res = 0 then (False, boot\<lparr>cd_tmpbuf := buf\<rparr>, w)
          else (True, boot\<lparr>cd_tmpbuf := buf, cd_sector_in_buf := block\<rparr>, w)
      else (True, boot, w))"

text \<open>
  \<open>cdrom_read\<close> in its three parts: the rest of the first sector, whole sectors read in place, and the
  beginning of the last one. \<open>pos\<close> is how far \<open>dest\<close> has advanced; a result \<open>False\<close> is the return of -1.
\<close>

type_synonym 'w read_st = "u32 \<times> u32 \<times> u32 \<times> nat \<times> byte list \<times> 'w cdrom_boot_dev_t \<times> 'w"

definition read_head :: "'w read_st \<Rightarrow> (bool \<times> 'w read_st) option" where
  "read_head = (\<lambda>(block, offset, length', pos, dest, boot, w).
     if offset \<noteq> 0 then (case cache_sector boot block w of (ok, boot, w) \<Rightarrow>
       if \<not> ok then Some (False, block, offset, length', pos, dest, boot, w)
       else do {
         let len = (if length' < 2048 - offset then length' else 2048 - offset);
         dest \<leftarrow> memcpy dest pos (drop (unat offset) (cd_tmpbuf boot)) (unat len);
         Some (True, block + 1, 0, length' - len, pos + unat len, dest, boot, w)
       })
     else Some (True, block, offset, length', pos, dest, boot, w))"

definition read_body :: "'w read_st \<Rightarrow> (bool \<times> 'w read_st) option" where
  "read_body = (\<lambda>(block, offset, length', pos, dest, boot, w).
     if length' div 2048 \<noteq> 0 then do {
       let blocks_read = length' div 2048;
       let n = 2048 * blocks_read;
       guard (pos + unat n \<le> length dest);
       (case bd_block_read (cd_phys boot) (bd_dev (cd_phys boot)) block blocks_read (drop pos dest) w of
          ((res, rest), w) \<Rightarrow>
            let dest = take pos dest @ rest
            in if res = 0 then Some (False, block, offset, length', pos, dest, boot, w)
               else Some (True, block + blocks_read, offset, length' - n, pos + unat n, dest, boot, w))
     } else Some (True, block, offset, length', pos, dest, boot, w))"

definition read_tail :: "'w read_st \<Rightarrow> (bool \<times> 'w read_st) option" where
  "read_tail = (\<lambda>(block, offset, length', pos, dest, boot, w).
     if length' \<noteq> 0 then (case cache_sector boot block w of (ok, boot, w) \<Rightarrow>
       if \<not> ok then Some (False, block, offset, length', pos, dest, boot, w)
       else do {
         let len = (if length' < 2048 - offset then length' else 2048 - offset);
         dest \<leftarrow> memcpy dest pos (cd_tmpbuf boot) (unat len);
         Some (True, block, offset, length', pos, dest, boot, w)
       })
     else Some (True, block, offset, length', pos, dest, boot, w))"

definition cdrom_read ::
    "'w cdrom_boot_dev_t \<Rightarrow> u32 \<Rightarrow> u32 \<Rightarrow> u32 \<Rightarrow> byte list \<Rightarrow> 'w
     \<Rightarrow> ((int \<times> byte list) \<times> 'w cdrom_boot_dev_t \<times> 'w) option" where
  "cdrom_read boot block offset length' dest w = do {
     let (block, offset) = skip_sectors block offset;
     (ok, s) \<leftarrow> read_head (block, offset, length', 0, dest, boot, w);
     (ok, s) \<leftarrow> (if ok then read_body s else Some (ok, s));
     (ok, s) \<leftarrow> (if ok then read_tail s else Some (ok, s));
     (case s of (_, _, _, _, dest, boot, w) \<Rightarrow> Some ((if ok then 0 else -1, dest), boot, w))
   }"

subsection \<open>System use entries\<close>

text \<open>
  The walk over the entries of a system use area. A CE entry moves it to another area, whose first
  entry is looked at next; \<open>iter_func\<close> is called on every other entry up to an ST entry and its state
  \<open>d\<close> threaded. State: the pointer as an offset, the area, its size, the user data, device, world.
\<close>

type_synonym ('d, 'w) iter_st = "nat \<times> byte list \<times> u32 \<times> 'd \<times> 'w cdrom_boot_dev_t \<times> 'w"

definition iterate_step ::
    "'w context_t \<Rightarrow> (byte list \<Rightarrow> 'd \<Rightarrow> 'w \<Rightarrow> (int \<times> 'd \<times> 'w) option) \<Rightarrow> ('d, 'w) iter_st
     \<Rightarrow> (('d, 'w) iter_st + (int \<times> 'd) \<times> 'w cdrom_boot_dev_t \<times> 'w) option" where
  "iterate_step ctx iter_func = (\<lambda>(ptr, sua, size', d, dev, w). do {
     let e = drop ptr sua;
     ce \<leftarrow> sig_is e 0x43 0x45;
     if ce then do {
       block \<leftarrow> ce_blk_be e;
       offset \<leftarrow> ce_off_be e;
       size' \<leftarrow> ce_len_be e;
       let (sua, w) = malloc ctx (sint size') w;
       ((res, sua), dev, w) \<leftarrow> cdrom_read dev block offset size' sua w;
       if res \<noteq> 0 then Some (Inr ((-1, d), dev, w))
       else Some (Inl (0, sua, size', d, dev, w))
     } else do {
       st \<leftarrow> sig_is e 0x53 0x54;
       if st then Some (Inr ((0, d), dev, w))
       else do {
         (res, d, w) \<leftarrow> iter_func e d w;
         if res \<noteq> 0 then Some (Inr ((0, d), dev, w))
         else do {
           len \<leftarrow> susp_len e;
           let ptr = ptr + unat len;
           if int ptr < uint size' - 1 then Some (Inl (ptr, sua, size', d, dev, w))
           else Some (Inr ((0, d), dev, w))
         }
       }
     }
   })"

definition iterate_entries ::
    "'w context_t \<Rightarrow> 'w cdrom_boot_dev_t \<Rightarrow> u32 \<Rightarrow> u32 \<Rightarrow> u32
     \<Rightarrow> (byte list \<Rightarrow> 'd \<Rightarrow> 'w \<Rightarrow> (int \<times> 'd \<times> 'w) option) \<Rightarrow> 'd \<Rightarrow> 'w
     \<Rightarrow> ((int \<times> 'd) \<times> 'w cdrom_boot_dev_t \<times> 'w) option" where
  "iterate_entries ctx dev block offset size' iter_func userdata w = do {
     let (sua, w) = malloc ctx (sint size') w;
     ((res, sua), dev, w) \<leftarrow> cdrom_read dev block offset size' sua w;
     if res \<noteq> 0 then Some ((-1, userdata), dev, w)
     else loop (iterate_step ctx iter_func) (0, sua, size', userdata, dev, w)
   }"

record tmp_data =
  td_entry :: "byte list option"
  td_sig :: "byte \<times> byte"

definition my_iteration ::
    "'w context_t \<Rightarrow> byte list \<Rightarrow> tmp_data \<Rightarrow> 'w \<Rightarrow> (int \<times> tmp_data \<times> 'w) option" where
  "my_iteration ctx e d w = do {
     hit \<leftarrow> sig_is e (fst (td_sig d)) (snd (td_sig d));
     if hit then do {
       len \<leftarrow> susp_len e;
       let (entry, w) = malloc ctx (uint len) w;
       entry \<leftarrow> memcpy entry 0 e (unat len);
       Some (1, d\<lparr>td_entry := Some entry\<rparr>, w)
     } else Some (0, d, w)
   }"

definition get_entry ::
    "'w context_t \<Rightarrow> 'w cdrom_boot_dev_t \<Rightarrow> u32 \<Rightarrow> u32 \<Rightarrow> u32 \<Rightarrow> byte \<times> byte \<Rightarrow> 'w
     \<Rightarrow> (byte list option \<times> 'w cdrom_boot_dev_t \<times> 'w) option" where
  "get_entry ctx dev block offset size' sig w = do {
     ((_, d), dev, w) \<leftarrow>
       iterate_entries ctx dev block offset size' (my_iteration ctx) \<lparr>td_entry = None, td_sig = sig\<rparr> w;
     Some (td_entry d, dev, w)
   }"

subsection \<open>Finding files\<close>

text \<open>The parts of a path; a \<open>/\<close> at its very end is not a separator.\<close>

fun split_path :: "string \<Rightarrow> string list" where
  "split_path [] = [[]]"
| "split_path [c] = [[c]]"
| "split_path (c # d # s) =
     (if c = CHR ''/'' then [] # split_path (d # s)
      else case split_path (d # s) of x # xs \<Rightarrow> (c # x) # xs | [] \<Rightarrow> [[c]])"

text \<open>The last \<open>;\<close> of a name ends it, one in its first place apart.\<close>

fun cut_version :: "nat \<Rightarrow> byte list \<Rightarrow> byte list option" where
  "cut_version 0 name = Some name"
| "cut_version (Suc i) name = do {
     c \<leftarrow> load name (Suc i);
     if c = 0x3B then store name (Suc i) 0 else cut_version i name
   }"

text \<open>The Rock Ridge name of a directory record, if it has one.\<close>

definition rr_name ::
    "'w context_t \<Rightarrow> 'w cdrom_boot_dev_t \<Rightarrow> u32 \<Rightarrow> int \<Rightarrow> int \<Rightarrow> 'w
     \<Rightarrow> (char list option \<times> 'w cdrom_boot_dev_t \<times> 'w) option" where
  "rr_name ctx this block sua_off sua_size w =
     (if cd_rr this = 0 then Some (None, this, w)
      else do {
        (entry, this, w) \<leftarrow> get_entry ctx this block (of_int sua_off) (of_int sua_size) (0x4E, 0x4D) w;
        case entry of
          None \<Rightarrow> Some (None, this, w)
        | Some entry \<Rightarrow> do {
            flags \<leftarrow> susp_data entry 0;
            if flags AND ISO9660_RR_DOT \<noteq> 0 then Some (Some (lit ''.''), this, w)
            else if flags AND ISO9660_RR_DOTDOT \<noteq> 0 then Some (Some (lit ''..''), this, w)
            else do {
              len \<leftarrow> susp_len entry;
              if len > 5 then do {
                let size' = unat len - 5;
                let (fname, w) = malloc ctx (int size' + 1) w;
                fname \<leftarrow> memcpy fname 0 (drop 5 entry) size';
                fname \<leftarrow> store fname size' 0;
                Some (Some (chars fname), this, w)
              } else Some (None, this, w)
            }
          }
      })"

text \<open>The ISO name; the outer \<open>None\<close> of the result is a failed read.\<close>

definition iso_name ::
    "'w context_t \<Rightarrow> 'w cdrom_boot_dev_t \<Rightarrow> u32 \<Rightarrow> int \<Rightarrow> byte \<Rightarrow> 'w
     \<Rightarrow> (char list option \<times> 'w cdrom_boot_dev_t \<times> 'w) option" where
  "iso_name ctx this block nameoffset namelen w = do {
     let (name, w) = malloc ctx (uint namelen + 1) w;
     ((res, name), this, w) \<leftarrow> cdrom_read this block (of_int nameoffset) (ucast namelen) name w;
     if res \<noteq> 0 then Some (None, this, w)
     else do {
       name \<leftarrow> store name (unat namelen) 0;
       name \<leftarrow> cut_version (unat namelen) name;
       c \<leftarrow> load name 0;
       Some (Some (if namelen = 1 \<and> c = 0 then lit ''.''
                   else if namelen = 1 \<and> c = 1 then lit ''..''
                   else chars name), this, w)
     }
   }"

text \<open>
  One round of the search of a directory: state \<open>found\<close>, \<open>offset\<close>, the record, the device and the
  world; the exit value is \<open>None\<close> for the early return of 0.
\<close>

type_synonym 'w dir_st = "bool \<times> int \<times> byte list \<times> 'w cdrom_boot_dev_t \<times> 'w"

definition match_name :: "string \<Rightarrow> char list \<Rightarrow> bool \<Rightarrow> byte list \<Rightarrow> bool option" where
  "match_name element fname last' dirent = do {
     d \<leftarrow> strcasecmp (element @ [NUL]) fname;
     flags \<leftarrow> dir_flags dirent;
     Some (d = 0 \<and> (if last' then flags AND 3 \<noteq> 2 else flags AND 3 = 2))
   }"

definition dirent_step ::
    "'w context_t \<Rightarrow> string \<Rightarrow> bool \<Rightarrow> int \<Rightarrow> int \<Rightarrow> 'w dir_st
     \<Rightarrow> ('w dir_st + 'w dir_st option \<times> 'w cdrom_boot_dev_t \<times> 'w) option" where
  "dirent_step ctx element last' block size' = (\<lambda>(found, offset, dirent, this, w).
     if found \<or> \<not> offset < size' then Some (Inr (Some (found, offset, dirent, this, w), this, w))
     else do {
       ((res, dirent), this, w) \<leftarrow> cdrom_read this (of_int block) (of_int offset) (of_nat dir_size) dirent w;
       if res \<noteq> 0 then Some (Inr (None, this, w))
       else do {
         len \<leftarrow> dir_len dirent;
         if len = 0 then Some (Inl (False, (offset div 2048 + 1) * 2048, dirent, this, w))
         else do {
           namelen \<leftarrow> dir_namelen dirent;
           let nameoffset = offset + int dir_size;
           let sua_off = int dir_size + uint namelen + 1 - (uint namelen mod 2);
           let sua_size = uint len - sua_off;
           let sua_off = sua_off + offset + uint (cd_susp_skip this);
           (fname, this, w) \<leftarrow> rr_name ctx this (of_int block) sua_off sua_size w;
           (fname, this, w) \<leftarrow> (case fname of
               None \<Rightarrow> iso_name ctx this (of_int block) nameoffset namelen w
             | Some f \<Rightarrow> Some (Some f, this, w));
           case fname of
             None \<Rightarrow> Some (Inr (None, this, w))
           | Some fname \<Rightarrow> do {
               found \<leftarrow> match_name element fname last' dirent;
               Some (Inl (found, offset + uint len, dirent, this, w))
             }
         }
       }
     })"

text \<open>
  The levels of the path. When a part is not found, the search goes on at the same place with the next
  part. The result is \<open>found\<close>, \<open>block\<close> and \<open>size\<close>, or \<open>None\<close> for the early return.
\<close>

fun find_levels ::
    "'w context_t \<Rightarrow> string list \<Rightarrow> int \<times> int \<times> 'w dir_st
     \<Rightarrow> ((bool \<times> int \<times> int) option \<times> 'w cdrom_boot_dev_t \<times> 'w) option" where
  "find_levels ctx [] (block, size', found, offset, dirent, this, w) = Some (Some (found, block, size'), this, w)"
| "find_levels ctx (element # es) (block, size', _, offset, dirent, this, w) = do {
     (s, this, w) \<leftarrow> loop (dirent_step ctx element (es = []) block size') (False, offset, dirent, this, w);
     case s of
       None \<Rightarrow> Some (None, this, w)
     | Some (found, offset, dirent, _, _) \<Rightarrow>
         if found then do {
           block \<leftarrow> dir_first_sector_be dirent;
           size' \<leftarrow> dir_size_be dirent;
           find_levels ctx es (sint block, sint size', found, 0, dirent, this, w)
         } else find_levels ctx es (block, size', found, offset, dirent, this, w)
   }"

text \<open>
  The return value, and \<open>*fblock\<close> and \<open>*fsize\<close> if they are set. The local \<open>dirent\<close> is read only after a
  read has filled it, so its first contents are taken to be zero.
\<close>

definition fs_cdrom_find_file ::
    "'w context_t \<Rightarrow> 'w cdrom_boot_dev_t \<Rightarrow> string \<Rightarrow> 'w
     \<Rightarrow> ((int \<times> (u32 \<times> u32) option) \<times> 'w cdrom_boot_dev_t \<times> 'w) option" where
  "fs_cdrom_find_file ctx this filename w = do {
     let filename = (if take 1 filename = ''/'' then drop 1 filename else filename);
     let (_, w) = malloc ctx (int (length filename) + 1) w;
     let elements = split_path filename;
     guard (length elements \<le> ISO9660_MAX_DEPTH + 1);
     block \<leftarrow> dir_first_sector_be (voldesc_rootdir (cd_voldesc this));
     size' \<leftarrow> dir_size_be (voldesc_rootdir (cd_voldesc this));
     (r, this, w) \<leftarrow> find_levels ctx elements (sint block, sint size', False, 0, replicate dir_size 0, this, w);
     Some (case r of
         Some (True, block, size') \<Rightarrow> ((size', Some (of_int block, of_int size')), this, w)
       | _ \<Rightarrow> ((0, None), this, w))
   }"

definition fs_cdrom_load_file ::
    "'w context_t \<Rightarrow> 'w cdrom_boot_dev_t \<Rightarrow> string \<Rightarrow> byte list \<Rightarrow> 'w
     \<Rightarrow> ((int \<times> byte list) \<times> 'w cdrom_boot_dev_t \<times> 'w) option" where
  "fs_cdrom_load_file ctx this filename buffer w = do {
     ((r, f), this, w) \<leftarrow> fs_cdrom_find_file ctx this filename w;
     let (block, size') = (case f of Some bs \<Rightarrow> bs | None \<Rightarrow> (0, 0));
     if r \<noteq> 0 then do {
       ((_, buffer), this, w) \<leftarrow> cdrom_read this block 0 size' buffer w;
       Some ((sint size', buffer), this, w)
     } else Some ((sint size', buffer), this, w)
   }"

subsection \<open>Opening a disc\<close>

text \<open>The first CD of the unit scan, \<open>None\<close> for NULL. A NULL scan list is \<open>[]\<close>.\<close>

definition cd_dev_step ::
    "'w context_t \<Rightarrow> 'w scan_unit option \<times> 'w
     \<Rightarrow> ('w scan_unit option \<times> 'w + ('w scan_unit option \<times> 'w block_dev_desc option) \<times> 'w) option" where
  "cd_dev_step ctx = (\<lambda>(hnd, w).
     case hnd of
       None \<Rightarrow> Some (Inr ((None, None), w))
     | Some h \<Rightarrow>
         if bd_type (ush_device h) = DEV_TYPE_CDROM
         then (case malloc ctx 104 w of (_, w) \<Rightarrow> Some (Inr ((Some h, Some (ush_device h)), w)))
         else (case next_unit_scan ctx h w of ((hnd', _), w') \<Rightarrow> Some (Inl (hnd', w'))))"

definition cd_get_dev :: "'w context_t \<Rightarrow> 'w \<Rightarrow> ('w block_dev_desc option \<times> 'w) option" where
  "cd_get_dev ctx w =
     (case start_unit_scan ctx [] w of (_, w) \<Rightarrow>
        case start_unit_scan ctx get_scan_list w of ((hnd, _), w) \<Rightarrow>
          do {
            ((hnd, bdev), w) \<leftarrow> loop (cd_dev_step ctx) (hnd, w);
            Some (bdev, end_global_scan ctx (end_unit_scan ctx hnd w))
          })"

text \<open>
  A fresh device object: every field but \<open>phys\<close> and \<open>rr\<close> is what \<open>malloc\<close> left there, the number of the
  cached sector included.
\<close>

definition cdrom_fresh ::
    "'w context_t \<Rightarrow> 'w block_dev_desc \<Rightarrow> 'w \<Rightarrow> ('w cdrom_boot_dev_t \<times> 'w) option" where
  "cdrom_fresh ctx dev w = do {
     let (b, w) = malloc ctx 2296 w;
     voldesc \<leftarrow> slice b 16 189;
     rootdir \<leftarrow> slice b 205 33;
     tmpbuf \<leftarrow> slice b 238 2048;
     sector \<leftarrow> be32 b 2288;
     skip \<leftarrow> load b 2293;
     Some (\<lparr>cd_phys = dev, cd_voldesc = voldesc, cd_rootdir = rootdir, cd_tmpbuf = tmpbuf,
            cd_sector_in_buf = sector, cd_rr = 0, cd_susp_skip = skip\<rparr>, w)
   }"

text \<open>The test for the system use area of the root directory.\<close>

definition cdrom_susp ::
    "'w context_t \<Rightarrow> 'w cdrom_boot_dev_t \<Rightarrow> 'w \<Rightarrow> ('w cdrom_boot_dev_t \<times> 'w) option" where
  "cdrom_susp ctx boot w = do {
     first \<leftarrow> dir_first_sector_be (voldesc_rootdir (cd_voldesc boot));
     namelen \<leftarrow> dir_namelen (cd_rootdir boot);
     len \<leftarrow> dir_len (cd_rootdir boot);
     let sua_pos = int dir_size + uint namelen + uint namelen mod 2 - 1;
     let sua_size = uint len - sua_pos;
     let (sua, w) = malloc ctx sua_size w;
     ((_, sua), boot, w) \<leftarrow> cdrom_read boot first (of_int sua_pos) (of_int sua_size) sua w;
     sp \<leftarrow> sig_is sua 0x53 0x50;
     if sp then do {
       skip \<leftarrow> susp_data sua 2;
       let boot = boot\<lparr>cd_susp_skip := skip\<rparr>;
       (entry, boot, w) \<leftarrow> get_entry ctx boot first (of_int sua_pos) (of_int sua_size) (0x52, 0x52) w;
       Some (if entry \<noteq> None then boot\<lparr>cd_rr := 1\<rparr> else boot, w)
     } else Some (boot, w)
   }"

definition cdrom_create ::
    "'w context_t \<Rightarrow> 'w \<Rightarrow> ('w cdrom_boot_dev_t option \<times> 'w) option" where
  "cdrom_create ctx w = do {
     (dev, w) \<leftarrow> cd_get_dev ctx w;
     case dev of
       None \<Rightarrow> Some (None, w)
     | Some dev \<Rightarrow> do {
         (boot, w) \<leftarrow> cdrom_fresh ctx dev w;
         ((res, voldesc), boot, w) \<leftarrow> cdrom_read boot 16 0 189 (cd_voldesc boot) w;
         let boot = boot\<lparr>cd_voldesc := voldesc\<rparr>;
         if res \<noteq> 0 then Some (None, w)
         else do {
           d \<leftarrow> strncmp (chars (voldesc_magic voldesc)) (lit ''CD001'') 5;
           if d \<noteq> 0 then Some (None, w)
           else do {
             first \<leftarrow> dir_first_sector_be (voldesc_rootdir voldesc);
             ((res, rootdir), boot, w) \<leftarrow> cdrom_read boot first 0 (of_nat dir_size) (cd_rootdir boot) w;
             let boot = boot\<lparr>cd_rootdir := rootdir\<rparr>;
             if res \<noteq> 0 then Some (None, w)
             else do { (boot, w) \<leftarrow> cdrom_susp ctx boot w; Some (Some boot, w) }
           }
         }
       }
   }"

end
