(* ===== verification/Cdrom_Read.thy ===== *)
theory Cdrom_Read
  imports Cdrom
begin

text \<open>
  \<open>cdrom_read\<close> as a read from the image of the disc: sectors, offsets, the sector cache and the three
  parts of the routine disappear behind it.
\<close>

text \<open>A drive with an image of \<open>N\<close> sectors in it, and a device object whose cache agrees with it.\<close>

definition disc_image :: "byte list \<Rightarrow> nat \<Rightarrow> bool" where
  "disc_image img N \<longleftrightarrow> length img = 2048 * N \<and> N < 2 ^ 20"

definition cd_reads :: "'w block_dev_desc \<Rightarrow> byte list \<Rightarrow> nat \<Rightarrow> bool" where
  "cd_reads dev img N \<longleftrightarrow> disc_image img N \<and>
     (\<forall>s n buf w. 0 < n \<and> s + n \<le> N \<and> 2048 * n \<le> length buf \<longrightarrow>
        bd_block_read dev (bd_dev dev) (of_nat s) (of_nat n) buf w
          = ((1, take (2048 * n) (drop (2048 * s) img) @ drop (2048 * n) buf), w))"

definition cache_ok :: "'w cdrom_boot_dev_t \<Rightarrow> byte list \<Rightarrow> nat \<Rightarrow> bool" where
  "cache_ok boot img N \<longleftrightarrow> length (cd_tmpbuf boot) = 2048
     \<and> (unat (cd_sector_in_buf boot) < N
         \<longrightarrow> cd_tmpbuf boot = take 2048 (drop (2048 * unat (cd_sector_in_buf boot)) img))"

text \<open>Only the cache of the device object changes.\<close>

definition same_disc :: "'w cdrom_boot_dev_t \<Rightarrow> 'w cdrom_boot_dev_t \<Rightarrow> bool" where
  "same_disc a b \<longleftrightarrow> cd_phys b = cd_phys a \<and> cd_voldesc b = cd_voldesc a \<and> cd_rootdir b = cd_rootdir a
     \<and> cd_rr b = cd_rr a \<and> cd_susp_skip b = cd_susp_skip a"

lemma same_disc_refl [simp]: "same_disc a a"
  by (simp add: same_disc_def)

lemma same_disc_trans: "same_disc a b \<Longrightarrow> same_disc b c \<Longrightarrow> same_disc a c"
  by (simp add: same_disc_def)

lemma skip_sectors_eq:
  "skip_sectors (of_nat b) (of_nat (2048 * k + o')) = (of_nat (b + k), of_nat o')"
  if "o' < 2048" and "2048 * k + o' < 2 ^ 32"
  using that
proof (induction k arbitrary: b)
  case 0
  then have "\<not> (2048 :: u32) \<le> of_nat o'" by (simp add: word_le_nat_alt unat_small)
  then show ?case by (simp add: skip_sectors.simps)
next
  case (Suc k)
  then have "unat (of_nat (2048 * Suc k + o') :: u32) = 2048 * Suc k + o'" by (intro unat_small) simp
  then have "(2048 :: u32) \<le> of_nat (2048 * Suc k + o')" by (simp only: word_le_nat_alt) simp
  moreover have "of_nat (2048 * Suc k + o') - (2048 :: u32) = of_nat (2048 * k + o')"
    by (simp add: algebra_simps)
  moreover have "of_nat b + (1 :: u32) = of_nat (Suc b)" by (simp add: add.commute)
  ultimately have "skip_sectors (of_nat b) (of_nat (2048 * Suc k + o'))
      = skip_sectors (of_nat (Suc b)) (of_nat (2048 * k + o'))"
    by (simp only: skip_sectors.simps [of "of_nat b"] if_True)
  also have "\<dots> = (of_nat (Suc b + k), of_nat o')" using Suc.prems by (intro Suc.IH) simp_all
  finally show ?case by simp
qed

lemma cache_sector_eq:
  assumes dev: "cd_reads (cd_phys boot) img N" and cache: "cache_ok boot img N" and b: "b < N"
  shows "\<exists>boot'. cache_sector boot (of_nat b) w = (True, boot', w) \<and> same_disc boot boot' \<and> cache_ok boot' img N
    \<and> cd_tmpbuf boot' = take 2048 (drop (2048 * b) img)"
proof -
  have u: "unat (of_nat b :: u32) = b" using b dev by (intro unat_small) (simp add: cd_reads_def disc_image_def)
  show ?thesis
  proof (cases "cd_sector_in_buf boot = of_nat b")
    case True
    with u b cache show ?thesis by (auto simp: cache_sector_def cache_ok_def)
  next
    case False
    have "bd_block_read (cd_phys boot) (bd_dev (cd_phys boot)) (of_nat b) (of_nat 1) (cd_tmpbuf boot) w
        = ((1, take (2048 * 1) (drop (2048 * b) img) @ drop (2048 * 1) (cd_tmpbuf boot)), w)"
    proof -
      have "0 < (1 :: nat) \<and> b + 1 \<le> N \<and> 2048 * 1 \<le> length (cd_tmpbuf boot)"
        using b cache by (simp add: cache_ok_def)
      then show ?thesis using dev unfolding cd_reads_def by blast
    qed
    moreover have "length (take 2048 (drop (2048 * b) img)) = 2048"
      using dev b by (simp add: cd_reads_def disc_image_def)
    ultimately show ?thesis
      using False u cache by (auto simp: cache_sector_def cache_ok_def same_disc_def)
  qed
qed

subsection \<open>The three parts\<close>

lemma memcpy_at:
  assumes "k \<le> length src" and "pos + k \<le> length dest"
  shows "memcpy dest pos src k = Some (take pos dest @ take k src @ drop (pos + k) dest)"
  using assms by (simp add: memcpy_def memmove_def slice_def blit_def)

text \<open>\<open>dest\<close> with \<open>n\<close> bytes of the image, from position \<open>p\<close> on, written at \<open>pos\<close>.\<close>

definition put :: "byte list \<Rightarrow> nat \<Rightarrow> byte list \<Rightarrow> nat \<Rightarrow> nat \<Rightarrow> byte list" where
  "put dest pos img p n = take pos dest @ take n (drop p img) @ drop (pos + n) dest"

lemma length_put: "pos + n \<le> length dest \<Longrightarrow> p + n \<le> length img \<Longrightarrow> length (put dest pos img p n) = length dest"
  by (simp add: put_def)

lemma put_put:
  assumes "pos + n + m \<le> length dest" and "p + n \<le> length img"
  shows "put (put dest pos img p n) (pos + n) img (p + n) m = put dest pos img p (n + m)"
proof -
  have "take (n + m) (drop p img) = take n (drop p img) @ take m (drop (p + n) img)"
    by (simp only: take_add drop_drop add.commute [of n p])
  with assms show ?thesis by (simp add: put_def ac_simps)
qed

lemma put_0 [simp]: "put dest pos img p 0 = dest"
  by (simp add: put_def)

lemma len_min:
  assumes "l < 2 ^ 32" and "o' < 2048"
  shows "(if (of_nat l :: u32) < 2048 - of_nat o' then of_nat l else 2048 - of_nat o') = (of_nat (min l (2048 - o')) :: u32)"
proof -
  have "(2048 - of_nat o' :: u32) = of_nat (2048 - o')" using assms(2) by simp
  moreover have "(of_nat l :: u32) < of_nat (2048 - o') \<longleftrightarrow> l < 2048 - o'"
    unfolding word_less_nat_alt unat_small [OF assms(1)] using assms(2) by (subst unat_small) simp_all
  ultimately show ?thesis by (simp add: min_def)
qed

lemma read_head_ok:
  assumes dev: "cd_reads (cd_phys boot) img N" and cache: "cache_ok boot img N"
    and o: "o' < 2048" "2048 * b + o' + l \<le> 2048 * N" and l: "l \<le> length dest"
  shows "\<exists>boot' b' k. read_head (of_nat b, of_nat o', of_nat l, 0, dest, boot, w)
      = Some (True, of_nat b', 0, of_nat (l - k), k, put dest 0 img (2048 * b + o') k, boot', w)
    \<and> same_disc boot boot' \<and> cache_ok boot' img N \<and> k \<le> l \<and> (k < l \<longrightarrow> 2048 * b' = 2048 * b + o' + k)"
proof (cases "o' = 0")
  case True
  with cache show ?thesis by (intro exI [of _ boot] exI [of _ b] exI [of _ 0]) (simp add: read_head_def)
next
  case False
  have N: "N < 2 ^ 20" "length img = 2048 * N" using dev by (simp_all add: cd_reads_def disc_image_def)
  have b: "b < N" using o False by simp
  from cache_sector_eq [OF dev cache b, of w] obtain boot' where c: "cache_sector boot (of_nat b) w = (True, boot', w)"
    "same_disc boot boot'" "cache_ok boot' img N" "cd_tmpbuf boot' = take 2048 (drop (2048 * b) img)" by blast
  let ?k = "min l (2048 - o')"
  have small: "l < 2 ^ 32" using o N by simp
  have u: "unat (of_nat o' :: u32) = o'" "unat (of_nat ?k :: u32) = ?k" using o(1) small by (simp_all add: unat_small)
  have nz: "(of_nat o' :: u32) \<noteq> 0"
  proof
    assume "(of_nat o' :: u32) = 0"
    then have "unat (of_nat o' :: u32) = 0" by simp
    with u(1) False show False by simp
  qed
  have src: "take ?k (drop o' (cd_tmpbuf boot')) = take ?k (drop (2048 * b + o') img)"
    unfolding c(4) drop_take by (simp add: add.commute)
  have "length (cd_tmpbuf boot') = 2048" using c(3) by (simp add: cache_ok_def)
  then have "memcpy dest 0 (drop o' (cd_tmpbuf boot')) ?k = Some (put dest 0 img (2048 * b + o') ?k)"
    using o(1) l src by (subst memcpy_at) (simp_all add: put_def)
  moreover have "(of_nat l - of_nat ?k :: u32) = of_nat (l - ?k)" by (simp add: of_nat_diff)
  moreover have "(of_nat b + 1 :: u32) = of_nat (b + 1)" by simp
  ultimately have "read_head (of_nat b, of_nat o', of_nat l, 0, dest, boot, w)
      = Some (True, of_nat (b + 1), 0, of_nat (l - ?k), ?k, put dest 0 img (2048 * b + o') ?k, boot', w)"
    using nz c(1) u by (simp only: read_head_def prod.case if_True if_not_P not_False_eq_True Let_def len_min [OF small o(1)]
        not_True_eq_False if_False bind.simps add_0)
  with c(2,3) o(1) show ?thesis
    by (intro exI [of _ boot'] exI [of _ "b + 1"] exI [of _ ?k]) (auto simp: min_def)
qed

lemma read_body_ok:
  assumes dev: "cd_reads (cd_phys boot) img N" and l: "pos + l \<le> length dest" "l < 2 ^ 32"
    and b: "0 < l \<Longrightarrow> 2048 * b + l \<le> 2048 * N"
  shows "read_body (of_nat b, 0, of_nat l, pos, dest, boot, w)
      = Some (True, of_nat (b + l div 2048), 0, of_nat (l mod 2048), pos + 2048 * (l div 2048),
          put dest pos img (2048 * b) (2048 * (l div 2048)), boot, w)"
proof -
  let ?n = "l div 2048"
  have u: "unat (of_nat l :: u32) = l" using l(2) by (rule unat_small)
  have d: "(of_nat l div 2048 :: u32) = of_nat ?n"
  proof (rule word_unat_eq_iff [THEN iffD2])
    have "unat (of_nat ?n :: u32) = ?n" using l(2) by (intro unat_small) simp
    then show "unat (of_nat l div 2048 :: u32) = unat (of_nat ?n :: u32)" by (simp add: unat_div_distrib u)
  qed
  show ?thesis
  proof (cases "?n = 0")
    case True
    then have "l < 2048" by auto
    with True show ?thesis by (simp add: read_body_def d)
  next
    case False
    have un: "unat (of_nat ?n :: u32) = ?n" using l(2) by (intro unat_small) simp
    have n2: "(2048 * of_nat ?n :: u32) = of_nat (2048 * ?n)" by simp
    have u2: "unat (of_nat (2048 * ?n) :: u32) = 2048 * ?n" using l(2) by (intro unat_small) simp
    have nz: "(of_nat ?n :: u32) \<noteq> 0" using False un by (metis unat_0)
    have fits: "pos + 2048 * ?n \<le> length dest" using l(1) by simp
    have "0 < l" using False by (cases l) auto
    from b [OF this] have "b + ?n \<le> N" using times_div_less_eq_dividend [of 2048 l] by linarith
    then have rd: "bd_block_read (cd_phys boot) (bd_dev (cd_phys boot)) (of_nat b) (of_nat ?n) (drop pos dest) w
        = ((1, take (2048 * ?n) (drop (2048 * b) img) @ drop (2048 * ?n) (drop pos dest)), w)"
      using dev False fits unfolding cd_reads_def by simp
    have m: "(of_nat l - of_nat (2048 * ?n) :: u32) = of_nat (l mod 2048)"
    proof -
      have "of_nat (l - 2048 * ?n) = (of_nat l - of_nat (2048 * ?n) :: u32)"
        by (rule of_nat_diff) (rule times_div_less_eq_dividend)
      then show ?thesis by (simp only: minus_mult_div_eq_mod)
    qed
    show ?thesis
      using nz fits rd by (simp add: read_body_def d Let_def n2 [simplified] u2 [simplified] put_def m [simplified] add.commute)
  qed
qed

lemma read_tail_ok:
  assumes dev: "cd_reads (cd_phys boot) img N" and cache: "cache_ok boot img N"
    and l: "l < 2048" "pos + l \<le> length dest" and b: "0 < l \<Longrightarrow> 2048 * b + l \<le> 2048 * N"
  shows "\<exists>boot'. read_tail (of_nat b, 0, of_nat l, pos, dest, boot, w)
      = Some (True, of_nat b, 0, of_nat l, pos, put dest pos img (2048 * b) l, boot', w)
    \<and> same_disc boot boot' \<and> cache_ok boot' img N"
proof (cases "l = 0")
  case True
  with cache show ?thesis by (simp add: read_tail_def)
next
  case False
  then have "b < N" using b by simp
  from cache_sector_eq [OF dev cache this, of w] obtain boot' where c: "cache_sector boot (of_nat b) w = (True, boot', w)"
    "same_disc boot boot'" "cache_ok boot' img N" "cd_tmpbuf boot' = take 2048 (drop (2048 * b) img)" by blast
  have u: "unat (of_nat l :: u32) = l" using l(1) by (intro unat_small) simp
  have nz: "(of_nat l :: u32) \<noteq> 0"
  proof
    assume "(of_nat l :: u32) = 0"
    then have "unat (of_nat l :: u32) = 0" by simp
    with u False show False by simp
  qed
  have "(of_nat l :: u32) < 2048" using l(1) u by (simp add: word_less_nat_alt)
  then have len: "(if (of_nat l :: u32) < 2048 - 0 then of_nat l else 2048 - 0) = (of_nat l :: u32)" by simp
  have "length (cd_tmpbuf boot') = 2048" using c(3) by (simp add: cache_ok_def)
  moreover have "take l (cd_tmpbuf boot') = take l (drop (2048 * b) img)" using l(1) c(4) by (simp add: min_def)
  ultimately have "memcpy dest pos (cd_tmpbuf boot') l = Some (put dest pos img (2048 * b) l)"
    using l by (subst memcpy_at) (simp_all add: put_def)
  then show ?thesis
    using nz c u len by (intro exI [of _ boot']) (simp add: read_tail_def Let_def)
qed

text \<open>\<open>cdrom_read\<close>: the bytes at the position of the image, whatever sectors they lie in.\<close>

lemma cdrom_read_ok:
  assumes dev: "cd_reads (cd_phys boot) img N" and cache: "cache_ok boot img N"
    and p: "2048 * b + off + l \<le> 2048 * N" and l: "l \<le> length dest"
  shows "\<exists>boot'. cdrom_read boot (of_nat b) (of_nat off) (of_nat l) dest w
      = Some ((0, take l (drop (2048 * b + off) img) @ drop l dest), boot', w)
    \<and> same_disc boot boot' \<and> cache_ok boot' img N"
proof -
  define k where "k = off div 2048"
  define o' where "o' = off mod 2048"
  have off: "off = 2048 * k + o'" "o' < 2048" by (simp_all add: k_def o'_def)
  have N: "N < 2 ^ 20" "length img = 2048 * N" using dev by (simp_all add: cd_reads_def disc_image_def)
  have "2048 * k + o' < 2 ^ 32" using p N off by simp
  then have sk: "skip_sectors (of_nat b) (of_nat off) = (of_nat (b + k), of_nat o')"
    unfolding off(1) by (rule skip_sectors_eq [OF off(2)])
  have "2048 * (b + k) + o' + l \<le> 2048 * N" using p off(1) by (simp add: algebra_simps)
  from read_head_ok [OF dev cache off(2) this l, of w] obtain boot1 b1 n where
    h: "read_head (of_nat (b + k), of_nat o', of_nat l, 0, dest, boot, w)
      = Some (True, of_nat b1, 0, of_nat (l - n), n, put dest 0 img (2048 * (b + k) + o') n, boot1, w)"
    and s1: "same_disc boot boot1" "cache_ok boot1 img N" and n: "n \<le> l" "n < l \<Longrightarrow> 2048 * b1 = 2048 * (b + k) + o' + n"
    by blast
  define P where "P = 2048 * b + off"
  have P: "2048 * (b + k) + o' = P" using off(1) by (simp add: P_def)
  have room: "P + l \<le> length img" using p N by (simp add: P_def)
  define m where "m = l - n"
  define d1 where "d1 = put dest 0 img P n"
  have ld1: "length d1 = length dest" using n(1) l room by (simp add: d1_def length_put)
  have dev1: "cd_reads (cd_phys boot1) img N" using dev s1(1) by (simp add: same_disc_def)
  have b1: "2048 * b1 = P + n" if "0 < m" using n(2) that unfolding P by (simp add: m_def)
  have lm: "n + m = l" using n(1) by (simp add: m_def)
  have m1: "n + m \<le> length d1" "m < 2 ^ 32" using lm l ld1 room N by simp_all
  have "2048 * b1 + m \<le> 2048 * N" if "0 < m" using b1 [OF that] lm room N(2) by simp
  from read_body_ok [OF dev1 m1 this, of w] have
    bd: "read_body (of_nat b1, 0, of_nat m, n, d1, boot1, w)
      = Some (True, of_nat (b1 + m div 2048), 0, of_nat (m mod 2048), n + 2048 * (m div 2048),
          put d1 n img (2048 * b1) (2048 * (m div 2048)), boot1, w)" by blast
  define q where "q = 2048 * (m div 2048)"
  define r where "r = m mod 2048"
  have qr: "q + r = m" "r < 2048" by (simp_all add: q_def r_def)
  define d2 where "d2 = put d1 n img (2048 * b1) q"
  have d2: "d2 = put dest 0 img P (n + q)"
  proof (cases "q = 0")
    case True
    then show ?thesis by (simp add: d2_def d1_def)
  next
    case False
    then have "2048 * b1 = P + n" using b1 qr by simp
    then show ?thesis
      unfolding d2_def d1_def using put_put [of 0 n q dest P img] lm qr l room by simp
  qed
  have ld2: "length d2 = length dest" unfolding d2 using lm qr l room by (intro length_put) simp_all
  have "2048 * (b1 + m div 2048) + r \<le> 2048 * N" if "0 < r"
    using b1 that lm qr room N(2) by (simp add: algebra_simps q_def [symmetric])
  moreover have "n + q + r \<le> length d2" using ld2 lm qr l by simp
  ultimately obtain boot2 where
    t: "read_tail (of_nat (b1 + m div 2048), 0, of_nat r, n + q, d2, boot1, w)
      = Some (True, of_nat (b1 + m div 2048), 0, of_nat r, n + q,
          put d2 (n + q) img (2048 * (b1 + m div 2048)) r, boot2, w)"
    and s2: "same_disc boot1 boot2" "cache_ok boot2 img N"
    using read_tail_ok [OF dev1 s1(2) qr(2), of "n + q" d2 "b1 + m div 2048" w] by blast
  have fin: "put d2 (n + q) img (2048 * (b1 + m div 2048)) r = put dest 0 img P l"
  proof (cases "r = 0")
    case True
    then show ?thesis using d2 lm qr by simp
  next
    case False
    then have "2048 * (b1 + m div 2048) = P + (n + q)" using b1 qr by (simp add: algebra_simps q_def [symmetric])
    then show ?thesis
      unfolding d2 using put_put [of 0 "n + q" r dest P img] lm qr l room by (simp add: add.assoc)
  qed
  have "cdrom_read boot (of_nat b) (of_nat off) (of_nat l) dest w = Some ((0, put dest 0 img P l), boot2, w)"
    unfolding cdrom_read_def sk Let_def prod.case
    using h [unfolded P] bd t fin by (simp add: m_def d1_def q_def r_def d2_def)
  moreover have "same_disc boot boot2" using s1(1) s2(1) by (rule same_disc_trans)
  ultimately show ?thesis using s2(2) by (auto simp: put_def P_def)
qed

text \<open>A sector that the cache claims to hold is not read from the disc.\<close>

lemma cdrom_read_cached:
  assumes "cd_sector_in_buf boot = block" and "length (cd_tmpbuf boot) = 2048"
    and "0 < l" and "l < 2048" and "l \<le> length dest"
  shows "cdrom_read boot block 0 (of_nat l) dest w = Some ((0, take l (cd_tmpbuf boot) @ drop l dest), boot, w)"
proof -
  have u: "unat (of_nat l :: u32) = l" using assms(4) by (intro unat_small) simp
  have nz: "(of_nat l :: u32) \<noteq> 0"
  proof
    assume "(of_nat l :: u32) = 0"
    then have "unat (of_nat l :: u32) = 0" by simp
    with u assms(3) show False by simp
  qed
  have lt: "(of_nat l :: u32) < 2048" using assms(4) u by (simp add: word_less_nat_alt)
  then have "(of_nat l div 2048 :: u32) = 0" by (simp add: div_word_less)
  moreover have "memcpy dest 0 (cd_tmpbuf boot) l = Some (take l (cd_tmpbuf boot) @ drop l dest)"
    using assms(2,4,5) by (subst memcpy_at) simp_all
  ultimately show ?thesis
    using assms(1) u nz lt
    by (simp add: cdrom_read_def skip_sectors.simps read_head_def read_body_def read_tail_def cache_sector_def Let_def)
qed

end
