(* ===== verification/Cdrom_Find.thy ===== *)
theory Cdrom_Find
  imports Cdrom_Read Sfs_Dirs
begin

text \<open>
  Finding files on a disc without Rock Ridge names: directories are sequences of records at positions
  of the image, and paths go through them. The code's reads are the reads from the image of
  \<open>Cdrom_Read\<close>.
\<close>

subsection \<open>Identifiers\<close>

text \<open>The identifier ends at the last semicolon that is not its first character.\<close>

definition iso_ident :: "byte list \<Rightarrow> byte list" where
  "iso_ident raw =
     (let is = filter (\<lambda>i. raw ! i = 0x3B) [1..<length raw] in if is = [] then raw else take (last is) raw)"

lemma cut_version_eq:
  assumes "k < length name"
  shows "cut_version k name
    = Some (let is = filter (\<lambda>i. name ! i = 0x3B) [1..<Suc k] in if is = [] then name else name[last is := 0])"
  using assms
proof (induction k)
  case (Suc k)
  then show ?case
    by (cases "name ! Suc k = 0x3B") (simp_all add: load_def store_def Let_def)
qed simp

lemma takeWhile_update: "i < length xs \<Longrightarrow> takeWhile (\<lambda>c. c \<noteq> 0) (xs[i := 0]) = takeWhile (\<lambda>c. c \<noteq> 0) (take i xs)"
  by (induction xs arbitrary: i) (auto split: nat.splits)

text \<open>The name of a record as the code compares it.\<close>

definition iso_string :: "byte list \<Rightarrow> string" where
  "iso_string raw = (if raw = [0] then ''.'' else if raw = [1] then ''..''
     else chars (takeWhile (\<lambda>c. c \<noteq> 0) (iso_ident raw)))"

lemma cstr_chars: "cstr (chars bs) = chars (takeWhile (\<lambda>c. c \<noteq> 0) bs)"
proof (induction bs)
  case (Cons b bs)
  have "char_of (unat b) = NUL \<longleftrightarrow> b = 0" using chars_0_iff [of "[b]"]
    by (simp add: chars_def eq_commute [of NUL] eq_commute [of 0])
  with Cons show ?case by (simp add: chars_def)
qed (simp add: chars_def)

lemma iso_name_ok:
  assumes alloc: "alloc_ok ctx" and dev: "cd_reads (cd_phys this) img N" and cache: "cache_ok this img N"
    and p: "2048 * b + off + unat namelen \<le> 2048 * N" and n: "0 < unat namelen"
    and raw: "raw = take (unat namelen) (drop (2048 * b + off) img)"
  shows "\<exists>fname this' w'. iso_name ctx this (of_nat b) (int off) namelen w = Some (Some fname, this', w')
    \<and> same_disc this this' \<and> cache_ok this' img N \<and> terminated fname \<and> cstr fname = iso_string raw"
proof -
  obtain name w1 where m: "malloc ctx (uint namelen + 1) w = (name, w1)" by force
  have "length (fst (malloc ctx (uint namelen + 1) w)) = nat (uint namelen + 1)"
    using alloc unfolding alloc_ok_def by simp
  then have ln: "length name = Suc (unat namelen)" using m by (simp add: nat_add_distrib)
  have img: "length img = 2048 * N" "N < 2 ^ 20" using dev by (simp_all add: cd_reads_def disc_image_def)
  have lr: "length raw = unat namelen" using p img raw by simp
  have uc: "(ucast namelen :: u32) = of_nat (unat namelen)" by simp
  from cdrom_read_ok [OF dev cache p, of name w1] ln obtain this' where
    rd': "cdrom_read this (of_nat b) (of_nat off) (of_nat (unat namelen)) name w1
      = Some ((0, raw @ drop (unat namelen) name), this', w1)"
    and ok: "same_disc this this'" "cache_ok this' img N"
    unfolding raw by (metis le_add2 plus_1_eq_Suc)
  have rd: "cdrom_read this (of_nat b) (of_int (int off)) (ucast namelen) name w1
      = Some ((0, raw @ drop (unat namelen) name), this', w1)"
    unfolding uc of_int_of_nat_eq by (rule rd')
  have "length (drop (unat namelen) name) = Suc 0" using ln by simp
  then obtain j where j: "drop (unat namelen) name = [j]"
    by (auto simp only: length_Suc_conv length_0_conv)
  have st: "store (raw @ [j]) (unat namelen) 0 = Some (raw @ [0])" using lr by (simp add: store_def list_update_append)
  let ?is = "filter (\<lambda>i. (raw @ [0]) ! i = 0x3B) [1..<Suc (unat namelen)]"
  let ?is' = "filter (\<lambda>i. raw ! i = 0x3B) [1..<length raw]"
  define cut where "cut = (if ?is' = [] then raw @ [0] else (raw @ [0])[last ?is' := 0])"
  have is_eq: "?is = ?is'"
    using n lr by (simp add: nth_append cong: filter_cong) (intro filter_cong, auto)
  have cv: "cut_version (unat namelen) (raw @ [0]) = Some cut"
    using cut_version_eq [of "unat namelen" "raw @ [0]"] lr unfolding cut_def is_eq by (simp add: Let_def)
  have last: "?is' \<noteq> [] \<Longrightarrow> 1 \<le> last ?is' \<and> last ?is' < length raw"
    using last_in_set [of ?is'] by auto
  have tw: "takeWhile (\<lambda>c. c \<noteq> 0) cut = takeWhile (\<lambda>c. c \<noteq> 0) (iso_ident raw)"
  proof (cases "?is' = []")
    case True
    then show ?thesis by (simp add: cut_def iso_ident_def takeWhile_tail)
  next
    case False
    then show ?thesis
      using last by (simp add: cut_def iso_ident_def Let_def takeWhile_update)
  qed
  have c0: "0 \<in> set cut"
    unfolding cut_def using last by (auto simp: set_update_memI)
  have lc: "length cut = Suc (unat namelen)" using lr by (simp add: cut_def)
  have first: "cut ! 0 = raw ! 0" unfolding cut_def using last n lr by (auto simp: nth_append nth_list_update)
  have ld: "load cut 0 = Some (raw ! 0)" using lc first by (simp add: load_def)
  let ?fn = "if namelen = 1 \<and> raw ! 0 = 0 then lit ''.'' else if namelen = 1 \<and> raw ! 0 = 1 then lit ''..'' else chars cut"
  have one: "namelen = 1 \<longleftrightarrow> length raw = 1" unfolding lr word_unat_eq_iff by simp
  have r: "raw = [0] \<longleftrightarrow> namelen = 1 \<and> raw ! 0 = 0" "raw = [1] \<longleftrightarrow> namelen = 1 \<and> raw ! 0 = 1"
    unfolding one by (cases raw; cases "tl raw"; simp)+
  have "terminated (chars cut)" using c0 chars_0_iff [of cut] by (simp add: terminated_def)
  then have "terminated ?fn" by simp
  moreover have "cstr ?fn = iso_string raw"
    unfolding iso_string_def r using tw by (simp add: cstr_chars cstr_lit)
  moreover have "iso_name ctx this (of_nat b) (int off) namelen w = Some (Some ?fn, this', w1)"
    using m rd j st cv ld by (simp add: iso_name_def)
  ultimately show ?thesis using ok by blast
qed

subsection \<open>Directories\<close>

text \<open>The record at a position of the image, and the identifier behind it.\<close>

definition rec_at :: "byte list \<Rightarrow> nat \<Rightarrow> byte list" where
  "rec_at img p = take dir_size (drop p img)"

definition ident_at :: "byte list \<Rightarrow> nat \<Rightarrow> byte list" where
  "ident_at img p = take (unat (img ! (p + 32))) (drop (p + dir_size) img)"

text \<open>
  The records of a directory from offset \<open>off\<close> on, with their names; a record of length 0 ends its
  sector. The directory starts with sector \<open>b\<close>.
\<close>

inductive dir_records :: "byte list \<Rightarrow> nat \<Rightarrow> nat \<Rightarrow> nat \<Rightarrow> nat \<Rightarrow> (byte list \<times> string) list \<Rightarrow> bool"
  for img N b size' where
  rec_end: "size' \<le> off \<Longrightarrow> dir_records img N b size' off []"
| rec_skip: "off < size' \<Longrightarrow> 2048 * b + off + dir_size \<le> 2048 * N \<Longrightarrow> img ! (2048 * b + off) = 0
    \<Longrightarrow> dir_records img N b size' ((off div 2048 + 1) * 2048) rs \<Longrightarrow> dir_records img N b size' off rs"
| rec_entry: "off < size' \<Longrightarrow> 2048 * b + off + dir_size \<le> 2048 * N \<Longrightarrow> img ! (2048 * b + off) \<noteq> 0
    \<Longrightarrow> ident_at img (2048 * b + off) \<noteq> []
    \<Longrightarrow> 2048 * b + off + dir_size + unat (img ! (2048 * b + off + 32)) \<le> 2048 * N
    \<Longrightarrow> dir_records img N b size' (off + unat (img ! (2048 * b + off))) rs
    \<Longrightarrow> dir_records img N b size' off
          ((rec_at img (2048 * b + off), iso_string (ident_at img (2048 * b + off))) # rs)"

definition rec_matches :: "string \<Rightarrow> bool \<Rightarrow> byte list \<times> string \<Rightarrow> bool" where
  "rec_matches element last' = (\<lambda>(dirent, name). map tolower element = map tolower name
     \<and> (if last' then dirent ! 25 AND 3 \<noteq> 2 else dirent ! 25 AND 3 = 2))"

lemma match_name_eq:
  assumes "NUL \<notin> set element" and "terminated fname" and "length dirent = dir_size"
  shows "match_name element fname last' dirent = Some (rec_matches element last' (dirent, cstr fname))"
proof -
  from strcasecmp_cstr [of "element @ [NUL]" fname] assms obtain d where
    "strcasecmp (element @ [NUL]) fname = Some d" "d = 0 \<longleftrightarrow> map tolower element = map tolower (cstr fname)"
    by (auto simp: cstr_append_NUL)
  with assms(3) show ?thesis by (auto simp: match_name_def dir_flags_def load_def rec_matches_def)
qed

definition plain_disc :: "'w cdrom_boot_dev_t \<Rightarrow> byte list \<Rightarrow> nat \<Rightarrow> bool" where
  "plain_disc this img N \<longleftrightarrow> cd_reads (cd_phys this) img N \<and> cache_ok this img N \<and> cd_rr this = 0"

lemma plain_same: "plain_disc this img N \<Longrightarrow> same_disc this this' \<Longrightarrow> cache_ok this' img N \<Longrightarrow> plain_disc this' img N"
  by (simp add: plain_disc_def same_disc_def)

lemma dirent_read:
  assumes disc: "plain_disc this img N" and p: "2048 * b + off + dir_size \<le> 2048 * N" and d: "length dirent = dir_size"
  shows "\<exists>this'. cdrom_read this (of_int (int b)) (of_int (int off)) (of_nat dir_size) dirent w
      = Some ((0, rec_at img (2048 * b + off)), this', w) \<and> same_disc this this' \<and> plain_disc this' img N"
proof -
  from disc have c: "cd_reads (cd_phys this) img N" "cache_ok this img N" by (simp_all add: plain_disc_def)
  from cdrom_read_ok [OF c p, of dirent w] d obtain this' where
    "cdrom_read this (of_nat b) (of_nat off) (of_nat dir_size) dirent w
      = Some ((0, take dir_size (drop (2048 * b + off) img) @ drop dir_size dirent), this', w)"
    "same_disc this this'" "cache_ok this' img N" by auto
  with d plain_same [OF disc] show ?thesis by (auto simp: rec_at_def)
qed

lemma rec_at_nth:
  assumes "disc_image img N" and "p + dir_size \<le> 2048 * N"
  shows "length (rec_at img p) = dir_size" and "i < dir_size \<Longrightarrow> rec_at img p ! i = img ! (p + i)"
  using assms by (simp_all add: rec_at_def disc_image_def)

text \<open>One round of the search at a record and at the end of a sector.\<close>

lemma dirent_step_skip:
  assumes disc: "plain_disc this img N" and off: "off < size'" and p: "2048 * b + off + dir_size \<le> 2048 * N"
    and z: "img ! (2048 * b + off) = 0" and d: "length dirent = dir_size"
  shows "\<exists>dirent' this'. dirent_step ctx element last' (int b) (int size') (False, int off, dirent, this, w)
      = Some (Inl (False, int ((off div 2048 + 1) * 2048), dirent', this', w))
    \<and> same_disc this this' \<and> plain_disc this' img N \<and> length dirent' = dir_size"
proof -
  have di: "disc_image img N" using disc by (simp add: plain_disc_def cd_reads_def)
  note n = rec_at_nth [OF di p]
  from dirent_read [OF disc p d, of w] obtain this' where
    "cdrom_read this (of_int (int b)) (of_int (int off)) (of_nat dir_size) dirent w
      = Some ((0, rec_at img (2048 * b + off)), this', w)" "same_disc this this'" "plain_disc this' img N" by blast
  moreover have "dir_len (rec_at img (2048 * b + off)) = Some 0"
    using n(1) n(2) [of 0] z by (simp add: dir_len_def load_def)
  ultimately show ?thesis
    using off n(1) by (intro exI [of _ "rec_at img (2048 * b + off)"] exI [of _ this'])
      (simp add: dirent_step_def zdiv_int)
qed

lemma dirent_step_entry:
  assumes alloc: "alloc_ok ctx" and disc: "plain_disc this img N" and off: "off < size'"
    and p: "2048 * b + off + dir_size \<le> 2048 * N" "2048 * b + off + dir_size + unat (img ! (2048 * b + off + 32)) \<le> 2048 * N"
    and nz: "img ! (2048 * b + off) \<noteq> 0" and ne: "ident_at img (2048 * b + off) \<noteq> []"
    and d: "length dirent = dir_size" and el: "NUL \<notin> set element"
  shows "\<exists>this' w'. dirent_step ctx element last' (int b) (int size') (False, int off, dirent, this, w)
      = Some (Inl (rec_matches element last' (rec_at img (2048 * b + off), iso_string (ident_at img (2048 * b + off))),
          int (off + unat (img ! (2048 * b + off))), rec_at img (2048 * b + off), this', w'))
    \<and> same_disc this this' \<and> plain_disc this' img N"
proof -
  let ?p = "2048 * b + off"
  let ?nl = "img ! (?p + 32)"
  have di: "disc_image img N" using disc by (simp add: plain_disc_def cd_reads_def)
  note n = rec_at_nth [OF di p(1)]
  from dirent_read [OF disc p(1) d, of w] obtain this1 where
    rd: "cdrom_read this (of_int (int b)) (of_int (int off)) (of_nat dir_size) dirent w
      = Some ((0, rec_at img ?p), this1, w)"
    and s1: "same_disc this this1" "plain_disc this1 img N" by blast
  have pos: "0 < unat ?nl" using ne by (cases "unat ?nl") (auto simp: ident_at_def)
  have p2: "2048 * b + (off + dir_size) + unat ?nl \<le> 2048 * N" using p(2) by simp
  have raw: "ident_at img ?p = take (unat ?nl) (drop (2048 * b + (off + dir_size)) img)"
    by (simp add: ident_at_def add.assoc)
  have rr: "cd_rr this1 = 0" using s1(2) by (simp add: plain_disc_def)
  from iso_name_ok [OF alloc _ _ p2 pos raw, of this1 w] s1(2) obtain fname this2 w2 where
    nm: "iso_name ctx this1 (of_nat b) (int (off + dir_size)) ?nl w = Some (Some fname, this2, w2)"
    and s2: "same_disc this1 this2" "cache_ok this2 img N" and f: "terminated fname" "cstr fname = iso_string (ident_at img ?p)"
    by (auto simp: plain_disc_def)
  have fl: "dir_len (rec_at img ?p) = Some (img ! ?p)" "dir_namelen (rec_at img ?p) = Some ?nl"
    using n(1) n(2) [of 0] n(2) [of 32] by (simp_all add: dir_len_def dir_namelen_def load_def)
  have "match_name element fname last' (rec_at img ?p) = Some (rec_matches element last' (rec_at img ?p, iso_string (ident_at img ?p)))"
    using match_name_eq [OF el f(1) n(1)] f(2) by simp
  moreover have "int off + int dir_size = int (off + dir_size)" by simp
  ultimately have "dirent_step ctx element last' (int b) (int size') (False, int off, dirent, this, w)
      = Some (Inl (rec_matches element last' (rec_at img ?p, iso_string (ident_at img ?p)),
          int (off + unat (img ! ?p)), rec_at img ?p, this2, w2))"
    using off rd fl nz rr nm by (simp add: dirent_step_def rr_name_def Let_def)
  moreover have "same_disc this this2" using s1(1) s2(1) by (rule same_disc_trans)
  ultimately show ?thesis using plain_same [OF s1(2) s2] by blast
qed

lemma dir_loop:
  assumes alloc: "alloc_ok ctx" and el: "NUL \<notin> set element" and "dir_records img N b size' off rs"
    and "plain_disc this img N" and "length dirent = dir_size"
  shows "\<exists>off' dirent' this' w'. loop (dirent_step ctx element last' (int b) (int size')) (False, int off, dirent, this, w)
      = Some (Some (find (rec_matches element last') rs \<noteq> None, int off', dirent', this', w'), this', w')
    \<and> same_disc this this' \<and> plain_disc this' img N \<and> length dirent' = dir_size
    \<and> (case find (rec_matches element last') rs of None \<Rightarrow> size' \<le> off' | Some (d, _) \<Rightarrow> dirent' = d)"
  using assms(3-)
proof (induction arbitrary: dirent this w rule: dir_records.induct)
  case (rec_end off)
  then have "loop (dirent_step ctx element last' (int b) (int size')) (False, int off, dirent, this, w)
      = Some (Some (False, int off, dirent, this, w), this, w)"
    by (intro loop_exit) (simp add: dirent_step_def)
  with rec_end show ?case by (intro exI [of _ off] exI [of _ dirent] exI [of _ this] exI [of _ w]) simp
next
  case (rec_skip off rs)
  from dirent_step_skip [OF rec_skip.prems(1) rec_skip(1,2,3) rec_skip.prems(2), of ctx element last' w] obtain d1 t1 where
    s: "dirent_step ctx element last' (int b) (int size') (False, int off, dirent, this, w)
      = Some (Inl (False, int ((off div 2048 + 1) * 2048), d1, t1, w))"
    and t1: "same_disc this t1" "plain_disc t1 img N" "length d1 = dir_size" by blast
  have "loop (dirent_step ctx element last' (int b) (int size')) (False, int off, dirent, this, w)
      = loop (dirent_step ctx element last' (int b) (int size')) (False, int ((off div 2048 + 1) * 2048), d1, t1, w)"
    by (rule loop_continue) (rule s)
  with rec_skip.IH [OF t1(2,3), of w] same_disc_trans [OF t1(1)] show ?case by (elim exE) (auto simp del: of_nat_mult of_nat_add)
next
  case (rec_entry off rs)
  let ?r = "(rec_at img (2048 * b + off), iso_string (ident_at img (2048 * b + off)))"
  from dirent_step_entry [OF alloc rec_entry.prems(1) rec_entry(1,2,5,3,4) rec_entry.prems(2) el, of last' w] obtain t1 w1 where
    s: "dirent_step ctx element last' (int b) (int size') (False, int off, dirent, this, w)
      = Some (Inl (rec_matches element last' ?r, int (off + unat (img ! (2048 * b + off))), fst ?r, t1, w1))"
    and t1: "same_disc this t1" "plain_disc t1 img N" by auto
  have len: "length (fst ?r) = dir_size"
    using rec_at_nth(1) rec_entry(2) rec_entry.prems(1) by (auto simp: plain_disc_def cd_reads_def)
  let ?off = "off + unat (img ! (2048 * b + off))"
  have c: "loop (dirent_step ctx element last' (int b) (int size')) (False, int off, dirent, this, w)
      = loop (dirent_step ctx element last' (int b) (int size')) (rec_matches element last' ?r, int ?off, fst ?r, t1, w1)"
    by (rule loop_continue) (rule s)
  show ?case
  proof (cases "rec_matches element last' ?r")
    case True
    then have "loop (dirent_step ctx element last' (int b) (int size')) (rec_matches element last' ?r, int ?off, fst ?r, t1, w1)
        = Some (Some (True, int ?off, fst ?r, t1, w1), t1, w1)"
      by (intro loop_exit) (simp add: dirent_step_def)
    with True c t1 len show ?thesis
      by (intro exI [of _ ?off] exI [of _ "fst ?r"] exI [of _ t1] exI [of _ w1]) simp
  next
    case False
    with c rec_entry.IH [OF t1(2) len, of w1] same_disc_trans [OF t1(1)] show ?thesis
      by (elim exE) (auto simp del: of_nat_add)
  qed
qed

subsection \<open>Paths\<close>

text \<open>The extent (first sector, size) a path leads to from a directory, \<open>None\<close> if there is none.\<close>

inductive iso_lookup :: "byte list \<Rightarrow> nat \<Rightarrow> nat \<Rightarrow> nat \<Rightarrow> string list \<Rightarrow> (nat \<times> nat) option \<Rightarrow> bool" for img N where
  iso_last: "dir_records img N b size' 0 rs \<Longrightarrow> find (rec_matches e True) rs = Some (d, nm)
    \<Longrightarrow> be32 d 6 = Some blk \<Longrightarrow> be32 d 14 = Some sz \<Longrightarrow> unat blk < 2 ^ 31 \<Longrightarrow> unat sz < 2 ^ 31
    \<Longrightarrow> iso_lookup img N b size' [e] (Some (unat blk, unat sz))"
| iso_dir: "dir_records img N b size' 0 rs \<Longrightarrow> find (rec_matches e False) rs = Some (d, nm)
    \<Longrightarrow> be32 d 6 = Some blk \<Longrightarrow> be32 d 14 = Some sz \<Longrightarrow> unat blk < 2 ^ 31 \<Longrightarrow> unat sz < 2 ^ 31
    \<Longrightarrow> iso_lookup img N (unat blk) (unat sz) (f # es) res \<Longrightarrow> iso_lookup img N b size' (e # f # es) res"
| iso_none: "dir_records img N b size' 0 rs \<Longrightarrow> find (rec_matches e (es = [])) rs = None
    \<Longrightarrow> iso_lookup img N b size' (e # es) None"

lemma find_levels_none:
  "size' \<le> off \<Longrightarrow>
   find_levels ctx es (block, int size', False, int off, d, this, w) = Some (Some (False, block, int size'), this, w)"
proof (induction es)
  case (Cons e es)
  have "loop (dirent_step ctx e (es = []) block (int size')) (False, int off, d, this, w)
      = Some (Some (False, int off, d, this, w), this, w)"
    using Cons.prems by (intro loop_exit) (simp add: dirent_step_def)
  with Cons show ?case by simp
qed simp

lemma find_levels_ok:
  assumes alloc: "alloc_ok ctx" and "iso_lookup img N b size' es res"
    and "\<forall>e \<in> set es. NUL \<notin> set e" and "plain_disc this img N" and "length d = dir_size"
  shows "\<exists>found b' s' this' w'. find_levels ctx es (int b, int size', fo, 0, d, this, w)
      = Some (Some (found, int b', int s'), this', w')
    \<and> same_disc this this' \<and> plain_disc this' img N
    \<and> (case res of None \<Rightarrow> \<not> found | Some (blk, sz) \<Rightarrow> found \<and> b' = blk \<and> s' = sz)"
  using assms(2-)
proof (induction arbitrary: this w d fo rule: iso_lookup.induct)
  case (iso_last b size' rs e dd nm blk sz)
  have e: "NUL \<notin> set e" using iso_last.prems(1) by simp
  from dir_loop [OF alloc e iso_last(1) iso_last.prems(2,3), of True w] iso_last(2) obtain off' this' w' where
    l: "loop (dirent_step ctx e True (int b) (int size')) (False, int 0, d, this, w)
      = Some (Some (True, int off', dd, this', w'), this', w')"
    and t: "same_disc this this'" "plain_disc this' img N" by auto
  from iso_last(3,4) have "dir_first_sector_be dd = Some blk" "dir_size_be dd = Some sz"
    by (simp_all add: dir_first_sector_be_def dir_size_be_def)
  with l t iso_last(5,6) show ?case
    by (intro exI [of _ True] exI [of _ "unat blk"] exI [of _ "unat sz"] exI [of _ this'] exI [of _ w'])
      (simp add: sint_unat)
next
  case (iso_dir b size' rs e dd nm blk sz f es res)
  have e: "NUL \<notin> set e" using iso_dir.prems(1) by simp
  from dir_loop [OF alloc e iso_dir(1) iso_dir.prems(2,3), of False w] iso_dir(2) obtain off' this' w' where
    l: "loop (dirent_step ctx e False (int b) (int size')) (False, int 0, d, this, w)
      = Some (Some (True, int off', dd, this', w'), this', w')"
    and t: "same_disc this this'" "plain_disc this' img N" and ld: "length dd = dir_size" by auto
  from iso_dir(3,4) have flds: "dir_first_sector_be dd = Some blk" "dir_size_be dd = Some sz"
    by (simp_all add: dir_first_sector_be_def dir_size_be_def)
  have step: "find_levels ctx (e # f # es) (int b, int size', fo, 0, d, this, w)
      = find_levels ctx (f # es) (int (unat blk), int (unat sz), True, 0, dd, this', w')"
    using l flds
    by (simp only: find_levels.simps(2) [of ctx e] of_nat_0 bind_simps list.simps prod.case option.case if_True
      sint_unat [OF iso_dir(5), symmetric] sint_unat [OF iso_dir(6), symmetric]) simp
  from iso_dir.IH [OF _ t(2) ld, of True w'] iso_dir.prems(1) obtain found b' s' this2 w2 where
    "find_levels ctx (f # es) (int (unat blk), int (unat sz), True, 0, dd, this', w')
      = Some (Some (found, int b', int s'), this2, w2)"
    "same_disc this' this2" "plain_disc this2 img N"
    "case res of None \<Rightarrow> \<not> found | Some (blk, sz) \<Rightarrow> found \<and> b' = blk \<and> s' = sz" by auto
  with step same_disc_trans [OF t(1)] show ?case by (simp only:) blast
next
  case (iso_none b size' rs e es)
  have e: "NUL \<notin> set e" using iso_none.prems(1) by simp
  from dir_loop [OF alloc e iso_none(1) iso_none.prems(2,3), of "es = []" w] iso_none(2) obtain off' d' this' w' where
    l: "loop (dirent_step ctx e (es = []) (int b) (int size')) (False, int 0, d, this, w)
      = Some (Some (False, int off', d', this', w'), this', w')" and off: "size' \<le> off'"
    and t: "same_disc this this'" "plain_disc this' img N" by auto
  have "find_levels ctx (e # es) (int b, int size', fo, 0, d, this, w) = Some (Some (False, int b, int size'), this', w')"
    using l find_levels_none [OF off, of ctx es "int b" d' this' w'] by simp
  with t show ?case by (intro exI [of _ False] exI [of _ b] exI [of _ size']) simp
qed

lemma split_join_path:
  assumes "path \<noteq> []" and "\<forall>e \<in> set path. CHR ''/'' \<notin> set e" and "\<forall>e \<in> set path. e \<noteq> []"
  shows "split_path (join_path path) = path"
proof -
  have one: "split_path e = [e]" if "CHR ''/'' \<notin> set e" for e
    using that by (induction e rule: split_path.induct) auto
  have app: "split_path (e @ CHR ''/'' # s) = e # split_path s" if "CHR ''/'' \<notin> set e" "s \<noteq> []" for e s
    using that
  proof (induction e)
    case Nil
    then show ?case by (cases s) auto
  next
    case (Cons c e)
    then have "split_path (e @ CHR ''/'' # s) = e # split_path s" by simp
    moreover obtain c' s' where "e @ CHR ''/'' # s = c' # s'" by (cases "e @ CHR ''/'' # s") auto
    ultimately show ?case using Cons.prems by auto
  qed
  from assms show ?thesis
  proof (induction path rule: join_path.induct)
    case (3 d e ds)
    then have "join_path (e # ds) \<noteq> []" by (cases ds) auto
    with 3 show ?case by (simp add: app)
  qed (simp_all add: one)
qed

text \<open>The paths the code can split into its array of elements.\<close>

definition iso_path :: "string list \<Rightarrow> bool" where
  "iso_path path \<longleftrightarrow> path \<noteq> [] \<and> length path \<le> ISO9660_MAX_DEPTH + 1
     \<and> (\<forall>e \<in> set path. e \<noteq> [] \<and> CHR ''/'' \<notin> set e \<and> NUL \<notin> set e)"

definition root_extent :: "'w cdrom_boot_dev_t \<Rightarrow> nat \<Rightarrow> nat \<Rightarrow> bool" where
  "root_extent this b size' \<longleftrightarrow> b < 2 ^ 31 \<and> size' < 2 ^ 31
     \<and> be32 (cd_voldesc this) 162 = Some (of_nat b) \<and> be32 (cd_voldesc this) 170 = Some (of_nat size')"

lemma strip_slash:
  assumes "iso_path path" and "filename = join_path path \<or> filename = CHR ''/'' # join_path path"
  shows "(if take 1 filename = ''/'' then drop 1 filename else filename) = join_path path"
proof -
  obtain c cs ds where "path = (c # cs) # ds" "c \<noteq> CHR ''/''"
    using assms(1) by (cases path; cases "hd path") (auto simp: iso_path_def)
  then have "take 1 (join_path path) \<noteq> ''/''" by (cases ds) auto
  with assms(2) show ?thesis by auto
qed

lemma find_file_ok:
  assumes alloc: "alloc_ok ctx" and disc: "plain_disc this img N" and root: "root_extent this b size'"
    and look: "iso_lookup img N b size' path res" and path: "iso_path path"
    and fn: "filename = join_path path \<or> filename = CHR ''/'' # join_path path"
  shows "\<exists>this' w'. fs_cdrom_find_file ctx this filename w
      = Some (case res of None \<Rightarrow> (0, None) | Some (blk, sz) \<Rightarrow> (int sz, Some (of_nat blk, of_nat sz)), this', w')
    \<and> same_disc this this' \<and> plain_disc this' img N"
proof -
  have sp: "split_path (join_path path) = path" using path by (intro split_join_path) (auto simp: iso_path_def)
  obtain buf w1 where m: "malloc ctx (int (length (join_path path)) + 1) w = (buf, w1)" by force
  have r: "dir_first_sector_be (voldesc_rootdir (cd_voldesc this)) = Some (of_nat b)"
    "dir_size_be (voldesc_rootdir (cd_voldesc this)) = Some (of_nat size')"
    using root by (simp_all add: root_extent_def dir_first_sector_be_def dir_size_be_def voldesc_rootdir_def be32_drop)
  have s: "sint (of_nat b :: u32) = int b" "sint (of_nat size' :: u32) = int size'"
    using root by (simp_all add: root_extent_def signed_of_nat signed_take_bit_int_eq_self)
  have nul: "\<forall>e \<in> set path. NUL \<notin> set e" using path by (simp add: iso_path_def)
  from find_levels_ok [OF alloc look nul disc, of "replicate dir_size 0" False w1] obtain found b' s' this' w' where
    l: "find_levels ctx path (int b, int size', False, 0, replicate dir_size 0, this, w1)
      = Some (Some (found, int b', int s'), this', w')"
    and t: "same_disc this this'" "plain_disc this' img N"
    and res: "case res of None \<Rightarrow> \<not> found | Some (blk, sz) \<Rightarrow> found \<and> b' = blk \<and> s' = sz" by auto
  have "length path \<le> ISO9660_MAX_DEPTH + 1" using path by (simp add: iso_path_def)
  then have "fs_cdrom_find_file ctx this filename w
      = Some (case Some (found, int b', int s') of
          Some (True, block, size') \<Rightarrow> ((size', Some (of_int block, of_int size')), this', w')
        | _ \<Rightarrow> ((0, None), this', w'))"
    unfolding fs_cdrom_find_file_def Let_def strip_slash [OF path fn]
    using m sp r s l by simp
  with t res show ?thesis by (cases res) auto
qed

lemma load_file_ok:
  assumes alloc: "alloc_ok ctx" and disc: "plain_disc this img N" and root: "root_extent this b size'"
    and look: "iso_lookup img N b size' path (Some (blk, sz))" and path: "iso_path path"
    and fn: "filename = join_path path \<or> filename = CHR ''/'' # join_path path"
    and fit: "2048 * blk + sz \<le> 2048 * N" "sz \<le> length buffer"
  shows "\<exists>this' w'. fs_cdrom_load_file ctx this filename buffer w
      = Some ((int sz, take sz (drop (2048 * blk) img) @ drop sz buffer), this', w')
    \<and> same_disc this this' \<and> plain_disc this' img N"
proof -
  from find_file_ok [OF alloc disc root look path fn, of w] obtain t1 w1 where
    f: "fs_cdrom_find_file ctx this filename w = Some ((int sz, Some (of_nat blk, of_nat sz)), t1, w1)"
    and t1: "same_disc this t1" "plain_disc t1 img N" by auto
  have "N < 2 ^ 20" using disc by (simp add: plain_disc_def cd_reads_def disc_image_def)
  then have s: "sint (of_nat sz :: u32) = int sz"
    using fit(1) by (simp add: signed_of_nat signed_take_bit_int_eq_self)
  show ?thesis
  proof (cases "sz = 0")
    case True
    with f s t1 show ?thesis by (auto simp: fs_cdrom_load_file_def)
  next
    case False
    have c: "cd_reads (cd_phys t1) img N" "cache_ok t1 img N" using t1(2) by (simp_all add: plain_disc_def)
    have p: "2048 * blk + 0 + sz \<le> 2048 * N" using fit(1) by simp
    from cdrom_read_ok [OF c p fit(2), of w1] obtain t2 where
      "cdrom_read t1 (of_nat blk) 0 (of_nat sz) buffer w1
        = Some ((0, take sz (drop (2048 * blk) img) @ drop sz buffer), t2, w1)"
      "same_disc t1 t2" "cache_ok t2 img N" by auto
    with f s False same_disc_trans [OF t1(1)] plain_same [OF t1(2)] show ?thesis
      by (auto simp: fs_cdrom_load_file_def)
  qed
qed

lemma load_file_missing:
  assumes alloc: "alloc_ok ctx" and disc: "plain_disc this img N" and root: "root_extent this b size'"
    and look: "iso_lookup img N b size' path None" and path: "iso_path path"
    and fn: "filename = join_path path \<or> filename = CHR ''/'' # join_path path"
  shows "\<exists>this' w'. fs_cdrom_load_file ctx this filename buffer w = Some ((0, buffer), this', w')
    \<and> same_disc this this' \<and> plain_disc this' img N"
  using find_file_ok [OF alloc disc root look path fn, of w] by (auto simp: fs_cdrom_load_file_def)

text \<open>More parts than the array holds: the tenth is stored past its end.\<close>

lemma path_too_deep:
  assumes "iso_path (take 9 path)" and "\<forall>e \<in> set path. e \<noteq> [] \<and> CHR ''/'' \<notin> set e" and "9 < length path"
  shows "fs_cdrom_find_file ctx this (join_path path) w = None"
proof -
  have ne: "path \<noteq> []" using assms(3) by auto
  have sp: "split_path (join_path path) = path" using assms(2) ne by (intro split_join_path) auto
  obtain c cs ds where "path = (c # cs) # ds" "c \<noteq> CHR ''/''"
    using assms(2) ne by (cases path; cases "hd path") auto
  then have "take 1 (join_path path) \<noteq> ''/''" by (cases ds) auto
  then show ?thesis
    using assms(3) sp by (simp add: fs_cdrom_find_file_def Let_def split: prod.splits)
qed

end
