(* ===== verification/Cdrom_Susp.thy ===== *)
theory Cdrom_Susp
  imports Cdrom_Find
begin

text \<open>
  The entries of a system use area (without continuation areas): \<open>get_entry\<close> finds the first one with a
  signature, but an entry of length 0 keeps it for ever.
\<close>

definition sig_at :: "byte list \<Rightarrow> nat \<Rightarrow> byte \<times> byte" where
  "sig_at sua p = (sua ! p, sua ! (p + 1))"

text \<open>An entry at \<open>p\<close> that is neither \<open>CE\<close> nor \<open>ST\<close>.\<close>

definition plain_entry :: "byte list \<Rightarrow> nat \<Rightarrow> bool" where
  "plain_entry sua p \<longleftrightarrow> p + 3 \<le> length sua \<and> sig_at sua p \<noteq> (0x43, 0x45) \<and> sig_at sua p \<noteq> (0x53, 0x54)"

text \<open>What the search from \<open>p\<close> on gives: an entry or NULL, or (outermost \<open>None\<close>) no end.\<close>

inductive susp_result :: "byte \<times> byte \<Rightarrow> byte list \<Rightarrow> nat \<Rightarrow> byte list option option \<Rightarrow> bool" for sig sua where
  susp_hit: "plain_entry sua p \<Longrightarrow> sig_at sua p = sig \<Longrightarrow> p + unat (sua ! (p + 2)) \<le> length sua
    \<Longrightarrow> susp_result sig sua p (Some (Some (take (unat (sua ! (p + 2))) (drop p sua))))"
| susp_stop: "p + 2 \<le> length sua \<Longrightarrow> sig_at sua p = (0x53, 0x54) \<Longrightarrow> susp_result sig sua p (Some None)"
| susp_next: "plain_entry sua p \<Longrightarrow> sig_at sua p \<noteq> sig \<Longrightarrow> p + unat (sua ! (p + 2)) + 1 < length sua
    \<Longrightarrow> sua ! (p + 2) \<noteq> 0 \<Longrightarrow> susp_result sig sua (p + unat (sua ! (p + 2))) r \<Longrightarrow> susp_result sig sua p r"
| susp_last: "plain_entry sua p \<Longrightarrow> sig_at sua p \<noteq> sig \<Longrightarrow> length sua \<le> p + unat (sua ! (p + 2)) + 1
    \<Longrightarrow> sua ! (p + 2) \<noteq> 0 \<Longrightarrow> susp_result sig sua p (Some None)"
| susp_stuck: "plain_entry sua p \<Longrightarrow> sig_at sua p \<noteq> sig \<Longrightarrow> sua ! (p + 2) = 0 \<Longrightarrow> susp_result sig sua p None"

lemma sig_is_at: "p + 2 \<le> length sua \<Longrightarrow> sig_is (drop p sua) a b = Some (sig_at sua p = (a, b))"
  by (auto simp: sig_is_def sig_at_def load_def)

lemma susp_len_at: "p + 3 \<le> length sua \<Longrightarrow> susp_len (drop p sua) = Some (sua ! (p + 2))"
  by (simp add: susp_len_def load_def)

lemma entry_step:
  assumes "plain_entry sua p" and "sig_at sua p \<noteq> sig" and "td_sig d = sig" and "length sua = unat n"
  shows "iterate_step ctx (my_iteration ctx) (p, sua, n, d, dev, w)
    = Some (if p + unat (sua ! (p + 2)) + 1 < length sua
        then Inl (p + unat (sua ! (p + 2)), sua, n, d, dev, w) else Inr ((0, d), dev, w))"
proof -
  let ?l = "unat (sua ! (p + 2))"
  have "uint n = int (unat n)" by simp
  then have "int (p + ?l) < uint n - 1 \<longleftrightarrow> p + ?l + 1 < length sua" using assms(4) by linarith
  then show ?thesis
    using assms(1-3) by (cases sig)
      (auto simp: iterate_step_def my_iteration_def plain_entry_def sig_is_at susp_len_at Let_def simp del: of_nat_add)
qed

lemma susp_loop:
  assumes alloc: "alloc_ok ctx" and "susp_result sig sua p r" and n: "length sua = unat n"
    and d: "td_sig d = sig" "td_entry d = None"
  shows "case r of
      None \<Rightarrow> loop (iterate_step ctx (my_iteration ctx)) (p, sua, n, d, dev, w) = None
    | Some e \<Rightarrow> \<exists>res d' w'. loop (iterate_step ctx (my_iteration ctx)) (p, sua, n, d, dev, w)
        = Some ((res, d'), dev, w') \<and> td_entry d' = e"
  using assms(2)
proof induction
  case (susp_hit p)
  let ?l = "sua ! (p + 2)"
  obtain blk w1 where m: "malloc ctx (uint ?l) w = (blk, w1)" by force
  have "length (fst (malloc ctx (uint ?l) w)) = nat (uint ?l)" using alloc by (simp add: alloc_ok_def)
  then have "length blk = unat ?l" using m by simp
  then have "memcpy blk 0 (drop p sua) (unat ?l) = Some (take (unat ?l) (drop p sua))"
    using susp_hit(3) by (simp add: memcpy_def memmove_def slice_def blit_def)
  with m susp_hit(1,2) d have "iterate_step ctx (my_iteration ctx) (p, sua, n, d, dev, w)
      = Some (Inr ((0, d\<lparr>td_entry := Some (take (unat ?l) (drop p sua))\<rparr>), dev, w1))"
    by (cases sig) (auto simp: iterate_step_def my_iteration_def plain_entry_def sig_is_at susp_len_at Let_def)
  then show ?case by (simp add: loop_exit)
next
  case (susp_stop p)
  then have "iterate_step ctx (my_iteration ctx) (p, sua, n, d, dev, w) = Some (Inr ((0, d), dev, w))"
    by (simp add: iterate_step_def sig_is_at)
  then show ?case using d by (simp add: loop_exit)
next
  case (susp_next p r)
  have "iterate_step ctx (my_iteration ctx) (p, sua, n, d, dev, w)
      = Some (Inl (p + unat (sua ! (p + 2)), sua, n, d, dev, w))"
    using entry_step [OF susp_next(1,2) d(1) n, of ctx dev w] susp_next(3) by simp
  then have "loop (iterate_step ctx (my_iteration ctx)) (p, sua, n, d, dev, w)
      = loop (iterate_step ctx (my_iteration ctx)) (p + unat (sua ! (p + 2)), sua, n, d, dev, w)"
    by (rule loop_continue)
  with susp_next.IH show ?case by (simp only:)
next
  case (susp_last p)
  have "iterate_step ctx (my_iteration ctx) (p, sua, n, d, dev, w) = Some (Inr ((0, d), dev, w))"
    using entry_step [OF susp_last(1,2) d(1) n, of ctx dev w] susp_last(3) by simp
  then show ?case using d by (simp add: loop_exit)
next
  case (susp_stuck p)
  have "p + 1 < length sua" using susp_stuck(1) by (simp add: plain_entry_def)
  then have "iterate_step ctx (my_iteration ctx) (p, sua, n, d, dev, w) = Some (Inl (p, sua, n, d, dev, w))"
    using entry_step [OF susp_stuck(1,2) d(1) n, of ctx dev w] susp_stuck(3) by simp
  then show ?case by (simp add: loop_stuck)
qed

lemma get_entry_ok:
  assumes alloc: "alloc_ok ctx" and dev: "cd_reads (cd_phys dev) img N" "cache_ok dev img N"
    and fit: "2048 * b + off + n \<le> 2048 * N"
    and r: "susp_result sig (take n (drop (2048 * b + off) img)) 0 r"
  shows "case r of
      None \<Rightarrow> get_entry ctx dev (of_nat b) (of_nat off) (of_nat n) sig w = None
    | Some e \<Rightarrow> \<exists>dev' w'. get_entry ctx dev (of_nat b) (of_nat off) (of_nat n) sig w = Some (e, dev', w')
        \<and> same_disc dev dev' \<and> cache_ok dev' img N"
proof -
  define sua where "sua = take n (drop (2048 * b + off) img)"
  have N: "N < 2 ^ 20" "length img = 2048 * N" using dev(1) by (simp_all add: cd_reads_def disc_image_def)
  then have n: "n < 2 ^ 31" using fit by simp
  obtain blk w1 where m: "malloc ctx (sint (of_nat n :: u32)) w = (blk, w1)" by force
  have "length (fst (malloc ctx (int n) w)) = n" using alloc by (simp add: alloc_ok_def)
  then have lb: "length blk = n" using m sint_small [OF n] by simp
  from cdrom_read_ok [OF dev fit, of blk w1] lb obtain dev' where
    rd: "cdrom_read dev (of_nat b) (of_nat off) (of_nat n) blk w1 = Some ((0, sua), dev', w1)"
    and ok: "same_disc dev dev'" "cache_ok dev' img N" by (auto simp: sua_def)
  have ln: "length sua = unat (of_nat n :: u32)"
    using fit N n by (simp add: sua_def unat_small)
  from susp_loop [OF alloc r [folded sua_def] ln, of "\<lparr>td_entry = None, td_sig = sig\<rparr>" dev' w1]
  show ?thesis
    using m rd ok by (cases r) (auto simp: get_entry_def iterate_entries_def)
qed

end
