(* ===== verification/Cdrom_Create.thy ===== *)
theory Cdrom_Create
  imports Cdrom_Susp Rdb
begin

text \<open>
  Opening a CD: \<open>cdrom_create\<close> finds the first CD drive of the scan, reads the volume descriptor and the
  record of the root directory, and looks for the Rock Ridge mark in the system use area behind it.
\<close>

subsection \<open>The drive\<close>

definition is_cd :: "'w scan_unit \<Rightarrow> bool" where
  "is_cd h \<longleftrightarrow> bd_type (ush_device h) = DEV_TYPE_CDROM"

lemma cd_get_dev_first:
  assumes "start_unit_scan ctx get_scan_list (snd (start_unit_scan ctx [] w)) = ((hnd, bs), w1)"
    and "scanned ctx hnd w1 us"
  shows "\<exists>w'. cd_get_dev ctx w = Some (map_option ush_device (find is_cd us), w')"
proof -
  have "\<exists>w'. loop (cd_dev_step ctx) (hnd, w1) = Some ((find is_cd us, map_option ush_device (find is_cd us)), w')"
    using assms(2) by (rule scan_finds) (auto simp: cd_dev_step_def is_cd_def split: prod.splits)
  with assms(1) show ?thesis by (auto simp: cd_get_dev_def case_prod_beta)
qed

subsection \<open>The disc\<close>

text \<open>The record of the root directory in sector \<open>b\<close>, and its system use area.\<close>

definition root_rec :: "byte list \<Rightarrow> nat \<Rightarrow> byte list" where
  "root_rec img b = rec_at img (2048 * b)"

definition sua_start :: "byte list \<Rightarrow> nat \<Rightarrow> nat" where
  "sua_start img b = (let n = unat (root_rec img b ! 32) in dir_size + n + n mod 2 - 1)"

definition sua_end :: "byte list \<Rightarrow> nat \<Rightarrow> nat" where
  "sua_end img b = unat (root_rec img b ! 0)"

definition sua_of :: "byte list \<Rightarrow> nat \<Rightarrow> byte list" where
  "sua_of img b = take (sua_end img b - sua_start img b) (drop (2048 * b + sua_start img b) img)"

text \<open>An ISO 9660 disc with the root directory in \<open>s\<close> bytes from sector \<open>b\<close> on.\<close>

definition iso_disc :: "byte list \<Rightarrow> nat \<Rightarrow> nat \<Rightarrow> nat \<Rightarrow> bool" where
  "iso_disc img N b s \<longleftrightarrow> 17 \<le> N \<and> take 5 (drop (2048 * 16 + 1) img) = [0x43, 0x44, 0x30, 0x30, 0x31]
     \<and> be32 img (2048 * 16 + 162) = Some (of_nat b) \<and> be32 img (2048 * 16 + 170) = Some (of_nat s)
     \<and> b < N \<and> s < 2 ^ 31 \<and> sua_start img b \<le> sua_end img b"

text \<open>What the area says of Rock Ridge.\<close>

definition rock_ridge :: "byte list \<Rightarrow> byte \<Rightarrow> bool" where
  "rock_ridge sua rr \<longleftrightarrow>
     (if take 2 sua = [0x53, 0x50]
      then 7 \<le> length sua \<and> (\<exists>e. susp_result (0x52, 0x52) sua 0 (Some e) \<and> rr = (if e = None then 0 else 1))
      else 2 \<le> length sua \<and> rr = 0)"

text \<open>
  The memory of a new device object must not claim to hold a sector that it does not: see
  \<open>cdrom_read_cached\<close>.
\<close>

definition fresh_ok :: "'w context_t \<Rightarrow> byte list \<Rightarrow> nat \<Rightarrow> bool" where
  "fresh_ok ctx img N \<longleftrightarrow> (\<forall>dev w boot w'. cdrom_fresh ctx dev w = Some (boot, w') \<longrightarrow> cache_ok boot img N)"

lemma cdrom_fresh_ok:
  assumes "alloc_ok ctx" and "fresh_ok ctx img N"
  shows "\<exists>boot w'. cdrom_fresh ctx dev w = Some (boot, w') \<and> cd_phys boot = dev \<and> cd_rr boot = 0
    \<and> length (cd_voldesc boot) = 189 \<and> length (cd_rootdir boot) = dir_size \<and> cache_ok boot img N"
proof -
  obtain b w1 where m: "malloc ctx 2296 w = (b, w1)" by force
  have "length (fst (malloc ctx 2296 w)) = 2296" using assms(1) by (simp add: alloc_ok_def)
  then have "length b = 2296" using m by simp
  with m obtain boot where b: "cdrom_fresh ctx dev w = Some (boot, w1)" "cd_phys boot = dev" "cd_rr boot = 0"
    "length (cd_voldesc boot) = 189" "length (cd_rootdir boot) = dir_size"
    by (simp add: cdrom_fresh_def slice_def load_def be32_def)
  with assms(2) show ?thesis by (auto simp: fresh_ok_def)
qed

lemma cd001:
  assumes "take 5 v = [0x43, 0x44, 0x30, 0x30, 0x31]"
  shows "strncmp (chars v) (lit ''CD001'') 5 = Some 0"
proof -
  have "length (take 5 v) = 5" using assms by simp
  then have "5 \<le> length v" by simp
  then obtain a b c d e r where v: "v = a # b # c # d # e # r"
    by (auto simp: numeral_eq_Suc Suc_le_length_iff)
  show ?thesis
    using assms by (simp add: v chars_def lit_def strncmp_step strncmp_0 char_of_def bit_Suc_0_iff)
qed

subsection \<open>The system use area\<close>

lemma cdrom_susp_reads:
  assumes alloc: "alloc_ok ctx" and dev: "cd_reads (cd_phys boot) img N" "cache_ok boot img N" and iso: "iso_disc img N b s"
    and vol: "be32 (cd_voldesc boot) 162 = Some (of_nat b)" and rec': "cd_rootdir boot = root_rec img b"
  obtains boot1 w1 where "same_disc boot boot1" and "cache_ok boot1 img N"
    and "cdrom_susp ctx boot w = do {
      sp \<leftarrow> sig_is (sua_of img b) 0x53 0x50;
      if sp then do {
        skip \<leftarrow> susp_data (sua_of img b) 2;
        (entry, boot, w) \<leftarrow> get_entry ctx (boot1\<lparr>cd_susp_skip := skip\<rparr>) (of_nat b) (of_nat (sua_start img b))
          (of_nat (sua_end img b - sua_start img b)) (0x52, 0x52) w1;
        Some (if entry \<noteq> None then boot\<lparr>cd_rr := 1\<rparr> else boot, w)
      } else Some (boot1, w1)
    }"
proof -
  let ?p = "sua_start img b" and ?n = "sua_end img b - sua_start img b"
  have b: "b < N" "?p \<le> sua_end img b" using iso by (simp_all add: iso_disc_def)
  have e: "sua_end img b < 256" using unsigned_less [of "root_rec img b ! 0", where ?'a = nat] by (simp add: sua_end_def)
  have fit: "2048 * b + ?p + ?n \<le> 2048 * N" using b e by linarith
  have "length img = 2048 * N" using dev(1) by (simp add: cd_reads_def disc_image_def)
  then have "length (rec_at img (2048 * b)) = 33" using b(1) by (simp add: rec_at_def)
  then have f: "dir_namelen (root_rec img b) = Some (root_rec img b ! 32)" "dir_len (root_rec img b) = Some (root_rec img b ! 0)"
    by (simp_all add: dir_namelen_def dir_len_def load_def root_rec_def)
  have pos: "int dir_size + uint (root_rec img b ! 32) + uint (root_rec img b ! 32) mod 2 - 1 = int ?p"
    by (simp add: sua_start_def Let_def of_nat_diff zmod_int)
  have siz: "uint (root_rec img b ! 0) - int ?p = int ?n" using b(2) by (simp add: sua_end_def of_nat_diff)
  obtain blk w1 where m: "malloc ctx (int ?n) w = (blk, w1)" by force
  have "length (fst (malloc ctx (int ?n) w)) = ?n" using alloc by (simp add: alloc_ok_def)
  then have lb: "length blk = ?n" using m by simp
  from cdrom_read_ok [OF dev fit, of blk w1] lb obtain boot1 where
    rd: "cdrom_read boot (of_nat b) (of_nat ?p) (of_nat ?n) blk w1 = Some ((0, sua_of img b), boot1, w1)"
    and ok: "same_disc boot boot1" "cache_ok boot1 img N" by (auto simp: sua_of_def)
  have v: "dir_first_sector_be (voldesc_rootdir (cd_voldesc boot)) = Some (of_nat b)"
    using vol by (simp add: dir_first_sector_be_def voldesc_rootdir_def be32_drop)
  show ?thesis
    by (rule that [OF ok])
      (simp only: cdrom_susp_def rec' v f Option.bind.simps Let_def pos siz m of_int_of_nat_eq prod.case rd)
qed

lemma cdrom_susp_ok:
  assumes alloc: "alloc_ok ctx" and dev: "cd_reads (cd_phys boot) img N" "cache_ok boot img N" and iso: "iso_disc img N b s"
    and vol: "be32 (cd_voldesc boot) 162 = Some (of_nat b)" and rec': "cd_rootdir boot = root_rec img b"
    and rr: "cd_rr boot = 0" "rock_ridge (sua_of img b) rr"
  shows "\<exists>boot' w'. cdrom_susp ctx boot w = Some (boot', w') \<and> cache_ok boot' img N \<and> cd_phys boot' = cd_phys boot
    \<and> cd_voldesc boot' = cd_voldesc boot \<and> cd_rr boot' = rr"
proof -
  let ?s = "sua_of img b" and ?p = "sua_start img b" and ?n = "sua_end img b - sua_start img b"
  obtain boot1 w1 where ok: "same_disc boot boot1" "cache_ok boot1 img N"
    and r: "cdrom_susp ctx boot w = do {
      sp \<leftarrow> sig_is ?s 0x53 0x50;
      if sp then do {
        skip \<leftarrow> susp_data ?s 2;
        (entry, boot, w) \<leftarrow> get_entry ctx (boot1\<lparr>cd_susp_skip := skip\<rparr>) (of_nat b) (of_nat ?p) (of_nat ?n) (0x52, 0x52) w1;
        Some (if entry \<noteq> None then boot\<lparr>cd_rr := 1\<rparr> else boot, w)
      } else Some (boot1, w1)
    }"
    by (rule cdrom_susp_reads [OF alloc dev iso vol rec'])
  have l2: "2 \<le> length ?s" using rr(2) by (auto simp: rock_ridge_def split: if_splits)
  then obtain x y t where s: "?s = x # y # t" by (auto simp: numeral_eq_Suc Suc_le_length_iff)
  then have sig: "sig_is ?s 0x53 0x50 = Some (take 2 ?s = [0x53, 0x50])" by (simp add: sig_is_def load_def)
  show ?thesis
  proof (cases "take 2 ?s = [0x53, 0x50]")
    case False
    with r sig ok rr show ?thesis by (simp add: same_disc_def rock_ridge_def)
  next
    case True
    with rr(2) obtain e where e: "7 \<le> length ?s" "susp_result (0x52, 0x52) ?s 0 (Some e)" "rr = (if e = None then 0 else 1)"
      by (auto simp: rock_ridge_def)
    define boot2 where "boot2 = boot1\<lparr>cd_susp_skip := ?s ! 6\<rparr>"
    have "cd_reads (cd_phys boot2) img N" "cache_ok boot2 img N"
      using ok dev(1) by (simp_all add: boot2_def same_disc_def cache_ok_def)
    moreover have "2048 * b + ?p + ?n \<le> 2048 * N"
    proof -
      have "sua_end img b < 256" using unsigned_less [of "root_rec img b ! 0", where ?'a = nat] by (simp add: sua_end_def)
      moreover have "b < N" "?p \<le> sua_end img b" using iso by (simp_all add: iso_disc_def)
      ultimately show ?thesis by linarith
    qed
    ultimately obtain boot3 w3 where
      g: "get_entry ctx boot2 (of_nat b) (of_nat ?p) (of_nat ?n) (0x52, 0x52) w1 = Some (e, boot3, w3)"
      and ok3: "same_disc boot2 boot3" "cache_ok boot3 img N"
      using get_entry_ok [OF alloc, of boot2 img N b ?p ?n "(0x52, 0x52)" "Some e" w1] e(2) by (auto simp: sua_of_def)
    have "susp_data ?s 2 = Some (?s ! 6)" using e(1) by (simp add: susp_data_def load_def)
    with r sig True g have "cdrom_susp ctx boot w = Some (if e \<noteq> None then boot3\<lparr>cd_rr := 1\<rparr> else boot3, w3)"
      by (simp add: boot2_def)
    with ok ok3 e(3) rr(1) show ?thesis by (auto simp: same_disc_def boot2_def cache_ok_def)
  qed
qed

text \<open>With an area of no bytes, the two of its signature are read behind the end of the block.\<close>

lemma cdrom_susp_empty:
  assumes alloc: "alloc_ok ctx" and dev: "cd_reads (cd_phys boot) img N" "cache_ok boot img N" and iso: "iso_disc img N b s"
    and vol: "be32 (cd_voldesc boot) 162 = Some (of_nat b)" and rec': "cd_rootdir boot = root_rec img b"
    and empty: "sua_start img b = sua_end img b"
  shows "cdrom_susp ctx boot w = None"
proof -
  have "sua_of img b = []" using empty by (simp add: sua_of_def)
  then have e: "sig_is (sua_of img b) 0x53 0x50 = None" by (simp add: sig_is_def load_def)
  show ?thesis by (rule cdrom_susp_reads [OF alloc dev iso vol rec', of w]) (simp add: e)
qed

subsection \<open>The device\<close>

text \<open>Up to the system use area.\<close>

lemma cdrom_create_reads:
  assumes alloc: "alloc_ok ctx" and fresh: "fresh_ok ctx img N"
    and scan: "start_unit_scan ctx get_scan_list (snd (start_unit_scan ctx [] w)) = ((hnd, bs), w1)"
      "scanned ctx hnd w1 us" "find is_cd us = Some h"
    and drive: "cd_reads (ush_device h) img N" and iso: "iso_disc img N b s"
  obtains boot w2 where "cdrom_create ctx w = do { (boot, w) \<leftarrow> cdrom_susp ctx boot w2; Some (Some boot, w) }"
    and "cd_phys boot = ush_device h" and "cd_rr boot = 0" and "cache_ok boot img N"
    and "root_extent boot b s" and "cd_rootdir boot = root_rec img b"
proof -
  from cd_get_dev_first [OF scan(1,2)] scan(3) obtain w3 where
    d: "cd_get_dev ctx w = Some (Some (ush_device h), w3)" by auto
  from cdrom_fresh_ok [OF alloc fresh, of "ush_device h" w3] obtain boot w4 where
    f: "cdrom_fresh ctx (ush_device h) w3 = Some (boot, w4)" "cd_phys boot = ush_device h" "cd_rr boot = 0"
      "length (cd_voldesc boot) = 189" "length (cd_rootdir boot) = dir_size" "cache_ok boot img N" by blast
  have N: "17 \<le> N" "N < 2 ^ 20" "length img = 2048 * N" "b < N" "s < 2 ^ 31"
    using iso drive by (simp_all add: iso_disc_def cd_reads_def disc_image_def)
  define vol where "vol = take 189 (drop (2048 * 16) img)"
  have "2048 * 16 + 0 + 189 \<le> 2048 * N" using N(1) by simp
  from cdrom_read_ok [OF _ f(6) this, of "cd_voldesc boot" w4] drive f(2,4) obtain boot1 where
    r1: "cdrom_read boot 16 0 189 (cd_voldesc boot) w4 = Some ((0, vol), boot1, w4)"
    and ok1: "same_disc boot boot1" "cache_ok boot1 img N" by (auto simp: vol_def)
  have "take 5 (voldesc_magic vol) = take 5 (drop (2048 * 16 + 1) img)"
    by (simp add: voldesc_magic_def vol_def drop_take min_def)
  then have magic: "strncmp (chars (voldesc_magic vol)) (lit ''CD001'') 5 = Some 0"
    using iso by (intro cd001) (simp add: iso_disc_def)
  have bv: "be32 vol i = be32 img (2048 * 16 + i)" if "i + 4 \<le> 189" for i
    using that N(1,3) by (auto simp: be32_def vol_def add.commute)
  then have v: "be32 vol 162 = Some (of_nat b)" "be32 vol 170 = Some (of_nat s)"
    using iso by (simp_all add: iso_disc_def)
  have dv: "dir_first_sector_be (voldesc_rootdir vol) = Some (of_nat b)"
    using v(1) by (simp add: dir_first_sector_be_def voldesc_rootdir_def be32_drop)
  define boot2 where "boot2 = boot1\<lparr>cd_voldesc := vol\<rparr>"
  have c2: "cd_reads (cd_phys boot2) img N" "cache_ok boot2 img N" "length (cd_rootdir boot2) = dir_size"
    using drive f(2,5) ok1 by (simp_all add: boot2_def same_disc_def cache_ok_def)
  have "2048 * b + 0 + dir_size \<le> 2048 * N" using N(4) by simp
  from cdrom_read_ok [OF c2(1,2) this, of "cd_rootdir boot2" w4] c2(3) obtain boot3 where
    r2: "cdrom_read boot2 (of_nat b) 0 (of_nat dir_size) (cd_rootdir boot2) w4 = Some ((0, root_rec img b), boot3, w4)"
    and ok3: "same_disc boot2 boot3" "cache_ok boot3 img N" by (auto simp: root_rec_def rec_at_def)
  show ?thesis
  proof (rule that)
    show "cdrom_create ctx w = do { (boot, w) \<leftarrow> cdrom_susp ctx (boot3\<lparr>cd_rootdir := root_rec img b\<rparr>) w4; Some (Some boot, w) }"
      using d f(1) r1 magic dv r2 by (simp add: cdrom_create_def boot2_def)
    show "root_extent (boot3\<lparr>cd_rootdir := root_rec img b\<rparr>) b s"
      using ok3(1) v N by (simp add: root_extent_def same_disc_def boot2_def)
  qed (use ok1 ok3 f in \<open>simp_all add: same_disc_def boot2_def cache_ok_def\<close>)
qed

lemma cdrom_create_ok:
  assumes alloc: "alloc_ok ctx" and fresh: "fresh_ok ctx img N"
    and scan: "start_unit_scan ctx get_scan_list (snd (start_unit_scan ctx [] w)) = ((hnd, bs), w1)"
      "scanned ctx hnd w1 us" "find is_cd us = Some h"
    and drive: "cd_reads (ush_device h) img N" and iso: "iso_disc img N b s" and rr: "rock_ridge (sua_of img b) rr"
  shows "\<exists>boot w'. cdrom_create ctx w = Some (Some boot, w') \<and> cd_phys boot = ush_device h \<and> cache_ok boot img N
    \<and> root_extent boot b s \<and> cd_rr boot = rr"
proof -
  obtain boot w2 where c: "cdrom_create ctx w = do { (boot, w) \<leftarrow> cdrom_susp ctx boot w2; Some (Some boot, w) }"
    and b: "cd_phys boot = ush_device h" "cd_rr boot = 0" "cache_ok boot img N" "root_extent boot b s"
      "cd_rootdir boot = root_rec img b"
    by (rule cdrom_create_reads [OF alloc fresh scan drive iso])
  have "cd_reads (cd_phys boot) img N" "be32 (cd_voldesc boot) 162 = Some (of_nat b)"
    using drive b by (simp_all add: root_extent_def)
  from cdrom_susp_ok [OF alloc this(1) b(3) iso this(2) b(5,2) rr, of w2] c b(1,4) show ?thesis
    by (auto simp: root_extent_def)
qed

lemma cdrom_create_empty:
  assumes alloc: "alloc_ok ctx" and fresh: "fresh_ok ctx img N"
    and scan: "start_unit_scan ctx get_scan_list (snd (start_unit_scan ctx [] w)) = ((hnd, bs), w1)"
      "scanned ctx hnd w1 us" "find is_cd us = Some h"
    and drive: "cd_reads (ush_device h) img N" and iso: "iso_disc img N b s"
    and empty: "sua_start img b = sua_end img b"
  shows "cdrom_create ctx w = None"
proof -
  obtain boot w2 where c: "cdrom_create ctx w = do { (boot, w) \<leftarrow> cdrom_susp ctx boot w2; Some (Some boot, w) }"
    and b: "cd_phys boot = ush_device h" "cd_rr boot = 0" "cache_ok boot img N" "root_extent boot b s"
      "cd_rootdir boot = root_rec img b"
    by (rule cdrom_create_reads [OF alloc fresh scan drive iso])
  have "cd_reads (cd_phys boot) img N" "be32 (cd_voldesc boot) 162 = Some (of_nat b)"
    using drive b by (simp_all add: root_extent_def)
  from cdrom_susp_empty [OF alloc this(1) b(3) iso this(2) b(5) empty, of w2] c show ?thesis by simp
qed

end
