(* ===== verification/Samples_Cdrom.thy ===== *)
theory Samples_Cdrom
  imports Samples Cdrom_Create
begin

text \<open>A disc of three sectors: sector 1 is a directory with one file, which is in sector 2.\<close>

definition sample_record :: "byte list" where
  "sample_record = [34, 0, 0, 0, 0, 0, 0, 0, 0, 2, 0, 0, 0, 0, 0, 0, 0, 5] @ [0, 0, 0, 0, 0, 0, 0, 0, 0, 0, 0, 0, 0, 0, 1, 0x41]"

definition sample_disc :: "byte list" where
  "sample_disc = replicate 2048 0 @ sample_record @ replicate 2014 0 @ replicate 2048 7"

lemma length_sample [simp]: "length sample_record = 34" "length sample_disc = 6144"
  by (simp_all add: sample_record_def sample_disc_def)

lemma nth_sample_record: "sample_record ! 0 = 34" "sample_record ! 25 = 0" "sample_record ! 32 = 1"
  by (simp_all add: sample_record_def)

lemma nth_sample_disc: "i < 34 \<Longrightarrow> sample_disc ! (2048 + i) = sample_record ! i"
  by (simp add: sample_disc_def nth_append)

lemma sample_rec_at: "rec_at sample_disc 2048 = take 33 sample_record"
  by (simp add: rec_at_def sample_disc_def)

lemma sample_ident: "ident_at sample_disc 2048 = [0x41]"
proof -
  have "take 1 (drop 2081 sample_disc) = [0x41]" by (simp add: sample_disc_def sample_record_def)
  then show ?thesis using nth_sample_disc [of 32] by (simp add: ident_at_def nth_sample_record)
qed

lemma sample_records: "dir_records sample_disc 3 1 2048 0 [(take 33 sample_record, ''A'')]"
proof -
  have e: "dir_records sample_disc 3 1 2048 2048 []" by (rule rec_end) simp
  have z: "sample_disc ! 2082 = 0" by (simp add: sample_disc_def nth_append)
  have l: "sample_disc ! 2048 = 34" "sample_disc ! 2080 = 1"
    using nth_sample_disc [of 0] nth_sample_disc [of 32] by (simp_all add: nth_sample_record)
  have r: "dir_records sample_disc 3 1 2048 (0 + unat (sample_disc ! (2048 * 1 + 0))) []"
    by (rule rec_skip) (use e z in \<open>simp_all add: l\<close>)
  have s: "iso_string (ident_at sample_disc 2048) = ''A''"
    by (simp add: sample_ident iso_string_def iso_ident_def chars_def char_of_def bit_Suc_0_iff)
  have "dir_records sample_disc 3 1 2048 0
      ((rec_at sample_disc (2048 * 1 + 0), iso_string (ident_at sample_disc (2048 * 1 + 0))) # [])"
    by (rule rec_entry [OF _ _ _ _ _ r]) (simp_all add: l sample_ident)
  then show ?thesis by (simp add: s sample_rec_at)
qed

lemma sample_iso_lookup:
  "iso_lookup sample_disc 3 1 2048 [''a''] (Some (2, 5))" "iso_lookup sample_disc 3 1 2048 [''b''] None"
proof -
  have m: "find (rec_matches ''a'' True) [(take 33 sample_record, ''A'')] = Some (take 33 sample_record, ''A'')"
    "find (rec_matches ''b'' ([] = [])) [(take 33 sample_record, ''A'')] = None"
    by (simp_all add: rec_matches_def tolower_def nth_sample_record char_of_def bit_Suc_0_iff)
  have "be32 (take 33 sample_record) 6 = Some 2" "be32 (take 33 sample_record) 14 = Some 5"
    by (simp_all add: be32_def sample_record_def join32_def)
  from iso_last [OF sample_records m(1) this] show "iso_lookup sample_disc 3 1 2048 [''a''] (Some (2, 5))" by simp
  show "iso_lookup sample_disc 3 1 2048 [''b''] None" by (rule iso_none [OF sample_records m(2)])
qed

definition disc_drive :: "byte list \<Rightarrow> 'w block_dev_desc" where
  "disc_drive img = sample_dev (\<lambda>_. None) DEV_TYPE_CDROM\<lparr>bd_block_read := \<lambda>_ s n buf w.
     ((1, take (2048 * unat n) (drop (2048 * unat s) img) @ drop (2048 * unat n) buf), w)\<rparr>"

lemma disc_drive_reads: "disc_image img N \<Longrightarrow> cd_reads (disc_drive img) img N"
  by (auto simp: cd_reads_def disc_drive_def sample_dev_def unat_small disc_image_def)

definition sample_cdrom :: "unit cdrom_boot_dev_t" where
  "sample_cdrom = \<lparr>cd_phys = disc_drive sample_disc,
     cd_voldesc = replicate 162 0 @ [0, 0, 0, 1] @ replicate 4 0 @ [0, 0, 8, 0] @ replicate 15 0,
     cd_rootdir = replicate 33 0, cd_tmpbuf = replicate 2048 0, cd_sector_in_buf = 0xFFFFFFFF,
     cd_rr = 0, cd_susp_skip = 0\<rparr>"

lemma sample_cdrom_reads: "cd_reads (cd_phys sample_cdrom) sample_disc 3" "cache_ok sample_cdrom sample_disc 3"
proof -
  have "disc_image sample_disc 3" by (simp add: disc_image_def)
  then show "cd_reads (cd_phys sample_cdrom) sample_disc 3"
    by (simp add: sample_cdrom_def disc_drive_reads)
  show "cache_ok sample_cdrom sample_disc 3" by (simp add: cache_ok_def sample_cdrom_def)
qed

lemma sample_plain: "plain_disc sample_cdrom sample_disc 3"
  using sample_cdrom_reads by (simp add: plain_disc_def) (simp add: sample_cdrom_def)

lemma sample_root: "root_extent sample_cdrom 1 2048"
  by (simp add: root_extent_def sample_cdrom_def be32_def nth_append join32_def)

lemma sample_context_alloc: "alloc_ok sample_context"
  by (simp add: alloc_ok_def malloc_def sample_context_def)

text \<open>A system use area in sector 2 of a disc: an \<open>RR\<close> entry and one of length 0 behind it.\<close>

definition susp_disc :: "byte list" where
  "susp_disc = replicate 4096 0 @ [0x52, 0x52, 5, 1, 0x81] @ [0x4E, 0x4D, 0, 1] @ replicate 2039 0"

definition susp_cdrom :: "unit cdrom_boot_dev_t" where
  "susp_cdrom = sample_cdrom\<lparr>cd_phys := disc_drive susp_disc\<rparr>"

lemma susp_cdrom_reads: "cd_reads (cd_phys susp_cdrom) susp_disc 3" "cache_ok susp_cdrom susp_disc 3"
proof -
  have "disc_image susp_disc 3" by (simp add: disc_image_def susp_disc_def)
  then show "cd_reads (cd_phys susp_cdrom) susp_disc 3" by (simp add: susp_cdrom_def disc_drive_reads)
  show "cache_ok susp_cdrom susp_disc 3" by (simp add: cache_ok_def susp_cdrom_def sample_cdrom_def)
qed

lemma susp_area: "take 9 (drop (2048 * 2 + 0) susp_disc) = [0x52, 0x52, 5, 1, 0x81, 0x4E, 0x4D, 0, 1]"
  by (simp add: susp_disc_def)

lemma susp_results:
  "susp_result (0x52, 0x52) (take 9 (drop (2048 * 2 + 0) susp_disc)) 0 (Some (Some [0x52, 0x52, 5, 1, 0x81]))"
  "susp_result (0x50, 0x58) (take 9 (drop (2048 * 2 + 0) susp_disc)) 0 None"
proof -
  let ?a = "[0x52, 0x52, 5, 1, 0x81, 0x4E, 0x4D, 0, 1] :: byte list"
  have p: "plain_entry ?a 0" "plain_entry ?a 5" by (simp_all add: plain_entry_def sig_at_def)
  show "susp_result (0x52, 0x52) (take 9 (drop (2048 * 2 + 0) susp_disc)) 0 (Some (Some [0x52, 0x52, 5, 1, 0x81]))"
    unfolding susp_area using susp_hit [OF p(1), of "(0x52, 0x52)"] by (simp add: sig_at_def)
  have "susp_result (0x50, 0x58) ?a (0 + unat (?a ! (0 + 2))) None"
    using susp_stuck [of ?a 5 "(0x50, 0x58)"] p(2) by (simp add: sig_at_def)
  from susp_next [OF p(1) _ _ _ this]
  show "susp_result (0x50, 0x58) (take 9 (drop (2048 * 2 + 0) susp_disc)) 0 None"
    unfolding susp_area by (simp add: sig_at_def)
qed

text \<open>A disc whose root directory is in sector 17 and has a record with the system use area \<open>sua\<close>.\<close>

definition iso_layout :: "byte list \<Rightarrow> byte list \<Rightarrow> byte list" where
  "iso_layout sua rest = replicate 32768 0
     @ ([1, 0x43, 0x44, 0x30, 0x30, 0x31, 1] @ replicate 155 0 @ [0, 0, 0, 17] @ replicate 4 0 @ [0, 0, 8, 0] @ replicate 1874 0)
     @ ((of_nat (34 + length sua) # replicate 31 0 @ [1]) @ [0] @ sua @ rest)"

lemma iso_layout_drop:
  "drop 34816 (iso_layout sua rest) = (of_nat (34 + length sua) # replicate 31 0 @ [1]) @ [0] @ sua @ rest"
  by (simp add: iso_layout_def)

lemma iso_layout_root:
  assumes "length sua < 200"
  shows "root_rec (iso_layout sua rest) 17 = of_nat (34 + length sua) # replicate 31 0 @ [1]"
    "sua_start (iso_layout sua rest) 17 = 34" "sua_end (iso_layout sua rest) 17 = 34 + length sua"
    "sua_of (iso_layout sua rest) 17 = sua"
proof -
  note d = iso_layout_drop [of sua rest]
  then show r: "root_rec (iso_layout sua rest) 17 = of_nat (34 + length sua) # replicate 31 0 @ [1]"
    by (simp add: root_rec_def rec_at_def del: of_nat_add)
  have "(of_nat (34 + length sua) # replicate 31 0 @ [1]) ! 32 = (1 :: byte)" by (simp add: nth_append nth_Cons')
  then show st: "sua_start (iso_layout sua rest) 17 = 34" by (simp only: sua_start_def r) simp
  show en: "sua_end (iso_layout sua rest) 17 = 34 + length sua"
    using assms by (simp only: sua_end_def r nth_Cons_0) (simp only: unsigned_of_nat, simp add: take_bit_nat_eq_self)
  have "drop (34816 + 34) (iso_layout sua rest) = sua @ rest"
    unfolding add.commute [of "34816 :: nat"] drop_drop [symmetric] d by simp
  then show "sua_of (iso_layout sua rest) 17 = sua" by (simp add: sua_of_def st en)
qed

lemma iso_layout_iso:
  assumes l: "length sua < 200" and N: "18 \<le> N"
  shows "iso_disc (iso_layout sua rest) N 17 2048"
proof -
  have d: "drop 32768 (iso_layout sua rest) = [1, 0x43, 0x44, 0x30, 0x30, 0x31, 1] @ replicate 155 0 @ [0, 0, 0, 17]
      @ replicate 4 0 @ [0, 0, 8, 0] @ replicate 1874 0 @ ((of_nat (34 + length sua) # replicate 31 0 @ [1]) @ [0] @ sua @ rest)"
    by (simp add: iso_layout_def)
  have "drop (32768 + 1) (iso_layout sua rest) = drop 1 (drop 32768 (iso_layout sua rest))" by simp
  also have "take 5 \<dots> = [0x43, 0x44, 0x30, 0x30, 0x31]" unfolding d by simp
  finally have t: "take 5 (drop (32768 + 1) (iso_layout sua rest)) = [0x43, 0x44, 0x30, 0x30, 0x31]" .
  have "be32 (drop 32768 (iso_layout sua rest)) 162 = Some 17" "be32 (drop 32768 (iso_layout sua rest)) 170 = Some 2048"
    unfolding d by (simp_all add: be32_def nth_append nth_Cons' join32_def del: of_nat_add)
  with l t N show ?thesis by (simp add: iso_disc_def be32_drop iso_layout_root)
qed

lemma layout_fresh:
  assumes "\<And>n. malloc ctx n = (\<lambda>w. (replicate (nat n) 0, w))" and "0 < N"
  shows "fresh_ok ctx (iso_layout sua rest) N"
proof -
  have "take 2048 (iso_layout sua rest) = replicate 2048 0" by (simp add: iso_layout_def)
  then show ?thesis
    using assms(2) by (auto simp: fresh_ok_def cdrom_fresh_def assms(1) slice_def be32_def load_def join32_def cache_ok_def)
qed

text \<open>Nothing but the record of the root directory.\<close>

definition iso_image :: "byte list \<Rightarrow> byte list" where
  "iso_image sua = iso_layout sua (replicate (2014 - length sua) 0)"

lemma iso_image_root:
  assumes "length sua < 200"
  shows "root_rec (iso_image sua) 17 = of_nat (34 + length sua) # replicate 31 0 @ [1]"
    "sua_start (iso_image sua) 17 = 34" "sua_end (iso_image sua) 17 = 34 + length sua" "sua_of (iso_image sua) 17 = sua"
  unfolding iso_image_def by (rule iso_layout_root [OF assms])+

lemma iso_image_disc: "length sua < 200 \<Longrightarrow> disc_image (iso_image sua) 18"
  by (simp add: disc_image_def iso_image_def iso_layout_def)

lemma iso_image_iso: "length sua < 200 \<Longrightarrow> iso_disc (iso_image sua) 18 17 2048"
  by (simp add: iso_image_def iso_layout_iso)

definition iso_machine :: "byte list \<Rightarrow> unit context_t" where
  "iso_machine sua = sample_machine (disc_drive (iso_image sua))"

lemma iso_machine_ok:
  assumes "length sua < 200"
  shows "alloc_ok (iso_machine sua)" "fresh_ok (iso_machine sua) (iso_image sua) 18"
    "is_cd \<lparr>ush_device = disc_drive (iso_image sua)\<rparr>" "cd_reads (disc_drive (iso_image sua)) (iso_image sua) 18"
proof -
  show "alloc_ok (iso_machine sua)" unfolding iso_machine_def by (rule sample_machine_alloc)
  show "is_cd \<lparr>ush_device = disc_drive (iso_image sua)\<rparr>" by (simp add: is_cd_def disc_drive_def sample_dev_def)
  show "cd_reads (disc_drive (iso_image sua)) (iso_image sua) 18" using iso_image_disc [OF assms] by (rule disc_drive_reads)
  show "fresh_ok (iso_machine sua) (iso_image sua) 18"
    unfolding iso_image_def
    by (rule layout_fresh) (simp_all add: iso_machine_def sample_machine_def malloc_def sample_context_def)
qed

lemma iso_scan:
  "start_unit_scan (iso_machine sua) get_scan_list w = ((Some \<lparr>ush_device = disc_drive (iso_image sua)\<rparr>, 512), w)"
  "scanned (iso_machine sua) (Some \<lparr>ush_device = disc_drive (iso_image sua)\<rparr>) w [\<lparr>ush_device = disc_drive (iso_image sua)\<rparr>]"
  unfolding iso_machine_def by (rule sample_scan)+

definition rr_area :: "byte list" where
  "rr_area = [0x53, 0x50, 7, 1, 0xBE, 0xEF, 0] @ [0x52, 0x52, 5, 1, 0x81]"

lemma rr_area_rr: "length rr_area < 200" "rock_ridge rr_area 1"
proof -
  have p: "plain_entry rr_area 0" "plain_entry rr_area 7" by (simp_all add: plain_entry_def sig_at_def rr_area_def)
  have "susp_result (0x52, 0x52) rr_area (0 + unat (rr_area ! (0 + 2))) (Some (Some [0x52, 0x52, 5, 1, 0x81]))"
    using susp_hit [OF p(2), of "(0x52, 0x52)"] by (simp add: sig_at_def rr_area_def)
  from susp_next [OF p(1) _ _ _ this]
  have "susp_result (0x52, 0x52) rr_area 0 (Some (Some [0x52, 0x52, 5, 1, 0x81]))" by (simp add: sig_at_def rr_area_def)
  then show "length rr_area < 200" "rock_ridge rr_area 1"
    by (auto simp: rock_ridge_def rr_area_def intro!: exI [of _ "Some [0x52, 0x52, 5, 1, 0x81]"])
qed

end
