(* ===== verification/Ext2_Tftp.thy ===== *)
theory Ext2_Tftp
  imports Rdb
begin

text \<open>
  The two boot devices that only forward to U-Boot: \<open>src/src/tftp.c\<close> and \<open>src/src/ext2.c\<close>. A
  \<open>load_file\<close> takes the destination buffer and returns it with the length, or a negative number.
  The device objects of \<open>tftp.c\<close> have no state.
\<close>

subsection \<open>TFTP\<close>

definition tftp_load_file :: "'w context_t \<Rightarrow> string \<Rightarrow> byte list \<Rightarrow> 'w \<Rightarrow> (int \<times> byte list) \<times> 'w" where
  "tftp_load_file ctx filename buffer w = netloop ctx filename buffer w"

definition tftp_create :: "'w context_t \<Rightarrow> 'w \<Rightarrow> unit option \<times> 'w" where
  "tftp_create ctx w = (case malloc ctx 8 w of (_, w) \<Rightarrow> (Some (), w))"

subsection \<open>ext2\<close>

record ext2_boot_dev_t =
  e2_discno :: int
  e2_partno :: int
  e2_part_length :: u32

definition ext2_load_file ::
    "'w context_t \<Rightarrow> ext2_boot_dev_t \<Rightarrow> string \<Rightarrow> byte list \<Rightarrow> 'w \<Rightarrow> (int \<times> byte list) \<times> 'w" where
  "ext2_load_file ctx this filename buffer w =
     (case ext2fs_mount ctx (e2_part_length this) w of (mounted, w) \<Rightarrow>
        if mounted = 0 then ((-4, buffer), ext2fs_close ctx w)
        else case ext2fs_open ctx filename w of (filelen, w) \<Rightarrow>
          if filelen < 0 then ((-5, buffer), ext2fs_close ctx w)
          else case ext2fs_read ctx buffer filelen w of ((n, buffer), w) \<Rightarrow>
            if n \<noteq> filelen then ((-6, buffer), ext2fs_close ctx w)
            else ((filelen, buffer), ext2fs_close ctx w))"

definition ext2_create ::
    "'w context_t \<Rightarrow> 'w RdbPartition \<Rightarrow> 'w \<Rightarrow> ext2_boot_dev_t option \<times> 'w" where
  "ext2_create ctx partition' w =
     (case ext2fs_set_blk_dev_full ctx (rp_dev_desc partition') (rp_info partition') w of (len, w) \<Rightarrow>
        let part_length = (of_int len :: u32)
        in if part_length = 0 then (None, ext2fs_close ctx w)
           else case ext2fs_mount ctx part_length w of (mounted, w) \<Rightarrow>
             if mounted = 0 then (None, ext2fs_close ctx w)
             else case malloc ctx 20 (ext2fs_close ctx w) of (_, w) \<Rightarrow>
               (Some \<lparr>e2_discno = uint (rp_disk partition'), e2_partno = uint (rp_partition partition'),
                      e2_part_length = part_length\<rparr>, w))"

text \<open>A loaded file has the length \<open>ext2fs_open\<close> found for it and was read in full.\<close>

lemma ext2_load_file_length:
  assumes "ext2_load_file ctx this filename buffer w = ((n, buffer'), w')" and "0 \<le> n"
  shows "\<exists>w1 w2 w3. ext2fs_open ctx filename w1 = (n, w2) \<and> ext2fs_read ctx buffer n w2 = ((n, buffer'), w3)"
  using assms by (auto simp: ext2_load_file_def split: prod.splits if_splits)

end
