(* ===== verification/Boot_Device.thy ===== *)
theory Boot_Device
  imports Ext2_Tftp Sfs Cdrom
begin

text \<open>
  The device interface \<open>boot_dev_t\<close> of \<open>src/src/device.h\<close>: a device object and its two function
  pointers. The pointers are set by the four \<open>create\<close> routines only, so a device is the tagged union
  of the device objects, and a call through \<open>load_file\<close> is a case distinction. \<open>destroy\<close> only frees.
\<close>

datatype 'w boot_dev_t =
    Tftp_dev
  | Ext2_dev ext2_boot_dev_t
  | Sfs_dev "'w sfs_boot_dev_t"
  | Cdrom_dev "'w cdrom_boot_dev_t"

definition dev_load_file ::
    "'w context_t \<Rightarrow> 'w boot_dev_t \<Rightarrow> string \<Rightarrow> byte list \<Rightarrow> 'w
     \<Rightarrow> ((int \<times> byte list) \<times> 'w boot_dev_t \<times> 'w) option" where
  "dev_load_file ctx dev filename buffer w =
     (case dev of
        Tftp_dev \<Rightarrow> (case tftp_load_file ctx filename buffer w of (r, w) \<Rightarrow> Some (r, dev, w))
      | Ext2_dev this \<Rightarrow> (case ext2_load_file ctx this filename buffer w of (r, w) \<Rightarrow> Some (r, dev, w))
      | Sfs_dev this \<Rightarrow> do { (r, w) \<leftarrow> sfs_loadfile ctx this filename buffer w; Some (r, dev, w) }
      | Cdrom_dev this \<Rightarrow> do {
          (r, this, w) \<leftarrow> fs_cdrom_load_file ctx this filename buffer w;
          Some (r, Cdrom_dev this, w)
        })"

text \<open>The file system of a partition: ext2 first, then SFS.\<close>

definition partition_dev ::
    "'w context_t \<Rightarrow> 'w RdbPartition \<Rightarrow> 'w \<Rightarrow> ('w boot_dev_t option \<times> 'w) option" where
  "partition_dev ctx partition' w =
     (case ext2_create ctx partition' w of
        (Some d, w) \<Rightarrow> Some (Some (Ext2_dev d), w)
      | (None, w) \<Rightarrow> do { (d, w) \<leftarrow> sfs_create ctx partition' w; Some (map_option Sfs_dev d, w) })"

end
