(* ===== verification/Menu_Text.thy ===== *)
theory Menu_Text
  imports Support
begin

text \<open>
  The text routines of \<open>src/src/menu.c\<close> (\<open>getline\<close>, \<open>eatcomments\<close>, \<open>kick_eatcomments\<close>,
  \<open>getnextword\<close>, \<open>strtrim\<close>) on memory blocks, and what each computes on the denoted C strings.
  All of them are total on terminated blocks, which is what keeps the parsers of \<open>Menu_Fsm\<close>
  inside their buffers.
\<close>

subsection \<open>The routines\<close>

text \<open>
  \<open>src\<close> is the whole buffer block, \<open>src_len\<close> the length of the file in it. Note that the search for
  the newline is bounded by a terminator in the block, not by \<open>src_len\<close>.
\<close>

definition getline :: "char list \<Rightarrow> int \<Rightarrow> int \<Rightarrow> (char list option \<times> int) option" where
  "getline src src_len src_offset =
     (if src_len \<le> src_offset then Some (None, src_offset)
      else do {
        guard (0 \<le> src_offset);
        nlptr \<leftarrow> strchr (drop (nat src_offset) src) chr_nl;
        let len = (case nlptr of Some i \<Rightarrow> i + 1 | None \<Rightarrow> nat (src_len - src_offset));
        line \<leftarrow> strncpy (replicate (len + 1) NUL) 0 (drop (nat src_offset) src) len;
        line \<leftarrow> store line len NUL;
        Some (Some line, src_offset + int len)
      })"

definition eatcomments :: "char list \<Rightarrow> char list option" where
  "eatcomments line = do {
     cptr \<leftarrow> strchr line (CHR ''#'');
     case cptr of None \<Rightarrow> Some line | Some i \<Rightarrow> store line i NUL
   }"

definition kick_eatcomments :: "char list \<Rightarrow> char list option" where
  "kick_eatcomments line = do {
     cptr \<leftarrow> strchr line (CHR '';'');
     case cptr of None \<Rightarrow> Some line | Some i \<Rightarrow> store line i NUL
   }"

definition getnextword :: "char list \<Rightarrow> char list option" where
  "getnextword line = do {
     bptr \<leftarrow> strchr line (CHR '' '');
     bptr \<leftarrow> (case bptr of None \<Rightarrow> strchr line chr_tab | Some i \<Rightarrow> Some (Some i));
     len \<leftarrow> (case bptr of Some i \<Rightarrow> Some i | None \<Rightarrow> strlen line);
     word \<leftarrow> strncpy (replicate (len + 1) NUL) 0 line len;
     store word len NUL
   }"

text \<open>The two scans of \<open>strtrim\<close>: to the first non-blank, and back over trailing blanks.\<close>

fun skip_space :: "char list \<Rightarrow> nat option" where
  "skip_space [] = None"
| "skip_space (c # s) = (if isspace c then map_option Suc (skip_space s) else Some 0)"

fun trim_len :: "char list \<Rightarrow> nat \<Rightarrow> nat" where
  "trim_len p 0 = 0"
| "trim_len p (Suc n) = (if isspace (p ! n) then trim_len p n else Suc n)"

definition strtrim :: "char list \<Rightarrow> char list option" where
  "strtrim s = do {
     i \<leftarrow> skip_space s;
     let ptr_s = drop i s;
     len \<leftarrow> strlen ptr_s;
     let n = trim_len ptr_s len;
     tmp \<leftarrow> strdup ptr_s;
     s' \<leftarrow> strcpy s 0 tmp;
     store s' n NUL
   }"

subsection \<open>What they compute\<close>

definition trim :: "string \<Rightarrow> string" where
  "trim s = rev (dropWhile isspace (rev (dropWhile isspace s)))"

definition first_word :: "string \<Rightarrow> string" where
  "first_word s =
     (if CHR '' '' \<in> set s then takeWhile (\<lambda>c. c \<noteq> CHR '' '') s
      else takeWhile (\<lambda>c. c \<noteq> chr_tab) s)"

lemma not_isspace_NUL [simp]: "\<not> isspace NUL"
  by (simp add: isspace_def)

lemma set_first_word: "set (first_word s) \<subseteq> set s"
  by (auto simp: first_word_def dest: set_takeWhileD)

lemma first_word_le: "length (first_word s) \<le> length s"
  by (simp add: first_word_def length_takeWhile_le)

lemma set_trim: "set (trim s) \<subseteq> set s"
  by (auto simp: trim_def dest!: set_dropWhileD)

lemma trim_le: "length (trim s) \<le> length s"
  unfolding trim_def by (metis length_dropWhile_le length_rev order_trans)

lemma trim_Nil [simp]: "trim [] = []"
  by (simp add: trim_def)

text \<open>Prefixes of the block and of its string; cutting the block; copying a prefix out of it.\<close>

lemma take_cstr: "n \<le> length (cstr m) \<Longrightarrow> take n m = take n (cstr m)"
  by (induction m arbitrary: n) (auto simp: take_Cons split: nat.splits if_splits)

lemma cut_cstr:
  assumes "terminated m" and "i \<le> length (cstr m)"
  shows "\<exists>m'. store m i NUL = Some m' \<and> terminated m' \<and> length m' = length m
    \<and> cstr m' = take i (cstr m)"
proof -
  have i: "i < length m" using assms length_cstr_less [of m] by simp
  then have "m[i := NUL] = take i (cstr m) @ NUL # drop (Suc i) m"
    using take_cstr [OF assms(2)] by (simp add: upd_conv_take_nth_drop)
  moreover have "NUL \<notin> set (take i (cstr m))"
    using NUL_notin_cstr in_set_takeD by metis
  ultimately show ?thesis
    using i by (metis cstr_append_NUL length_list_update store_def terminated_Cons terminated_append)
qed

lemma strncpy_fresh:
  "n \<le> length m \<Longrightarrow> strncpy (replicate (n + 1) NUL) 0 m n = Some (take n m @ [NUL])"
  by (simp add: strncpy_def memmove_def slice_def blit_def drop_Cons' flip: replicate_Suc)
    (simp add: replicate_append_same [symmetric])

lemma takeWhile_absent [simp]: "c \<notin> set s \<Longrightarrow> takeWhile (\<lambda>x. x \<noteq> c) s = s"
  by (induction s) auto

lemma store_snoc: "n = length xs \<Longrightarrow> store (xs @ [y]) n z = Some (xs @ [z])"
  by (simp add: store_def)

lemma getnextword_cstr [cstr_simps]:
  assumes "terminated m"
  shows "getnextword m = Some (first_word (cstr m) @ [NUL])"
proof -
  define n where "n = length (first_word (cstr m))"
  have n: "n \<le> length (cstr m)" "n \<le> length m"
    using first_word_le [of "cstr m"] length_cstr_le [of m] by (simp_all add: n_def)
  have "getnextword m = do {
     word \<leftarrow> strncpy (replicate (n + 1) NUL) 0 m n;
     store word n NUL }"
    using assms
    by (auto simp: getnextword_def strchr_cstr strlen_cstr n_def first_word_def)
  also have "\<dots> = Some (take n m @ [NUL])"
    using strncpy_fresh [OF n(2)] n(2) by (simp add: store_snoc)
  also have "take n m = take n (cstr m)"
    using n(1) by (rule take_cstr)
  also have "take n (cstr m) = first_word (cstr m)"
    by (simp add: n_def first_word_def takeWhile_eq_take [symmetric])
  finally show ?thesis .
qed

lemma terminated_word [simp]: "terminated (w @ [NUL])"
  by simp

lemma cstr_first_word [simp]: "cstr (first_word (cstr m) @ [NUL]) = first_word (cstr m)"
  using set_first_word [of "cstr m"] NUL_notin_cstr by (intro cstr_append_NUL) blast

lemma eatcomments_cstr:
  assumes "terminated m"
  shows "\<exists>m'. eatcomments m = Some m' \<and> terminated m' \<and> length m' = length m
    \<and> cstr m' = takeWhile (\<lambda>c. c \<noteq> CHR ''#'') (cstr m)"
proof (cases "CHR ''#'' \<in> set (cstr m)")
  case True
  then show ?thesis
    using assms cut_cstr [OF assms length_takeWhile_le, of "\<lambda>c. c \<noteq> CHR ''#''"]
    by (simp add: eatcomments_def strchr_cstr takeWhile_eq_take [symmetric])
next
  case False
  with assms show ?thesis by (simp add: eatcomments_def strchr_cstr)
qed

lemma kick_eatcomments_cstr:
  assumes "terminated m"
  shows "\<exists>m'. kick_eatcomments m = Some m' \<and> terminated m' \<and> length m' = length m
    \<and> cstr m' = takeWhile (\<lambda>c. c \<noteq> CHR '';'') (cstr m)"
proof (cases "CHR '';'' \<in> set (cstr m)")
  case True
  then show ?thesis
    using assms cut_cstr [OF assms length_takeWhile_le, of "\<lambda>c. c \<noteq> CHR '';''"]
    by (simp add: kick_eatcomments_def strchr_cstr takeWhile_eq_take [symmetric])
next
  case False
  with assms show ?thesis by (simp add: kick_eatcomments_def strchr_cstr)
qed

lemma skip_space_cstr:
  "terminated m \<Longrightarrow> skip_space m = Some (length (takeWhile isspace (cstr m)))"
  by (induction m) auto

lemma trim_len_eq:
  assumes "n \<le> length p"
  shows "take (trim_len p n) p = rev (dropWhile isspace (rev (take n p))) \<and> trim_len p n \<le> n"
  using assms
proof (induction n)
  case 0
  then show ?case by simp
next
  case (Suc n)
  then show ?case by (auto simp: take_Suc_conv_app_nth)
qed

text \<open>\<open>strtrim\<close> trims in place: the block keeps its length, and its string is trimmed.\<close>

lemma strtrim_cstr:
  assumes "terminated m"
  shows "\<exists>m'. strtrim m = Some m' \<and> terminated m' \<and> length m' = length m \<and> cstr m' = trim (cstr m)"
proof -
  define i where "i = length (takeWhile isspace (cstr m))"
  define p where "p = dropWhile isspace (cstr m)"
  define n where "n = trim_len (drop i m) (length p)"
  have i: "i \<le> length (cstr m)" by (simp add: i_def length_takeWhile_le)
  have drop: "terminated (drop i m)" "cstr (drop i m) = p"
    using assms i by (simp_all add: terminated_drop_le cstr_drop p_def i_def dropWhile_eq_drop)
  have len: "i + length p < length m"
    using length_cstr_less [OF drop(1)] drop(2) by simp
  have p: "take (length p) (drop i m) = p"
    using take_cstr [of "length p" "drop i m"] drop by simp
  have n': "take n (drop i m) = trim (cstr m)" "n \<le> length p"
    using trim_len_eq [of "length p" "drop i m"] len p
    by (simp_all add: n_def trim_def p_def [symmetric])
  have "take n (take (length p) (drop i m)) = take n (drop i m)"
    using n'(2) by (simp only: take_take min.absorb1)
  with n' p have n: "take n p = trim (cstr m)" "n \<le> length p" by simp_all
  define m1 where "m1 = p @ NUL # drop (Suc (length p)) m"
  have NUL: "NUL \<notin> set p" using drop(2) NUL_notin_cstr by metis
  have m1: "strcpy m 0 (p @ [NUL]) = Some m1" "terminated m1" "cstr m1 = p" "length m1 = length m"
    using len NUL
    by (simp_all add: m1_def strcpy_def strlen_cstr memmove_def slice_def blit_def cstr_append_NUL)
  have "strtrim m = store m1 n NUL"
    using assms drop m1(1)
    by (simp add: strtrim_def skip_space_cstr i_def [symmetric] strlen_cstr strdup_cstr n_def)
  with cut_cstr [OF m1(2), of n] m1 n show ?thesis by auto
qed

text \<open>
  \<open>getline\<close> on a buffer whose remaining part has a newline or a terminator: the line is the text
  up to and including the newline, or the rest of the file.
\<close>

definition line_end :: "char list \<Rightarrow> nat \<Rightarrow> nat \<Rightarrow> nat" where
  "line_end src src_len off =
     (let s = cstr (drop off src)
      in if chr_nl \<in> set s then off + length (takeWhile (\<lambda>c. c \<noteq> chr_nl) s) + 1 else src_len)"

lemma strchr_Some_bound: "strchr m c = Some (Some i) \<Longrightarrow> i < length m"
  by (induction m arbitrary: i) (auto split: if_splits)

lemma strchr_first_part:
  assumes "terminated m \<or> c \<in> set (cstr m)" and "c \<noteq> NUL"
  shows "strchr m c =
    Some (if c \<in> set (cstr m) then Some (length (takeWhile (\<lambda>x. x \<noteq> c) (cstr m))) else None)"
  using assms by (induction m) auto


lemma takeWhile_stops: "c \<in> set s \<Longrightarrow> length (takeWhile (\<lambda>x. x \<noteq> c) s) < length s"
  by (induction s) auto

lemma line_end_bounds:
  assumes "off < src_len"
  shows "off < line_end src src_len off"
  using assms by (simp add: line_end_def Let_def)

lemma getline_eof: "src_len \<le> off \<Longrightarrow> getline src src_len off = Some (None, off)"
  by (simp add: getline_def)

lemma getline_line:
  assumes off: "off < src_len" and len: "src_len \<le> length src"
    and stop: "terminated (drop off src) \<or> chr_nl \<in> set (cstr (drop off src))"
  defines "e \<equiv> line_end src src_len off"
  shows "getline src (int src_len) (int off)
      = Some (Some (take (e - off) (drop off src) @ [NUL]), int e)"
    and "e \<le> length src"
proof -
  let ?s = "drop off src"
  let ?n = "e - off"
  have nl: "strchr ?s chr_nl =
    Some (if chr_nl \<in> set (cstr ?s) then Some (length (takeWhile (\<lambda>c. c \<noteq> chr_nl) (cstr ?s))) else None)"
    using stop by (rule strchr_first_part) simp
  have lt: "length (takeWhile (\<lambda>c. c \<noteq> chr_nl) (cstr ?s)) < length ?s" if "chr_nl \<in> set (cstr ?s)"
  proof -
    have "length (takeWhile (\<lambda>c. c \<noteq> chr_nl) (cstr ?s)) < length (cstr ?s)"
      using that by (rule takeWhile_stops)
    then show ?thesis using length_cstr_le [of ?s] by simp
  qed
  have n: "?n \<le> length ?s" and e: "off < e" "e \<le> length src"
    using off len lt by (auto simp: e_def line_end_def Let_def)
  then show "e \<le> length src" by blast
  have "nat (int src_len - int off) = src_len - off" by simp
  with nl have n_eq: "(case (if chr_nl \<in> set (cstr ?s)
      then Some (length (takeWhile (\<lambda>c. c \<noteq> chr_nl) (cstr ?s))) else None)
      of Some i \<Rightarrow> i + 1 | None \<Rightarrow> nat (int src_len - int off)) = ?n"
    by (simp add: e_def line_end_def Let_def)
  have st: "store (take ?n ?s @ [NUL]) ?n NUL = Some (take ?n ?s @ [NUL])"
    using n by (intro store_snoc) simp
  show "getline src (int src_len) (int off) = Some (Some (take (e - off) (drop off src) @ [NUL]), int e)"
    using off e nl n_eq st strncpy_fresh [OF n] by (simp add: getline_def Let_def del: replicate.simps)
qed

end
