(* ===== verification/Menu_Entry.thy ===== *)
theory Menu_Entry
  imports Support
begin

text \<open>
  The menu data of \<open>src/src/menu.h\<close> and its constructors and destructors in
  \<open>src/src/menu.c\<close>. A \<open>char *\<close> field is the string it denotes, \<open>None\<close> for NULL; the strings are
  private copies (\<open>strdup\<close>), so no aliasing is lost. The linked list of \<open>menu_t\<close> is a HOL list whose
  first element is the head that \<open>menu_load\<close> allocates and that carries the global options.
  A field \<open>malloc\<close> leaves uninitialised (\<open>default_os\<close>, \<open>delay\<close> of \<open>entry_alloc\<close>) is \<open>None\<close>, so that
  reading it faults. The array \<open>modules\<close> with its count \<open>modules_cnt\<close> is the list of its used slots;
  the array \<open>argv\<close> is used nowhere in the program and is left out.
\<close>

abbreviation (input) DEFAULT_TYPE :: int where "DEFAULT_TYPE \<equiv> 0"
abbreviation (input) IDE_TYPE :: int where "IDE_TYPE \<equiv> 1"
abbreviation (input) TFTP_TYPE :: int where "TFTP_TYPE \<equiv> 2"
abbreviation (input) CD_TYPE :: int where "CD_TYPE \<equiv> 3"

abbreviation (input) MAX_MODULES :: nat where "MAX_MODULES \<equiv> 100"

record EntryObject =
  eo_name :: string
  eo_args :: "string option"
  eo_partition :: "string option"

record menu_t =
  me_title :: "string option"
  me_kernel :: "string option"
  me_other :: "string option"
  me_append :: "string option"
  me_initrd :: "string option"
  me_dtb :: "string option"
  me_modules :: "EntryObject list"
  me_argc :: int
  me_device_type :: int
  me_device_num :: int
  me_partition :: int
  me_default_os :: "int option"
  me_delay :: "int option"
  me_server_ip :: "string option"

definition modules_cnt :: "menu_t \<Rightarrow> nat" where
  "modules_cnt e = length (me_modules e)"

text \<open>The string a fresh \<open>strdup\<close> of \<open>s\<close> denotes.\<close>

definition dup :: "char list \<Rightarrow> string option" where
  "dup s = map_option cstr (strdup s)"

lemma dup_cstr [cstr_simps]: "terminated m \<Longrightarrow> dup m = Some (cstr m)"
  by (simp add: dup_def strdup_cstr)

definition EntryObject_new ::
    "char list \<Rightarrow> char list option \<Rightarrow> char list option \<Rightarrow> EntryObject option" where
  "EntryObject_new name args part = do {
     name' \<leftarrow> dup name;
     args' \<leftarrow> (case args of None \<Rightarrow> Some None | Some a \<Rightarrow> map_option Some (dup a));
     part' \<leftarrow> (case part of None \<Rightarrow> Some None | Some p \<Rightarrow> map_option Some (dup p));
     Some \<lparr>eo_name = name', eo_args = args', eo_partition = part'\<rparr>
   }"

definition entry_alloc :: menu_t where
  "entry_alloc =
     \<lparr>me_title = None, me_kernel = None, me_other = None, me_append = None, me_initrd = None,
      me_dtb = None, me_modules = [], me_argc = 0, me_device_type = DEFAULT_TYPE,
      me_device_num = 0, me_partition = 0, me_default_os = None, me_delay = None,
      me_server_ip = None\<rparr>"

text \<open>
  \<open>entry_free\<close> dereferences its argument, so NULL faults. Its value is the strings it hands to
  \<open>free\<close>, in order; modules and arguments are not among them (the FIXME of the source).
\<close>

definition entry_free :: "menu_t option \<Rightarrow> string list option" where
  "entry_free entry = do {
     e \<leftarrow> entry;
     Some (concat (map (\<lambda>f. case f of None \<Rightarrow> [] | Some s \<Rightarrow> [s])
       [me_title e, me_kernel e, me_other e, me_append e, me_initrd e, me_dtb e]))
   }"

lemma entry_free_Some [simp]: "entry_free (Some e) \<noteq> None"
  by (simp add: entry_free_def)

lemma entry_free_NULL [simp]: "entry_free None = None"
  by (simp add: entry_free_def)

text \<open>
  \<open>menu_free\<close> steps to the next entry and frees that one instead of the one it left. \<open>freed\<close>
  records whether \<open>self\<close> has been freed already, when its \<open>next\<close> field is read.
\<close>

fun menu_free_loop :: "bool \<Rightarrow> menu_t list \<Rightarrow> unit option" where
  "menu_free_loop freed [] = Some ()"
| "menu_free_loop freed (entry # rest) = do {
     guard (\<not> freed);
     _ \<leftarrow> entry_free (case rest of [] \<Rightarrow> None | self # _ \<Rightarrow> Some self);
     menu_free_loop True rest
   }"

definition menu_free :: "menu_t list \<Rightarrow> unit option" where
  "menu_free self = menu_free_loop False self"

lemma menu_free_faults: "self \<noteq> [] \<Longrightarrow> menu_free self = None"
  unfolding menu_free_def
  by (cases self; cases "tl self") (auto simp: entry_free_def split: list.splits)

end
