(* ===== verification/Menu_Fsm.thy ===== *)
theory Menu_Fsm
  imports Menu_Text Menu_Entry
begin

text \<open>
  The two configuration parsers of \<open>src/src/menu.c\<close>: \<open>fsm\<close> for \<open>menu.lst\<close> and \<open>kick_fsm\<close> for
  AmigaOS \<open>Kicklayout\<close> files. Each is a \<open>while (parse) switch (status)\<close>: the record \<open>fsm_st\<close> holds
  the local variables, there is one definition per \<open>case\<close>, \<open>fsm_step\<close> and \<open>kick_step\<close> are the
  switches, and the loop is the combinator of \<open>Prelude\<close>. \<open>f_line\<close> is the block \<open>line\<close> points to,
  \<open>None\<close> before the first line and after \<open>free (line)\<close>, so a use after free or a double free
  faults; \<open>f_lineptr\<close> is the offset of \<open>lineptr\<close> in that block.
\<close>

datatype states =
    St_S | St_DEF | St_DLY | St_TIT | St_IN | St_RT | St_K | St_O | St_RD | St_DTB | St_M
  | St_A | St_R | St_AQ | St_RQ

record fsm_st =
  f_offset :: int
  f_line :: "char list option"
  f_lineptr :: "nat option"
  f_status :: states
  f_n :: int
  f_kernel :: bool
  f_entry :: "menu_t option"
  f_menu :: "menu_t list"

type_synonym fsm_result = "int \<times> menu_t list"

subsection \<open>Local variables\<close>

definition at_ptr :: "fsm_st \<Rightarrow> char list option" where
  "at_ptr st = do {
     line \<leftarrow> f_line st;
     p \<leftarrow> f_lineptr st;
     guard (p \<le> length line);
     Some (drop p line)
   }"

definition trim_ptr :: "fsm_st \<Rightarrow> fsm_st option" where
  "trim_ptr st = do {
     s \<leftarrow> at_ptr st;
     s' \<leftarrow> strtrim s;
     line \<leftarrow> f_line st;
     p \<leftarrow> f_lineptr st;
     Some (st\<lparr>f_line := Some (take p line @ s')\<rparr>)
   }"

definition advance_ptr :: "char list \<Rightarrow> fsm_st \<Rightarrow> fsm_st option" where
  "advance_ptr word st = do {
     n \<leftarrow> strlen word;
     p \<leftarrow> f_lineptr st;
     Some (st\<lparr>f_lineptr := Some (p + n)\<rparr>)
   }"

definition free_line :: "fsm_st \<Rightarrow> fsm_st option" where
  "free_line st = do {
     _ \<leftarrow> f_line st;
     Some (st\<lparr>f_line := None\<rparr>)
   }"

definition upd_entry :: "(menu_t \<Rightarrow> menu_t) \<Rightarrow> fsm_st \<Rightarrow> fsm_st option" where
  "upd_entry g st = do {
     e \<leftarrow> f_entry st;
     Some (st\<lparr>f_entry := Some (g e)\<rparr>)
   }"

definition upd_head :: "(menu_t \<Rightarrow> menu_t) \<Rightarrow> fsm_st \<Rightarrow> fsm_st option" where
  "upd_head g st = (case f_menu st of [] \<Rightarrow> None | h # t \<Rightarrow> Some (st\<lparr>f_menu := g h # t\<rparr>))"

text \<open>An \<open>if (strcmp (word, k1) == 0) ... else if ...\<close> chain: the first keyword that matches.\<close>

fun keyword :: "char list \<Rightarrow> (string \<times> 'a) list \<Rightarrow> 'a option option" where
  "keyword word [] = Some None"
| "keyword word ((k, a) # ks) = do {
     b \<leftarrow> streq word k;
     if b then Some (Some a) else keyword word ks
   }"

subsection \<open>The cases both parsers have\<close>

definition st_TIT :: "fsm_st \<Rightarrow> fsm_st option" where
  "st_TIT st = do {
     st \<leftarrow> trim_ptr st;
     s \<leftarrow> at_ptr st;
     n \<leftarrow> strlen s;
     st \<leftarrow> (if n > 0 then do {
              title \<leftarrow> dup s;
              Some (st\<lparr>f_status := St_IN, f_kernel := False,
                       f_entry := Some (entry_alloc\<lparr>me_title := Some title\<rparr>)\<rparr>)
            } else Some (st\<lparr>f_status := St_S\<rparr>));
     free_line st
   }"

definition st_K :: "fsm_st \<Rightarrow> fsm_st option" where
  "st_K st = do {
     st \<leftarrow> trim_ptr st;
     s \<leftarrow> at_ptr st;
     word \<leftarrow> getnextword s;
     n \<leftarrow> strlen word;
     st \<leftarrow> (if n = 0 then Some (st\<lparr>f_status := St_R\<rparr>)
            else do {
              k \<leftarrow> dup word;
              st \<leftarrow> upd_entry (\<lambda>e. e\<lparr>me_kernel := Some k\<rparr>)
                     (st\<lparr>f_status := St_IN, f_kernel := True\<rparr>);
              st \<leftarrow> advance_ptr word st;
              st \<leftarrow> trim_ptr st;
              s \<leftarrow> at_ptr st;
              m \<leftarrow> strlen s;
              if m > 0 then do {
                a \<leftarrow> dup s;
                upd_entry (\<lambda>e. e\<lparr>me_append := Some a\<rparr>) st
              } else Some st
            });
     free_line st
   }"

definition st_M :: "fsm_st \<Rightarrow> fsm_st option" where
  "st_M st = do {
     st \<leftarrow> trim_ptr st;
     s \<leftarrow> at_ptr st;
     word \<leftarrow> getnextword s;
     n \<leftarrow> strlen word;
     st \<leftarrow> (if n = 0 then Some (st\<lparr>f_status := St_R\<rparr>)
            else do {
              e \<leftarrow> f_entry st;
              guard (modules_cnt e < MAX_MODULES);
              m \<leftarrow> EntryObject_new word None None;
              upd_entry (\<lambda>e. e\<lparr>me_modules := me_modules e @ [m]\<rparr>) (st\<lparr>f_status := St_IN\<rparr>)
            });
     free_line st
   }"

definition st_A :: "fsm_st \<Rightarrow> fsm_st option" where
  "st_A st = do {
     guard (f_menu st \<noteq> []);
     e \<leftarrow> f_entry st;
     Some (st\<lparr>f_menu := f_menu st @ [e], f_n := f_n st + 1, f_status := St_S\<rparr>)
   }"

definition st_R :: "fsm_st \<Rightarrow> fsm_st option" where
  "st_R st = do {
     _ \<leftarrow> entry_free (f_entry st);
     Some (st\<lparr>f_entry := None, f_status := St_S\<rparr>)
   }"

definition st_AQ :: "fsm_st \<Rightarrow> fsm_result option" where
  "st_AQ st = do {
     guard (f_menu st \<noteq> []);
     e \<leftarrow> f_entry st;
     Some (1, f_menu st @ [e])
   }"

definition st_RQ :: "fsm_st \<Rightarrow> fsm_result option" where
  "st_RQ st = do {
     _ \<leftarrow> entry_free (f_entry st);
     Some (0, f_menu st)
   }"

text \<open>A title line inside an entry: it is put back by moving the offset, and ends the entry.\<close>

definition put_back :: "fsm_st \<Rightarrow> fsm_st option" where
  "put_back st = do {
     line \<leftarrow> f_line st;
     n \<leftarrow> strlen line;
     st \<leftarrow> free_line (st\<lparr>f_offset := f_offset st - (int n + 1)\<rparr>);
     Some (st\<lparr>f_status := (if f_kernel st then St_A else St_R)\<rparr>)
   }"

subsection \<open>\<open>fsm\<close>: menu.lst\<close>

definition fsm_S :: "char list \<Rightarrow> int \<Rightarrow> fsm_st \<Rightarrow> (fsm_st + fsm_result) option" where
  "fsm_S buffer buffer_len st = do {
     (line, off) \<leftarrow> getline buffer buffer_len (f_offset st);
     case line of
       None \<Rightarrow> Some (Inr (1, f_menu st))
     | Some line \<Rightarrow> do {
         line \<leftarrow> eatcomments line;
         line \<leftarrow> strtrim line;
         n \<leftarrow> strlen line;
         if n = 0 then Some (Inl (st\<lparr>f_offset := off, f_line := None, f_status := St_S\<rparr>))
         else do {
           word \<leftarrow> getnextword line;
           wl \<leftarrow> strlen word;
           k \<leftarrow> keyword word [(''title'', St_TIT), (''default'', St_DEF), (''delay'', St_DLY)];
           case k of
             None \<Rightarrow> Some (Inl (st\<lparr>f_offset := off, f_line := Some line, f_status := St_S\<rparr>))
           | Some s \<Rightarrow> Some (Inl (st\<lparr>f_offset := off, f_line := Some line, f_lineptr := Some wl,
                                    f_status := s\<rparr>))
         }
       }
   }"

text \<open>\<open>DEF\<close> and \<open>DLY\<close> differ in the option they set; both leave \<open>line\<close> allocated.\<close>

definition st_option :: "(int \<Rightarrow> menu_t \<Rightarrow> menu_t) \<Rightarrow> fsm_st \<Rightarrow> fsm_st option" where
  "st_option set_opt st = do {
     let st = st\<lparr>f_status := St_S\<rparr>;
     s \<leftarrow> at_ptr st;
     n \<leftarrow> strlen s;
     if n = 0 then Some st
     else do {
       st \<leftarrow> trim_ptr st;
       s \<leftarrow> at_ptr st;
       word \<leftarrow> getnextword s;
       n \<leftarrow> strlen word;
       if n = 0 then Some st
       else do {
         v \<leftarrow> strtol word;
         upd_head (set_opt (sint v)) st
       }
     }
   }"

definition fsm_DEF :: "fsm_st \<Rightarrow> fsm_st option" where
  "fsm_DEF = st_option (\<lambda>v m. m\<lparr>me_default_os := Some v\<rparr>)"

definition fsm_DLY :: "fsm_st \<Rightarrow> fsm_st option" where
  "fsm_DLY = st_option (\<lambda>v m. m\<lparr>me_delay := Some v\<rparr>)"

definition fsm_IN :: "char list \<Rightarrow> int \<Rightarrow> fsm_st \<Rightarrow> fsm_st option" where
  "fsm_IN buffer buffer_len st = do {
     (line, off) \<leftarrow> getline buffer buffer_len (f_offset st);
     case line of
       None \<Rightarrow> Some (st\<lparr>f_line := None, f_status := (if f_kernel st then St_AQ else St_RQ)\<rparr>)
     | Some line \<Rightarrow> do {
         line \<leftarrow> eatcomments line;
         line \<leftarrow> strtrim line;
         n \<leftarrow> strlen line;
         if n = 0 then Some (st\<lparr>f_offset := off, f_line := None, f_status := St_IN\<rparr>)
         else do {
           word \<leftarrow> getnextword line;
           wl \<leftarrow> strlen word;
           let st = st\<lparr>f_offset := off, f_line := Some line, f_lineptr := Some wl\<rparr>;
           k \<leftarrow> keyword word
             [(''kernel'', Some St_K), (''other'', Some St_O), (''root'', Some St_RT),
              (''initrd'', Some St_RD), (''dtb'', Some St_DTB), (''module'', Some St_M),
              (''title'', None)];
           case k of
             Some (Some s) \<Rightarrow> Some (st\<lparr>f_status := s\<rparr>)
           | Some None \<Rightarrow> put_back st
           | None \<Rightarrow> do { st \<leftarrow> free_line st; Some (st\<lparr>f_status := St_R\<rparr>) }
         }
       }
   }"

text \<open>
  \<open>root\<close>: \<open>tftp\<close>, \<open>cdrom\<close> or \<open>ide <disk>:<partition>\<close>, partitions counted from 1. \<open>dev\<close> is the
  text before the colon; \<open>sep\<close> ends up one past the colon.
\<close>

definition fsm_RT :: "fsm_st \<Rightarrow> fsm_st option" where
  "fsm_RT st = do {
     st \<leftarrow> trim_ptr st;
     s \<leftarrow> at_ptr st;
     word \<leftarrow> getnextword s;
     n \<leftarrow> strlen word;
     if n = 0 then free_line (st\<lparr>f_status := St_R\<rparr>)
     else do {
       st \<leftarrow> advance_ptr word st;
       st \<leftarrow> trim_ptr st;
       k \<leftarrow> keyword word [(''tftp'', TFTP_TYPE), (''cdrom'', CD_TYPE), (''ide'', IDE_TYPE)];
       case k of
         None \<Rightarrow> free_line (st\<lparr>f_status := St_R\<rparr>)
       | Some ty \<Rightarrow>
           if ty \<noteq> IDE_TYPE then do {
             st \<leftarrow> upd_entry (\<lambda>e. e\<lparr>me_device_type := ty\<rparr>) st;
             free_line (st\<lparr>f_status := St_IN\<rparr>)
           } else do {
             s \<leftarrow> at_ptr st;
             sep \<leftarrow> strchr s (CHR '':'');
             case sep of
               None \<Rightarrow> free_line (st\<lparr>f_status := St_R\<rparr>)
             | Some i \<Rightarrow> do {
                 c \<leftarrow> load s (i + 1);
                 if c = NUL then free_line (st\<lparr>f_status := St_R\<rparr>)
                 else do {
                   dev \<leftarrow> strncpy (replicate (i + 1) NUL) 0 s i;
                   dev \<leftarrow> store dev i NUL;
                   num \<leftarrow> strtol dev;
                   part \<leftarrow> strtol (drop (i + 1) s);
                   st \<leftarrow> upd_entry (\<lambda>e. e\<lparr>me_device_type := IDE_TYPE, me_device_num := sint num,
                                      me_partition := sint (part - 1)\<rparr>) st;
                   free_line (st\<lparr>f_status := St_IN\<rparr>)
                 }
               }
           }
     }
   }"

text \<open>\<open>O\<close> leaves \<open>line\<close> allocated when it succeeds.\<close>

definition fsm_O :: "fsm_st \<Rightarrow> fsm_st option" where
  "fsm_O st = do {
     st \<leftarrow> trim_ptr st;
     s \<leftarrow> at_ptr st;
     word \<leftarrow> getnextword s;
     n \<leftarrow> strlen word;
     if n = 0 then free_line (st\<lparr>f_status := St_R\<rparr>)
     else do {
       st \<leftarrow> advance_ptr word st;
       o1 \<leftarrow> dup word;
       upd_entry (\<lambda>e. e\<lparr>me_other := Some o1\<rparr>) (st\<lparr>f_kernel := True, f_status := St_IN\<rparr>)
     }
   }"

definition st_word :: "(string \<Rightarrow> menu_t \<Rightarrow> menu_t) \<Rightarrow> fsm_st \<Rightarrow> fsm_st option" where
  "st_word set_field st = do {
     st \<leftarrow> trim_ptr st;
     s \<leftarrow> at_ptr st;
     word \<leftarrow> getnextword s;
     n \<leftarrow> strlen word;
     st \<leftarrow> (if n = 0 then Some (st\<lparr>f_status := St_R\<rparr>)
            else do {
              w \<leftarrow> dup word;
              upd_entry (set_field w) (st\<lparr>f_status := St_IN\<rparr>)
            });
     free_line st
   }"

definition fsm_RD :: "fsm_st \<Rightarrow> fsm_st option" where
  "fsm_RD = st_word (\<lambda>w e. e\<lparr>me_initrd := Some w\<rparr>)"

definition fsm_DTB :: "fsm_st \<Rightarrow> fsm_st option" where
  "fsm_DTB = st_word (\<lambda>w e. e\<lparr>me_dtb := Some w\<rparr>)"

definition fsm_step :: "char list \<Rightarrow> int \<Rightarrow> fsm_st \<Rightarrow> (fsm_st + fsm_result) option" where
  "fsm_step buffer buffer_len st =
     (case f_status st of
        St_S \<Rightarrow> fsm_S buffer buffer_len st
      | St_DEF \<Rightarrow> map_option Inl (fsm_DEF st)
      | St_DLY \<Rightarrow> map_option Inl (fsm_DLY st)
      | St_TIT \<Rightarrow> map_option Inl (st_TIT st)
      | St_IN \<Rightarrow> map_option Inl (fsm_IN buffer buffer_len st)
      | St_K \<Rightarrow> map_option Inl (st_K st)
      | St_RT \<Rightarrow> map_option Inl (fsm_RT st)
      | St_O \<Rightarrow> map_option Inl (fsm_O st)
      | St_RD \<Rightarrow> map_option Inl (fsm_RD st)
      | St_DTB \<Rightarrow> map_option Inl (fsm_DTB st)
      | St_M \<Rightarrow> map_option Inl (st_M st)
      | St_A \<Rightarrow> map_option Inl (st_A st)
      | St_R \<Rightarrow> map_option Inl (st_R st)
      | St_AQ \<Rightarrow> map_option Inr (st_AQ st)
      | St_RQ \<Rightarrow> map_option Inr (st_RQ st))"

definition fsm_init :: "menu_t list \<Rightarrow> fsm_st" where
  "fsm_init menu =
     \<lparr>f_offset = 0, f_line = None, f_lineptr = None, f_status = St_S, f_n = 0, f_kernel = False,
      f_entry = None, f_menu = menu\<rparr>"

definition fsm :: "char list \<Rightarrow> int \<Rightarrow> menu_t list \<Rightarrow> fsm_result option" where
  "fsm buffer buffer_len menu = loop (fsm_step buffer buffer_len) (fsm_init menu)"

subsection \<open>\<open>kick_fsm\<close>: Kicklayout\<close>

definition kick_S :: "char list \<Rightarrow> int \<Rightarrow> fsm_st \<Rightarrow> (fsm_st + fsm_result) option" where
  "kick_S buffer buffer_len st = do {
     (line, off) \<leftarrow> getline buffer buffer_len (f_offset st);
     case line of
       None \<Rightarrow> Some (Inr (f_n st, f_menu st))
     | Some line \<Rightarrow> do {
         line \<leftarrow> kick_eatcomments line;
         line \<leftarrow> strtrim line;
         n \<leftarrow> strlen line;
         if n = 0 then Some (Inl (st\<lparr>f_offset := off, f_line := None, f_status := St_S\<rparr>))
         else do {
           word \<leftarrow> getnextword line;
           wl \<leftarrow> strlen word;
           k \<leftarrow> keyword word [(''LABEL'', St_TIT)];
           case k of
             None \<Rightarrow> Some (Inl (st\<lparr>f_offset := off, f_line := Some line, f_status := St_S\<rparr>))
           | Some s \<Rightarrow> Some (Inl (st\<lparr>f_offset := off, f_line := Some line, f_lineptr := Some wl,
                                    f_status := s\<rparr>))
         }
       }
   }"

definition kick_IN :: "char list \<Rightarrow> int \<Rightarrow> fsm_st \<Rightarrow> fsm_st option" where
  "kick_IN buffer buffer_len st = do {
     (line, off) \<leftarrow> getline buffer buffer_len (f_offset st);
     case line of
       None \<Rightarrow> Some (st\<lparr>f_line := None, f_status := (if f_kernel st then St_AQ else St_RQ)\<rparr>)
     | Some line \<Rightarrow> do {
         line \<leftarrow> kick_eatcomments line;
         line \<leftarrow> strtrim line;
         n \<leftarrow> strlen line;
         if n = 0 then Some (st\<lparr>f_offset := off, f_line := None, f_status := St_IN\<rparr>)
         else do {
           word \<leftarrow> getnextword line;
           wl \<leftarrow> strlen word;
           let st = st\<lparr>f_offset := off, f_line := Some line, f_lineptr := Some wl\<rparr>;
           k \<leftarrow> keyword word [(''EXEC'', Some St_K), (''MODULE'', Some St_M), (''LABEL'', None)];
           case k of
             Some (Some s) \<Rightarrow> Some (st\<lparr>f_status := s\<rparr>)
           | Some None \<Rightarrow> put_back st
           | None \<Rightarrow> do { st \<leftarrow> free_line st; Some (st\<lparr>f_status := St_R\<rparr>) }
         }
       }
   }"

text \<open>States without a \<open>case\<close> of their own fall to \<open>default\<close>, which is the case of \<open>RQ\<close>.\<close>

definition kick_step :: "char list \<Rightarrow> int \<Rightarrow> fsm_st \<Rightarrow> (fsm_st + fsm_result) option" where
  "kick_step buffer buffer_len st =
     (case f_status st of
        St_S \<Rightarrow> kick_S buffer buffer_len st
      | St_TIT \<Rightarrow> map_option Inl (st_TIT st)
      | St_IN \<Rightarrow> map_option Inl (kick_IN buffer buffer_len st)
      | St_K \<Rightarrow> map_option Inl (st_K st)
      | St_M \<Rightarrow> map_option Inl (st_M st)
      | St_A \<Rightarrow> map_option Inl (st_A st)
      | St_R \<Rightarrow> map_option Inl (st_R st)
      | St_AQ \<Rightarrow> map_option Inr (st_AQ st)
      | _ \<Rightarrow> map_option Inr (st_RQ st))"

definition kick_fsm :: "char list \<Rightarrow> int \<Rightarrow> menu_t list \<Rightarrow> fsm_result option" where
  "kick_fsm buffer buffer_len menu = loop (kick_step buffer buffer_len) (fsm_init menu)"

end
