(* ===== verification/Menu_Load.thy ===== *)
theory Menu_Load
  imports Boot_Device Menu_Fsm
begin

text \<open>
  Loading the menu: \<open>dev_load\<close>, \<open>magic_load\<close> and \<open>menu_load\<close> of \<open>src/src/menu.c\<close>. The menu is the list
  of its nodes, whose first element is the head with the options; \<open>table\<close> is the partition table.
\<close>

definition dev_load ::
    "'w context_t \<Rightarrow> menu_t list \<Rightarrow> 'w boot_dev_t \<Rightarrow> 'w
     \<Rightarrow> ((int \<times> menu_t list) \<times> 'w boot_dev_t \<times> 'w) option" where
  "dev_load ctx self dev w = do {
     let (buffer, w) = malloc ctx (16 * 0x1000) w;
     ((buffer_length, buffer), dev, w) \<leftarrow> dev_load_file ctx dev ''menu.lst'' buffer w;
     if buffer_length > 0 then do {
       r \<leftarrow> fsm (chars buffer) buffer_length self; Some (r, dev, w)
     } else do {
       ((buffer_length, buffer), dev, w) \<leftarrow> dev_load_file ctx dev ''boot/menu.lst'' buffer w;
       if buffer_length > 0 then do {
         r \<leftarrow> fsm (chars buffer) buffer_length self; Some (r, dev, w)
       } else do {
         ((buffer_length, buffer), dev, w) \<leftarrow> dev_load_file ctx dev ''Kickstart/Kicklayout'' buffer w;
         if buffer_length > 0 then do {
           r \<leftarrow> kick_fsm (chars buffer) buffer_length self; Some (r, dev, w)
         } else Some ((0, self), dev, w)
       }
     }
   }"

text \<open>Every entry without a device so far belongs to partition \<open>i\<close>; the head is no exception.\<close>

definition set_partition :: "nat \<Rightarrow> menu_t \<Rightarrow> menu_t" where
  "set_partition i ptr =
     (if me_device_type ptr \<noteq> 0 then ptr
      else ptr\<lparr>me_device_type := IDE_TYPE, me_device_num := 0, me_partition := int i\<rparr>)"

fun magic_loop ::
    "'w context_t \<Rightarrow> 'w rdb_table \<Rightarrow> nat list \<Rightarrow> int \<Rightarrow> menu_t list \<Rightarrow> 'w
     \<Rightarrow> ((int \<times> menu_t list) \<times> 'w) option" where
  "magic_loop ctx table [] n self w = Some ((n, self), w)"
| "magic_loop ctx table (i # is) n self w =
     (case RdbPartitionTable_get table 0 (of_nat i) of
        None \<Rightarrow> Some ((n, self), w)
      | Some partition' \<Rightarrow> do {
          (dev, w) \<leftarrow> partition_dev ctx partition' w;
          case dev of
            None \<Rightarrow> magic_loop ctx table is n self w
          | Some dev \<Rightarrow> do {
              ((m, self), dev, w) \<leftarrow> dev_load ctx self dev w;
              magic_loop ctx table is (n + m) (map (set_partition i) self) w
            }
        })"

definition magic_load ::
    "'w context_t \<Rightarrow> 'w rdb_table \<Rightarrow> menu_t list \<Rightarrow> 'w \<Rightarrow> ((int \<times> menu_t list) \<times> 'w) option" where
  "magic_load ctx table self w = magic_loop ctx table [0..<RDB_LOCATION_LIMIT] 0 self w"

text \<open>The head \<open>menu_load\<close> allocates.\<close>

definition menu_head :: menu_t where
  "menu_head = entry_alloc\<lparr>me_default_os := Some 0, me_delay := Some 5\<rparr>"

definition menu_load ::
    "'w context_t \<Rightarrow> 'w rdb_table \<Rightarrow> 'w boot_dev_t option \<Rightarrow> 'w
     \<Rightarrow> (menu_t list option \<times> 'w boot_dev_t option \<times> 'w) option" where
  "menu_load ctx table boot w = do {
     let self = [menu_head];
     ((n, self), boot, w) \<leftarrow> (case boot of
         Some boot \<Rightarrow> do { (r, boot, w) \<leftarrow> dev_load ctx self boot w; Some (r, Some boot, w) }
       | None \<Rightarrow> do { (r, w) \<leftarrow> magic_load ctx table self w; Some (r, None, w) });
     Some (if n = 0 then None else Some self, boot, w)
   }"

subsection \<open>Where an entry boots from\<close>

lemma set_partition_type: "me_device_type (set_partition i e) \<noteq> DEFAULT_TYPE"
  by (simp add: set_partition_def)

lemma magic_loop_types:
  assumes "magic_loop ctx table is n self w = Some ((n', self'), w')"
  shows "n' = n \<and> self' = self \<or> (\<forall>e \<in> set self'. me_device_type e \<noteq> DEFAULT_TYPE)"
  using assms
proof (induction "is" arbitrary: n self w)
  case (Cons i "is")
  show ?case
  proof (cases "RdbPartitionTable_get table 0 (of_nat i)")
    case (Some partition')
    with Cons.prems obtain dev w1 where d: "partition_dev ctx partition' w = Some (dev, w1)"
      by (cases "partition_dev ctx partition' w") auto
    show ?thesis
    proof (cases dev)
      case None
      with Some d Cons.prems show ?thesis by (intro Cons.IH [of n self w1]) simp
    next
      case dev: (Some dv)
      with Some d Cons.prems obtain m s1 dv' w2 where l: "dev_load ctx self dv w1 = Some ((m, s1), dv', w2)"
        by (cases "dev_load ctx self dv w1") auto
      with Some d dev Cons.prems
      have "magic_loop ctx table is (n + m) (map (set_partition i) s1) w2 = Some ((n', self'), w')" by simp
      from Cons.IH [OF this] show ?thesis by (auto simp: set_partition_type)
    qed
  qed (use Cons.prems in simp)
qed simp

text \<open>The bytes of a text.\<close>

definition bytes_of :: "char list \<Rightarrow> byte list" where
  "bytes_of = map (\<lambda>c. of_nat (of_char c))"

lemma chars_bytes_of [simp]: "chars (bytes_of s) = s"
proof -
  have "(of_char c :: nat) mod 256 = of_char c" for c by simp
  then have "char_of (unat (of_nat (of_char c) :: byte)) = c" for c
    by (simp add: unat_of_nat take_bit_eq_mod)
  then show ?thesis by (simp add: chars_def bytes_of_def comp_def)
qed

end
