(* ===== verification/Menu_Display.thy ===== *)
theory Menu_Display
  imports Context Menu_Entry
begin

text \<open>
  The menu on the screen and on the serial line: \<open>display\<close>, \<open>menu_display_serial\<close> and \<open>menu_display\<close>
  of \<open>src/src/menu.c\<close>. The statics \<open>first\<close> and \<open>last\<close> of \<open>display\<close> are threaded; the result NULL is
  \<open>None\<close> below the fault monad. \<open>buff[100]\<close> takes a blank, the title and a terminator. Messages printed
  on the serial line are left out, but not the variable \<open>old_delay\<close> that says when one is due. A delay is whatever
  number the menu file has: that it overflows when it is counted in hundredths of a second, or below the least
  \<open>int\<close> when it is counted down from a negative one, is no defined result.
\<close>

subsection \<open>The screen\<close>

fun draw_entries ::
    "'w context_t \<Rightarrow> int \<Rightarrow> int \<Rightarrow> menu_t list \<Rightarrow> nat \<Rightarrow> menu_t option \<Rightarrow> 'w
     \<Rightarrow> (nat \<times> menu_t option \<times> 'w) option" where
  "draw_entries ctx first selected [] i sentry w = Some (i, sentry, w)"
| "draw_entries ctx first selected (entry # es) i sentry w =
     (if i < 11 then do {
        title \<leftarrow> me_title entry;
        guard (length title + 2 \<le> 100);
        let hit = (int i + first = selected);
        let w = video_draw_text ctx 6 (8 + int i) (if hit then 2 else 0) (CHR '' '' # title) 68 w;
        draw_entries ctx first selected es (i + 1) (if hit then Some entry else sentry) w
      } else Some (i, sentry, w))"

type_synonym window = "int \<times> int"

definition display ::
    "'w context_t \<Rightarrow> menu_t list \<Rightarrow> int \<Rightarrow> window \<Rightarrow> 'w \<Rightarrow> (menu_t option \<times> window \<times> 'w) option" where
  "display ctx self selected = (\<lambda>(first, last') w. do {
     let w = video_draw_box ctx 1 0 ''Select boot option.'' 1 5 5 70 15 w;
     let first = (if selected < first then first - 1 else first);
     let first = (if selected > last' then first + 1 else first);
     guard (first < 0 \<or> nat first < length self);
     (i, sentry, w) \<leftarrow> draw_entries ctx first selected (drop (nat first + 1) self) 0 None w;
     Some (sentry, (first, first + int i - 1), w)
   })"

text \<open>What drawing an entry and the box keep, \<open>display\<close> keeps.\<close>

lemma display_wait:
  assumes "display ctx self selected win w = Some (entry, win', w')"
    and "\<And>x y a t f w. P (video_draw_text ctx x y a t f w) = P w"
    and "\<And>s a t p x y wd h w. P (video_draw_box ctx s a t p x y wd h w) = P w"
  shows "P w' = P w"
proof -
  have "P w' = P w" if "draw_entries ctx first selected es i sentry w = Some (i', sentry', w')"
    for first es i sentry w i' sentry' w'
    using that
  proof (induction es arbitrary: i sentry w)
    case (Cons e es)
    then show ?case
      by (auto simp: bind_eq_Some_conv Let_def assms(2) split: if_splits)
  qed simp
  with assms(1,3) show ?thesis by (auto simp: display_def bind_eq_Some_conv Let_def split: prod.splits)
qed

text \<open>The number of the last entry, counted from -2 over the head and the entries.\<close>

definition max_entry :: "menu_t list \<Rightarrow> int" where
  "max_entry self = int (length self) - 2"

definition default_entry :: "menu_t list \<Rightarrow> int option" where
  "default_entry self = do {
     d \<leftarrow> me_default_os (hd self);
     Some (if d \<le> max_entry self then d else max_entry self)
   }"

text \<open>
  The count-down: the exit value is the delay left when a key is pressed or none is left. The screen
  version also prints the seconds when they change.
\<close>

definition countdown_step ::
    "'w context_t \<Rightarrow> int \<times> int \<times> 'w \<Rightarrow> (int \<times> int \<times> 'w + int \<times> 'w) option" where
  "countdown_step ctx = (\<lambda>(delay, old_delay, w).
     if delay = 0 then Some (Inr (0, w))
     else let changed = (old_delay \<noteq> delay div 100);
              w = (if changed then video_draw_text ctx 54 6 0 (''('' @ print_d (delay div 100) @ '' seconds left)'') 20 w else w);
              old_delay = (if changed then delay div 100 else old_delay)
          in case tstc ctx w of (k, w) \<Rightarrow>
            if k \<noteq> 0 then Some (Inr (delay, w))
            else Some (Inl (delay - 1, old_delay, udelay ctx 10000 w)))"

text \<open>The keys: 4 is up, 3 down, 117 leaves, 1 and 6 choose.\<close>

definition key_step ::
    "'w context_t \<Rightarrow> menu_t list \<Rightarrow> int \<times> window \<times> 'w
     \<Rightarrow> (int \<times> window \<times> 'w + menu_t option \<times> 'w) option" where
  "key_step ctx self = (\<lambda>(selected, win, w). do {
     (entry, win, w) \<leftarrow> display ctx self selected win w;
     (case video_get_key ctx w of (key, w) \<Rightarrow>
        let selected = (if key = 4 \<and> selected > 0 then selected - 1 else selected);
            selected = (if key = 3 \<and> selected < max_entry self then selected + 1 else selected)
        in if key = 117 then Some (Inr (None, w))
           else if key = 1 \<or> key = 6 then Some (Inr (entry, w))
           else Some (Inl (selected, win, w)))
   })"

definition menu_display_video ::
    "'w context_t \<Rightarrow> menu_t list \<Rightarrow> 'w \<Rightarrow> (menu_t option \<times> 'w) option" where
  "menu_display_video ctx self w = do {
     selected \<leftarrow> default_entry self;
     d \<leftarrow> me_delay (hd self);
     guard (- (2 ^ 31) \<le> d * 100 \<and> d * 100 < 2 ^ 31);
     let delay = d * 100;
     let win = (0, 10);
     if delay \<le> 0 then loop (key_step ctx self) (selected, win, w)
     else do {
       (entry, win, w) \<leftarrow> display ctx self selected win w;
       (delay, w) \<leftarrow> loop (countdown_step ctx) (delay, 0, w);
       if delay = 0 then Some (entry, w) else loop (key_step ctx self) (selected, win, w)
     }
   }"

subsection \<open>The serial line\<close>

definition serial_wait_step ::
    "'w context_t \<Rightarrow> int \<times> int \<times> 'w \<Rightarrow> (int \<times> int \<times> 'w + int \<times> 'w) option" where
  "serial_wait_step ctx = (\<lambda>(delay, old_delay, w).
     if delay = 0 then Some (Inr (0, w))
     else do {
       guard (- (2 ^ 31) \<le> old_delay - 100);
       let old_delay = (if delay < old_delay - 100 then delay else old_delay);
       (case tstc ctx w of (k, w) \<Rightarrow>
          if k \<noteq> 0 then Some (Inr (delay, w))
          else do {
            let w = udelay ctx 10000 w;
            guard (- (2 ^ 31) \<le> delay - 1);
            Some (Inl (delay - 1, old_delay, w))
          })
     })"

text \<open>\<open>k\<close> is a \<open>char\<close>: it wraps after 255.\<close>

fun entry_by_letter :: "byte \<Rightarrow> int \<Rightarrow> menu_t list \<Rightarrow> menu_t option" where
  "entry_by_letter k selected [] = None"
| "entry_by_letter k selected (entry # es) =
     (if uint k = selected then Some entry else entry_by_letter (k + 1) selected es)"

fun entry_by_number :: "int \<Rightarrow> int \<Rightarrow> menu_t list \<Rightarrow> menu_t option" where
  "entry_by_number i selected [] = None"
| "entry_by_number i selected (entry # es) =
     (if i = selected then Some entry else entry_by_number (i + 1) selected es)"

definition menu_display_serial ::
    "'w context_t \<Rightarrow> menu_t list \<Rightarrow> 'w \<Rightarrow> (menu_t option \<times> 'w) option" where
  "menu_display_serial ctx self w = do {
     selected \<leftarrow> default_entry self;
     d \<leftarrow> me_delay (hd self);
     guard (- (2 ^ 31) \<le> d * 100 \<and> d * 100 < 2 ^ 31);
     (delay, w) \<leftarrow> loop (serial_wait_step ctx) (d * 100, d * 100, w);
     if delay = 0 then Some (entry_by_number 0 selected (tl self), w)
     else case getc ctx w of (selected, w) \<Rightarrow>
       if selected = 122 then Some (None, w)
       else Some (entry_by_letter 97 selected (tl self), w)
   }"

definition menu_display ::
    "'w context_t \<Rightarrow> menu_t list \<Rightarrow> 'w \<Rightarrow> (menu_t option \<times> 'w) option" where
  "menu_display ctx self w = do {
     stdout \<leftarrow> getenv ctx ''stdout'' w;
     d \<leftarrow> strcmp (stdout @ [NUL]) (lit ''vga'');
     if d \<noteq> 0 then menu_display_serial ctx self w else menu_display_video ctx self w
   }"

subsection \<open>What the window shows\<close>

text \<open>Entries that can be drawn, and a screen whose drawing calls keep the keys that are still to come.\<close>

definition drawable :: "menu_t \<Rightarrow> bool" where
  "drawable e \<longleftrightarrow> (\<exists>t. me_title e = Some t \<and> length t \<le> 98)"

definition keyboard :: "'w context_t \<Rightarrow> ('w \<Rightarrow> int list) \<Rightarrow> bool" where
  "keyboard ctx keys \<longleftrightarrow>
     (\<forall>w k ks. keys w = k # ks \<longrightarrow> (\<exists>w'. video_get_key ctx w = (k, w') \<and> keys w' = ks))
     \<and> (\<forall>x y a t f w. keys (video_draw_text ctx x y a t f w) = keys w)
     \<and> (\<forall>s a t p x y wd h w. keys (video_draw_box ctx s a t p x y wd h w) = keys w)"

lemma draw_entries_ok:
  assumes "\<forall>e \<in> set es. drawable e" and "i \<le> 11" and "keyboard ctx keys"
  shows "\<exists>w'. draw_entries ctx first selected es i sentry w
      = Some (min 11 (i + length es),
          if int i + first \<le> selected \<and> selected < first + int (min 11 (i + length es))
          then Some (es ! (nat (selected - first) - i)) else sentry, w')
    \<and> keys w' = keys w"
  using assms(1,2)
proof (induction es arbitrary: i sentry w)
  case (Cons e es)
  show ?case
  proof (cases "i < 11")
    case True
    from Cons.prems(1) obtain t where t: "me_title e = Some t" "length t \<le> 98" by (auto simp: drawable_def)
    let ?hit = "int i + first = selected"
    let ?w = "video_draw_text ctx 6 (8 + int i) (if ?hit then 2 else 0) (CHR '' '' # t) 68 w"
    have k: "keys ?w = keys w" using assms(3) by (simp add: keyboard_def)
    have d: "draw_entries ctx first selected (e # es) i sentry w
        = draw_entries ctx first selected es (i + 1) (if ?hit then Some e else sentry) ?w"
      using True t by (simp add: Let_def)
    from Cons.IH [of "i + 1" "if ?hit then Some e else sentry" ?w] Cons.prems True obtain w' where
      "draw_entries ctx first selected es (i + 1) (if ?hit then Some e else sentry) ?w
        = Some (min 11 (i + 1 + length es),
            if int (i + 1) + first \<le> selected \<and> selected < first + int (min 11 (i + 1 + length es))
            then Some (es ! (nat (selected - first) - (i + 1))) else (if ?hit then Some e else sentry), w')"
      "keys w' = keys w" by (auto simp: k simp del: draw_entries.simps)
    moreover have "(e # es) ! (nat (selected - first) - i) = es ! (nat (selected - first) - (i + 1))"
      if "int (i + 1) + first \<le> selected"
    proof -
      have "nat (selected - first) - i = Suc (nat (selected - first) - (i + 1))" using that by linarith
      then show ?thesis by simp
    qed
    moreover have "(e # es) ! (nat (selected - first) - i) = e" if ?hit
      using that by auto
    moreover have "i \<le> min 10 (i + length es)" using True by simp
    ultimately show ?thesis unfolding d by (intro exI [of _ w']) auto
  qed (use Cons.prems in auto)
qed auto

text \<open>
  A window that is at most one line away from the selected entry is moved over it: \<open>display\<close> then
  returns the selected entry.
\<close>

definition near :: "nat \<Rightarrow> int \<Rightarrow> window \<Rightarrow> bool" where
  "near n selected = (\<lambda>(first, last').
     0 \<le> selected \<and> selected < int n \<and> 0 \<le> first \<and> first < int n \<and> first - 1 \<le> selected
     \<and> selected \<le> last' + 1 \<and> last' \<le> first + 10
     \<and> (last' < selected \<longrightarrow> last' = first + 10))"

definition shows_entry :: "nat \<Rightarrow> int \<Rightarrow> window \<Rightarrow> bool" where
  "shows_entry n selected = (\<lambda>(first, last').
     0 \<le> first \<and> first \<le> selected \<and> selected \<le> last' \<and> last' = min (first + 10) (int n - 1))"

lemma display_near:
  assumes "\<forall>e \<in> set es. drawable e" and "near (length es) selected win" and "keyboard ctx keys"
  shows "\<exists>win' w'. display ctx (h # es) selected win w = Some (Some (es ! nat selected), win', w')
    \<and> shows_entry (length es) selected win' \<and> keys w' = keys w"
proof -
  obtain f l where win: "win = (f, l)" by force
  let ?f = "if selected > l then (if selected < f then f - 1 else f) + 1 else if selected < f then f - 1 else f"
  let ?w = "video_draw_box ctx 1 0 ''Select boot option.'' 1 5 5 70 15 w"
  have f: "0 \<le> ?f" "?f \<le> selected" "selected \<le> ?f + 10" "selected < int (length es)"
    using assms(2) by (auto simp: near_def win)
  have len: "length (drop (nat ?f) es) = length es - nat ?f" by simp
  have "\<forall>e \<in> set (drop (nat ?f) es). drawable e" using assms(1) by (auto dest: in_set_dropD)
  from draw_entries_ok [OF this _ assms(3), of 0 ?f selected None ?w] obtain w' where
    d: "draw_entries ctx ?f selected (drop (nat ?f) es) 0 None ?w
      = Some (min 11 (length es - nat ?f),
          if ?f \<le> selected \<and> selected < ?f + int (min 11 (length es - nat ?f))
          then Some (drop (nat ?f) es ! nat (selected - ?f)) else None, w')"
    and k: "keys w' = keys ?w" by auto
  have m: "?f + int (min 11 (length es - nat ?f)) = min (?f + 11) (int (length es))" using f by auto
  have hit: "?f \<le> selected \<and> selected < ?f + int (min 11 (length es - nat ?f))"
    unfolding m using f by auto
  have "drop (nat ?f) es ! nat (selected - ?f) = es ! nat selected"
    using f by (subst nth_drop) (auto simp: nat_diff_distrib)
  with d hit have d: "draw_entries ctx ?f selected (drop (nat ?f) es) 0 None ?w
      = Some (min 11 (length es - nat ?f), Some (es ! nat selected), w')" by simp
  have "nat ?f < length (h # es)" using f by auto
  then have "display ctx (h # es) selected win w
      = Some (Some (es ! nat selected), (?f, ?f + int (min 11 (length es - nat ?f)) - 1), w')"
    using d by (simp add: display_def win Let_def)
  moreover have "shows_entry (length es) selected (?f, ?f + int (min 11 (length es - nat ?f)) - 1)"
    unfolding shows_entry_def m using f by auto
  ultimately show ?thesis using k assms(3) by (auto simp: keyboard_def)
qed

text \<open>The choice the keys make, from entry \<open>s\<close> of the entries 0 to \<open>m\<close> on.\<close>

definition move_key :: "int \<Rightarrow> int \<Rightarrow> int \<Rightarrow> int" where
  "move_key m s k = (if k = 4 \<and> s > 0 then s - 1 else if k = 3 \<and> s < m then s + 1 else s)"

fun pick :: "int \<Rightarrow> int \<Rightarrow> int list \<Rightarrow> int option option" where
  "pick m s [] = None"
| "pick m s (k # ks) =
     (if k = 117 then Some None else if k = 1 \<or> k = 6 then Some (Some s) else pick m (move_key m s k) ks)"

lemma key_step_keys:
  assumes "display ctx self s win w = Some (entry, win', w1)" and "video_get_key ctx w1 = (k, w2)"
  shows "key_step ctx self (s, win, w)
    = Some (if k = 117 then Inr (None, w2) else if k = 1 \<or> k = 6 then Inr (entry, w2)
        else Inl (move_key (max_entry self) s k, win', w2))"
  using assms by (simp add: key_step_def move_key_def Let_def)

lemma keys_pick:
  assumes "\<forall>e \<in> set es. drawable e" and "keyboard ctx keys"
    and "near (length es) s win" and "keys w = ks" and "pick (int (length es) - 1) s ks = Some r"
  shows "\<exists>w'. loop (key_step ctx (h # es)) (s, win, w) = Some (map_option (\<lambda>i. es ! nat i) r, w')"
  using assms(3-)
proof (induction ks arbitrary: s win w)
  case (Cons k ks)
  from display_near [OF assms(1) Cons.prems(1) assms(2), of h w] obtain win' w1 where
    d: "display ctx (h # es) s win w = Some (Some (es ! nat s), win', w1)"
    and sh: "shows_entry (length es) s win'" and k1: "keys w1 = k # ks" using Cons.prems(2) by auto
  from k1 assms(2) obtain w2 where v: "video_get_key ctx w1 = (k, w2)" "keys w2 = ks"
    unfolding keyboard_def by blast
  note step = key_step_keys [OF d v(1)]
  consider "k = 117" | "k \<noteq> 117" "k = 1 \<or> k = 6" | "k \<noteq> 117" "\<not> (k = 1 \<or> k = 6)" by blast
  then show ?case
  proof cases
    case 3
    let ?s = "move_key (max_entry (h # es)) s k"
    have m: "max_entry (h # es) = int (length es) - 1" by (simp add: max_entry_def)
    have "near (length es) ?s win'"
      using sh Cons.prems(1) unfolding m by (auto simp: near_def shows_entry_def move_key_def split: if_splits)
    moreover have "pick (int (length es) - 1) ?s ks = Some r" using Cons.prems(3) 3 m by auto
    ultimately obtain w' where
      "loop (key_step ctx (h # es)) (?s, win', w2) = Some (map_option (\<lambda>i. es ! nat i) r, w')"
      using Cons.IH v(2) by blast
    moreover have "loop (key_step ctx (h # es)) (s, win, w) = loop (key_step ctx (h # es)) (?s, win', w2)"
      using step 3 by (intro loop_continue) simp
    ultimately show ?thesis by simp
  qed (use step Cons.prems(3) in \<open>auto simp: loop_exit\<close>)
qed simp

subsection \<open>The default entry\<close>

lemma countdown_quiet:
  assumes "\<forall>w. fst (tstc ctx w) = 0" and "0 \<le> d"
  shows "\<exists>w'. loop (countdown_step ctx) (d, o', w) = Some (0, w')"
proof -
  have quiet: "k = 0" if "tstc ctx w = (k, w')" for k w w' using assms(1) that by (metis fst_conv)
  have "\<exists>r. loop (countdown_step ctx) (d, o', w) = Some r \<and> fst r = 0"
  proof (rule loop_total [where I = "\<lambda>(d, _). 0 \<le> d" and m = "\<lambda>(d, _). nat d"])
    show "case (d, o', w) of (d, _) \<Rightarrow> 0 \<le> d" using assms(2) by simp
  qed (auto simp: countdown_step_def Let_def split: prod.splits if_splits dest: quiet)
  then show ?thesis by auto
qed

lemma serial_wait_quiet:
  assumes "\<forall>w. fst (tstc ctx w) = 0" and "0 \<le> d" and "0 \<le> o'"
  shows "\<exists>w'. loop (serial_wait_step ctx) (d, o', w) = Some (0, w')"
proof -
  have quiet: "k = 0" if "tstc ctx w = (k, w')" for k w w' using assms(1) that by (metis fst_conv)
  have "\<exists>r. loop (serial_wait_step ctx) (d, o', w) = Some r \<and> fst r = 0"
  proof (rule loop_total [where I = "\<lambda>(d, p, _). 0 \<le> d \<and> 0 \<le> p" and m = "\<lambda>(d, _). nat d"])
    show "case (d, o', w) of (d, p, _) \<Rightarrow> 0 \<le> d \<and> 0 \<le> p" using assms(2,3) by simp
  qed (auto simp: serial_wait_step_def guard_def Let_def split: prod.splits if_splits dest: quiet)
  then show ?thesis by auto
qed

lemma entry_by_number_eq:
  "entry_by_number i s es = (if i \<le> s \<and> s < i + int (length es) then Some (es ! nat (s - i)) else None)"
proof (induction es arbitrary: i)
  case (Cons e es)
  have "nat (s - i) = Suc (nat (s - (i + 1)))" if "i + 1 \<le> s" using that by linarith
  with Cons show ?case by auto
qed simp

lemma entry_by_letter_eq:
  assumes "uint k + int (length es) \<le> 256"
  shows "entry_by_letter k c es
    = (if uint k \<le> c \<and> c < uint k + int (length es) then Some (es ! nat (c - uint k)) else None)"
  using assms
proof (induction es arbitrary: k)
  case (Cons e es)
  show ?case
  proof (cases "es = []")
    case False
    then have "uint k + 1 < 256" using Cons.prems by (cases es) auto
    then have k: "uint (k + 1) = uint k + 1" by (simp add: uint_word_ariths)
    have "nat (c - uint k) = Suc (nat (c - uint (k + 1)))" if "uint k + 1 \<le> c" using that k by linarith
    moreover have "entry_by_letter (k + 1) c es
      = (if uint (k + 1) \<le> c \<and> c < uint (k + 1) + int (length es) then Some (es ! nat (c - uint (k + 1))) else None)"
      using Cons.prems k by (intro Cons.IH) simp
    ultimately show ?thesis using k by auto
  qed auto
qed simp

lemma default_entry_eq:
  "me_default_os h = Some d \<Longrightarrow> default_entry (h # es) = Some (min d (int (length es) - 1))"
  by (simp add: default_entry_def max_entry_def min_def)

subsection \<open>The two menus\<close>

text \<open>
  A user who presses the first key after \<open>wait w\<close> polls of the count-down: a poll that finds no key brings the
  key closer, and neither a poll nor the drawing takes a key.
\<close>

definition key_arrives :: "'w context_t \<Rightarrow> ('w \<Rightarrow> int list) \<Rightarrow> ('w \<Rightarrow> nat) \<Rightarrow> bool" where
  "key_arrives ctx keys wait \<longleftrightarrow>
     (\<forall>w k w'. tstc ctx w = (k, w') \<longrightarrow> keys w' = keys w
        \<and> (k \<noteq> 0 \<or> keys (udelay ctx 10000 w') = keys w \<and> wait (udelay ctx 10000 w') < wait w))
     \<and> (\<forall>x y a t f w. wait (video_draw_text ctx x y a t f w) = wait w)
     \<and> (\<forall>s a t p x y wd h w. wait (video_draw_box ctx s a t p x y wd h w) = wait w)"

lemma countdown_key:
  assumes kb: "keyboard ctx keys" and ka: "key_arrives ctx keys wait"
  shows "wait w < n \<Longrightarrow> \<exists>r w'. loop (countdown_step ctx) (int n, o', w) = Some (r, w') \<and> r \<noteq> 0 \<and> keys w' = keys w"
proof (induction n arbitrary: o' w)
  case (Suc n)
  define w1 where "w1 = (if o' \<noteq> int (Suc n) div 100
    then video_draw_text ctx 54 6 0 (''('' @ print_d (int (Suc n) div 100) @ '' seconds left)'') 20 w else w)"
  define o1 where "o1 = (if o' \<noteq> int (Suc n) div 100 then int (Suc n) div 100 else o')"
  have w1: "keys w1 = keys w" "wait w1 = wait w"
    using kb ka by (simp_all add: w1_def keyboard_def key_arrives_def)
  obtain k w2 where t: "tstc ctx w1 = (k, w2)" by force
  with ka w1 have key: "keys w2 = keys w"
    "k \<noteq> 0 \<or> keys (udelay ctx 10000 w2) = keys w \<and> wait (udelay ctx 10000 w2) < wait w"
    unfolding key_arrives_def by metis+
  have step: "countdown_step ctx (int (Suc n), o', w)
      = Some (if k \<noteq> 0 then Inr (int (Suc n), w2) else Inl (int n, o1, udelay ctx 10000 w2))"
  proof -
    have n: "int (Suc n) \<noteq> 0" "int (Suc n) - 1 = int n" by simp_all
    show ?thesis
      unfolding countdown_step_def prod.case Let_def if_not_P [OF n(1)] w1_def [symmetric] o1_def [symmetric] t n(2) by simp
  qed
  show ?case
  proof (cases "k = 0")
    case False
    with step have "loop (countdown_step ctx) (int (Suc n), o', w) = Some (int (Suc n), w2)" by (intro loop_exit) simp
    with key show ?thesis by auto
  next
    case True
    with key Suc.prems have "wait (udelay ctx 10000 w2) < n" by simp
    from Suc.IH [OF this, of o1] obtain r w' where
      "loop (countdown_step ctx) (int n, o1, udelay ctx 10000 w2) = Some (r, w')" "r \<noteq> 0" "keys w' = keys w"
      using key True by auto
    moreover have "loop (countdown_step ctx) (int (Suc n), o', w) = loop (countdown_step ctx) (int n, o1, udelay ctx 10000 w2)"
      using step True by (intro loop_continue) simp
    ultimately show ?thesis by metis
  qed
qed simp

lemma video_keys:
  assumes draw: "\<forall>e \<in> set es. drawable e" and ne: "es \<noteq> []" and kb: "keyboard ctx keys"
    and d: "me_default_os h = Some d" "0 \<le> d" "d \<le> 11"
    and t: "me_delay h = Some t" "- 21474836 \<le> t" "t \<le> 21474836"
    and key: "t \<le> 0 \<or> key_arrives ctx keys wait \<and> int (wait w) < 100 * t"
    and p: "pick (int (length es) - 1) (min d (int (length es) - 1)) (keys w) = Some r"
  shows "\<exists>w'. menu_display_video ctx (h # es) w = Some (map_option (\<lambda>i. es ! nat i) r, w')"
proof -
  let ?s = "min d (int (length es) - 1)"
  have n: "0 < length es" using ne by simp
  have near: "near (length es) ?s (0, 10)" using n d(2,3) by (auto simp: near_def)
  have m: "menu_display_video ctx (h # es) w = (if t \<le> 0 then loop (key_step ctx (h # es)) (?s, (0, 10), w)
    else do {
      (entry, win, w) \<leftarrow> display ctx (h # es) ?s (0, 10) w;
      (delay, w) \<leftarrow> loop (countdown_step ctx) (t * 100, 0, w);
      if delay = 0 then Some (entry, w) else loop (key_step ctx (h # es)) (?s, win, w)
    })"
    using t by (simp add: menu_display_video_def default_entry_eq [OF d(1)] guard_def)
  show ?thesis
  proof (cases "t \<le> 0")
    case True
    with keys_pick [OF draw kb near refl p] show ?thesis by (simp add: m)
  next
    case False
    with key have ka: "key_arrives ctx keys wait" "wait w < nat (t * 100)" by auto
    from display_near [OF draw near kb, of h w] obtain win w1 where
      disp: "display ctx (h # es) ?s (0, 10) w = Some (Some (es ! nat ?s), win, w1)"
      and sh: "shows_entry (length es) ?s win" and k1: "keys w1 = keys w" by blast
    have "wait w1 = wait w" using display_wait [OF disp] ka(1) by (auto simp: key_arrives_def)
    with countdown_key [OF kb ka(1), of w1 "nat (t * 100)" 0] ka(2) False k1 obtain r' w2 where
      c: "loop (countdown_step ctx) (t * 100, 0, w1) = Some (r', w2)" "r' \<noteq> 0" "keys w2 = keys w" by auto
    have "near (length es) ?s win" using sh n d(2) by (auto simp: near_def shows_entry_def split: prod.splits)
    from keys_pick [OF draw kb this c(3) p] False disp c(1,2) show ?thesis by (simp add: m)
  qed
qed

lemma video_timeout:
  assumes draw: "\<forall>e \<in> set es. drawable e" and ne: "es \<noteq> []" and quiet: "\<forall>w. fst (tstc ctx w) = 0"
    and d: "me_default_os h = Some d" "0 \<le> d" and t: "me_delay h = Some t" "0 < t" "t \<le> 21474836"
  shows "\<exists>w'. menu_display_video ctx (h # es) w
    = Some (if min d (int (length es) - 1) \<le> 11 then Some (es ! nat (min d (int (length es) - 1))) else None, w')"
proof -
  let ?s = "min d (int (length es) - 1)"
  have n: "0 < length es" using ne by simp
  have kb: "keyboard ctx (\<lambda>_. [])" by (simp add: keyboard_def)
  have "\<exists>win w1. display ctx (h # es) ?s (0, 10) w
      = Some (if ?s \<le> 11 then Some (es ! nat ?s) else None, win, w1)"
  proof (cases "?s \<le> 11")
    case True
    then have "near (length es) ?s (0, 10)" using n d(2) by (auto simp: near_def)
    from display_near [OF draw this kb, of h w] obtain win w1 where
      "display ctx (h # es) ?s (0, 10) w = Some (Some (es ! nat ?s), win, w1)" by blast
    with True have "display ctx (h # es) ?s (0, 10) w
        = Some (if ?s \<le> 11 then Some (es ! nat ?s) else None, win, w1)" by simp
    then show ?thesis by blast
  next
    case False
    let ?w = "video_draw_box ctx 1 0 ''Select boot option.'' 1 5 5 70 15 w"
    have tl: "\<forall>e \<in> set (drop 1 es). drawable e" using draw by (auto dest: in_set_dropD)
    from False draw_entries_ok [OF tl _ kb, of 0 1 ?s None ?w] obtain i w1 where
      "draw_entries ctx 1 ?s (drop 1 es) 0 None ?w = Some (i, None, w1)" by auto
    with False n show ?thesis by (auto simp: display_def Let_def numeral_2_eq_2)
  qed
  then obtain win w1 where disp: "display ctx (h # es) ?s (0, 10) w
      = Some (if ?s \<le> 11 then Some (es ! nat ?s) else None, win, w1)" by blast
  from countdown_quiet [OF quiet, of "t * 100" 0 w1] t(2) obtain w' where
    "loop (countdown_step ctx) (t * 100, 0, w1) = Some (0, w')" by auto
  with disp t show ?thesis by (simp add: menu_display_video_def default_entry_eq [OF d(1)])
qed

lemma serial_timeout:
  assumes ne: "es \<noteq> []" and quiet: "\<forall>w. fst (tstc ctx w) = 0"
    and d: "me_default_os h = Some d" "0 \<le> d" and t: "me_delay h = Some t" "0 \<le> t" "t \<le> 21474836"
  shows "\<exists>w'. menu_display_serial ctx (h # es) w = Some (Some (es ! nat (min d (int (length es) - 1))), w')"
proof -
  have n: "0 < length es" using ne by simp
  from serial_wait_quiet [OF quiet, of "t * 100" "t * 100" w] t(2) obtain w' where
    "loop (serial_wait_step ctx) (t * 100, t * 100, w) = Some (0, w')" by auto
  then show ?thesis
    using t n d(2) by (auto simp: menu_display_serial_def default_entry_eq [OF d(1)] entry_by_number_eq)
qed

lemma serial_key:
  assumes key: "tstc ctx w = (k, w1)" "k \<noteq> 0" "getc ctx w1 = (c, w2)" and few: "length es \<le> 159"
    and d: "me_default_os h = Some d" and t: "me_delay h = Some t" "0 < t" "t \<le> 21474836"
  shows "menu_display_serial ctx (h # es) w
    = Some (if c \<noteq> 122 \<and> 97 \<le> c \<and> c < 97 + int (length es) then Some (es ! nat (c - 97)) else None, w2)"
proof -
  have "loop (serial_wait_step ctx) (t * 100, t * 100, w) = Some (t * 100, w1)"
    using key(1,2) t(2) by (intro loop_exit) (simp add: serial_wait_step_def)
  then show ?thesis
    using key(3) t few entry_by_letter_eq [of 97 es c]
    by (simp add: menu_display_serial_def default_entry_eq [OF d])
qed

end
