(* ===== verification/Elf.thy ===== *)
theory Elf
  imports Rdb
begin

text \<open>
  The loader of relocatable ELF files, \<open>src/src/elf.c\<close>. Here the memory of the machine is visible: the
  file is in memory at an address, sections are placed at addresses and relocated in place, so memory is
  a function from addresses to bytes, big-endian, and pointers are 32-bit words. Only the blocks that
  \<open>malloc\<close> gives to the symbol lists are apart from it. \<open>None\<close> is a store past the array of
  \<open>.bss\<close> markers, a division by 0 or a negative byte count.
\<close>

abbreviation (input) SHT_SYMTAB :: u32 where "SHT_SYMTAB \<equiv> 2"
abbreviation (input) SHT_STRTAB :: u32 where "SHT_STRTAB \<equiv> 3"
abbreviation (input) SHT_RELA :: u32 where "SHT_RELA \<equiv> 4"
abbreviation (input) SHT_NOBITS :: u32 where "SHT_NOBITS \<equiv> 8"
abbreviation (input) ET_REL :: u16 where "ET_REL \<equiv> 1"
abbreviation (input) EM_PPC :: u16 where "EM_PPC \<equiv> 20"
abbreviation (input) SHN_ABS :: u16 where "SHN_ABS \<equiv> 0xFFF1"
abbreviation (input) SHN_COMMON :: u16 where "SHN_COMMON \<equiv> 0xFFF2"
abbreviation (input) SHN_UNDEF :: u16 where "SHN_UNDEF \<equiv> 0"
abbreviation (input) SHF_WRITE :: u32 where "SHF_WRITE \<equiv> 1"
abbreviation (input) SHF_ALLOC :: u32 where "SHF_ALLOC \<equiv> 2"
abbreviation (input) SHF_EXECINSTR :: u32 where "SHF_EXECINSTR \<equiv> 4"
abbreviation (input) R_PPC_NONE :: u32 where "R_PPC_NONE \<equiv> 0"
abbreviation (input) R_PPC_ADDR32 :: u32 where "R_PPC_ADDR32 \<equiv> 1"
abbreviation (input) R_PPC_ADDR16_LO :: u32 where "R_PPC_ADDR16_LO \<equiv> 4"
abbreviation (input) R_PPC_ADDR16_HA :: u32 where "R_PPC_ADDR16_HA \<equiv> 6"
abbreviation (input) R_PPC_REL24 :: u32 where "R_PPC_REL24 \<equiv> 10"
abbreviation (input) R_PPC_REL32 :: u32 where "R_PPC_REL32 \<equiv> 26"

definition KERNEL_PHYS_BASE :: u32 where "KERNEL_PHYS_BASE = 0x00800000"
definition KERNEL_VIRT_BASE :: u32 where "KERNEL_VIRT_BASE = 0xFF800000"
definition MAX_BSS_SECTIONS :: nat where "MAX_BSS_SECTIONS = 1024"

subsection \<open>Memory\<close>

type_synonym mem = "u32 \<Rightarrow> byte"

definition ld16 :: "mem \<Rightarrow> u32 \<Rightarrow> u16" where
  "ld16 m a = join16 (m a) (m (a + 1))"

definition ld32 :: "mem \<Rightarrow> u32 \<Rightarrow> u32" where
  "ld32 m a = join32 (m a) (m (a + 1)) (m (a + 2)) (m (a + 3))"

definition st16 :: "mem \<Rightarrow> u32 \<Rightarrow> u16 \<Rightarrow> mem" where
  "st16 m a w = m(a := ucast (drop_bit 8 w), a + 1 := ucast w)"

definition st32 :: "mem \<Rightarrow> u32 \<Rightarrow> u32 \<Rightarrow> mem" where
  "st32 m a w = m(a := ucast (drop_bit 24 w), a + 1 := ucast (drop_bit 16 w), a + 2 := ucast (drop_bit 8 w),
     a + 3 := ucast w)"

text \<open>The bytes of a C string are compared from a copy of the \<open>n\<close> bytes at an address.\<close>

definition mem_bytes :: "mem \<Rightarrow> u32 \<Rightarrow> nat \<Rightarrow> byte list" where
  "mem_bytes m a n = map (\<lambda>i. m (a + of_nat i)) [0..<n]"

text \<open>\<open>memmove\<close> and \<open>bzero\<close>; their counts are C \<open>int\<close>s.\<close>

definition mem_move :: "u32 \<Rightarrow> u32 \<Rightarrow> u32 \<Rightarrow> mem \<Rightarrow> mem option" where
  "mem_move dest src n m =
     (if n < 0x80000000 then Some (\<lambda>a. if a - dest < n then m (src + (a - dest)) else m a) else None)"

definition mem_bzero :: "u32 \<Rightarrow> u32 \<Rightarrow> mem \<Rightarrow> mem option" where
  "mem_bzero dest n m = (if n < 0x80000000 then Some (\<lambda>a. if a - dest < n then 0 else m a) else None)"

subsection \<open>The structs of the file\<close>

definition eh_ident :: "mem \<Rightarrow> u32 \<Rightarrow> nat \<Rightarrow> byte" where "eh_ident m eh i = m (eh + of_nat i)"
definition eh_type :: "mem \<Rightarrow> u32 \<Rightarrow> u16" where "eh_type m eh = ld16 m (eh + 16)"
definition eh_machine :: "mem \<Rightarrow> u32 \<Rightarrow> u16" where "eh_machine m eh = ld16 m (eh + 18)"
definition eh_shoff :: "mem \<Rightarrow> u32 \<Rightarrow> u32" where "eh_shoff m eh = ld32 m (eh + 32)"
definition eh_shnum :: "mem \<Rightarrow> u32 \<Rightarrow> u16" where "eh_shnum m eh = ld16 m (eh + 48)"
definition eh_shstrndx :: "mem \<Rightarrow> u32 \<Rightarrow> u16" where "eh_shstrndx m eh = ld16 m (eh + 50)"

text \<open>\<open>&sh[i]\<close>, and the fields of a section header.\<close>

definition sh_at :: "u32 \<Rightarrow> u32 \<Rightarrow> u32" where "sh_at sh i = sh + 40 * i"

definition sh_type :: "mem \<Rightarrow> u32 \<Rightarrow> u32" where "sh_type m sh = ld32 m (sh + 4)"
definition sh_flags :: "mem \<Rightarrow> u32 \<Rightarrow> u32" where "sh_flags m sh = ld32 m (sh + 8)"
definition sh_addr :: "mem \<Rightarrow> u32 \<Rightarrow> u32" where "sh_addr m sh = ld32 m (sh + 12)"
definition sh_offset :: "mem \<Rightarrow> u32 \<Rightarrow> u32" where "sh_offset m sh = ld32 m (sh + 16)"
definition sh_size :: "mem \<Rightarrow> u32 \<Rightarrow> u32" where "sh_size m sh = ld32 m (sh + 20)"
definition sh_link :: "mem \<Rightarrow> u32 \<Rightarrow> u32" where "sh_link m sh = ld32 m (sh + 24)"
definition sh_info :: "mem \<Rightarrow> u32 \<Rightarrow> u32" where "sh_info m sh = ld32 m (sh + 28)"
definition sh_addralign :: "mem \<Rightarrow> u32 \<Rightarrow> u32" where "sh_addralign m sh = ld32 m (sh + 32)"
definition sh_entsize :: "mem \<Rightarrow> u32 \<Rightarrow> u32" where "sh_entsize m sh = ld32 m (sh + 36)"
definition set_sh_addr :: "mem \<Rightarrow> u32 \<Rightarrow> u32 \<Rightarrow> mem" where "set_sh_addr m sh a = st32 m (sh + 12) a"

text \<open>Symbols have 16 bytes, relocations 12.\<close>

definition sym_name :: "mem \<Rightarrow> u32 \<Rightarrow> u32" where "sym_name m sy = ld32 m sy"
definition sym_value :: "mem \<Rightarrow> u32 \<Rightarrow> u32" where "sym_value m sy = ld32 m (sy + 4)"
definition sym_size :: "mem \<Rightarrow> u32 \<Rightarrow> u32" where "sym_size m sy = ld32 m (sy + 8)"
definition sym_shindex :: "mem \<Rightarrow> u32 \<Rightarrow> u16" where "sym_shindex m sy = ld16 m (sy + 14)"

definition rel_offset :: "mem \<Rightarrow> u32 \<Rightarrow> u32" where "rel_offset m rel = ld32 m rel"
definition rel_info :: "mem \<Rightarrow> u32 \<Rightarrow> u32" where "rel_info m rel = ld32 m (rel + 4)"
definition rel_addend :: "mem \<Rightarrow> u32 \<Rightarrow> u32" where "rel_addend m rel = ld32 m (rel + 8)"

definition ELF32_R_SYM :: "u32 \<Rightarrow> u32" where "ELF32_R_SYM i = drop_bit 8 i"
definition ELF32_R_TYPE :: "u32 \<Rightarrow> u32" where "ELF32_R_TYPE i = i AND 0xFF"

subsection \<open>The state of the loader\<close>

record bss_tracker_t =
  bt_addr :: u32
  bt_length :: u32

text \<open>A symbol of a registered module; \<open>s_name\<close> is its offset in the module's copy of the string table.\<close>

record symbol_t =
  s_name :: u32
  s_lowest :: u32
  s_highest :: u32

record module_t =
  m_name :: string
  m_str :: "byte list option"
  m_lowest :: u32
  m_highest :: u32
  m_symbols :: "symbol_t list"

text \<open>\<open>bss_next\<close> is the index of the static pointer \<open>bss_tracker\<close> in the array \<open>tracker\<close>.\<close>

record elf_state =
  es_mem :: mem
  ptr_ro :: u32
  ptr_rw :: u32
  tracker :: "bss_tracker_t list"
  bss_next :: nat
  debug_info :: "module_t list"

definition elf_init :: "mem \<Rightarrow> elf_state" where
  "elf_init m = \<lparr>es_mem = m, ptr_ro = KERNEL_PHYS_BASE, ptr_rw = KERNEL_PHYS_BASE,
     tracker = replicate MAX_BSS_SECTIONS \<lparr>bt_addr = 0, bt_length = 0\<rparr>, bss_next = 0, debug_info = []\<rparr>"

definition get_ptr_ro :: "elf_state \<Rightarrow> u32" where "get_ptr_ro st = ptr_ro st"
definition get_ptr_rw :: "elf_state \<Rightarrow> u32" where "get_ptr_rw st = ptr_rw st"

subsection \<open>Sections\<close>

text \<open>\<open>read_block\<close>; its name is taken by the installer's.\<close>

definition elf_read_block :: "u32 \<Rightarrow> u32 \<Rightarrow> u32 \<Rightarrow> u32 \<Rightarrow> mem \<Rightarrow> mem option" where
  "elf_read_block file offset dest n m = mem_move dest (file + offset) n m"

definition check_header :: "mem \<Rightarrow> u32 \<Rightarrow> bool" where
  "check_header m eh =
     (if eh_ident m eh 0 \<noteq> 0x7F \<or> eh_ident m eh 1 \<noteq> 0x45 \<or> eh_ident m eh 2 \<noteq> 0x4C \<or> eh_ident m eh 3 \<noteq> 0x46
      then False
      else if eh_type m eh \<noteq> ET_REL \<or> eh_machine m eh \<noteq> EM_PPC then False else True)"

text \<open>The address a section gets: writable ones go below the others, which go upwards.\<close>

definition hunk_place :: "u32 \<Rightarrow> elf_state \<Rightarrow> u32 \<times> elf_state" where
  "hunk_place sh st =
     (let m = es_mem st in
      if sh_flags m sh AND SHF_WRITE \<noteq> 0
      then (let ptr = (ptr_rw st - sh_size m sh - sh_addralign m sh + 1) AND NOT (sh_addralign m sh - 1)
            in (ptr, st\<lparr>ptr_rw := ptr\<rparr>))
      else (let ptr = (ptr_ro st + sh_addralign m sh - 1) AND NOT (sh_addralign m sh - 1)
            in (ptr, st\<lparr>ptr_ro := ptr + sh_size m sh\<rparr>)))"

definition load_hunk :: "u32 \<Rightarrow> u32 \<Rightarrow> elf_state \<Rightarrow> (int \<times> elf_state) option" where
  "load_hunk file sh st =
     (if sh_size (es_mem st) sh = 0 then Some (1, st)
      else
        let (ptr, st) = hunk_place sh st;
            m = set_sh_addr (es_mem st) sh ptr
        in if sh_type m sh \<noteq> SHT_NOBITS
           then do {
             m \<leftarrow> elf_read_block file (sh_offset m sh) (sh_addr m sh) (sh_size m sh) m;
             Some (1, st\<lparr>es_mem := m\<rparr>)
           }
           else do {
             m \<leftarrow> mem_bzero ptr (sh_size m sh) m;
             t \<leftarrow> store (tracker st) (bss_next st)
               \<lparr>bt_addr = ptr + KERNEL_VIRT_BASE - KERNEL_PHYS_BASE, bt_length = sh_size m sh\<rparr>;
             Some (1, st\<lparr>es_mem := m, tracker := t, bss_next := bss_next st + 1\<rparr>)
           })"

text \<open>The body of the first loop of \<open>load_elf_file\<close>, and the loop from section \<open>i\<close> on.\<close>

definition section_step :: "u32 \<Rightarrow> u32 \<Rightarrow> elf_state \<Rightarrow> (int \<times> elf_state) option" where
  "section_step file sh st =
     (let m = es_mem st in
      if sh_type m sh = SHT_SYMTAB \<or> sh_type m sh = SHT_STRTAB
      then Some (1, st\<lparr>es_mem := set_sh_addr m sh (file + sh_offset m sh)\<rparr>)
      else if sh_flags m sh AND SHF_ALLOC \<noteq> 0 then load_hunk file sh st
      else Some (1, st))"

lemma eh_shnum_bound: "unat (eh_shnum m eh) < 65536"
  using unsigned_less [of "eh_shnum m eh", where ?'a = nat] by simp

function load_sections :: "u32 \<Rightarrow> u32 \<Rightarrow> u32 \<Rightarrow> nat \<Rightarrow> elf_state \<Rightarrow> (int \<times> elf_state) option" where
  "load_sections file eh sh i st =
     (if i < unat (eh_shnum (es_mem st) eh)
      then do {
        (ok, st) \<leftarrow> section_step file (sh_at sh (of_nat i)) st;
        if ok = 0 then Some (0, st) else load_sections file eh sh (i + 1) st
      }
      else Some (1, st))"
  by auto

termination load_sections
proof (relation "measure (\<lambda>(file, eh, sh, i, st). 65536 - i)")
  fix f eh sh :: u32 and i st x ok st'
  assume "i < unat (eh_shnum (es_mem st) eh)"
  then show "((f, eh, sh, i + 1, st'), f, eh, sh, i, st) \<in> measure (\<lambda>(file, eh, sh, i, st). 65536 - i)"
    using eh_shnum_bound [of "es_mem st" eh] by simp
qed simp

declare load_sections.simps [simp del]

subsection \<open>Relocations\<close>

text \<open>
  The first \<open>switch\<close>: the value \<open>s\<close>, the offset to virtual addresses and \<open>SysBase_sym\<close>;
  \<open>Some None\<close> is the return of 0.
\<close>

definition reloc_symbol ::
    "mem \<Rightarrow> u32 \<Rightarrow> u32 \<Rightarrow> u32 option \<Rightarrow> u32 \<Rightarrow> u32 \<Rightarrow> (u32 \<times> u32 \<times> u32 option) option option" where
  "reloc_symbol m sh shsymtab SysBase_sym sy virt =
     (if sym_shindex m sy = SHN_UNDEF then Some None
      else if sym_shindex m sy = SHN_COMMON then Some None
      else if sym_shindex m sy = SHN_ABS then
        (case SysBase_sym of
          None \<Rightarrow> do {
            d \<leftarrow> strncmp (chars (mem_bytes m (sh_addr m (sh_at sh (sh_link m shsymtab)) + sym_name m sy) 8))
              (lit ''SysBase'') 8;
            Some (Some (if d = 0 then (4, 0, Some sy) else (sym_value m sy, virt, None)))
          }
        | Some sb \<Rightarrow> Some (Some (if sb = sy then (4, 0, Some sb) else (sym_value m sy, virt, Some sb))))
      else Some (Some (sh_addr m (sh_at sh (ucast (sym_shindex m sy))) + sym_value m sy, virt, SysBase_sym)))"

text \<open>The second \<open>switch\<close>: the store at \<open>p\<close>, \<open>None\<close> for an unknown type.\<close>

definition reloc_store :: "mem \<Rightarrow> u32 \<Rightarrow> u32 \<Rightarrow> u32 \<Rightarrow> u32 \<Rightarrow> u32 \<Rightarrow> mem option" where
  "reloc_store m type p s addend virtoffset =
     (if type = R_PPC_ADDR32 then Some (st32 m p (s + addend + virtoffset))
      else if type = R_PPC_ADDR16_LO then Some (st16 m p (ucast ((s + addend + virtoffset) AND 0xFFFF)))
      else if type = R_PPC_ADDR16_HA then
        (let temp = s + addend + virtoffset;
             c = ucast (drop_bit 16 temp) :: u16;
             m = st16 m p c
         in Some (if temp AND 0x8000 \<noteq> 0 then st16 m p (ld16 m p + 1) else m))
      else if type = R_PPC_REL24 then
        (let m = st32 m p (ld32 m p AND NOT 0x3FFFFFC)
         in Some (st32 m p (ld32 m p OR ((s + addend - p) AND 0x3FFFFFC))))
      else if type = R_PPC_REL32 then Some (st32 m p (s + addend - p))
      else if type = R_PPC_NONE then Some m
      else None)"

text \<open>The loop, with the number of relocations left to do.\<close>

fun reloc_loop ::
    "u32 \<Rightarrow> u32 \<Rightarrow> u32 \<Rightarrow> u32 \<Rightarrow> u32 \<Rightarrow> nat \<Rightarrow> u32 \<Rightarrow> u32 option \<Rightarrow> mem \<Rightarrow> (int \<times> mem) option" where
  "reloc_loop sh shsymtab symtab section virt 0 rel SysBase_sym m = Some (1, m)"
| "reloc_loop sh shsymtab symtab section virt (Suc n) rel SysBase_sym m = do {
     let sy = symtab + 16 * ELF32_R_SYM (rel_info m rel);
     let p = section + rel_offset m rel;
     r \<leftarrow> reloc_symbol m sh shsymtab SysBase_sym sy virt;
     case r of
       None \<Rightarrow> Some (0, m)
     | Some (s, virtoffset, SysBase_sym) \<Rightarrow>
         (case reloc_store m (ELF32_R_TYPE (rel_info m rel)) p s (rel_addend m rel) virtoffset of
           None \<Rightarrow> Some (0, m)
         | Some m \<Rightarrow> reloc_loop sh shsymtab symtab section virt n (rel + 12) SysBase_sym m)
   }"

definition relocate :: "u32 \<Rightarrow> u32 \<Rightarrow> u32 \<Rightarrow> mem \<Rightarrow> (int \<times> mem) option" where
  "relocate sh shrel_idx virt m = do {
     let shrel = sh_at sh shrel_idx;
     let shsymtab = sh_at sh (sh_link m shrel);
     let toreloc = sh_at sh (sh_info m shrel);
     guard (sh_entsize m shrel \<noteq> 0);
     let numrel = sh_size m shrel div sh_entsize m shrel;
     reloc_loop sh shsymtab (sh_addr m shsymtab) (sh_addr m toreloc) virt (unat numrel) (sh_addr m shrel) None m
   }"

text \<open>The second loop of \<open>load_elf_file\<close> and its body.\<close>

definition reloc_step :: "u32 \<Rightarrow> u32 \<Rightarrow> nat \<Rightarrow> mem \<Rightarrow> (int \<times> mem) option" where
  "reloc_step file sh i m =
     (let s = sh_at sh (of_nat i) in
      if sh_type m s = SHT_RELA \<and> sh_addr m (sh_at sh (sh_info m s)) \<noteq> 0
      then (let m = set_sh_addr m s (file + sh_offset m s)
            in if sh_addr m s = 0 then Some (0, m)
               else relocate sh (of_nat i) (KERNEL_VIRT_BASE - KERNEL_PHYS_BASE) m)
      else Some (1, m))"

function reloc_sections :: "u32 \<Rightarrow> u32 \<Rightarrow> u32 \<Rightarrow> nat \<Rightarrow> mem \<Rightarrow> (int \<times> mem) option" where
  "reloc_sections file eh sh i m =
     (if i < unat (eh_shnum m eh)
      then do {
        (ok, m) \<leftarrow> reloc_step file sh i m;
        if ok = 0 then Some (0, m) else reloc_sections file eh sh (i + 1) m
      }
      else Some (1, m))"
  by auto

termination reloc_sections
proof (relation "measure (\<lambda>(file, eh, sh, i, m). 65536 - i)")
  fix f eh sh :: u32 and i m x ok m'
  assume "i < unat (eh_shnum m eh)"
  then show "((f, eh, sh, i + 1, m'), f, eh, sh, i, m) \<in> measure (\<lambda>(file, eh, sh, i, m). 65536 - i)"
    using eh_shnum_bound [of m eh] by simp
qed simp

declare reloc_sections.simps [simp del]

subsection \<open>Registering the module\<close>

definition is_code :: "mem \<Rightarrow> u32 \<Rightarrow> bool" where
  "is_code m sh \<longleftrightarrow> sh_flags m sh AND (SHF_ALLOC OR SHF_EXECINSTR) = SHF_ALLOC OR SHF_EXECINSTR"

text \<open>The loop over the sections: the copy of the string table and the bounds of the code.\<close>

definition module_step ::
    "'w context_t \<Rightarrow> mem \<Rightarrow> u32 \<Rightarrow> u32 \<Rightarrow> nat \<Rightarrow> module_t \<times> 'w \<Rightarrow> (module_t \<times> 'w) option" where
  "module_step ctx m eh sh i = (\<lambda>(mo, w). do {
     let s = sh_at sh (of_nat i);
     (mo, w) \<leftarrow>
       (if sh_type m s = SHT_STRTAB \<and> int i \<noteq> uint (eh_shstrndx m eh) \<and> m_str mo = None
        then do {
          let (blk, w) = malloc ctx (sint (sh_size m s)) w;
          blk \<leftarrow> memcpy blk 0 (mem_bytes m (sh_addr m s) (unat (sh_size m s))) (unat (sh_size m s));
          Some (mo\<lparr>m_str := Some blk\<rparr>, w)
        }
        else Some (mo, w));
     Some (if is_code m s \<and> sh_addr m s \<noteq> 0
       then (let virt = sh_addr m s + KERNEL_VIRT_BASE - KERNEL_PHYS_BASE;
                 mo = (if virt < m_lowest mo then mo\<lparr>m_lowest := virt\<rparr> else mo)
             in (if virt + sh_size m s > m_highest mo then mo\<lparr>m_highest := virt + sh_size m s\<rparr> else mo, w))
       else (mo, w))
   })"

fun module_loop ::
    "'w context_t \<Rightarrow> mem \<Rightarrow> u32 \<Rightarrow> u32 \<Rightarrow> nat list \<Rightarrow> module_t \<times> 'w \<Rightarrow> (module_t \<times> 'w) option" where
  "module_loop ctx m eh sh [] s = Some s"
| "module_loop ctx m eh sh (i # is) s = do { s \<leftarrow> module_step ctx m eh sh i s; module_loop ctx m eh sh is s }"

text \<open>The symbols of code sections, the last one first; the memory of each comes from \<open>malloc\<close>.\<close>

definition symbol_step :: "'w context_t \<Rightarrow> mem \<Rightarrow> u32 \<Rightarrow> u32 \<Rightarrow> module_t \<times> 'w \<Rightarrow> nat \<Rightarrow> module_t \<times> 'w" where
  "symbol_step ctx m sh st = (\<lambda>(mo, w) j.
     let sy = st + 16 * of_nat j;
         s = sh_at sh (ucast (sym_shindex m sy))
     in if sh_addr m s \<noteq> 0 \<and> is_code m s
        then (let (_, w) = malloc ctx 20 w;
                  lowest = sh_addr m s + sym_value m sy + KERNEL_VIRT_BASE - KERNEL_PHYS_BASE
              in (mo\<lparr>m_symbols := \<lparr>s_name = sym_name m sy, s_lowest = lowest, s_highest = lowest + sym_size m sy\<rparr>
                    # m_symbols mo\<rparr>, w))
        else (mo, w))"

definition register_module ::
    "'w context_t \<Rightarrow> string \<Rightarrow> u32 \<Rightarrow> u32 \<Rightarrow> mem \<Rightarrow> 'w \<Rightarrow> (module_t \<times> 'w) option" where
  "register_module ctx name eh sh m w = do {
     let (_, w) = malloc ctx 36 w;
     let (_, w) = malloc ctx (int (length name) + 1) w;
     let is = [0..<unat (eh_shnum m eh)];
     (mo, w) \<leftarrow> module_loop ctx m eh sh is
       (\<lparr>m_name = name, m_str = None, m_lowest = 0xFFFFFFFF, m_highest = 0, m_symbols = []\<rparr>, w);
     Some (case find (\<lambda>i. sh_addr m (sh_at sh (of_nat i)) \<noteq> 0 \<and> sh_type m (sh_at sh (of_nat i)) = SHT_SYMTAB) is of
         None \<Rightarrow> (mo, w)
       | Some i \<Rightarrow>
           foldl (symbol_step ctx m sh (sh_addr m (sh_at sh (of_nat i)))) (mo, w)
             [0..<unat (sh_size m (sh_at sh (of_nat i)) div 16)])
   }"

definition load_elf_file ::
    "'w context_t \<Rightarrow> string \<Rightarrow> u32 \<Rightarrow> elf_state \<Rightarrow> 'w \<Rightarrow> ((int \<times> elf_state) \<times> 'w) option" where
  "load_elf_file ctx name file st w =
     (if \<not> check_header (es_mem st) file then Some ((0, st), w)
      else do {
        let sh = file + eh_shoff (es_mem st) file;
        (ok, st) \<leftarrow> load_sections file file sh 0 st;
        if ok = 0 then Some ((0, st), w)
        else do {
          (ok, m) \<leftarrow> reloc_sections file file sh 0 (es_mem st);
          let st = st\<lparr>es_mem := m\<rparr>;
          if ok = 0 then Some ((0, st), w)
          else do {
            (mo, w) \<leftarrow> register_module ctx name file sh m w;
            Some ((1, st\<lparr>debug_info := mo # debug_info st\<rparr>), w)
          }
        }
      })"

end
