(* ===== verification/Boot.thy ===== *)
theory Boot
  imports Menu_Load Menu_Display Elf
begin

text \<open>
  The main program, \<open>src/src/parthenope.c\<close>: \<open>bootstrap\<close> and the four ways to start a kernel. A kernel
  that is jumped to takes over: \<open>jump\<close> says where and with what. The parameters \<open>ver\<close> and \<open>date\<close> are the
  build's \<open>VERSION\<close> and \<open>DATE\<close>; \<open>adr\<close> gives the address of the block that \<open>malloc\<close> has just returned,
  which matters for ELF files only: a block is put into the memory of the loader before an ELF file in it
  is loaded, and read back after. \<open>clear_bss\<close> and \<open>flush_cache\<close> are in \<open>Machine\<close>: here the
  first is the zeroed initial state, and the second has no effect on values. Console messages are left out.
\<close>

abbreviation (input) IH_MAGIC :: u32 where "IH_MAGIC \<equiv> 0x27051956"
abbreviation (input) IH_TYPE_STANDALONE :: byte where "IH_TYPE_STANDALONE \<equiv> 1"
abbreviation (input) IH_TYPE_KERNEL :: byte where "IH_TYPE_KERNEL \<equiv> 2"
abbreviation (input) IH_OS_LINUX :: byte where "IH_OS_LINUX \<equiv> 5"

definition ih_magic :: "byte list \<Rightarrow> u32 option" where "ih_magic h = be32 h 0"
definition ih_os :: "byte list \<Rightarrow> byte option" where "ih_os h = load h 28"
definition ih_type :: "byte list \<Rightarrow> byte option" where "ih_type h = load h 30"

abbreviation (input) KRN_KernelBase :: u32 where "KRN_KernelBase \<equiv> 0x83D00001"
abbreviation (input) KRN_KernelLowest :: u32 where "KRN_KernelLowest \<equiv> 0x83D00002"
abbreviation (input) KRN_KernelHighest :: u32 where "KRN_KernelHighest \<equiv> 0x83D00003"
abbreviation (input) KRN_KernelBss :: u32 where "KRN_KernelBss \<equiv> 0x83D00004"
abbreviation (input) KRN_CmdLine :: u32 where "KRN_CmdLine \<equiv> 0x83D0000C"
abbreviation (input) KRN_ProtAreaStart :: u32 where "KRN_ProtAreaStart \<equiv> 0x83D0000D"
abbreviation (input) KRN_ProtAreaEnd :: u32 where "KRN_ProtAreaEnd \<equiv> 0x83D0000E"
abbreviation (input) KRN_DebugInfo :: u32 where "KRN_DebugInfo \<equiv> 0x83D00015"
abbreviation (input) KRN_BootLoader :: u32 where "KRN_BootLoader \<equiv> 0x83D00016"

text \<open>What a tag of AROS points to, and a module as AmigaOS gets it.\<close>

datatype tag_data = Tag_word u32 | Tag_tracker "bss_tracker_t list" | Tag_string "string option"
  | Tag_debug "module_t list"

record aos_module =
  am_name :: string
  am_options :: "string option"
  am_id :: u16
  am_flags :: u16
  am_address :: "byte list"
  am_size :: u32

datatype jump =
    Jump_aros "(u32 \<times> tag_data) list" elf_state
  | Jump_aos "byte list" "aos_module list" "string option"

datatype outcome = Exit int | Enter jump

subsection \<open>Small pieces\<close>

definition set_progress :: "'w context_t \<Rightarrow> int \<Rightarrow> int \<Rightarrow> 'w \<Rightarrow> 'w" where
  "set_progress ctx max_entries progress w =
     (let p = progress * 66 div max_entries
      in video_repeat_char ctx (7 + p) 7 (66 - p) 177 0 (video_repeat_char ctx 7 7 p 219 0 w))"

definition get_booting_device :: "'w context_t \<Rightarrow> 'w \<Rightarrow> ('w boot_dev_t option \<times> 'w) option" where
  "get_booting_device ctx w = do {
     hnd \<leftarrow> get_curr_device ctx;
     if bd_type (ush_device hnd) = DEV_TYPE_HARDDISK then Some (None, w)
     else if bd_type (ush_device hnd) = DEV_TYPE_NETBOOT
     then (case tftp_create ctx w of (d, w) \<Rightarrow> Some (map_option (\<lambda>_. Tftp_dev) d, w))
     else if bd_type (ush_device hnd) = DEV_TYPE_CDROM
     then do { (d, w) \<leftarrow> cdrom_create ctx w; Some (map_option Cdrom_dev d, w) }
     else Some (None, w)
   }"

text \<open>The screen that the last two share: \<open>tmpbuf\<close> has room for 100 characters.\<close>

definition boot_screen :: "'w context_t \<Rightarrow> menu_t \<Rightarrow> 'w \<Rightarrow> 'w option" where
  "boot_screen ctx menu w = do {
     title \<leftarrow> me_title menu;
     guard (length (''Booting '' @ title) < 100);
     krnl \<leftarrow> me_kernel menu;
     let w = video_clear ctx w;
     let (_, w) = video_set_partial_scroll_limits ctx 12 25 w;
     let w = video_draw_box ctx 1 0 (''Booting '' @ title) 1 5 4 70 7 w;
     let w = set_progress ctx (int (modules_cnt menu) + 1) 1 w;
     Some (video_draw_text ctx 7 9 0 krnl 66 w)
   }"

subsection \<open>U-Boot images\<close>

definition testboot_linux ::
    "'w context_t \<Rightarrow> menu_t \<Rightarrow> byte list \<Rightarrow> 'w boot_dev_t \<Rightarrow> 'w \<Rightarrow> ('w boot_dev_t \<times> 'w) option" where
  "testboot_linux ctx entry krnl dev w = do {
     magic \<leftarrow> ih_magic krnl;
     type \<leftarrow> ih_type krnl;
     os \<leftarrow> ih_os krnl;
     if magic \<noteq> IH_MAGIC \<or> type \<noteq> IH_TYPE_KERNEL \<or> os \<noteq> IH_OS_LINUX then Some (dev, w)
     else do {
       let w = setenv ctx ''bootargs'' (case me_append entry of Some a \<Rightarrow> a | None \<Rightarrow> '''') w;
       let (_, w) = malloc ctx 32 w;
       let argv = [Arg ''bootm'', Address krnl];
       (argv, dev, w) \<leftarrow> (case me_initrd entry of
           Some f \<Rightarrow> do {
             let (initrd, w) = malloc ctx (18 * 1024 * 1024) w;
             ((_, initrd), dev, w) \<leftarrow> dev_load_file ctx dev f initrd w;
             let (_, w) = malloc ctx 32 w;
             Some (argv @ [Address initrd], dev, w)
           }
         | None \<Rightarrow>
             (if me_dtb entry \<noteq> None
              then (case malloc ctx 32 w of (_, w) \<Rightarrow> Some (argv @ [Arg ''-''], dev, w))
              else Some (argv, dev, w)));
       (argv, dev, w) \<leftarrow> (case me_dtb entry of
           Some f \<Rightarrow> do {
             let (dtb, w) = malloc ctx (1024 * 1024) w;
             ((_, dtb), dev, w) \<leftarrow> dev_load_file ctx dev f dtb w;
             let (_, w) = malloc ctx 32 w;
             Some (argv @ [Address dtb], dev, w)
           }
         | None \<Rightarrow> Some (argv, dev, w));
       Some (dev, snd (bootm ctx 0 argv w))
     }
   }"

definition testboot_standalone :: "'w context_t \<Rightarrow> byte list \<Rightarrow> 'w \<Rightarrow> 'w option" where
  "testboot_standalone ctx krnl w = do {
     magic \<leftarrow> ih_magic krnl;
     type \<leftarrow> ih_type krnl;
     if magic \<noteq> IH_MAGIC \<or> type \<noteq> IH_TYPE_STANDALONE then Some w
     else do {
       let w = setenv ctx ''autostart'' ''yes'' w;
       let (_, w) = malloc ctx 32 w;
       Some (snd (bootm ctx 0 [Arg ''bootm'', Address krnl] w))
     }
   }"

subsection \<open>AROS\<close>

text \<open>An ELF file in a block: the result, the block as the loader leaves it, and the loader's state.\<close>

definition place_block :: "u32 \<Rightarrow> byte list \<Rightarrow> mem \<Rightarrow> mem" where
  "place_block at' b m = (\<lambda>a. if unat (a - at') < length b then b ! unat (a - at') else m a)"

definition load_elf_block ::
    "'w context_t \<Rightarrow> string \<Rightarrow> u32 \<Rightarrow> byte list \<Rightarrow> elf_state \<Rightarrow> 'w \<Rightarrow> ((int \<times> byte list \<times> elf_state) \<times> 'w) option" where
  "load_elf_block ctx name at' b es w = do {
     ((ok, es), w) \<leftarrow> load_elf_file ctx name at' (es\<lparr>es_mem := place_block at' b (es_mem es)\<rparr>) w;
     Some ((ok, mem_bytes (es_mem es) at' (length b), es), w)
   }"

fun aros_modules ::
    "'w context_t \<Rightarrow> u32 \<Rightarrow> int \<Rightarrow> int \<Rightarrow> EntryObject list \<Rightarrow> byte list \<times> 'w boot_dev_t \<times> elf_state \<times> 'w
     \<Rightarrow> (bool \<times> 'w boot_dev_t \<times> elf_state \<times> 'w) option" where
  "aros_modules ctx at' max_entries i [] (buf, dev, es, w) = Some (True, dev, es, w)"
| "aros_modules ctx at' max_entries i (mo # ms) (buf, dev, es, w) = do {
     ((len, buf), dev, w) \<leftarrow> dev_load_file ctx dev (eo_name mo) buf w;
     if len < 0 then Some (False, dev, es, w)
     else do {
       ((ok, buf, es), w) \<leftarrow> load_elf_block ctx (eo_name mo) at' buf es w;
       if ok = 0 then Some (False, dev, es, w)
       else aros_modules ctx at' max_entries (i + 1) ms
         (buf, dev, es, video_draw_text ctx 7 9 0 (eo_name mo) 66 (set_progress ctx max_entries (i + 2) w))
     }
   }"

definition aros_tags :: "string \<Rightarrow> string \<Rightarrow> menu_t \<Rightarrow> elf_state \<Rightarrow> (u32 \<times> tag_data) list" where
  "aros_tags ver date menu es =
     [(KRN_KernelBss, Tag_tracker (tracker es)),
      (KRN_KernelLowest, Tag_word (get_ptr_rw es)),
      (KRN_KernelHighest, Tag_word (get_ptr_ro es)),
      (KRN_KernelBase, Tag_word KERNEL_PHYS_BASE),
      (KRN_ProtAreaStart, Tag_word KERNEL_VIRT_BASE),
      (KRN_ProtAreaEnd, Tag_word (get_ptr_ro es)),
      (KRN_CmdLine, Tag_string (me_append menu)),
      (KRN_BootLoader, Tag_string (Some (''Parthenope 0.'' @ ver @ '' ('' @ date @ '')''))),
      (KRN_DebugInfo, Tag_debug (debug_info es))]"

text \<open>The loop over the markers ends at one without an address, which has to be in the array.\<close>

definition testboot_aros ::
    "'w context_t \<Rightarrow> ('w \<Rightarrow> u32) \<Rightarrow> string \<Rightarrow> string \<Rightarrow> menu_t \<Rightarrow> u32 \<Rightarrow> byte list \<Rightarrow> 'w boot_dev_t \<Rightarrow> elf_state \<Rightarrow> 'w
     \<Rightarrow> ((byte list \<times> 'w boot_dev_t \<times> elf_state + jump) \<times> 'w) option" where
  "testboot_aros ctx adr ver date menu kat krnl boot es w = do {
     let (file_buff, w) = malloc ctx (10 * 1024 * 1024) w;
     let fat = adr w;
     name \<leftarrow> me_kernel menu;
     ((ok, krnl, es), w) \<leftarrow> load_elf_block ctx name kat krnl es w;
     if ok = 0 then Some (Inl (krnl, boot, es), w)
     else do {
       w \<leftarrow> boot_screen ctx menu w;
       (ok, boot, es, w) \<leftarrow> aros_modules ctx fat (int (modules_cnt menu) + 1) 0 (me_modules menu) (file_buff, boot, es, w);
       if \<not> ok then Some (Inl (krnl, boot, es), w)
       else do {
         guard (\<exists>b \<in> set (tracker es). bt_addr b = 0);
         Some (Inr (Jump_aros (aros_tags ver date menu es) es), w)
       }
     }
   }"

subsection \<open>AmigaOS\<close>

fun aos_modules ::
    "'w context_t \<Rightarrow> int \<Rightarrow> int \<Rightarrow> EntryObject list \<Rightarrow> aos_module list \<Rightarrow> byte list \<times> 'w boot_dev_t \<times> 'w
     \<Rightarrow> (aos_module list option \<times> 'w boot_dev_t \<times> 'w) option" where
  "aos_modules ctx max_entries i [] ms' (buffer, dev, w) = Some (Some ms', dev, w)"
| "aos_modules ctx max_entries i (mo # ms) ms' (buffer, dev, w) = do {
     let w = video_draw_text ctx 7 9 0 (eo_name mo) 66 w;
     ((len, buffer), dev, w) \<leftarrow> dev_load_file ctx dev (eo_name mo) buffer w;
     if len < 0 then Some (None, dev, w)
     else do {
       let (_, w) = malloc ctx 36 w;
       let (address, w) = malloc ctx len w;
       address \<leftarrow> memmove address 0 buffer (nat len);
       aos_modules ctx max_entries (i + 1) ms
         (ms' @ [\<lparr>am_name = eo_name mo, am_options = None, am_id = 2, am_flags = 3, am_address = address,
            am_size = of_int len\<rparr>])
         (buffer, dev, set_progress ctx max_entries (i + 2) w)
     }
   }"

definition testboot_aos ::
    "'w context_t \<Rightarrow> menu_t \<Rightarrow> byte list \<Rightarrow> 'w boot_dev_t \<Rightarrow> 'w \<Rightarrow> (jump option \<times> 'w) option" where
  "testboot_aos ctx menu krnl boot w = do {
     let (_, w) = malloc ctx 12 w;
     w \<leftarrow> boot_screen ctx menu w;
     let (_, w) = malloc ctx 36 w;
     let (buffer, w) = malloc ctx (5 * 1024 * 1024) w;
     (ms, boot, w) \<leftarrow> aos_modules ctx (int (modules_cnt menu) + 1) 0 (me_modules menu) [] (buffer, boot, w);
     Some (map_option (\<lambda>ms. Jump_aos krnl ms (getenv ctx ''os4_commandline'' w)) ms, w)
   }"

subsection \<open>The main program\<close>

text \<open>The device of an entry: \<open>boot\<close> is the device the program came from.\<close>

definition entry_device ::
    "'w context_t \<Rightarrow> 'w rdb_table \<Rightarrow> menu_t \<Rightarrow> 'w boot_dev_t option \<Rightarrow> 'w
     \<Rightarrow> ('w boot_dev_t option \<times> 'w) option" where
  "entry_device ctx table entry boot w =
     (if me_device_type entry = IDE_TYPE then
        (case RdbPartitionTable_get table (of_int (me_device_num entry)) (of_int (me_partition entry)) of
           None \<Rightarrow> Some (None, w)
         | Some p \<Rightarrow> partition_dev ctx p w)
      else if me_device_type entry = TFTP_TYPE then
        (case tftp_create ctx w of (d, w) \<Rightarrow> Some (map_option (\<lambda>_. Tftp_dev) d, w))
      else if me_device_type entry = CD_TYPE then
        do { (d, w) \<leftarrow> cdrom_create ctx w; Some (map_option Cdrom_dev d, w) }
      else Some (boot, w))"

text \<open>The label \<open>exit\<close>.\<close>

definition boot_exit :: "'w context_t \<Rightarrow> 'w \<Rightarrow> (outcome \<times> 'w) option" where
  "boot_exit ctx w = Some (Exit 0, snd (video_get_key ctx w))"

text \<open>The kernels that are no images of U-Boot, then \<open>exit\<close>.\<close>

definition boot_native ::
    "'w context_t \<Rightarrow> ('w \<Rightarrow> u32) \<Rightarrow> string \<Rightarrow> string \<Rightarrow> mem \<Rightarrow> menu_t \<Rightarrow> u32 \<Rightarrow> byte list \<Rightarrow> 'w boot_dev_t \<Rightarrow> 'w
     \<Rightarrow> (outcome \<times> 'w) option" where
  "boot_native ctx adr ver date m entry kat krnl boot w = do {
     (r, w) \<leftarrow> testboot_aros ctx adr ver date entry kat krnl boot (elf_init m) w;
     case r of
       Inr j \<Rightarrow> Some (Enter j, w)
     | Inl (krnl, boot, es) \<Rightarrow> do {
         (j, w) \<leftarrow> testboot_aos ctx entry krnl boot w;
         case j of Some j \<Rightarrow> Some (Enter j, w) | None \<Rightarrow> boot_exit ctx w
       }
   }"

definition start_kernel ::
    "'w context_t \<Rightarrow> ('w \<Rightarrow> u32) \<Rightarrow> string \<Rightarrow> string \<Rightarrow> mem \<Rightarrow> menu_t \<Rightarrow> 'w boot_dev_t \<Rightarrow> 'w \<Rightarrow> (outcome \<times> 'w) option" where
  "start_kernel ctx adr ver date m entry boot w = do {
     let (krnl, w) = malloc ctx (5 * 1024 * 1024) w;
     let kat = adr w;
     name \<leftarrow> me_kernel entry;
     ((len, krnl), boot, w) \<leftarrow> dev_load_file ctx boot name krnl w;
     if len < 0 then Some (Exit 1, w)
     else do {
       w \<leftarrow> testboot_standalone ctx krnl w;
       (boot, w) \<leftarrow> testboot_linux ctx entry krnl boot w;
       boot_native ctx adr ver date m entry kat krnl boot w
     }
   }"

definition bootstrap ::
    "'w context_t \<Rightarrow> ('w \<Rightarrow> u32) \<Rightarrow> string \<Rightarrow> string \<Rightarrow> mem \<Rightarrow> 'w \<Rightarrow> (outcome \<times> 'w) option" where
  "bootstrap ctx adr ver date m w = do {
     let (_, w) = malloc ctx 12 w;
     let w = video_clear ctx w;
     let w = video_draw_text ctx 5 4 0 ('' Parthenope (ub2lb) version 0.'' @ ver) 80 w;
     (table, w) \<leftarrow> RdbPartitionTable_init ctx w;
     (boot, w) \<leftarrow> get_booting_device ctx w;
     (menu, boot, w) \<leftarrow> menu_load ctx table boot w;
     case menu of
       None \<Rightarrow> boot_exit ctx w
     | Some menu \<Rightarrow> do {
         (entry, w) \<leftarrow> menu_display ctx menu w;
         case entry of
           None \<Rightarrow> boot_exit ctx w
         | Some entry \<Rightarrow>
             (case me_other entry of
                Some device \<Rightarrow> (case bootu ctx device w of (r, w) \<Rightarrow> Some (Exit r, w))
              | None \<Rightarrow> do {
                  (boot, w) \<leftarrow> entry_device ctx table entry boot w;
                  case boot of
                    None \<Rightarrow> boot_exit ctx w
                  | Some boot \<Rightarrow> start_kernel ctx adr ver date m entry boot w
                })
       }
   }"

subsection \<open>What becomes of an image of U-Boot\<close>

text \<open>A block is read back from the memory it is put into.\<close>

lemma mem_bytes_place_block:
  assumes "length b \<le> 2 ^ 32"
  shows "mem_bytes (place_block at' b m) at' (length b) = b"
proof (rule nth_equalityI)
  fix i assume "i < length (mem_bytes (place_block at' b m) at' (length b))"
  then have i: "i < length b" by (simp add: mem_bytes_def)
  then have "unat (of_nat i :: u32) = i" using assms by (intro unat_small) simp
  with i show "mem_bytes (place_block at' b m) at' (length b) ! i = b ! i"
    by (simp add: mem_bytes_def place_block_def)
qed (simp add: mem_bytes_def)

text \<open>No block that starts like an image is an ELF file.\<close>

lemma image_not_elf:
  assumes "ih_magic b = Some IH_MAGIC"
  shows "\<not> check_header (place_block at' b m) at'"
proof -
  have len: "4 \<le> length b" and j: "join32 (b ! 0) (b ! 1) (b ! 2) (b ! 3) = IH_MAGIC"
    using assms by (auto simp: ih_magic_def be32_def numeral_2_eq_2 numeral_3_eq_3 split: if_splits)
  have "split32 IH_MAGIC = [b ! 0, b ! 1, b ! 2, b ! 3]" unfolding j [symmetric] by (rule split32_join32)
  then have "b ! 0 = 0x27" by (simp add: split32_def)
  moreover have "0 < length b" using len by linarith
  ultimately show ?thesis by (simp add: check_header_def eh_ident_def place_block_def)
qed

text \<open>An entry that can be shown while it is booted.\<close>

definition bootable :: "menu_t \<Rightarrow> bool" where
  "bootable e \<longleftrightarrow> (\<exists>t. me_title e = Some t \<and> length t < 92) \<and> me_kernel e \<noteq> None"

lemma boot_screen_ok: "bootable e \<Longrightarrow> \<exists>w'. boot_screen ctx e w = Some w'"
  by (auto simp: boot_screen_def bootable_def Let_def split: prod.splits)

text \<open>The arguments of \<open>bootm\<close> for Linux.\<close>

definition is_linux :: "byte list \<Rightarrow> bool" where
  "is_linux b \<longleftrightarrow> ih_magic b = Some IH_MAGIC \<and> ih_type b = Some IH_TYPE_KERNEL \<and> ih_os b = Some IH_OS_LINUX"

definition linux_args :: "menu_t \<Rightarrow> byte list \<Rightarrow> byte list \<Rightarrow> byte list \<Rightarrow> boot_arg list" where
  "linux_args e b initrd dtb = [Arg ''bootm'', Address b]
     @ (if me_initrd e \<noteq> None then [Address initrd] else if me_dtb e \<noteq> None then [Arg ''-''] else [])
     @ (if me_dtb e \<noteq> None then [Address dtb] else [])"

subsection \<open>The way to a kernel\<close>

lemma serial_display:
  assumes "\<forall>w. getenv ctx ''stdout'' w = Some s" and "NUL \<notin> set s" and "s \<noteq> ''vga''"
  shows "menu_display ctx menu w = menu_display_serial ctx menu w"
proof -
  have "terminated (s @ [NUL])" "terminated (lit ''vga'')" by (simp_all add: terminated_def lit_def)
  from strcmp_cstr [OF this] assms(2,3) obtain d where "strcmp (s @ [NUL]) (lit ''vga'') = Some d" "d \<noteq> 0"
    by (auto simp: cstr_lit [unfolded lit_def] lit_def)
  with assms(1) show ?thesis by (simp add: menu_display_def)
qed

text \<open>
  The part of \<open>bootstrap\<close> before a kernel is started: the entry that was chosen, its device, and the world when
  they are known.
\<close>

definition boot_choice :: "'w context_t \<Rightarrow> string \<Rightarrow> 'w \<Rightarrow> (menu_t \<times> 'w boot_dev_t \<times> 'w) option" where
  "boot_choice ctx ver w = do {
     let w = video_clear ctx (snd (malloc ctx 12 w));
     let w = video_draw_text ctx 5 4 0 ('' Parthenope (ub2lb) version 0.'' @ ver) 80 w;
     (table, w) \<leftarrow> RdbPartitionTable_init ctx w;
     (boot, w) \<leftarrow> get_booting_device ctx w;
     (menu, boot, w) \<leftarrow> menu_load ctx table boot w;
     menu \<leftarrow> menu;
     (entry, w) \<leftarrow> menu_display ctx menu w;
     entry \<leftarrow> entry;
     guard (me_other entry = None);
     (boot, w) \<leftarrow> entry_device ctx table entry boot w;
     boot \<leftarrow> boot;
     Some (entry, boot, w)
   }"

lemma boot_choice_starts:
  assumes "boot_choice ctx ver w = Some (e, d, w')"
  shows "bootstrap ctx adr ver date m w = start_kernel ctx adr ver date m e d w'"
  using assms by (auto simp: boot_choice_def bootstrap_def case_prod_beta Let_def bind_eq_Some_conv guard_def split: if_splits)

end
