(* ===== verification/Boot_Files.thy ===== *)
theory Boot_Files
  imports Boot Sfs_Files Cdrom_Create
begin

text \<open>
  What the program calls between its uses of a device: memory and the screen. A device of U-Boot that keeps
  its state in the world has to survive these calls.
\<close>

inductive side_calls :: "'w context_t \<Rightarrow> 'w \<Rightarrow> 'w \<Rightarrow> bool" for ctx and w where
  side_refl: "side_calls ctx w w"
| side_malloc: "side_calls ctx w v \<Longrightarrow> side_calls ctx w (snd (malloc ctx n v))"
| side_clear: "side_calls ctx w v \<Longrightarrow> side_calls ctx w (video_clear ctx v)"
| side_box: "side_calls ctx w v \<Longrightarrow> side_calls ctx w (video_draw_box ctx st a t sp x y wd h v)"
| side_text: "side_calls ctx w v \<Longrightarrow> side_calls ctx w (video_draw_text ctx x y a t fl v)"
| side_repeat: "side_calls ctx w v \<Longrightarrow> side_calls ctx w (video_repeat_char ctx x y n c a v)"
| side_scroll: "side_calls ctx w v \<Longrightarrow> side_calls ctx w (snd (video_set_partial_scroll_limits ctx i j v))"

declare side_calls.intros [simp]

lemma side_trans: "side_calls ctx b c \<Longrightarrow> side_calls ctx a b \<Longrightarrow> side_calls ctx a c"
  by (induction rule: side_calls.induct) simp_all

lemma side_mallocD: "malloc ctx n w = (x, w') \<Longrightarrow> side_calls ctx w w'"
  using side_malloc [OF side_refl, of ctx w n] by simp

lemma side_progress [simp]: "side_calls ctx w v \<Longrightarrow> side_calls ctx w (set_progress ctx mx p v)"
  by (simp add: set_progress_def Let_def)

lemma side_screen: "boot_screen ctx e w = Some w' \<Longrightarrow> side_calls ctx w w'"
  by (auto simp: boot_screen_def bind_eq_Some_conv guard_def Let_def case_prod_beta split: if_splits)

text \<open>
  What booting needs of a device, as an interface: in a world where the device can be used, a file it holds is
  put into the buffer, its length returned, and the device can be used again, and it can after the calls
  above. Ext2 and SFS partitions, CDs and the network provide it; the kernel of an entry, the modules of
  AmigaOS and AROS and the RAM disk and device tree of Linux are loaded through it.
\<close>

locale boot_files =
  fixes ctx :: "'w context_t" and usable :: "'w boot_dev_t \<Rightarrow> 'w \<Rightarrow> bool" and holds :: "string \<Rightarrow> byte list \<Rightarrow> bool"
  assumes load_held: "usable d w \<Longrightarrow> holds f c \<Longrightarrow> length c \<le> length b
    \<Longrightarrow> \<exists>d' w'. dev_load_file ctx d f b w = Some ((int (length c), c @ drop (length c) b), d', w') \<and> usable d' w'"
  and side_usable: "usable d w \<Longrightarrow> side_calls ctx w w' \<Longrightarrow> usable d w'"

text \<open>A device without a state in the world: SFS partitions, CDs and the network.\<close>

locale static_files =
  fixes ctx :: "'w context_t" and usable :: "'w boot_dev_t \<Rightarrow> 'w \<Rightarrow> bool" and holds :: "string \<Rightarrow> byte list \<Rightarrow> bool"
  assumes static_load: "usable d w \<Longrightarrow> holds f c \<Longrightarrow> length c \<le> length b
    \<Longrightarrow> \<exists>d' w'. dev_load_file ctx d f b w = Some ((int (length c), c @ drop (length c) b), d', w') \<and> usable d' w'"
  and always_usable: "usable d w \<Longrightarrow> usable d w'"

sublocale static_files \<subseteq> boot_files ctx usable holds
proof
  show "usable d w \<Longrightarrow> holds f c \<Longrightarrow> length c \<le> length b
    \<Longrightarrow> \<exists>d' w'. dev_load_file ctx d f b w = Some ((int (length c), c @ drop (length c) b), d', w') \<and> usable d' w'"
    for d w f c b by (rule static_load)
  show "usable d w \<Longrightarrow> side_calls ctx w w' \<Longrightarrow> usable d w'" for d w w' by (rule always_usable)
qed

text \<open>A module as AmigaOS gets it.\<close>

definition aos_module_of :: "EntryObject \<Rightarrow> byte list \<Rightarrow> aos_module" where
  "aos_module_of mo c = \<lparr>am_name = eo_name mo, am_options = None, am_id = 2, am_flags = 3, am_address = c,
     am_size = of_nat (length c)\<rparr>"

text \<open>A kernel that is neither an image of U-Boot nor an ELF file, whatever the rest of its buffer holds.\<close>

definition raw_kernel :: "byte list \<Rightarrow> bool" where
  "raw_kernel k \<longleftrightarrow> 4 \<le> length k \<and> be32 k 0 \<noteq> Some IH_MAGIC \<and> be32 k 0 \<noteq> Some 0x7F454C46"

lemma raw_kernel_head:
  assumes "raw_kernel k"
  shows "be32 (k @ r) 0 = be32 k 0" "be32 k 0 \<noteq> None"
  using assms by (auto simp: raw_kernel_def be32_def nth_append)

lemma raw_not_elf:
  assumes "raw_kernel k"
  shows "\<not> check_header (place_block at' (k @ r) m) at'"
proof
  assume c: "check_header (place_block at' (k @ r) m) at'"
  have len: "4 \<le> length (k @ r)" and l: "4 \<le> length k" using assms by (simp_all add: raw_kernel_def)
  have "place_block at' (k @ r) m (at' + of_nat i) = k ! i" if "i < 4" for i
  proof -
    have "unat (of_nat i :: u32) = i" using that by (intro unat_small) simp
    with that l show ?thesis by (simp add: place_block_def nth_append)
  qed
  from this [of 0] this [of 1] this [of 2] this [of 3] c
  have "k ! 0 = 0x7F" "k ! 1 = 0x45" "k ! 2 = 0x4C" "k ! 3 = 0x46"
    by (simp_all add: check_header_def eh_ident_def split: if_splits)
  then have "be32 k 0 = Some (join32 0x7F 0x45 0x4C 0x46)" using l by (simp add: be32_def numeral_2_eq_2 numeral_3_eq_3)
  also have "join32 0x7F 0x45 0x4C 0x46 = 0x7F454C46" by (simp add: join32_def)
  finally have "be32 k 0 = Some 0x7F454C46" .
  with assms show False by (simp add: raw_kernel_def)
qed

context boot_files begin

text \<open>All modules are loaded, in order.\<close>

lemma modules_loaded:
  assumes alloc: "alloc_ok ctx"
  shows "usable d w \<Longrightarrow> list_all2 (\<lambda>mo c. holds (eo_name mo) c \<and> length c \<le> length b) mos cs
    \<Longrightarrow> \<exists>d' w'. aos_modules ctx mx i mos ms (b, d, w) = Some (Some (ms @ map2 aos_module_of mos cs), d', w') \<and> usable d' w'"
proof (induction mos arbitrary: cs i ms b d w)
  case (Cons mo mos)
  from Cons.prems(2) obtain c cs' where cs: "cs = c # cs'" and h: "holds (eo_name mo) c" "length c \<le> length b"
    and rest: "list_all2 (\<lambda>mo c. holds (eo_name mo) c \<and> length c \<le> length b) mos cs'"
    by (auto simp: list_all2_Cons1)
  define w0 where "w0 = video_draw_text ctx 7 9 0 (eo_name mo) 66 w"
  have "usable d w0" by (rule side_usable [OF Cons.prems(1)]) (simp add: w0_def)
  from load_held [OF this h] obtain d1 w1 where
    l: "dev_load_file ctx d (eo_name mo) b w0 = Some ((int (length c), c @ drop (length c) b), d1, w1)"
    and d1: "usable d1 w1" by blast
  define w2 where "w2 = snd (malloc ctx 36 w1)"
  define w3 where "w3 = snd (malloc ctx (int (length c)) w2)"
  have "length (fst (malloc ctx (int (length c)) w2)) = length c" using alloc by (simp add: alloc_ok_def)
  then have "memmove (fst (malloc ctx (int (length c)) w2)) 0 (c @ drop (length c) b) (length c) = Some c"
    by (simp add: memmove_def slice_def blit_def)
  then have step: "aos_modules ctx mx i (mo # mos) ms (b, d, w)
      = aos_modules ctx mx (i + 1) mos (ms @ [aos_module_of mo c])
          (c @ drop (length c) b, d1, set_progress ctx mx (i + 2) w3)"
    using l by (simp add: w0_def [symmetric] w2_def w3_def aos_module_of_def case_prod_beta)
  have d3: "usable d1 (set_progress ctx mx (i + 2) w3)" by (rule side_usable [OF d1]) (simp add: w2_def w3_def)
  have "length (c @ drop (length c) b) = length b" using h(2) by simp
  with rest have "list_all2 (\<lambda>mo c'. holds (eo_name mo) c' \<and> length c' \<le> length (c @ drop (length c) b)) mos cs'"
    by (simp del: length_append)
  from Cons.IH [OF d3 this, of "i + 1" "ms @ [aos_module_of mo c]"] show ?case unfolding step cs by simp
qed simp

text \<open>What is no ELF file is entered as a kernel of AmigaOS, with its modules.\<close>

lemma native_aos:
  assumes alloc: "alloc_ok ctx" and d: "usable d w" and "bootable e"
    and mods: "list_all2 (\<lambda>mo c. holds (eo_name mo) c \<and> length c \<le> 5242880) (me_modules e) cs"
    and len: "length krnl \<le> 2 ^ 32" and elf: "\<And>m'. \<not> check_header (place_block kat krnl m') kat"
  shows "\<exists>w'. boot_native ctx adr ver date m e kat krnl d w
    = Some (Enter (Jump_aos krnl (map2 aos_module_of (me_modules e) cs) (getenv ctx ''os4_commandline'' w')), w')"
proof -
  define w1 where "w1 = snd (malloc ctx 10485760 w)"
  obtain f where f: "me_kernel e = Some f" using assms(3) by (auto simp: bootable_def)
  obtain es where ar: "testboot_aros ctx adr ver date e kat krnl d (elf_init m) w = Some (Inl (krnl, d, es), w1)"
    using that elf f mem_bytes_place_block [OF len]
    by (simp add: testboot_aros_def load_elf_block_def load_elf_file_def case_prod_beta w1_def)
  define w2 where "w2 = snd (malloc ctx 12 w1)"
  from boot_screen_ok [OF assms(3), of ctx w2] obtain w3 where s: "boot_screen ctx e w2 = Some w3" by blast
  define w4 where "w4 = snd (malloc ctx 36 w3)"
  obtain b w5 where m5: "malloc ctx 5242880 w4 = (b, w5)" by force
  have "length (fst (malloc ctx 5242880 w4)) = 5242880" using alloc by (simp add: alloc_ok_def)
  then have "length b = 5242880" using m5 by simp
  with mods have b: "list_all2 (\<lambda>mo c. holds (eo_name mo) c \<and> length c \<le> length b) (me_modules e) cs" by simp
  have "side_calls ctx w4 w5" using m5 by (rule side_mallocD)
  moreover have "side_calls ctx w w4" using side_trans [OF side_screen [OF s], of w] by (simp add: w1_def w2_def w4_def)
  ultimately have "usable d w5" by (intro side_usable [OF d]) (rule side_trans)
  from modules_loaded [OF alloc this b, of "int (modules_cnt e) + 1" 0 "[]"] obtain d' w6 where
    "aos_modules ctx (int (modules_cnt e) + 1) 0 (me_modules e) [] (b, d, w5)
      = Some (Some (map2 aos_module_of (me_modules e) cs), d', w6)" by auto
  with s m5 have "testboot_aos ctx e krnl d w1
      = Some (Some (Jump_aos krnl (map2 aos_module_of (me_modules e) cs) (getenv ctx ''os4_commandline'' w6)), w6)"
    by (simp add: testboot_aos_def w2_def w4_def case_prod_beta)
  with ar show ?thesis by (auto simp: boot_native_def)
qed

lemma load_in_block:
  assumes "alloc_ok ctx" and "usable d w" and "holds f c" and "length c \<le> n"
  shows "\<exists>r d' w'. dev_load_file ctx d f (fst (malloc ctx (int n) w)) (snd (malloc ctx (int n) w))
    = Some ((int (length c), c @ r), d', w') \<and> usable d' w' \<and> length (c @ r) = n
      \<and> r = drop (length c) (fst (malloc ctx (int n) w))"
proof -
  have len: "length (fst (malloc ctx (int n) w)) = n" using assms(1) by (simp add: alloc_ok_def)
  then have "length c \<le> length (fst (malloc ctx (int n) w))" using assms(4) by simp
  from load_held [OF side_usable [OF assms(2) side_malloc [OF side_refl]] assms(3) this]
  obtain d' w' where "dev_load_file ctx d f (fst (malloc ctx (int n) w)) (snd (malloc ctx (int n) w))
    = Some ((int (length c), c @ drop (length c) (fst (malloc ctx (int n) w))), d', w')" "usable d' w'" by blast
  with len assms(4) show ?thesis by simp
qed

text \<open>An AmigaOS kernel is entered with its modules.\<close>

lemma aos_started:
  assumes alloc: "alloc_ok ctx" and "usable d w" and "bootable e" and k: "me_kernel e = Some f" "holds f k"
    and len: "length k \<le> 5242880" and raw: "raw_kernel k"
    and mods: "list_all2 (\<lambda>mo c. holds (eo_name mo) c \<and> length c \<le> 5242880) (me_modules e) cs"
  shows "\<exists>r w'. start_kernel ctx adr ver date m e d w
    = Some (Enter (Jump_aos (k @ r) (map2 aos_module_of (me_modules e) cs) (getenv ctx ''os4_commandline'' w')), w')"
proof -
  from load_in_block [OF alloc assms(2) k(2) len] obtain r d1 w2 where
    l: "dev_load_file ctx d f (fst (malloc ctx 5242880 w)) (snd (malloc ctx 5242880 w)) = Some ((int (length k), k @ r), d1, w2)"
    and d1: "usable d1 w2" and lk: "length (k @ r) = 5242880" by auto
  obtain v where v: "ih_magic (k @ r) = Some v" "v \<noteq> IH_MAGIC"
    using raw raw_kernel_head [OF raw] by (auto simp: ih_magic_def raw_kernel_def)
  obtain ty os where to: "ih_type (k @ r) = Some ty" "ih_os (k @ r) = Some os"
    using lk by (auto simp: ih_type_def ih_os_def load_def)
  have sl: "testboot_standalone ctx (k @ r) w2 = Some w2" "testboot_linux ctx e (k @ r) d1 w2 = Some (d1, w2)"
    using v to by (simp_all add: testboot_standalone_def testboot_linux_def)
  have "length (k @ r) \<le> 2 ^ 32" using lk by simp
  from native_aos [OF alloc d1 assms(3) mods this raw_not_elf [OF raw]] l sl k(1) show ?thesis
    by (simp add: start_kernel_def case_prod_beta Let_def) blast
qed

text \<open>
  A Linux image gets its initial RAM disk and its device tree, as far as the entry names them: the files
  are in the blocks whose addresses \<open>bootm\<close> gets.
\<close>

lemma linux_loaded:
  assumes alloc: "alloc_ok ctx"
    and d: "usable d (setenv ctx ''bootargs'' (case me_append e of Some a \<Rightarrow> a | None \<Rightarrow> []) w)" and lx: "is_linux krnl"
    and initrd: "\<forall>f. me_initrd e = Some f \<longrightarrow> holds f ci \<and> length ci \<le> 18874368"
    and dtb: "\<forall>f. me_dtb e = Some f \<longrightarrow> holds f cd \<and> length cd \<le> 1048576"
  shows "\<exists>ri rd d' w'. testboot_linux ctx e krnl d w
    = Some (d', snd (bootm ctx 0 (linux_args e krnl (ci @ ri) (cd @ rd)) w')) \<and> usable d' w'"
proof -
  note [simp] = Let_def case_prod_beta
  define w1 where "w1 = snd (malloc ctx 32 (setenv ctx ''bootargs'' (case me_append e of Some a \<Rightarrow> a | None \<Rightarrow> []) w))"
  have d: "usable d w1" unfolding w1_def using side_usable [OF d] by simp
  have m: "usable dv (snd (malloc ctx 32 v))" if "usable dv v" for dv v using side_usable [OF that] by simp
  have t: "\<exists>rd d' w'. dev_load_file ctx dev f (fst (malloc ctx 1048576 w)) (snd (malloc ctx 1048576 w))
      = Some ((int (length cd), cd @ rd), d', w') \<and> usable d' (snd (malloc ctx 32 w'))"
    if "usable dev w" and "me_dtb e = Some f" for dev f w
    using dtb load_in_block [OF alloc that(1), of f cd 1048576] that(2) m by fastforce
  show ?thesis
  proof (cases "me_initrd e")
    case None
    show ?thesis
    proof (cases "me_dtb e")
      case (Some f)
      from t [OF m [OF d] Some] obtain rd d' w' where
        "dev_load_file ctx d f (fst (malloc ctx 1048576 (snd (malloc ctx 32 w1)))) (snd (malloc ctx 1048576 (snd (malloc ctx 32 w1))))
          = Some ((int (length cd), cd @ rd), d', w')" "usable d' (snd (malloc ctx 32 w'))" by blast
      with None Some lx show ?thesis by (auto simp: testboot_linux_def is_linux_def w1_def linux_args_def)
    qed (use None lx d in \<open>auto simp: testboot_linux_def is_linux_def linux_args_def w1_def\<close>)
  next
    case i: (Some f)
    with initrd load_in_block [OF alloc d, of f ci 18874368] obtain ri d1 w2 where
      l: "dev_load_file ctx d f (fst (malloc ctx 18874368 w1)) (snd (malloc ctx 18874368 w1)) = Some ((int (length ci), ci @ ri), d1, w2)"
      and d1: "usable d1 w2" by auto
    show ?thesis
    proof (cases "me_dtb e")
      case (Some g)
      from t [OF m [OF d1] Some] obtain rd d' w' where
        "dev_load_file ctx d1 g (fst (malloc ctx 1048576 (snd (malloc ctx 32 w2)))) (snd (malloc ctx 1048576 (snd (malloc ctx 32 w2))))
          = Some ((int (length cd), cd @ rd), d', w')" "usable d' (snd (malloc ctx 32 w'))" by blast
      with i l Some lx show ?thesis by (auto simp: testboot_linux_def is_linux_def w1_def linux_args_def)
    qed (use i l m [OF d1] lx in \<open>auto simp: testboot_linux_def is_linux_def w1_def linux_args_def\<close>)
  qed
qed

text \<open>
  A kernel that is a Linux image is loaded and handed to \<open>bootm\<close>, given what \<open>testboot_linux\<close> does then;
  \<open>P\<close> is what is known of the device and the world before \<open>bootm\<close>.
\<close>

lemma linux_kernel_started:
  assumes alloc: "alloc_ok ctx" and "usable d w" and k: "me_kernel e = Some f" "holds f k" "length k \<le> 5242880" and lx: "is_linux k"
    and linux: "\<And>krnl d w. usable d w \<Longrightarrow> is_linux krnl \<Longrightarrow> \<exists>ri rd d' w'. testboot_linux ctx e krnl d w
      = Some (d', snd (bootm ctx 0 (linux_args e krnl (ci @ ri) (cd @ rd)) w')) \<and> P d' w'"
  shows "\<exists>kat r ri rd d' w'. start_kernel ctx adr ver date m e d w = boot_native ctx adr ver date m e kat (k @ r) d'
      (snd (bootm ctx 0 (linux_args e (k @ r) (ci @ ri) (cd @ rd)) w')) \<and> P d' w' \<and> is_linux (k @ r) \<and> length (k @ r) = 5242880"
proof -
  from load_in_block [OF alloc assms(2) k(2,3)] obtain r d1 w1 where
    l: "dev_load_file ctx d f (fst (malloc ctx 5242880 w)) (snd (malloc ctx 5242880 w)) = Some ((int (length k), k @ r), d1, w1)"
    and d1: "usable d1 w1" and lk: "length (k @ r) = 5242880" by auto
  have lx': "is_linux (k @ r)"
    using lx by (auto simp: is_linux_def ih_magic_def ih_type_def ih_os_def be32_def load_def nth_append split: if_splits)
  from lx' have "testboot_standalone ctx (k @ r) w1 = Some w1" by (simp add: testboot_standalone_def is_linux_def)
  moreover from linux [OF d1 lx'] obtain ri rd d' w' where
    "testboot_linux ctx e (k @ r) d1 w1 = Some (d', snd (bootm ctx 0 (linux_args e (k @ r) (ci @ ri) (cd @ rd)) w'))" "P d' w'"
    by blast
  ultimately have "start_kernel ctx adr ver date m e d w = boot_native ctx adr ver date m e (adr (snd (malloc ctx 5242880 w))) (k @ r) d'
    (snd (bootm ctx 0 (linux_args e (k @ r) (ci @ ri) (cd @ rd)) w')) \<and> P d' w'"
    using l k(1) by (simp add: start_kernel_def case_prod_beta Let_def)
  with lx' lk show ?thesis by blast
qed

end

text \<open>
  When \<open>bootm\<close> comes back from a Linux image, the image is entered as if it were a kernel of AmigaOS.
\<close>

context static_files begin

lemma image_entered_after_bootm:
  assumes alloc: "alloc_ok ctx" and "usable d w" and boot: "bootable e"
    and k: "me_kernel e = Some f" "holds f k" "length k \<le> 5242880" "is_linux k"
    and initrd: "\<forall>f. me_initrd e = Some f \<longrightarrow> holds f ci \<and> length ci \<le> 18874368"
    and dtb: "\<forall>f. me_dtb e = Some f \<longrightarrow> holds f cd \<and> length cd \<le> 1048576"
    and mods: "list_all2 (\<lambda>mo c. holds (eo_name mo) c \<and> length c \<le> 5242880) (me_modules e) cs"
  shows "\<exists>kat r ri rd d' w1 w'. start_kernel ctx adr ver date m e d w
      = boot_native ctx adr ver date m e kat (k @ r) d' (snd (bootm ctx 0 (linux_args e (k @ r) (ci @ ri) (cd @ rd)) w1))
    \<and> boot_native ctx adr ver date m e kat (k @ r) d' (snd (bootm ctx 0 (linux_args e (k @ r) (ci @ ri) (cd @ rd)) w1))
      = Some (Enter (Jump_aos (k @ r) (map2 aos_module_of (me_modules e) cs) (getenv ctx ''os4_commandline'' w')), w')"
proof -
  have lin: "\<exists>ri rd d' w'. testboot_linux ctx e krnl d w
      = Some (d', snd (bootm ctx 0 (linux_args e krnl (ci @ ri) (cd @ rd)) w')) \<and> usable d' w'"
    if "usable d w" "is_linux krnl" for krnl d w
    by (rule linux_loaded [OF alloc always_usable [OF that(1)] that(2) initrd dtb])
  from linux_kernel_started [where P = usable, OF alloc assms(2) k lin] obtain kat r ri rd d' w1 where
    s: "start_kernel ctx adr ver date m e d w
      = boot_native ctx adr ver date m e kat (k @ r) d' (snd (bootm ctx 0 (linux_args e (k @ r) (ci @ ri) (cd @ rd)) w1))"
    and d': "usable d' w1" and i: "is_linux (k @ r)" "length (k @ r) = 5242880" by blast
  have "\<not> check_header (place_block kat (k @ r) m') kat" for m'
    using i(1) by (intro image_not_elf) (simp add: is_linux_def)
  moreover have "length (k @ r) \<le> 2 ^ 32" using i(2) by simp
  ultimately have "\<exists>w'. boot_native ctx adr ver date m e kat (k @ r) d' (snd (bootm ctx 0 (linux_args e (k @ r) (ci @ ri) (cd @ rd)) w1))
      = Some (Enter (Jump_aos (k @ r) (map2 aos_module_of (me_modules e) cs) (getenv ctx ''os4_commandline'' w')), w')"
    by (intro native_aos [OF alloc always_usable [OF d'] boot mods])
  with s show ?thesis by blast
qed

end

subsection \<open>The devices\<close>

text \<open>The network.\<close>

definition net_holds :: "'w context_t \<Rightarrow> string \<Rightarrow> byte list \<Rightarrow> bool" where
  "net_holds ctx f c \<longleftrightarrow> (\<forall>b w. length c \<le> length b \<longrightarrow>
     (\<exists>w'. netloop ctx f b w = ((int (length c), c @ drop (length c) b), w')))"

lemma net_load:
  assumes "net_holds ctx f c" and "length c \<le> length b"
  shows "\<exists>w'. dev_load_file ctx Tftp_dev f b w = Some ((int (length c), c @ drop (length c) b), Tftp_dev, w')
    \<and> w' = snd (netloop ctx f b w)"
proof -
  from assms obtain w' where "netloop ctx f b w = ((int (length c), c @ drop (length c) b), w')"
    unfolding net_holds_def by blast
  then show ?thesis by (simp add: dev_load_file_def tftp_load_file_def)
qed

interpretation net: static_files ctx "\<lambda>d w. d = Tftp_dev" "net_holds ctx" for ctx :: "'w context_t"
proof
  fix d :: "'w boot_dev_t" and f c and b :: "byte list" and w :: 'w
  assume "d = Tftp_dev" "net_holds ctx f c" "length c \<le> length b"
  with net_load [of ctx f c b w] show "\<exists>d' w'. dev_load_file ctx d f b w
      = Some ((int (length c), c @ drop (length c) b), d', w') \<and> d' = Tftp_dev" by blast
qed

text \<open>
  The environment: \<open>bootargs\<close> has the value it was set to last, whatever was allocated, drawn or loaded over
  the network since. U-Boot may drop a variable that is set to the empty string.
\<close>

definition env_string :: "'w context_t \<Rightarrow> string \<Rightarrow> 'w \<Rightarrow> string" where
  "env_string ctx var w = (case getenv ctx var w of Some s \<Rightarrow> s | None \<Rightarrow> [])"

definition env_ok :: "'w context_t \<Rightarrow> bool" where
  "env_ok ctx \<longleftrightarrow> (\<forall>s w. env_string ctx ''bootargs'' (setenv ctx ''bootargs'' s w) = s)
     \<and> (\<forall>w w'. side_calls ctx w w' \<longrightarrow> env_string ctx ''bootargs'' w' = env_string ctx ''bootargs'' w)
     \<and> (\<forall>f b w. env_string ctx ''bootargs'' (snd (netloop ctx f b w)) = env_string ctx ''bootargs'' w)"

definition net_args :: "'w context_t \<Rightarrow> string \<Rightarrow> 'w boot_dev_t \<Rightarrow> 'w \<Rightarrow> bool" where
  "net_args ctx s d w \<longleftrightarrow> env_ok ctx \<and> d = Tftp_dev \<and> env_string ctx ''bootargs'' w = s"

interpretation net_env: boot_files ctx "net_args ctx s" "net_holds ctx" for ctx :: "'w context_t" and s
proof
  fix d :: "'w boot_dev_t" and f c and b :: "byte list" and w :: 'w
  assume u: "net_args ctx s d w" and "net_holds ctx f c" "length c \<le> length b"
  from net_load [OF this(2,3), of w] u
  show "\<exists>d' w'. dev_load_file ctx d f b w = Some ((int (length c), c @ drop (length c) b), d', w') \<and> net_args ctx s d' w'"
    by (auto simp: net_args_def env_ok_def)
next
  fix d :: "'w boot_dev_t" and w w' :: 'w
  assume "net_args ctx s d w" "side_calls ctx w w'"
  then show "net_args ctx s d w'" by (auto simp: net_args_def env_ok_def)
qed

text \<open>What Linux gets over the network, its command line included.\<close>

lemma net_linux:
  assumes alloc: "alloc_ok ctx" and env: "env_ok ctx" and lx: "is_linux krnl"
    and initrd: "\<forall>f. me_initrd e = Some f \<longrightarrow> net_holds ctx f ci \<and> length ci \<le> 18874368"
    and dtb: "\<forall>f. me_dtb e = Some f \<longrightarrow> net_holds ctx f cd \<and> length cd \<le> 1048576"
  shows "\<exists>ri rd w'. testboot_linux ctx e krnl Tftp_dev w
      = Some (Tftp_dev, snd (bootm ctx 0 (linux_args e krnl (ci @ ri) (cd @ rd)) w'))
    \<and> env_string ctx ''bootargs'' w' = (case me_append e of Some a \<Rightarrow> a | None \<Rightarrow> [])"
proof -
  have "net_args ctx (case me_append e of Some a \<Rightarrow> a | None \<Rightarrow> []) Tftp_dev
      (setenv ctx ''bootargs'' (case me_append e of Some a \<Rightarrow> a | None \<Rightarrow> []) w)"
    using env by (simp add: net_args_def env_ok_def)
  from net_env.linux_loaded [OF alloc this lx initrd dtb] show ?thesis by (auto simp: net_args_def)
qed

lemma net_linux_started:
  assumes alloc: "alloc_ok ctx" and env: "env_ok ctx"
    and k: "me_kernel e = Some f" "net_holds ctx f k" "length k \<le> 5242880" "is_linux k"
    and initrd: "\<forall>f. me_initrd e = Some f \<longrightarrow> net_holds ctx f ci \<and> length ci \<le> 18874368"
    and dtb: "\<forall>f. me_dtb e = Some f \<longrightarrow> net_holds ctx f cd \<and> length cd \<le> 1048576"
  shows "\<exists>kat r ri rd w'. start_kernel ctx adr ver date m e Tftp_dev w = boot_native ctx adr ver date m e kat (k @ r) Tftp_dev
      (snd (bootm ctx 0 (linux_args e (k @ r) (ci @ ri) (cd @ rd)) w'))
    \<and> env_string ctx ''bootargs'' w' = (case me_append e of Some a \<Rightarrow> a | None \<Rightarrow> [])
    \<and> is_linux (k @ r) \<and> length (k @ r) = 5242880"
proof -
  let ?P = "\<lambda>d' w'. d' = Tftp_dev \<and> env_string ctx ''bootargs'' w' = (case me_append e of Some a \<Rightarrow> a | None \<Rightarrow> [])"
  have "\<exists>ri rd d' w'. testboot_linux ctx e krnl d w
      = Some (d', snd (bootm ctx 0 (linux_args e krnl (ci @ ri) (cd @ rd)) w')) \<and> ?P d' w'"
    if "d = Tftp_dev" "is_linux krnl" for krnl d w
    using net_linux [OF alloc env that(2) initrd dtb, of w] that(1) by blast
  from net.linux_kernel_started [where P = ?P, OF alloc refl k this] show ?thesis by blast
qed

text \<open>An SFS partition with the root directory at block \<open>b\<close> and the extents at \<open>x\<close>.\<close>

definition sfs_usable :: "'w context_t \<Rightarrow> (u32 \<Rightarrow> byte list option) \<Rightarrow> u32 \<Rightarrow> u32 \<Rightarrow> 'w boot_dev_t \<Rightarrow> bool" where
  "sfs_usable ctx fs b x d \<longleftrightarrow> (\<exists>self. d = Sfs_dev self \<and> sfs_reads ctx self fs \<and> be32 (sd_root self) 16 = Some b
     \<and> sd_extentbnoderoot self = x)"

definition sfs_holds :: "(u32 \<Rightarrow> byte list option) \<Rightarrow> u32 \<Rightarrow> u32 \<Rightarrow> string \<Rightarrow> byte list \<Rightarrow> bool" where
  "sfs_holds fs b x f c \<longleftrightarrow> (\<exists>path ob first blks n.
     path_ok path \<and> hd path \<noteq> [] \<and> (f = join_path path \<or> f = CHR ''/'' # join_path path)
     \<and> lookup fs b path (Some ob) \<and> be32 (ob_fixed ob) 12 = Some first \<and> be32 (ob_fixed ob) 16 = Some (of_nat n)
     \<and> extents fs x first blks \<and> n \<le> length (concat blks) \<and> n < 2 ^ 31 \<and> c = take n (concat blks))"

interpretation sfs: static_files ctx "\<lambda>d w. sfs_usable ctx fs b x d" "sfs_holds fs b x" for ctx :: "'w context_t" and fs b x
proof
  fix d :: "'w boot_dev_t" and f c and buf :: "byte list" and w :: 'w
  assume "sfs_usable ctx fs b x d" "sfs_holds fs b x f c" and len: "length c \<le> length buf"
  then obtain self path ob first blks n where d: "d = Sfs_dev self" and
    a: "sfs_reads ctx self fs" "lookup fs b path (Some ob)" "path_ok path" "hd path \<noteq> []"
      "be32 (sd_root self) 16 = Some b" "f = join_path path \<or> f = CHR ''/'' # join_path path"
      "be32 (ob_fixed ob) 12 = Some first" "be32 (ob_fixed ob) 16 = Some (of_nat n)"
      "extents fs (sd_extentbnoderoot self) first blks" "n \<le> length (concat blks)" "n < 2 ^ 31"
    and c: "c = take n (concat blks)" unfolding sfs_usable_def sfs_holds_def by blast
  have n: "length c = n" using a(10) c by simp
  with len have "n \<le> length buf" by simp
  from sfs_loadfile_eq [OF a this, of w, folded c n] obtain w' where
    "sfs_loadfile ctx self f buf w = Some ((int (length c), c @ drop (length c) buf), w')" by (auto simp: n)
  with d \<open>sfs_usable ctx fs b x d\<close>
  show "\<exists>d' w'. dev_load_file ctx d f buf w = Some ((int (length c), c @ drop (length c) buf), d', w')
      \<and> sfs_usable ctx fs b x d'"
    by (simp add: dev_load_file_def)
qed

lemma partition_dev_sfs:
  assumes "sfs_partition ctx p fs b x" and "\<And>w. fst (ext2_create ctx p w) = None"
  shows "\<exists>d w'. partition_dev ctx p w = Some (Some d, w') \<and> sfs_usable ctx fs b x d"
proof -
  obtain w1 where "ext2_create ctx p w = (None, w1)" using assms(2) [of w] by (metis prod.collapse)
  with sfs_create_ok [OF assms(1), of w1] show ?thesis by (auto simp: partition_dev_def sfs_usable_def)
qed

lemma entry_device_sfs:
  assumes "me_device_type e = IDE_TYPE"
    and "RdbPartitionTable_get table (of_int (me_device_num e)) (of_int (me_partition e)) = Some p"
    and "sfs_partition ctx p fs b x" and "\<And>w. fst (ext2_create ctx p w) = None"
  shows "\<exists>d w'. entry_device ctx table e boot w = Some (Some d, w') \<and> sfs_usable ctx fs b x d"
  using partition_dev_sfs [OF assms(3,4), of w] assms(1,2) by (simp add: entry_device_def)

text \<open>
  An ext2 partition. The routines of U-Boot work on the partition that \<open>ext2fs_set_blk_dev_full\<close> selected last and
  keep what is mounted and open, all in the world; a view says how to see that in a world, and what is on
  the partitions: their length in blocks, as the selection returns it, and the contents of their files.
\<close>

record 'w ext2_view =
  ev_parts :: "'w block_dev_desc \<times> disk_partition_t \<Rightarrow> (int \<times> (string \<Rightarrow> byte list option)) option"
  ev_selected :: "'w \<Rightarrow> ('w block_dev_desc \<times> disk_partition_t) option"
  ev_mounted :: "'w \<Rightarrow> bool"
  ev_file :: "'w \<Rightarrow> string option"

text \<open>
  The driver: a selected ext2 partition is mounted when its length is given; only then a file of it is
  opened, or found to be missing; the file that is open is read; and the partition stays selected until
  another one is, whatever is opened, closed, allocated, drawn or put into the environment.
\<close>

definition selects :: "'w context_t \<Rightarrow> 'w ext2_view \<Rightarrow> bool" where
  "selects ctx V \<longleftrightarrow> (\<forall>d p n files w. ev_parts V (d, p) = Some (n, files) \<longrightarrow>
     (\<exists>w'. ext2fs_set_blk_dev_full ctx d p w = (n, w') \<and> ev_selected V w' = Some (d, p)))"

definition mounts :: "'w context_t \<Rightarrow> 'w ext2_view \<Rightarrow> bool" where
  "mounts ctx V \<longleftrightarrow> (\<forall>p n files w. ev_selected V w = Some p \<and> ev_parts V p = Some (n, files) \<longrightarrow>
     (\<exists>x w'. ext2fs_mount ctx (of_int n) w = (x, w') \<and> x \<noteq> 0 \<and> ev_selected V w' = Some p \<and> ev_mounted V w'))"

definition opens :: "'w context_t \<Rightarrow> 'w ext2_view \<Rightarrow> bool" where
  "opens ctx V \<longleftrightarrow> (\<forall>p n files f w. ev_selected V w = Some p \<and> ev_parts V p = Some (n, files) \<and> ev_mounted V w \<longrightarrow>
     (\<exists>x w'. ext2fs_open ctx f w = (x, w') \<and> ev_selected V w' = Some p
        \<and> (case files f of None \<Rightarrow> x < 0
           | Some c \<Rightarrow> length c < 2 ^ 31 \<longrightarrow> x = int (length c) \<and> ev_mounted V w' \<and> ev_file V w' = Some f)))"

definition reads :: "'w context_t \<Rightarrow> 'w ext2_view \<Rightarrow> bool" where
  "reads ctx V \<longleftrightarrow> (\<forall>p n files f c b w. ev_selected V w = Some p \<and> ev_parts V p = Some (n, files) \<and> ev_mounted V w
       \<and> ev_file V w = Some f \<and> files f = Some c \<and> length c < 2 ^ 31 \<and> length c \<le> length b \<longrightarrow>
     (\<exists>w'. ext2fs_read ctx b (int (length c)) w = ((int (length c), c @ drop (length c) b), w') \<and> ev_selected V w' = Some p))"

definition keeps :: "'w context_t \<Rightarrow> 'w ext2_view \<Rightarrow> bool" where
  "keeps ctx V \<longleftrightarrow> (\<forall>w. ev_selected V (ext2fs_close ctx w) = ev_selected V w)
     \<and> (\<forall>w w'. side_calls ctx w w' \<longrightarrow> ev_selected V w' = ev_selected V w)
     \<and> (\<forall>s w. ev_selected V (setenv ctx ''bootargs'' s w) = ev_selected V w)"

definition ext2_driver :: "'w context_t \<Rightarrow> 'w ext2_view \<Rightarrow> bool" where
  "ext2_driver ctx V \<longleftrightarrow> selects ctx V \<and> mounts ctx V \<and> opens ctx V \<and> reads ctx V \<and> keeps ctx V"

text \<open>A device for a partition of \<open>n\<close> blocks with the given files, which is the one selected.\<close>

definition ext2_usable ::
    "'w context_t \<Rightarrow> 'w ext2_view \<Rightarrow> int \<Rightarrow> (string \<Rightarrow> byte list option) \<Rightarrow> 'w boot_dev_t \<Rightarrow> 'w \<Rightarrow> bool" where
  "ext2_usable ctx V n files d w \<longleftrightarrow> ext2_driver ctx V \<and> (\<exists>this p. d = Ext2_dev this \<and> e2_part_length this = of_int n
     \<and> ev_selected V w = Some p \<and> ev_parts V p = Some (n, files))"

definition ext2_holds :: "(string \<Rightarrow> byte list option) \<Rightarrow> string \<Rightarrow> byte list \<Rightarrow> bool" where
  "ext2_holds files f c \<longleftrightarrow> files f = Some c \<and> length c < 2 ^ 31"

lemma ext2_usable_keeps:
  assumes "ext2_usable ctx V n files d w" and "ev_selected V w' = ev_selected V w"
  shows "ext2_usable ctx V n files d w'"
  using assms by (simp add: ext2_usable_def)

lemma ext2_usable_mounts:
  assumes "ext2_usable ctx V n files d w"
  obtains this p x w' where "d = Ext2_dev this" and "ev_selected V w = Some p" and "ev_parts V p = Some (n, files)"
    and "ext2fs_mount ctx (e2_part_length this) w = (x, w')" and "x \<noteq> 0" and "ev_selected V w' = Some p" and "ev_mounted V w'"
  using assms that unfolding ext2_usable_def ext2_driver_def mounts_def by metis

interpretation ext2: boot_files ctx "ext2_usable ctx V n files" "ext2_holds files" for ctx :: "'w context_t" and V n files
proof
  fix d :: "'w boot_dev_t" and f c and b :: "byte list" and w :: 'w
  assume u: "ext2_usable ctx V n files d w" and "ext2_holds files f c" and len: "length c \<le> length b"
  then have c: "files f = Some c" "length c < 2 ^ 31" by (simp_all add: ext2_holds_def)
  have dr: "opens ctx V" "reads ctx V" "keeps ctx V" using u by (simp_all add: ext2_usable_def ext2_driver_def)
  from u obtain this p x w1 where d: "d = Ext2_dev this" and p: "ev_selected V w = Some p" "ev_parts V p = Some (n, files)"
    and m: "ext2fs_mount ctx (e2_part_length this) w = (x, w1)" "x \<noteq> 0" "ev_selected V w1 = Some p" "ev_mounted V w1"
    by (rule ext2_usable_mounts)
  from dr(1) [unfolded opens_def, rule_format, of w1 p n files f] m p(2) c obtain w2 where
    o: "ext2fs_open ctx f w1 = (int (length c), w2)" "ev_selected V w2 = Some p" "ev_mounted V w2" "ev_file V w2 = Some f"
    by auto
  from dr(2) [unfolded reads_def, rule_format, of w2 p n files f c b] o p(2) c len obtain w3 where
    r: "ext2fs_read ctx b (int (length c)) w2 = ((int (length c), c @ drop (length c) b), w3)" "ev_selected V w3 = Some p"
    by auto
  have "ev_selected V (ext2fs_close ctx w3) = ev_selected V w" using dr(3) r(2) p(1) by (simp add: keeps_def)
  from ext2_usable_keeps [OF u this] m o r d
  show "\<exists>d' w'. dev_load_file ctx d f b w = Some ((int (length c), c @ drop (length c) b), d', w')
      \<and> ext2_usable ctx V n files d' w'"
    by (simp add: dev_load_file_def ext2_load_file_def)
next
  fix d :: "'w boot_dev_t" and w w' :: 'w
  assume u: "ext2_usable ctx V n files d w" and "side_calls ctx w w'"
  then have "ev_selected V w' = ev_selected V w" by (auto simp: ext2_usable_def ext2_driver_def keeps_def)
  with u show "ext2_usable ctx V n files d w'" by (rule ext2_usable_keeps)
qed

lemma ext2_missing:
  assumes u: "ext2_usable ctx V n files d w" and f: "files f = None"
  shows "\<exists>w'. dev_load_file ctx d f b w = Some ((-5, b), d, w') \<and> ext2_usable ctx V n files d w'"
proof -
  have dr: "opens ctx V" "keeps ctx V" using u by (simp_all add: ext2_usable_def ext2_driver_def)
  from u obtain this p x w1 where d: "d = Ext2_dev this" and p: "ev_selected V w = Some p" "ev_parts V p = Some (n, files)"
    and m: "ext2fs_mount ctx (e2_part_length this) w = (x, w1)" "x \<noteq> 0" "ev_selected V w1 = Some p" "ev_mounted V w1"
    by (rule ext2_usable_mounts)
  from dr(1) [unfolded opens_def, rule_format, of w1 p n files f] m p(2) f obtain y w2 where
    o: "ext2fs_open ctx f w1 = (y, w2)" "y < 0" "ev_selected V w2 = Some p" by auto
  have "ev_selected V (ext2fs_close ctx w2) = ev_selected V w" using dr(2) o(3) p(1) by (simp add: keeps_def)
  from ext2_usable_keeps [OF u this] m o d show ?thesis by (simp add: dev_load_file_def ext2_load_file_def)
qed

lemma ext2_setenv:
  assumes "ext2_usable ctx V n files d w"
  shows "ext2_usable ctx V n files d (setenv ctx ''bootargs'' s w)"
proof (rule ext2_usable_keeps [OF assms])
  show "ev_selected V (setenv ctx ''bootargs'' s w) = ev_selected V w"
    using assms by (simp add: ext2_usable_def ext2_driver_def keeps_def)
qed

definition ext2_partition ::
    "'w context_t \<Rightarrow> 'w ext2_view \<Rightarrow> int \<Rightarrow> (string \<Rightarrow> byte list option) \<Rightarrow> 'w RdbPartition \<Rightarrow> bool" where
  "ext2_partition ctx V n files p \<longleftrightarrow> ext2_driver ctx V \<and> (of_int n :: u32) \<noteq> 0
     \<and> ev_parts V (rp_dev_desc p, rp_info p) = Some (n, files)"

lemma partition_dev_ext2:
  assumes "ext2_partition ctx V n files p"
  shows "\<exists>d w'. partition_dev ctx p w = Some (Some d, w') \<and> ext2_usable ctx V n files d w'"
proof -
  let ?p = "(rp_dev_desc p, rp_info p)"
  from assms have n: "(of_int n :: u32) \<noteq> 0" "ev_parts V ?p = Some (n, files)" and dr: "ext2_driver ctx V"
    by (simp_all add: ext2_partition_def)
  then have k: "selects ctx V" "mounts ctx V" "keeps ctx V" by (simp_all add: ext2_driver_def)
  obtain w1 where s: "ext2fs_set_blk_dev_full ctx (rp_dev_desc p) (rp_info p) w = (n, w1)" "ev_selected V w1 = Some ?p"
    using k(1) n(2) unfolding selects_def by blast
  from k(2) [unfolded mounts_def, rule_format, of w1 ?p n files] s(2) n(2) obtain x w2 where
    m: "ext2fs_mount ctx (of_int n) w1 = (x, w2)" "x \<noteq> 0" "ev_selected V w2 = Some ?p" by auto
  define w3 where "w3 = snd (malloc ctx 20 (ext2fs_close ctx w2))"
  have "side_calls ctx (ext2fs_close ctx w2) w3" by (simp add: w3_def)
  with k(3) m(3) have "ev_selected V w3 = Some ?p" by (simp add: keeps_def)
  with s(1) m(1,2) n dr show ?thesis
    by (simp add: partition_dev_def ext2_create_def case_prod_beta ext2_usable_def w3_def [symmetric])
qed

text \<open>A CD without Rock Ridge names, with the root directory in \<open>s\<close> bytes at sector \<open>b\<close>.\<close>

definition cd_usable :: "'w context_t \<Rightarrow> byte list \<Rightarrow> nat \<Rightarrow> nat \<Rightarrow> nat \<Rightarrow> 'w boot_dev_t \<Rightarrow> bool" where
  "cd_usable ctx img N b s d \<longleftrightarrow> alloc_ok ctx \<and> (\<exists>this. d = Cdrom_dev this \<and> plain_disc this img N \<and> root_extent this b s)"

definition cd_holds :: "byte list \<Rightarrow> nat \<Rightarrow> nat \<Rightarrow> nat \<Rightarrow> string \<Rightarrow> byte list \<Rightarrow> bool" where
  "cd_holds img N b s f c \<longleftrightarrow> (\<exists>path blk sz.
     iso_path path \<and> (f = join_path path \<or> f = CHR ''/'' # join_path path)
     \<and> iso_lookup img N b s path (Some (blk, sz)) \<and> 2048 * blk + sz \<le> 2048 * N \<and> length img = 2048 * N
     \<and> c = take sz (drop (2048 * blk) img))"

interpretation cd: static_files ctx "\<lambda>d w. cd_usable ctx img N b s d" "cd_holds img N b s" for ctx :: "'w context_t" and img N b s
proof
  fix d :: "'w boot_dev_t" and f c and buf :: "byte list" and w :: 'w
  assume u: "cd_usable ctx img N b s d" and "cd_holds img N b s f c" and len: "length c \<le> length buf"
  then obtain this path blk sz where d: "d = Cdrom_dev this" and
    a: "alloc_ok ctx" "plain_disc this img N" "root_extent this b s" "iso_lookup img N b s path (Some (blk, sz))"
      "iso_path path" "f = join_path path \<or> f = CHR ''/'' # join_path path" "2048 * blk + sz \<le> 2048 * N"
    and img: "length img = 2048 * N" and c: "c = take sz (drop (2048 * blk) img)"
    unfolding cd_usable_def cd_holds_def by blast
  have n: "length c = sz" using a(7) c img by simp
  with len have "sz \<le> length buf" by simp
  from load_file_ok [OF a this, of w, folded c n] obtain this' w' where
    l: "fs_cdrom_load_file ctx this f buf w = Some ((int (length c), c @ drop (length c) buf), this', w')"
    and t: "same_disc this this'" "plain_disc this' img N" by (auto simp: n)
  have "root_extent this' b s" using a(3) t(1) by (simp add: root_extent_def same_disc_def)
  with d l t a(1) show "\<exists>d' w'. dev_load_file ctx d f buf w = Some ((int (length c), c @ drop (length c) buf), d', w')
      \<and> cd_usable ctx img N b s d'"
    by (auto simp: dev_load_file_def cd_usable_def)
qed

text \<open>A CD that has just been opened.\<close>

lemma cdrom_create_usable:
  assumes "alloc_ok ctx" and "fresh_ok ctx img N"
    and "start_unit_scan ctx get_scan_list (snd (start_unit_scan ctx [] w)) = ((hnd, bs), w1)"
    and "scanned ctx hnd w1 us" and "find is_cd us = Some h"
    and "cd_reads (ush_device h) img N" and "iso_disc img N b s" and "rock_ridge (sua_of img b) 0"
  shows "\<exists>boot w'. cdrom_create ctx w = Some (Some boot, w') \<and> cd_usable ctx img N b s (Cdrom_dev boot)"
  using cdrom_create_ok [OF assms] assms(1,6) by (auto simp: cd_usable_def plain_disc_def)

end
