(* ===== verification/Elf_Memory.thy ===== *)
theory Elf_Memory
  imports Elf
begin

text \<open>
  The memory of the ELF loader seen at natural numbers below \<open>2 ^ 32\<close>: what a field, a store, a copy and
  a clear mean byte by byte, without wrap-around, and the rounding of addresses to an alignment.
\<close>

definition spot :: "mem \<Rightarrow> nat \<Rightarrow> byte" where
  "spot m x = m (of_nat x)"

lemma word_diff_less:
  assumes "y < 2 ^ 32" and "d + unat n \<le> 2 ^ 32"
  shows "(of_nat y - of_nat d :: u32) < n \<longleftrightarrow> d \<le> y \<and> y < d + unat n"
proof (cases "d \<le> y")
  case True
  then have "of_nat y - of_nat d = (of_nat (y - d) :: u32)" by simp
  moreover have "unat (of_nat (y - d) :: u32) = y - d" using assms(1) by (intro unat_small) simp
  ultimately have "(of_nat y - of_nat d :: u32) < n \<longleftrightarrow> y - d < unat n" by (simp only: word_less_nat_alt)
  with True show ?thesis by auto
next
  case False
  have "of_nat y - of_nat d = (of_nat (y + 2 ^ 32 - d) :: u32)"
  proof -
    have "(of_nat (y + 2 ^ 32 - d) :: u32) = of_nat (y + 2 ^ 32) - of_nat d"
      using False assms(2) by (intro of_nat_diff) simp
    also have "of_nat (y + 2 ^ 32) = (of_nat y :: u32)" by (simp add: of_nat_power)
    finally show ?thesis by simp
  qed
  moreover have "unat (of_nat (y + 2 ^ 32 - d) :: u32) = y + 2 ^ 32 - d" using False assms by (intro unat_small) simp
  ultimately have "(of_nat y - of_nat d :: u32) < n \<longleftrightarrow> y + 2 ^ 32 - d < unat n" by (simp only: word_less_nat_alt)
  with False assms(2) show ?thesis by auto
qed

subsection \<open>Copies and clears\<close>

lemma spot_move:
  assumes "d + unat n \<le> 2 ^ 32" and "unat n < 2 ^ 31"
  obtains m' where "mem_move (of_nat d) (of_nat s) n m = Some m'"
    and "\<And>y. y < 2 ^ 32 \<Longrightarrow> spot m' y = (if d \<le> y \<and> y < d + unat n then spot m (s + (y - d)) else spot m y)"
proof
  let ?m = "\<lambda>a. if a - of_nat d < n then m (of_nat s + (a - of_nat d)) else m a"
  show "mem_move (of_nat d) (of_nat s) n m = Some ?m"
    using assms(2) by (simp add: mem_move_def word_less_nat_alt)
  fix y :: nat assume y: "y < 2 ^ 32"
  have "of_nat s + (of_nat y - of_nat d) = (of_nat (s + (y - d)) :: u32)" if "d \<le> y" using that by simp
  with word_diff_less [OF y assms(1)]
  show "spot ?m y = (if d \<le> y \<and> y < d + unat n then spot m (s + (y - d)) else spot m y)"
    unfolding spot_def by (auto simp: add_diff_eq)
qed

lemma spot_bzero:
  assumes "d + unat n \<le> 2 ^ 32" and "unat n < 2 ^ 31"
  obtains m' where "mem_bzero (of_nat d) n m = Some m'"
    and "\<And>y. y < 2 ^ 32 \<Longrightarrow> spot m' y = (if d \<le> y \<and> y < d + unat n then 0 else spot m y)"
proof
  let ?m = "\<lambda>a. if a - of_nat d < n then 0 else m a"
  show "mem_bzero (of_nat d) n m = Some ?m"
    using assms(2) by (simp add: mem_bzero_def word_less_nat_alt)
  fix y :: nat assume y: "y < 2 ^ 32"
  from word_diff_less [OF y assms(1)]
  show "spot ?m y = (if d \<le> y \<and> y < d + unat n then 0 else spot m y)"
    unfolding spot_def by auto
qed

subsection \<open>Fields\<close>

lemma ld32_spot: "ld32 m (of_nat x) = join32 (spot m x) (spot m (x + 1)) (spot m (x + 2)) (spot m (x + 3))"
  by (simp add: ld32_def spot_def add.commute)

lemma ld16_spot: "ld16 m (of_nat x) = join16 (spot m x) (spot m (x + 1))"
  by (simp add: ld16_def spot_def add.commute)

lemma ld32_cong: "(\<And>y. x \<le> y \<Longrightarrow> y < x + 4 \<Longrightarrow> spot m y = spot m' y) \<Longrightarrow> ld32 m (of_nat x) = ld32 m' (of_nat x)"
  by (simp add: ld32_spot)

lemma ld16_cong: "(\<And>y. x \<le> y \<Longrightarrow> y < x + 2 \<Longrightarrow> spot m y = spot m' y) \<Longrightarrow> ld16 m (of_nat x) = ld16 m' (of_nat x)"
  by (simp add: ld16_spot)

lemma ld32_st32 [simp]: "ld32 (st32 m a w) a = w"
  by (simp add: ld32_def st32_def join32_split32 fun_upd_apply)

lemma ld16_st16 [simp]: "ld16 (st16 m a w) a = w"
  by (simp add: ld16_def st16_def join16_split16)

lemma st16_st16 [simp]: "st16 (st16 m a v) a w = st16 m a w"
  by (simp add: st16_def fun_upd_twist)

lemma st32_st32 [simp]: "st32 (st32 m a v) a w = st32 m a w"
  by (rule ext) (simp add: st32_def)

lemma spot_st32:
  assumes "x + 4 \<le> 2 ^ 32" and "y < 2 ^ 32"
  shows "spot (st32 m (of_nat x) w) y = (if x \<le> y \<and> y < x + 4 then split32 w ! (y - x) else spot m y)"
proof -
  have eq: "(of_nat y :: u32) = of_nat x + of_nat k \<longleftrightarrow> y = x + k" if "k < 4" for k
  proof -
    have "of_nat x + of_nat k = (of_nat (x + k) :: u32)" by simp
    moreover have "unat (of_nat (x + k) :: u32) = x + k" "unat (of_nat y :: u32) = y"
      using assms that by (intro unat_small; simp)+
    ultimately show ?thesis by (metis (no_types))
  qed
  from eq [of 0] eq [of 1] eq [of 2] eq [of 3]
  have "(of_nat y :: u32) = of_nat x \<longleftrightarrow> y = x" "(of_nat y :: u32) = of_nat x + 1 \<longleftrightarrow> y = x + 1"
    "(of_nat y :: u32) = of_nat x + 2 \<longleftrightarrow> y = x + 2" "(of_nat y :: u32) = of_nat x + 3 \<longleftrightarrow> y = x + 3"
    by simp_all
  moreover consider "y < x" | "y = x" | "y = x + 1" | "y = x + 2" | "y = x + 3" | "x + 4 \<le> y" by linarith
  ultimately show ?thesis
    by cases (simp_all add: spot_def st32_def split32_def)
qed

lemma spot_set_sh_addr:
  assumes "s + 16 \<le> 2 ^ 32" and "y < 2 ^ 32" and "y < s + 12 \<or> s + 16 \<le> y"
  shows "spot (set_sh_addr m (of_nat s) a) y = spot m y"
  using spot_st32 [of "s + 12" y m a] assms by (simp add: set_sh_addr_def add.commute) auto

lemma sh_addr_set [simp]: "sh_addr (set_sh_addr m s a) s = a"
  by (simp add: sh_addr_def set_sh_addr_def)

subsection \<open>Alignment\<close>

lemma align_down:
  assumes "al = 2 ^ e" and "x < 2 ^ 32" and "e < 32"
  shows "(of_nat x :: u32) AND NOT (of_nat al - 1) = of_nat (x div al * al)"
proof -
  have m: "of_nat al - 1 = (mask e :: u32)" unfolding assms(1) by (simp add: mask_eq_exp_minus_1)
  have "(of_nat x :: u32) AND NOT (mask e) = push_bit e (drop_bit e (of_nat x))"
    by (rule bit_eqI) (auto simp: bit_simps)
  also have "\<dots> = of_nat (x div al * al)"
  proof -
    have "push_bit e (drop_bit e (of_nat x :: u32)) = of_nat (push_bit e (drop_bit e x))"
      using assms(2) by (intro bit_eqI) (auto simp: bit_simps)
    then show ?thesis by (simp add: assms(1) push_bit_eq_mult drop_bit_eq_div)
  qed
  finally show ?thesis unfolding m .
qed

end
