(* ===== verification/Elf_Load.thy ===== *)
theory Elf_Load
  imports Elf_Memory
begin

text \<open>
  Loading the sections of an ELF file: where each section goes, as natural numbers, and the proof that
  the loader puts it there, that no two sections overlap, and that nothing else in memory changes.
\<close>

subsection \<open>The layout\<close>

record sec_t =
  sc_type :: u32
  sc_flags :: u32
  sc_offset :: nat
  sc_size :: nat
  sc_align :: nat

definition head_at :: "nat \<Rightarrow> nat \<Rightarrow> nat" where
  "head_at H i = H + 40 * i"

definition sec_of :: "mem \<Rightarrow> nat \<Rightarrow> nat \<Rightarrow> sec_t" where
  "sec_of m H i = (let s = of_nat (head_at H i) in
     \<lparr>sc_type = sh_type m s, sc_flags = sh_flags m s, sc_offset = unat (sh_offset m s),
      sc_size = unat (sh_size m s), sc_align = unat (sh_addralign m s)\<rparr>)"

definition is_table :: "sec_t \<Rightarrow> bool" where
  "is_table s \<longleftrightarrow> sc_type s = SHT_SYMTAB \<or> sc_type s = SHT_STRTAB"

text \<open>A hunk is a section that gets memory of its own.\<close>

definition is_hunk :: "sec_t \<Rightarrow> bool" where
  "is_hunk s \<longleftrightarrow> \<not> is_table s \<and> sc_flags s AND SHF_ALLOC \<noteq> 0 \<and> sc_size s \<noteq> 0"

definition writable :: "sec_t \<Rightarrow> bool" where
  "writable s \<longleftrightarrow> sc_flags s AND SHF_WRITE \<noteq> 0"

definition is_bss :: "sec_t \<Rightarrow> bool" where
  "is_bss s \<longleftrightarrow> is_hunk s \<and> sc_type s = SHT_NOBITS"

text \<open>
  The address of a hunk, from the upper end \<open>ro\<close> and the lower end \<open>rw\<close> of what is taken, and the new
  ends.
\<close>

definition place :: "sec_t \<Rightarrow> nat \<times> nat \<Rightarrow> nat \<times> nat \<times> nat" where
  "place s = (\<lambda>(ro, rw).
     if writable s
     then (let a = (rw + 1 - (sc_size s + sc_align s)) div sc_align s * sc_align s in (a, ro, a))
     else (let a = (ro + sc_align s - 1) div sc_align s * sc_align s in (a, a + sc_size s, rw)))"

primrec bounds :: "(nat \<Rightarrow> sec_t) \<Rightarrow> nat \<times> nat \<Rightarrow> nat \<Rightarrow> nat \<times> nat" where
  "bounds secs B 0 = B"
| "bounds secs B (Suc i) = (if is_hunk (secs i) then snd (place (secs i) (bounds secs B i)) else bounds secs B i)"

definition hunk_addr :: "(nat \<Rightarrow> sec_t) \<Rightarrow> nat \<times> nat \<Rightarrow> nat \<Rightarrow> nat" where
  "hunk_addr secs B i = fst (place (secs i) (bounds secs B i))"

text \<open>The bytes of hunk \<open>i\<close>.\<close>

definition hunk_range :: "(nat \<Rightarrow> sec_t) \<Rightarrow> nat \<times> nat \<Rightarrow> nat \<Rightarrow> nat set" where
  "hunk_range secs B i = {hunk_addr secs B i ..< hunk_addr secs B i + sc_size (secs i)}"

text \<open>A hunk that can be placed: its alignment is a power of two and it fits into the address space.\<close>

definition hunk_ok :: "(nat \<Rightarrow> sec_t) \<Rightarrow> nat \<times> nat \<Rightarrow> nat \<Rightarrow> bool" where
  "hunk_ok secs B i \<longleftrightarrow> (\<exists>e < 32. sc_align (secs i) = 2 ^ e) \<and> sc_size (secs i) < 2 ^ 31
     \<and> (if writable (secs i) then sc_size (secs i) + sc_align (secs i) \<le> snd (bounds secs B i) + 1
        else fst (bounds secs B i) + sc_align (secs i) + sc_size (secs i) \<le> 2 ^ 32)"

lemma place_writable:
  assumes "writable s" and "0 < sc_align s" and "sc_size s + sc_align s \<le> rw + 1" and "place s (ro, rw) = (a, ro', rw')"
  shows "ro' = ro" "rw' = a" "a + sc_size s \<le> rw" "sc_align s dvd a"
proof -
  have a: "a = (rw + 1 - (sc_size s + sc_align s)) div sc_align s * sc_align s"
    and e: "ro' = ro" "rw' = a" using assms(1,4) by (auto simp: place_def Let_def)
  have "a \<le> rw + 1 - (sc_size s + sc_align s)" unfolding a by simp
  with assms(2,3) show "a + sc_size s \<le> rw" by linarith
  show "ro' = ro" "rw' = a" "sc_align s dvd a" using e a by simp_all
qed

lemma place_readonly:
  assumes "\<not> writable s" and "0 < sc_align s" and "place s (ro, rw) = (a, ro', rw')"
  shows "rw' = rw" "ro' = a + sc_size s" "ro \<le> a" "a < ro + sc_align s" "sc_align s dvd a"
proof -
  have a: "a = (ro + sc_align s - 1) div sc_align s * sc_align s"
    and e: "ro' = a + sc_size s" "rw' = rw" using assms(1,3) by (auto simp: place_def Let_def)
  have "a = (ro + sc_align s - 1) - (ro + sc_align s - 1) mod sc_align s" unfolding a by (rule minus_mod_eq_div_mult [symmetric])
  moreover have "(ro + sc_align s - 1) mod sc_align s < sc_align s" using assms(2) by simp
  ultimately show "ro \<le> a" "a < ro + sc_align s" using assms(2) by linarith+
  show "rw' = rw" "ro' = a + sc_size s" "sc_align s dvd a" using e a by simp_all
qed

text \<open>Where the hunks of a layout are: writable ones between the ends below, the others above.\<close>

lemma bounds_mono:
  assumes "\<forall>j < n. is_hunk (secs j) \<longrightarrow> hunk_ok secs B j" and "i \<le> n"
  shows "fst B \<le> fst (bounds secs B i)" "snd (bounds secs B i) \<le> snd B"
    "\<And>j. j < i \<Longrightarrow> is_hunk (secs j) \<Longrightarrow> if writable (secs j)
      then snd (bounds secs B i) \<le> hunk_addr secs B j \<and> hunk_addr secs B j + sc_size (secs j) \<le> snd (bounds secs B j)
      else fst (bounds secs B j) \<le> hunk_addr secs B j \<and> hunk_addr secs B j + sc_size (secs j) \<le> fst (bounds secs B i)"
proof -
  have "fst B \<le> fst (bounds secs B i) \<and> snd (bounds secs B i) \<le> snd B \<and>
    (\<forall>j < i. is_hunk (secs j) \<longrightarrow> (if writable (secs j)
      then snd (bounds secs B i) \<le> hunk_addr secs B j \<and> hunk_addr secs B j + sc_size (secs j) \<le> snd (bounds secs B j)
      else fst (bounds secs B j) \<le> hunk_addr secs B j \<and> hunk_addr secs B j + sc_size (secs j) \<le> fst (bounds secs B i)))"
    using assms(2)
  proof (induction i)
    case (Suc i)
    show ?case
    proof (cases "is_hunk (secs i)")
      case True
      with assms(1) Suc.prems have ok: "hunk_ok secs B i" by simp
      obtain ro rw where b: "bounds secs B i = (ro, rw)" by force
      obtain a ro' rw' where p: "place (secs i) (ro, rw) = (a, ro', rw')" by (rule prod_cases3)
      have al: "0 < sc_align (secs i)" using ok by (auto simp: hunk_ok_def)
      have h: "hunk_addr secs B i = a" "bounds secs B (Suc i) = (ro', rw')"
        using True b p by (simp_all add: hunk_addr_def)
      show ?thesis
      proof (cases "writable (secs i)")
        case w: True
        with ok b have "sc_size (secs i) + sc_align (secs i) \<le> rw + 1" by (simp add: hunk_ok_def)
        note pw = place_writable [OF w al this p]
        show ?thesis
          using Suc pw h b by (auto simp: less_Suc_eq w split: if_splits)
      next
        case w: False
        note pr = place_readonly [OF w al p]
        show ?thesis
          using Suc pr h b by (auto simp: less_Suc_eq w split: if_splits)
      qed
    next
      case False
      with Suc show ?thesis by (auto simp: less_Suc_eq)
    qed
  qed simp
  then show "fst B \<le> fst (bounds secs B i)" "snd (bounds secs B i) \<le> snd B"
    "\<And>j. j < i \<Longrightarrow> is_hunk (secs j) \<Longrightarrow> if writable (secs j)
      then snd (bounds secs B i) \<le> hunk_addr secs B j \<and> hunk_addr secs B j + sc_size (secs j) \<le> snd (bounds secs B j)
      else fst (bounds secs B j) \<le> hunk_addr secs B j \<and> hunk_addr secs B j + sc_size (secs j) \<le> fst (bounds secs B i)"
    by blast+
qed

text \<open>Two hunks never overlap.\<close>

lemma hunk_disjoint_before:
  assumes "\<forall>j < n. is_hunk (secs j) \<longrightarrow> hunk_ok secs B j" and "snd B \<le> fst B"
    and "j < i" and "i < n" and "is_hunk (secs j)" and "is_hunk (secs i)"
  shows "hunk_range secs B j \<inter> hunk_range secs B i = {}"
proof -
  have i: "Suc i \<le> n" "j < Suc i" "i < Suc i" using assms(3,4) by auto
  note m = bounds_mono [OF assms(1), of i] bounds_mono [OF assms(1), of j]
  from m(3) [of j] assms(3,4,5) have j: "if writable (secs j)
      then snd (bounds secs B i) \<le> hunk_addr secs B j \<and> hunk_addr secs B j + sc_size (secs j) \<le> snd (bounds secs B j)
      else fst (bounds secs B j) \<le> hunk_addr secs B j \<and> hunk_addr secs B j + sc_size (secs j) \<le> fst (bounds secs B i)"
    by simp
  from bounds_mono(3) [OF assms(1) i(1,3) assms(6)] have k: "if writable (secs i)
      then hunk_addr secs B i + sc_size (secs i) \<le> snd (bounds secs B i)
      else fst (bounds secs B i) \<le> hunk_addr secs B i"
    by (auto split: if_splits)
  show ?thesis
    using j k m(1,2,4,5) assms(2-4) unfolding hunk_range_def by (auto split: if_splits)
qed

lemma hunks_disjoint:
  assumes "\<forall>j < n. is_hunk (secs j) \<longrightarrow> hunk_ok secs B j" and "snd B \<le> fst B"
    and "j < n" and "i < n" and "i \<noteq> j" and "is_hunk (secs j)" and "is_hunk (secs i)"
  shows "hunk_range secs B j \<inter> hunk_range secs B i = {}"
proof (cases "j < i")
  case True
  with assms show ?thesis by (intro hunk_disjoint_before)
next
  case False
  with assms have "hunk_range secs B i \<inter> hunk_range secs B j = {}" by (intro hunk_disjoint_before [of n]) auto
  then show ?thesis by auto
qed

lemma hunk_below:
  assumes "\<forall>j < n. is_hunk (secs j) \<longrightarrow> hunk_ok secs B j" and "snd B \<le> fst B" and "fst B \<le> 2 ^ 32"
    and "i < n" and "is_hunk (secs i)"
  shows "hunk_addr secs B i + sc_size (secs i) \<le> 2 ^ 32"
proof -
  obtain ro rw where b: "bounds secs B i = (ro, rw)" by force
  obtain a ro' rw' where p: "place (secs i) (ro, rw) = (a, ro', rw')" by (rule prod_cases3)
  have ok: "hunk_ok secs B i" using assms by simp
  then have al: "0 < sc_align (secs i)" by (auto simp: hunk_ok_def)
  have m: "rw \<le> snd B" using bounds_mono(2) [OF assms(1), of i] assms(4) b by simp
  show ?thesis
  proof (cases "writable (secs i)")
    case True
    with ok b have "sc_size (secs i) + sc_align (secs i) \<le> rw + 1" by (simp add: hunk_ok_def)
    from place_writable(3) [OF True al this p] m assms(2,3) b p show ?thesis by (simp add: hunk_addr_def)
  next
    case False
    from place_readonly(4) [OF False al p] ok False b p show ?thesis by (simp add: hunk_addr_def hunk_ok_def)
  qed
qed

lemma hunk_aligned:
  assumes "hunk_ok secs B i"
  shows "sc_align (secs i) dvd hunk_addr secs B i"
  by (simp add: hunk_addr_def place_def Let_def split: prod.splits)

subsection \<open>What the memory holds\<close>

definition hunk_byte :: "mem \<Rightarrow> nat \<Rightarrow> sec_t \<Rightarrow> nat \<Rightarrow> byte" where
  "hunk_byte m F s k = (if sc_type s = SHT_NOBITS then 0 else spot m (F + sc_offset s + k))"

definition final_addr :: "mem \<Rightarrow> nat \<Rightarrow> nat \<Rightarrow> nat \<times> nat \<Rightarrow> nat \<Rightarrow> u32" where
  "final_addr m F H B i = (let s = sec_of m H i in
     if is_table s then of_nat (F + sc_offset s)
     else if is_hunk s then of_nat (hunk_addr (sec_of m H) B i)
     else sh_addr m (of_nat (head_at H i)))"

text \<open>The bytes of the field \<open>addr\<close> of header \<open>i\<close>.\<close>

definition addr_field :: "nat \<Rightarrow> nat \<Rightarrow> nat set" where
  "addr_field H i = {head_at H i + 12 ..< head_at H i + 16}"

text \<open>
  The memory \<open>m'\<close> after the first \<open>i\<close> sections of the file at \<open>F\<close> in the memory \<open>m\<close>: every hunk at its
  place, its address in its header, and everything else as it was.
\<close>

definition mem_loaded :: "mem \<Rightarrow> nat \<Rightarrow> nat \<Rightarrow> nat \<times> nat \<Rightarrow> nat \<Rightarrow> mem \<Rightarrow> bool" where
  "mem_loaded m F H B i m' \<longleftrightarrow>
     (\<forall>j < i. sh_addr m' (of_nat (head_at H j)) = final_addr m F H B j)
     \<and> (\<forall>j < i. is_hunk (sec_of m H j) \<longrightarrow> (\<forall>k < sc_size (sec_of m H j).
          spot m' (hunk_addr (sec_of m H) B j + k) = hunk_byte m F (sec_of m H j) k))
     \<and> (\<forall>y < 2 ^ 32. (\<forall>j < i. y \<notin> addr_field H j \<and> (is_hunk (sec_of m H j) \<longrightarrow> y \<notin> hunk_range (sec_of m H) B j))
          \<longrightarrow> spot m' y = spot m y)"

text \<open>
  A file that can be loaded: \<open>L\<close> bytes at \<open>F\<close>, with the table of its \<open>n\<close> section headers at \<open>H\<close> behind
  the ELF header; contents of sections are in the file and not in the table; and the places of the hunks
  are outside the file.
\<close>

definition loadable :: "mem \<Rightarrow> nat \<Rightarrow> nat \<Rightarrow> nat \<Rightarrow> nat \<Rightarrow> nat \<times> nat \<Rightarrow> bool" where
  "loadable m F L H n B \<longleftrightarrow>
     F + L \<le> 2 ^ 32 \<and> F + 52 \<le> H \<and> H + 40 * n \<le> F + L \<and> unat (eh_shnum m (of_nat F)) = n
     \<and> snd B \<le> fst B \<and> fst B \<le> 2 ^ 32
     \<and> (\<forall>i < n. is_hunk (sec_of m H i) \<longrightarrow>
          hunk_ok (sec_of m H) B i \<and> hunk_range (sec_of m H) B i \<inter> {F ..< F + L} = {}
          \<and> (sc_type (sec_of m H i) \<noteq> SHT_NOBITS \<longrightarrow>
               sc_offset (sec_of m H i) + sc_size (sec_of m H i) \<le> L
               \<and> (F + sc_offset (sec_of m H i) + sc_size (sec_of m H i) \<le> H
                  \<or> H + 40 * n \<le> F + sc_offset (sec_of m H i))))"

lemma loadable_hunks: "loadable m F L H n B \<Longrightarrow> \<forall>i < n. is_hunk (sec_of m H i) \<longrightarrow> hunk_ok (sec_of m H) B i"
  by (simp add: loadable_def)

lemma addr_field_file:
  assumes "loadable m F L H n B" and "i < n" and "y \<in> addr_field H i"
  shows "H \<le> y" "y < H + 40 * n" "F \<le> y" "y < F + L" "y < 2 ^ 32"
proof -
  have "40 * i + 40 \<le> 40 * n" using assms(2) by simp
  then show "H \<le> y" "y < H + 40 * n" "F \<le> y" "y < F + L" "y < 2 ^ 32"
    using assms unfolding loadable_def addr_field_def head_at_def by auto
qed

lemma head_not_addr_field:
  assumes "d < 40" and "d < 12 \<or> 16 \<le> d"
  shows "head_at H i + d \<notin> addr_field H j"
proof
  assume "head_at H i + d \<in> addr_field H j"
  then have "40 * j + 12 \<le> 40 * i + d" "40 * i + d < 40 * j + 16" by (auto simp: addr_field_def head_at_def)
  moreover from this assms(1) have "i = j" by linarith
  ultimately show False using assms by simp
qed

text \<open>A byte of the file that is not the address of a section is never changed.\<close>

lemma mem_loaded_file:
  assumes "loadable m F L H n B" and "mem_loaded m F H B i m'" and "i \<le> n"
    and "F \<le> y" and "y < F + L" and "\<forall>j < n. y \<notin> addr_field H j"
  shows "spot m' y = spot m y"
proof -
  have "y \<notin> hunk_range (sec_of m H) B j" if "j < i" "is_hunk (sec_of m H j)" for j
  proof -
    have "hunk_range (sec_of m H) B j \<inter> {F ..< F + L} = {}"
      using assms(1,3) that by (simp add: loadable_def)
    then show ?thesis using assms(4,5) by auto
  qed
  moreover have "y < 2 ^ 32" using assms(1,5) by (simp add: loadable_def)
  ultimately show ?thesis using assms(2,3,6) by (auto simp: mem_loaded_def)
qed

lemma mem_loaded_header:
  assumes "loadable m F L H n B" and "mem_loaded m F H B i m'" and "i \<le> n" and "j < n"
    and "d < 40" and "d < 12 \<or> 16 \<le> d"
  shows "spot m' (head_at H j + d) = spot m (head_at H j + d)"
proof (rule mem_loaded_file [OF assms(1-3)])
  have "40 * j + 40 \<le> 40 * n" using assms(4) by simp
  then show "F \<le> head_at H j + d" "head_at H j + d < F + L"
    using assms(1,5) by (simp_all add: loadable_def head_at_def)
  show "\<forall>k < n. head_at H j + d \<notin> addr_field H k" using head_not_addr_field [OF assms(5,6)] by blast
qed

lemma head_ld32:
  assumes "loadable m F L H n B" and "mem_loaded m F H B i m'" and "i \<le> n" and "j < n"
    and "d + 4 \<le> 40" and "d + 4 \<le> 12 \<or> 16 \<le> d"
  shows "ld32 m' (of_nat (head_at H j + d)) = ld32 m (of_nat (head_at H j + d))"
proof (rule ld32_cong)
  fix y assume y: "head_at H j + d \<le> y" "y < head_at H j + d + 4"
  define e where "e = y - head_at H j"
  have "y = head_at H j + e" "e < 40" "e < 12 \<or> 16 \<le> e" using y assms(5,6) by (auto simp: e_def)
  with mem_loaded_header [OF assms(1-4)] show "spot m' y = spot m y" by simp
qed

lemma mem_loaded_sec:
  assumes "loadable m F L H n B" and "mem_loaded m F H B i m'" and "i \<le> n" and "j < n"
  shows "sec_of m' H j = sec_of m H j"
  using head_ld32 [OF assms, of 4] head_ld32 [OF assms, of 8] head_ld32 [OF assms, of 16]
    head_ld32 [OF assms, of 20] head_ld32 [OF assms, of 32]
  by (simp add: sec_of_def Let_def sh_type_def sh_flags_def sh_offset_def sh_size_def sh_addralign_def add.commute)

lemma mem_loaded_shnum:
  assumes "loadable m F L H n B" and "mem_loaded m F H B i m'" and "i \<le> n"
  shows "eh_shnum m' (of_nat F) = eh_shnum m (of_nat F)"
proof -
  have "ld16 m' (of_nat (F + 48)) = ld16 m (of_nat (F + 48))"
  proof (rule ld16_cong)
    fix y assume y: "F + 48 \<le> y" "y < F + 48 + 2"
    have "y \<notin> addr_field H j" if "j < n" for j
      using addr_field_file(1) [OF assms(1) that, of y] assms(1) y by (auto simp: loadable_def)
    moreover have "F \<le> y" "y < F + L" using y assms(1) by (auto simp: loadable_def)
    ultimately show "spot m' y = spot m y" using mem_loaded_file [OF assms] by blast
  qed
  then show ?thesis by (simp add: eh_shnum_def add.commute)
qed

subsection \<open>The next section\<close>

lemma mem_loaded_Suc:
  assumes ok: "loadable m F L H n B" and ld: "mem_loaded m F H B i m1" and i: "i < n"
    and addr: "sh_addr m2 (of_nat (head_at H i)) = final_addr m F H B i"
    and content: "is_hunk (sec_of m H i) \<Longrightarrow> \<forall>k < sc_size (sec_of m H i).
      spot m2 (hunk_addr (sec_of m H) B i + k) = hunk_byte m F (sec_of m H i) k"
    and keep: "\<And>y. y < 2 ^ 32 \<Longrightarrow> y \<notin> addr_field H i
      \<Longrightarrow> (is_hunk (sec_of m H i) \<Longrightarrow> y \<notin> hunk_range (sec_of m H) B i) \<Longrightarrow> spot m2 y = spot m1 y"
  shows "mem_loaded m F H B (Suc i) m2"
proof -
  let ?s = "sec_of m H"
  have out: "y \<notin> hunk_range ?s B j" if "is_hunk (?s j)" "j < n" "F \<le> y" "y < F + L" for j y
  proof -
    have "hunk_range ?s B j \<inter> {F ..< F + L} = {}" using ok that(1,2) by (simp add: loadable_def)
    with that(3,4) show ?thesis by auto
  qed
  have "sh_addr m2 (of_nat (head_at H j)) = final_addr m F H B j" if "j < Suc i" for j
  proof (cases "j = i")
    case False
    then have j: "j < i" using that by simp
    have "ld32 m2 (of_nat (head_at H j + 12)) = ld32 m1 (of_nat (head_at H j + 12))"
    proof (rule ld32_cong, rule keep)
      fix y assume y: "head_at H j + 12 \<le> y" "y < head_at H j + 12 + 4"
      then have "y \<in> addr_field H j" by (simp add: addr_field_def)
      note f = addr_field_file [OF ok _ this]
      show "y < 2 ^ 32" using f(5) i j by simp
      show "y \<notin> addr_field H i" using y j by (auto simp: addr_field_def head_at_def)
      show "y \<notin> hunk_range ?s B i" if "is_hunk (?s i)" using out [OF that i f(3,4)] i j by simp
    qed
    with ld j show ?thesis by (simp add: mem_loaded_def sh_addr_def add.commute)
  qed (simp add: addr)
  moreover have "spot m2 (hunk_addr ?s B j + k) = hunk_byte m F (?s j) k"
    if "j < Suc i" "is_hunk (?s j)" "k < sc_size (?s j)" for j k
  proof (cases "j = i")
    case False
    then have j: "j < i" using that by simp
    let ?y = "hunk_addr ?s B j + k"
    have y: "?y \<in> hunk_range ?s B j" using that(3) by (simp add: hunk_range_def)
    have b: "snd B \<le> fst B" "fst B \<le> 2 ^ 32" using ok by (simp_all add: loadable_def)
    have "spot m2 ?y = spot m1 ?y"
    proof (rule keep)
      show "?y < 2 ^ 32" using hunk_below [OF loadable_hunks [OF ok] b, of j] i j that by simp
      show "?y \<notin> addr_field H i"
        using addr_field_file(3,4) [OF ok i, of ?y] out [OF that(2), of ?y] y i j by auto
      show "?y \<notin> hunk_range ?s B i" if h: "is_hunk (?s i)"
        using hunk_disjoint_before [OF loadable_hunks [OF ok] b(1) j i \<open>is_hunk (?s j)\<close> h] y by auto
    qed
    with ld j that show ?thesis by (simp add: mem_loaded_def)
  qed (use content that in simp)
  moreover have "spot m2 y = spot m y" if "y < 2 ^ 32" "\<forall>j < Suc i. y \<notin> addr_field H j
      \<and> (is_hunk (?s j) \<longrightarrow> y \<notin> hunk_range ?s B j)" for y
  proof -
    have "spot m2 y = spot m1 y" using that by (intro keep) auto
    also have "\<dots> = spot m y" using ld that by (simp add: mem_loaded_def)
    finally show ?thesis .
  qed
  ultimately show ?thesis unfolding mem_loaded_def by blast
qed

text \<open>The address in words is the one in numbers.\<close>

lemma sec_fields:
  "sh_type m (of_nat (head_at H i)) = sc_type (sec_of m H i)"
  "sh_flags m (of_nat (head_at H i)) = sc_flags (sec_of m H i)"
  "sh_offset m (of_nat (head_at H i)) = of_nat (sc_offset (sec_of m H i))"
  "sh_size m (of_nat (head_at H i)) = of_nat (sc_size (sec_of m H i))"
  "sh_addralign m (of_nat (head_at H i)) = of_nat (sc_align (sec_of m H i))"
  by (simp_all add: sec_of_def Let_def)

lemma hunk_place_eq:
  assumes ok: "hunk_ok secs B i" and hunk: "is_hunk (secs i)" and b: "bounds secs B i = (ro, rw)" and rw: "rw \<le> 2 ^ 32"
    and p: "place (secs i) (ro, rw) = (a, ro', rw')"
    and sec: "sec_of (es_mem st) H i = secs i" and st: "ptr_ro st = of_nat ro" "ptr_rw st = of_nat rw"
  shows "hunk_place (of_nat (head_at H i)) st = (of_nat a, st\<lparr>ptr_ro := of_nat ro', ptr_rw := of_nat rw'\<rparr>)"
proof -
  let ?s = "secs i"
  obtain e where e: "sc_align ?s = 2 ^ e" "e < 32" using ok by (auto simp: hunk_ok_def)
  then have al: "0 < sc_align ?s" by simp
  note f = sec_fields [of "es_mem st" H i, unfolded sec]
  show ?thesis
  proof (cases "writable ?s")
    case True
    with ok b have sz: "sc_size ?s + sc_align ?s \<le> rw + 1" by (simp add: hunk_ok_def)
    have "of_nat (rw + 1 - (sc_size ?s + sc_align ?s)) = of_nat rw - of_nat (sc_size ?s) - of_nat (sc_align ?s) + (1 :: u32)"
      using sz by (simp only: of_nat_diff) simp
    moreover have "rw + 1 - (sc_size ?s + sc_align ?s) < 2 ^ 32"
    proof -
      have "0 < sc_size ?s" using hunk by (simp add: is_hunk_def)
      with rw al sz show ?thesis by linarith
    qed
    ultimately have "(of_nat rw - of_nat (sc_size ?s) - of_nat (sc_align ?s) + 1) AND NOT (of_nat (sc_align ?s) - 1)
        = (of_nat a :: u32)"
    proof -
      assume eq: "of_nat (rw + 1 - (sc_size ?s + sc_align ?s)) = of_nat rw - of_nat (sc_size ?s) - of_nat (sc_align ?s) + (1 :: u32)"
        and lt: "rw + 1 - (sc_size ?s + sc_align ?s) < 2 ^ 32"
      have "a = (rw + 1 - (sc_size ?s + sc_align ?s)) div sc_align ?s * sc_align ?s"
        using True p by (simp add: place_def Let_def)
      with align_down [OF e(1) lt e(2)] show ?thesis by (simp only: eq)
    qed
    with True place_writable [OF True al sz p] st f show ?thesis
      by (simp add: hunk_place_def Let_def writable_def)
  next
    case False
    have "0 < sc_size ?s" using hunk by (simp add: is_hunk_def)
    moreover have "ro + sc_align ?s + sc_size ?s \<le> 2 ^ 32" using False ok b by (simp add: hunk_ok_def)
    ultimately have sz: "ro + sc_align ?s - 1 < 2 ^ 32" by linarith
    have "of_nat (ro + sc_align ?s - 1) = of_nat ro + of_nat (sc_align ?s) - (1 :: u32)"
      using al by (subst of_nat_diff) simp_all
    moreover have "a = (ro + sc_align ?s - 1) div sc_align ?s * sc_align ?s"
      using False p by (simp add: place_def Let_def)
    ultimately have "(of_nat ro + of_nat (sc_align ?s) - 1) AND NOT (of_nat (sc_align ?s) - 1) = (of_nat a :: u32)"
      using align_down [OF e(1) sz e(2)] by (simp only:)
    with False place_readonly [OF False al p] st f show ?thesis
      by (simp add: hunk_place_def Let_def writable_def)
  qed
qed

subsection \<open>The loop\<close>

definition bss_count :: "(nat \<Rightarrow> sec_t) \<Rightarrow> nat \<Rightarrow> nat" where
  "bss_count secs i = length (filter (\<lambda>j. is_bss (secs j)) [0..<i])"

lemma bss_count_Suc: "bss_count secs (Suc i) = bss_count secs i + (if is_bss (secs i) then 1 else 0)"
  by (simp add: bss_count_def)

lemma bss_count_mono: "i \<le> j \<Longrightarrow> bss_count secs i \<le> bss_count secs j"
  by (induction j rule: dec_induct) (simp_all add: bss_count_Suc)

definition bss_marker :: "(nat \<Rightarrow> sec_t) \<Rightarrow> nat \<times> nat \<Rightarrow> nat \<Rightarrow> bss_tracker_t" where
  "bss_marker secs B i = \<lparr>bt_addr = of_nat (hunk_addr secs B i) + KERNEL_VIRT_BASE - KERNEL_PHYS_BASE,
     bt_length = of_nat (sc_size (secs i))\<rparr>"

definition loaded :: "mem \<Rightarrow> nat \<Rightarrow> nat \<Rightarrow> nat \<times> nat \<Rightarrow> nat \<Rightarrow> nat \<Rightarrow> elf_state \<Rightarrow> bool" where
  "loaded m F H B bss i st \<longleftrightarrow> mem_loaded m F H B i (es_mem st)
     \<and> ptr_ro st = of_nat (fst (bounds (sec_of m H) B i)) \<and> ptr_rw st = of_nat (snd (bounds (sec_of m H) B i))
     \<and> length (tracker st) = MAX_BSS_SECTIONS \<and> bss_next st = bss + bss_count (sec_of m H) i
     \<and> (\<forall>j < i. is_bss (sec_of m H j) \<longrightarrow>
          tracker st ! (bss + bss_count (sec_of m H) j) = bss_marker (sec_of m H) B j)"

lemma sh_fields_set_addr [simp]:
  "sh_type (set_sh_addr m s a) s = sh_type m s" "sh_size (set_sh_addr m s a) s = sh_size m s"
  "sh_offset (set_sh_addr m s a) s = sh_offset m s"
  by (simp_all add: set_sh_addr_def sh_type_def sh_size_def sh_offset_def ld32_def st32_def fun_upd_apply add.assoc)

lemma mem_set_addr:
  assumes ok: "loadable m F L H n B" and ld: "mem_loaded m F H B i m1" and i: "i < n"
  shows "y < 2 ^ 32 \<Longrightarrow> y \<notin> addr_field H i \<Longrightarrow> spot (set_sh_addr m1 (of_nat (head_at H i)) a) y = spot m1 y"
proof -
  assume y: "y < 2 ^ 32" "y \<notin> addr_field H i"
  have "40 * i + 40 \<le> 40 * n" using i by simp
  then have "head_at H i + 16 \<le> 2 ^ 32" using ok by (simp add: loadable_def head_at_def)
  with y show ?thesis by (intro spot_set_sh_addr) (auto simp: addr_field_def)
qed

text \<open>What a read of the contents of a hunk sees: the file as it was.\<close>

lemma contents_unchanged:
  assumes ok: "loadable m F L H n B" and ld: "mem_loaded m F H B i m1" and i: "i < n"
    and h: "is_hunk (sec_of m H i)" "sc_type (sec_of m H i) \<noteq> SHT_NOBITS" and k: "k < sc_size (sec_of m H i)"
  shows "spot (set_sh_addr m1 (of_nat (head_at H i)) a) (F + sc_offset (sec_of m H i) + k)
    = spot m (F + sc_offset (sec_of m H i) + k)"
proof -
  let ?s = "sec_of m H i" and ?y = "F + sc_offset (sec_of m H i) + k"
  have c: "sc_offset ?s + sc_size ?s \<le> L" "F + sc_offset ?s + sc_size ?s \<le> H \<or> H + 40 * n \<le> F + sc_offset ?s"
    using ok i h by (simp_all add: loadable_def)
  have nf: "?y \<notin> addr_field H j" if "j < n" for j
    using addr_field_file(1,2) [OF ok that, of ?y] c(2) k by auto
  have y: "F \<le> ?y" "?y < F + L" using c(1) k by auto
  then have "?y < 2 ^ 32" using ok by (simp add: loadable_def)
  then have "spot (set_sh_addr m1 (of_nat (head_at H i)) a) ?y = spot m1 ?y"
    using mem_set_addr [OF ok ld i] nf [OF i] by blast
  also have "\<dots> = spot m ?y" using mem_loaded_file [OF ok ld _ y] i nf by simp
  finally show ?thesis .
qed

text \<open>A hunk is copied or cleared at its place.\<close>

lemma load_hunk_mem:
  assumes ok: "loadable m F L H n B" and ld: "mem_loaded m F H B i m1" and i: "i < n"
    and h: "is_hunk (sec_of m H i)"
  defines "s \<equiv> sec_of m H i" and "a \<equiv> hunk_addr (sec_of m H) B i"
  defines "m2 \<equiv> set_sh_addr m1 (of_nat (head_at H i)) (of_nat a)"
  shows "\<exists>m3. (if sc_type s = SHT_NOBITS then mem_bzero (of_nat a) (of_nat (sc_size s)) m2
      else elf_read_block (of_nat F) (of_nat (sc_offset s)) (of_nat a) (of_nat (sc_size s)) m2) = Some m3
    \<and> mem_loaded m F H B (Suc i) m3 \<and> sh_size m3 (of_nat (head_at H i)) = of_nat (sc_size s)"
proof -
  have b: "snd B \<le> fst B" "fst B \<le> 2 ^ 32" using ok by (simp_all add: loadable_def)
  have sz: "sc_size s < 2 ^ 31" using ok i h by (simp add: loadable_def hunk_ok_def s_def)
  then have u: "unat (of_nat (sc_size s) :: u32) = sc_size s" by (intro unat_small) simp
  have fit: "a + unat (of_nat (sc_size s) :: u32) \<le> 2 ^ 32"
    unfolding u using hunk_below [OF loadable_hunks [OF ok] b i h] by (simp add: a_def s_def)
  have sz': "unat (of_nat (sc_size s) :: u32) < 2 ^ 31" unfolding u by (rule sz)
  define step where "step = (if sc_type s = SHT_NOBITS then mem_bzero (of_nat a) (of_nat (sc_size s)) m2
      else elf_read_block (of_nat F) (of_nat (sc_offset s)) (of_nat a) (of_nat (sc_size s)) m2)"
  obtain m3 where m3: "step = Some m3"
    and sp: "\<And>y. y < 2 ^ 32 \<Longrightarrow> spot m3 y = (if a \<le> y \<and> y < a + sc_size s
      then (if sc_type s = SHT_NOBITS then 0 else spot m2 (F + sc_offset s + (y - a))) else spot m2 y)"
  proof (cases "sc_type s = SHT_NOBITS")
    case True
    from spot_bzero [OF fit sz'] obtain m3 where "mem_bzero (of_nat a) (of_nat (sc_size s)) m2 = Some m3"
      "\<And>y. y < 2 ^ 32 \<Longrightarrow> spot m3 y = (if a \<le> y \<and> y < a + sc_size s then 0 else spot m2 y)"
      unfolding u by blast
    with True that show ?thesis by (simp add: step_def)
  next
    case False
    from spot_move [OF fit sz'] obtain m3 where
      "mem_move (of_nat a) (of_nat (F + sc_offset s)) (of_nat (sc_size s)) m2 = Some m3"
      "\<And>y. y < 2 ^ 32 \<Longrightarrow> spot m3 y = (if a \<le> y \<and> y < a + sc_size s then spot m2 (F + sc_offset s + (y - a))
        else spot m2 y)"
      unfolding u by blast
    with False that show ?thesis by (simp add: step_def elf_read_block_def)
  qed
  have disj: "hunk_range (sec_of m H) B i \<inter> {F ..< F + L} = {}" using ok i h by (simp add: loadable_def)
  have head: "ld32 m3 (of_nat (head_at H i + d)) = ld32 m2 (of_nat (head_at H i + d))" if "d + 4 \<le> 40" for d
  proof (rule ld32_cong)
    fix y assume y: "head_at H i + d \<le> y" "y < head_at H i + d + 4"
    have "40 * i + 40 \<le> 40 * n" using i by simp
    then have "F \<le> y" "y < F + L" using y that ok by (auto simp: head_at_def loadable_def)
    moreover from this have "y \<notin> hunk_range (sec_of m H) B i" using disj by auto
    ultimately show "spot m3 y = spot m2 y"
      using ok by (subst sp) (auto simp: hunk_range_def a_def s_def loadable_def)
  qed
  have "mem_loaded m F H B (Suc i) m3"
  proof (rule mem_loaded_Suc [OF ok ld i])
    have "final_addr m F H B i = of_nat a" using h by (simp add: final_addr_def Let_def is_hunk_def a_def)
    then show "sh_addr m3 (of_nat (head_at H i)) = final_addr m F H B i"
      using head [of 12] by (simp add: sh_addr_def add.commute m2_def set_sh_addr_def)
    show "\<forall>k < sc_size (sec_of m H i). spot m3 (hunk_addr (sec_of m H) B i + k) = hunk_byte m F (sec_of m H i) k"
    proof (intro allI impI)
      fix k assume k: "k < sc_size (sec_of m H i)"
      then have "a + k < 2 ^ 32" using fit u by (simp add: s_def)
      then show "spot m3 (hunk_addr (sec_of m H) B i + k) = hunk_byte m F (sec_of m H i) k"
        using sp [of "a + k"] k contents_unchanged [OF ok ld i h _ k, of "of_nat a"]
        by (simp add: hunk_byte_def a_def [symmetric] s_def [symmetric] m2_def [symmetric])
    qed
    show "spot m3 y = spot m1 y" if "y < 2 ^ 32" "y \<notin> addr_field H i"
      "is_hunk (sec_of m H i) \<Longrightarrow> y \<notin> hunk_range (sec_of m H) B i" for y
      using sp [OF that(1)] that(3) [OF h] mem_set_addr [OF ok ld i that(1,2), of "of_nat a"]
      by (auto simp: hunk_range_def a_def [symmetric] s_def [symmetric] m2_def [symmetric])
  qed
  moreover have "sh_size m3 (of_nat (head_at H i)) = of_nat (sc_size s)"
  proof -
    have "sec_of m1 H i = s" using mem_loaded_sec [OF ok ld _ i] i by (simp add: s_def)
    with sec_fields(4) [of m1 H i] have "sh_size m2 (of_nat (head_at H i)) = of_nat (sc_size s)" by (simp add: m2_def)
    with head [of 20] show ?thesis by (simp add: sh_size_def add.commute)
  qed
  ultimately show ?thesis using m3 by (auto simp: step_def)
qed

lemma load_hunk_ok:
  assumes ok: "loadable m F L H n B" and ld: "loaded m F H B bss i st" and i: "i < n"
    and h: "is_hunk (sec_of m H i)" and room: "bss + bss_count (sec_of m H) n \<le> MAX_BSS_SECTIONS"
  shows "\<exists>st'. load_hunk (of_nat F) (of_nat (head_at H i)) st = Some (1, st') \<and> loaded m F H B bss (Suc i) st'"
proof -
  let ?s = "sec_of m H i" and ?hd = "of_nat (head_at H i) :: u32"
  obtain ro rw where b: "bounds (sec_of m H) B i = (ro, rw)" by force
  obtain a ro' rw' where p: "place ?s (ro, rw) = (a, ro', rw')" by (rule prod_cases3)
  have ml: "mem_loaded m F H B i (es_mem st)" and ptr: "ptr_ro st = of_nat ro" "ptr_rw st = of_nat rw"
    and tr: "length (tracker st) = MAX_BSS_SECTIONS" "bss_next st = bss + bss_count (sec_of m H) i"
    and mk: "\<forall>j < i. is_bss (sec_of m H j) \<longrightarrow>
      tracker st ! (bss + bss_count (sec_of m H) j) = bss_marker (sec_of m H) B j"
    using ld b by (simp_all add: loaded_def)
  have sec: "sec_of (es_mem st) H i = ?s" using mem_loaded_sec [OF ok ml _ i] i by simp
  have hk: "hunk_ok (sec_of m H) B i" using ok i h by (simp add: loadable_def)
  have "rw \<le> 2 ^ 32" using bounds_mono(2) [OF loadable_hunks [OF ok], of i] ok i b by (simp add: loadable_def)
  from hunk_place_eq [OF hk h b this p sec ptr]
  have hp: "hunk_place ?hd st = (of_nat a, st\<lparr>ptr_ro := of_nat ro', ptr_rw := of_nat rw'\<rparr>)" .
  have a: "hunk_addr (sec_of m H) B i = a" and b': "bounds (sec_of m H) B (Suc i) = (ro', rw')"
    using h b p by (simp_all add: hunk_addr_def)
  note f = sec_fields [of "es_mem st" H i, unfolded sec]
  have nz: "(of_nat (sc_size ?s) :: u32) \<noteq> 0"
  proof
    assume "(of_nat (sc_size ?s) :: u32) = 0"
    then have "unat (of_nat (sc_size ?s) :: u32) = 0" by simp
    moreover have "sc_size ?s < 2 ^ 32" using hk by (simp add: hunk_ok_def)
    ultimately show False using h by (simp add: unat_small is_hunk_def del: unat_eq_0)
  qed
  define m2 where "m2 = set_sh_addr (es_mem st) ?hd (of_nat a)"
  from load_hunk_mem [OF ok ml i h] obtain m3 where
    m3: "(if sc_type ?s = SHT_NOBITS then mem_bzero (of_nat a) (of_nat (sc_size ?s)) m2
      else elf_read_block (of_nat F) (of_nat (sc_offset ?s)) (of_nat a) (of_nat (sc_size ?s)) m2) = Some m3"
    and l3: "mem_loaded m F H B (Suc i) m3" and s3: "sh_size m3 ?hd = of_nat (sc_size ?s)"
    unfolding a m2_def by blast
  show ?thesis
  proof (cases "sc_type ?s = SHT_NOBITS")
    case True
    then have bs: "is_bss ?s" using h by (simp add: is_bss_def)
    have "bss_count (sec_of m H) (Suc i) \<le> bss_count (sec_of m H) n" using i by (intro bss_count_mono) simp
    then have lt: "bss + bss_count (sec_of m H) i < MAX_BSS_SECTIONS" using room bs by (simp add: bss_count_Suc)
    have mk': "j < Suc i \<Longrightarrow> is_bss (sec_of m H j) \<Longrightarrow>
      (tracker st)[bss + bss_count (sec_of m H) i := bss_marker (sec_of m H) B i] ! (bss + bss_count (sec_of m H) j)
        = bss_marker (sec_of m H) B j" for j
    proof (cases "j = i")
      case False
      assume j: "j < Suc i" "is_bss (sec_of m H j)"
      then have "bss_count (sec_of m H) (Suc j) \<le> bss_count (sec_of m H) i" using False by (intro bss_count_mono) simp
      with j mk False show ?thesis by (simp add: bss_count_Suc)
    qed (use lt tr in simp)
    have "load_hunk (of_nat F) ?hd st = Some (1, st\<lparr>ptr_ro := of_nat ro', ptr_rw := of_nat rw', es_mem := m3,
        tracker := (tracker st)[bss + bss_count (sec_of m H) i := bss_marker (sec_of m H) B i],
        bss_next := bss_next st + 1\<rparr>)"
    proof -
      have bz: "mem_bzero (of_nat a) (of_nat (sc_size ?s)) (set_sh_addr (es_mem st) ?hd (of_nat a)) = Some m3"
        using m3 True by (simp add: m2_def)
      then show ?thesis
        using True hp f nz s3 lt tr unfolding load_hunk_def Let_def
        by (simp add: store_def bss_marker_def a)
    qed
    with l3 b' tr mk' bs show ?thesis by (auto simp: loaded_def bss_count_Suc)
  next
    case False
    then have bs: "\<not> is_bss ?s" by (simp add: is_bss_def)
    have "load_hunk (of_nat F) ?hd st = Some (1, st\<lparr>ptr_ro := of_nat ro', ptr_rw := of_nat rw', es_mem := m3\<rparr>)"
      using False hp f nz m3 [unfolded m2_def] unfolding load_hunk_def Let_def by simp
    with l3 b' tr mk bs show ?thesis by (auto simp: loaded_def bss_count_Suc less_Suc_eq)
  qed
qed

lemma section_step_ok:
  assumes ok: "loadable m F L H n B" and ld: "loaded m F H B bss i st" and i: "i < n"
    and room: "bss + bss_count (sec_of m H) n \<le> MAX_BSS_SECTIONS"
  shows "\<exists>st'. section_step (of_nat F) (of_nat (head_at H i)) st = Some (1, st') \<and> loaded m F H B bss (Suc i) st'"
proof -
  let ?s = "sec_of m H i" and ?hd = "of_nat (head_at H i) :: u32"
  have ml: "mem_loaded m F H B i (es_mem st)" using ld by (simp add: loaded_def)
  have sec: "sec_of (es_mem st) H i = ?s" using mem_loaded_sec [OF ok ml _ i] i by simp
  note f = sec_fields [of "es_mem st" H i, unfolded sec]
  show ?thesis
  proof (cases "is_hunk ?s")
    case True
    then have "section_step (of_nat F) ?hd st = load_hunk (of_nat F) ?hd st"
      using f by (simp add: section_step_def is_hunk_def is_table_def)
    with load_hunk_ok [OF ok ld i True room] show ?thesis by simp
  next
    case nh: False
    then have nb: "\<not> is_bss ?s" by (simp add: is_bss_def)
    show ?thesis
    proof (cases "is_table ?s")
      case True
      let ?m = "set_sh_addr (es_mem st) ?hd (of_nat (F + sc_offset ?s))"
      have "section_step (of_nat F) ?hd st = Some (1, st\<lparr>es_mem := ?m\<rparr>)"
        using f True by (simp add: section_step_def is_table_def)
      moreover have "mem_loaded m F H B (Suc i) ?m"
        using mem_set_addr [OF ok ml i] True nh
        by (intro mem_loaded_Suc [OF ok ml i]) (simp_all add: final_addr_def)
      ultimately show ?thesis using ld nh nb by (auto simp: loaded_def bss_count_Suc less_Suc_eq)
    next
      case False
      have "section_step (of_nat F) ?hd st = Some (1, st)"
      proof (cases "sc_flags ?s AND SHF_ALLOC = 0")
        case False
        then have "sc_size ?s = 0" using nh \<open>\<not> is_table ?s\<close> by (simp add: is_hunk_def)
        with f False \<open>\<not> is_table ?s\<close> show ?thesis by (simp add: section_step_def is_table_def load_hunk_def)
      qed (use f False in \<open>simp add: section_step_def is_table_def\<close>)
      moreover have "mem_loaded m F H B (Suc i) (es_mem st)"
      proof (rule mem_loaded_Suc [OF ok ml i])
        have "ld32 (es_mem st) (of_nat (head_at H i + 12)) = ld32 m (of_nat (head_at H i + 12))"
        proof (rule ld32_cong)
          fix y assume y: "head_at H i + 12 \<le> y" "y < head_at H i + 12 + 4"
          then have af: "y \<in> addr_field H i" by (simp add: addr_field_def)
          note g = addr_field_file [OF ok i af]
          have "y \<notin> addr_field H j" if "j < i" for j using y that by (auto simp: addr_field_def head_at_def)
          moreover have "y \<notin> hunk_range (sec_of m H) B j" if "j < i" "is_hunk (sec_of m H j)" for j
          proof -
            have "hunk_range (sec_of m H) B j \<inter> {F ..< F + L} = {}" using ok that i by (simp add: loadable_def)
            with g(3,4) show ?thesis by auto
          qed
          ultimately show "spot (es_mem st) y = spot m y" using ml g(5) by (auto simp: mem_loaded_def)
        qed
        then show "sh_addr (es_mem st) (of_nat (head_at H i)) = final_addr m F H B i"
          using nh False by (simp add: final_addr_def sh_addr_def add.commute)
      qed (use nh in simp_all)
      ultimately show ?thesis using ld nh nb by (auto simp: loaded_def bss_count_Suc less_Suc_eq)
    qed
  qed
qed

lemma load_sections_ok:
  assumes ok: "loadable m F L H n B" and room: "bss + bss_count (sec_of m H) n \<le> MAX_BSS_SECTIONS"
    and "loaded m F H B bss i st" and "i \<le> n"
  shows "\<exists>st'. load_sections (of_nat F) (of_nat F) (of_nat H) i st = Some (1, st') \<and> loaded m F H B bss n st'"
  using assms(3,4)
proof (induction "n - i" arbitrary: i st)
  case 0
  then have "eh_shnum (es_mem st) (of_nat F) = eh_shnum m (of_nat F)"
    by (intro mem_loaded_shnum [OF ok]) (auto simp: loaded_def)
  with 0 ok show ?case by (simp add: load_sections.simps [of _ _ _ i] loadable_def)
next
  case (Suc k)
  then have i: "i < n" by simp
  have "eh_shnum (es_mem st) (of_nat F) = eh_shnum m (of_nat F)"
    using Suc.prems by (intro mem_loaded_shnum [OF ok]) (auto simp: loaded_def)
  with ok i have c: "i < unat (eh_shnum (es_mem st) (of_nat F))" by (simp add: loadable_def)
  have hd: "sh_at (of_nat H) (of_nat i) = of_nat (head_at H i)" by (simp add: sh_at_def head_at_def)
  from section_step_ok [OF ok Suc.prems(1) i room] obtain st1 where
    s: "section_step (of_nat F) (of_nat (head_at H i)) st = Some (1, st1)" "loaded m F H B bss (Suc i) st1" by blast
  have "k = n - Suc i" using Suc.hyps(2) by simp
  from Suc.hyps(1) [OF this s(2)] i obtain st' where
    "load_sections (of_nat F) (of_nat F) (of_nat H) (Suc i) st1 = Some (1, st')" "loaded m F H B bss n st'" by auto
  with c s(1) hd show ?case by (simp add: load_sections.simps [of _ _ _ i])
qed

text \<open>The state before the first section.\<close>

lemma loaded_0:
  assumes "es_mem st = m" and "ptr_ro st = of_nat (fst B)" and "ptr_rw st = of_nat (snd B)"
    and "length (tracker st) = MAX_BSS_SECTIONS" and "bss_next st = bss"
  shows "loaded m F H B bss 0 st"
  using assms by (simp add: loaded_def mem_loaded_def bss_count_def)

text \<open>An alignment of 0, which the ELF format allows for \<open>no alignment\<close>, puts a section at address 0.\<close>

lemma hunk_place_align_0:
  assumes "sh_addralign (es_mem st) sh = 0"
  shows "fst (hunk_place sh st) = 0"
  using assms by (simp add: hunk_place_def Let_def)

end
