(* ===== verification/Elf_Reloc.thy ===== *)
theory Elf_Reloc
  imports Elf_Memory
begin

text \<open>
  Relocations: the values the loader stores, as the processor reads them back, and the proof that the
  relocations of a section do not disturb each other.
\<close>

subsection \<open>Values\<close>

lemma reloc_ADDR32: "reloc_store m R_PPC_ADDR32 p s ad v = Some (st32 m p (s + ad + v))"
  by (simp add: reloc_store_def)

lemma reloc_REL32: "reloc_store m R_PPC_REL32 p s ad v = Some (st32 m p (s + ad - p))"
  by (simp add: reloc_store_def)

lemma reloc_ADDR16_LO: "reloc_store m R_PPC_ADDR16_LO p s ad v = Some (st16 m p (ucast (s + ad + v)))"
proof -
  have "(ucast ((s + ad + v) AND 0xFFFF) :: u16) = ucast (s + ad + v)"
  proof -
    have m: "(0xFFFF :: u32) = mask 16" by (simp add: mask_eq_exp_minus_1)
    show ?thesis unfolding m by (rule bit_eqI) (auto simp: bit_simps)
  qed
  then show ?thesis by (simp add: reloc_store_def)
qed

lemma reloc_ADDR16_HA:
  "reloc_store m R_PPC_ADDR16_HA p s ad v
    = Some (st16 m p (ucast (drop_bit 16 (s + ad + v)) + (if bit (s + ad + v) 15 then 1 else 0)))"
proof -
  have "x AND 0x8000 \<noteq> 0 \<longleftrightarrow> bit x 15" for x :: u32
    using and_exp_eq_0_iff_not_bit [of x 15] by simp
  then show ?thesis by (simp add: reloc_store_def Let_def)
qed

text \<open>The two halves of an address: \<open>lis\<close> shifts the upper one, \<open>addi\<close> adds the lower one sign-extended.\<close>

lemma ha_lo:
  fixes x :: u32
  shows "push_bit 16 (ucast (ucast (drop_bit 16 x) + (if bit x 15 then 1 else 0) :: u16)) + scast (ucast x :: u16) = x"
proof -
  let ?k = "uint x" and ?c = "of_bool (bit x 15) :: int"
  have sh: "push_bit 16 (ucast (of_int k :: u16) :: u32) = of_int (k * 2 ^ 16)" for k
  proof -
    have "(of_int (k * 2 ^ 16) :: u32) = push_bit 16 (of_int k)" by (simp add: push_bit_eq_mult)
    then show ?thesis by (simp only:) (rule bit_eqI, auto simp: bit_simps)
  qed
  have "(ucast (drop_bit 16 x) + (if bit x 15 then 1 else 0) :: u16) = of_int (?k div 2 ^ 16 + ?c)"
  proof -
    have "uint (drop_bit 16 x) = ?k div 2 ^ 16"
      by (simp add: drop_bit_eq_div uint_div_distrib)
    then have "(ucast (drop_bit 16 x) :: u16) = of_int (?k div 2 ^ 16)" by (simp only: ucast_eq)
    then show ?thesis by simp
  qed
  moreover have "scast (ucast x :: u16) = (of_int (signed_take_bit 15 ?k) :: u32)"
    by (simp add: scast_eq signed_ucast_eq)
  moreover have "signed_take_bit 15 ?k = ?k mod 2 ^ 16 - 2 ^ 16 * ?c"
    using signed_take_bit_eq_take_bit_minus [of 15 ?k] by (simp add: take_bit_eq_mod bit_uint_iff)
  moreover have "(?k div 2 ^ 16 + ?c) * 2 ^ 16 + (?k mod 2 ^ 16 - 2 ^ 16 * ?c) = ?k"
    by (simp add: algebra_simps)
  then have "of_int ((?k div 2 ^ 16 + ?c) * 2 ^ 16) + of_int (?k mod 2 ^ 16 - 2 ^ 16 * ?c) = x"
    by (simp only: of_int_add [symmetric]) simp
  ultimately show ?thesis by (simp only: sh)
qed

text \<open>A branch: the bits of the instruction outside its target field stay, and the target is the symbol.\<close>

definition LI_mask :: u32 where "LI_mask = 0x3FFFFFC"

definition branch_target :: "u32 \<Rightarrow> u32 \<Rightarrow> u32" where
  "branch_target insn p = p + signed_take_bit 25 (insn AND LI_mask)"

lemma LI_mask_bit: "bit LI_mask n \<longleftrightarrow> 2 \<le> n \<and> n < 26"
proof -
  have eq: "LI_mask = push_bit 2 (mask 24)" by (simp add: LI_mask_def mask_eq_exp_minus_1 push_bit_eq_mult)
  show ?thesis unfolding eq by (auto simp: bit_simps)
qed

lemma reloc_REL24:
  "reloc_store m R_PPC_REL24 p s ad v
    = Some (st32 m p ((ld32 m p AND NOT LI_mask) OR ((s + ad - p) AND LI_mask)))"
  by (simp add: reloc_store_def LI_mask_def Let_def)

lemma branch_field:
  fixes d insn :: u32
  assumes "- (2 ^ 25) \<le> sint d" and "sint d < 2 ^ 25" and "4 dvd sint d"
  shows "branch_target ((insn AND NOT LI_mask) OR (d AND LI_mask)) p = p + d"
proof -
  have f: "((insn AND NOT LI_mask) OR (d AND LI_mask)) AND LI_mask = d AND LI_mask"
    by (rule bit_eqI) (auto simp: bit_simps)
  have low: "\<not> bit d 0" "\<not> bit d 1"
  proof -
    have "sint d mod 4 = 0" using assms(3) by simp
    then have "take_bit 2 (sint d) = 0" by (simp add: take_bit_eq_mod)
    then have "\<not> bit (take_bit 2 (sint d)) 0" "\<not> bit (take_bit 2 (sint d)) 1" by simp_all
    then show "\<not> bit d 0" "\<not> bit d 1" by (simp_all add: bit_take_bit_iff bit_sint_iff)
  qed
  have "signed_take_bit 25 (d AND LI_mask) = signed_take_bit 25 d"
  proof (rule bit_eqI)
    fix n :: nat
    show "bit (signed_take_bit 25 (d AND LI_mask)) n \<longleftrightarrow> bit (signed_take_bit 25 d) n"
      using low by (cases "n < 2") (auto simp: bit_simps LI_mask_bit less_2_cases_iff min_def)
  qed
  also have "\<dots> = d"
  proof -
    have "signed_take_bit 25 (sint d) = sint d"
      using assms(1,2) by (intro signed_take_bit_int_eq_self) simp_all
    then have "bit (sint d) (min 25 n) = bit (sint d) n" for n
      using bit_signed_take_bit_iff [of 25 "sint d" n] by simp
    then have "bit (sint d) 25 = bit (sint d) n" if "25 \<le> n" for n using that by (metis min.absorb1)
    then have "bit d 25 = bit d n" if "25 \<le> n" "n < 32" for n using that by (auto simp: bit_sint_iff)
    then show ?thesis by (intro bit_eqI) (auto simp: bit_simps min_def)
  qed
  finally show ?thesis by (simp add: branch_target_def f)
qed

subsection \<open>Where a relocation stores\<close>

lemma spot_st16:
  assumes "x + 2 \<le> 2 ^ 32" and "y < 2 ^ 32"
  shows "spot (st16 m (of_nat x) w) y = (if x \<le> y \<and> y < x + 2 then split16 w ! (y - x) else spot m y)"
proof -
  have eq: "(of_nat y :: u32) = of_nat x + of_nat k \<longleftrightarrow> y = x + k" if "k < 2" for k
  proof -
    have "of_nat x + of_nat k = (of_nat (x + k) :: u32)" by simp
    moreover have "unat (of_nat (x + k) :: u32) = x + k" "unat (of_nat y :: u32) = y"
      using assms that by (intro unat_small; simp)+
    ultimately show ?thesis by (metis (no_types))
  qed
  from eq [of 0] eq [of 1]
  have "(of_nat y :: u32) = of_nat x \<longleftrightarrow> y = x" "(of_nat y :: u32) = of_nat x + 1 \<longleftrightarrow> y = x + 1" by simp_all
  moreover consider "y < x" | "y = x" | "y = x + 1" | "x + 2 \<le> y" by linarith
  ultimately show ?thesis
    by cases (simp_all add: spot_def st16_def split16_def)
qed

definition known_reloc :: "u32 \<Rightarrow> bool" where
  "known_reloc t \<longleftrightarrow> t \<in> {R_PPC_NONE, R_PPC_ADDR32, R_PPC_ADDR16_LO, R_PPC_ADDR16_HA, R_PPC_REL24, R_PPC_REL32}"

text \<open>How many bytes a relocation changes: the halves of an address are two bytes.\<close>

definition reloc_width :: "u32 \<Rightarrow> nat" where
  "reloc_width t = (if t = R_PPC_NONE then 0 else if t \<in> {R_PPC_ADDR16_LO, R_PPC_ADDR16_HA} then 2 else 4)"

lemma known_reloc_cases:
  assumes "known_reloc t"
  obtains (none) "reloc_width t = 0" and "\<And>m. reloc_store m t p s ad v = Some m"
  | (word) f where "reloc_width t = 4" and "\<And>m. reloc_store m t p s ad v = Some (st32 m p (f (ld32 m p)))"
  | (half) h where "reloc_width t = 2" and "\<And>m. reloc_store m t p s ad v = Some (st16 m p h)"
proof -
  from assms consider "t = R_PPC_NONE" | "t = R_PPC_ADDR32" | "t = R_PPC_ADDR16_LO" | "t = R_PPC_ADDR16_HA"
    | "t = R_PPC_REL24" | "t = R_PPC_REL32" by (auto simp: known_reloc_def)
  then show thesis
  proof cases
    case 1
    then show ?thesis by (intro none) (simp_all add: reloc_store_def reloc_width_def)
  next
    case 2
    then show ?thesis using word [of "\<lambda>_. s + ad + v"] reloc_ADDR32 by (simp add: reloc_width_def)
  next
    case 3
    then show ?thesis using half reloc_ADDR16_LO by (simp add: reloc_width_def)
  next
    case 4
    then show ?thesis using half reloc_ADDR16_HA by (simp add: reloc_width_def)
  next
    case 5
    then show ?thesis using word [of "\<lambda>w. (w AND NOT LI_mask) OR ((s + ad - p) AND LI_mask)"] reloc_REL24
      by (simp add: reloc_width_def)
  next
    case 6
    then show ?thesis using word [of "\<lambda>_. s + ad - p"] reloc_REL32 by (simp add: reloc_width_def)
  qed
qed

lemma unknown_reloc: "\<not> known_reloc t \<Longrightarrow> reloc_store m t p s ad v = None"
  by (simp add: known_reloc_def reloc_store_def)

text \<open>A relocation changes the bytes of its width, and what it makes of them depends only on them.\<close>

lemma reloc_store_local:
  assumes t: "known_reloc t" and p: "p + reloc_width t \<le> 2 ^ 32"
    and eq: "\<And>y. p \<le> y \<Longrightarrow> y < p + reloc_width t \<Longrightarrow> spot m1 y = spot m y"
  obtains m' m1' where "reloc_store m t (of_nat p) s ad v = Some m'" and "reloc_store m1 t (of_nat p) s ad v = Some m1'"
    and "\<And>y. p \<le> y \<Longrightarrow> y < p + reloc_width t \<Longrightarrow> spot m1' y = spot m' y"
    and "\<And>y. y < 2 ^ 32 \<Longrightarrow> y < p \<or> p + reloc_width t \<le> y \<Longrightarrow> spot m1' y = spot m1 y"
proof -
  have b: "y < 2 ^ 32" if "y < p + reloc_width t" for y using p that by simp
  from t show thesis
  proof (cases rule: known_reloc_cases [of t "of_nat p" s ad v])
    case none
    with eq that show ?thesis by auto
  next
    case (word f)
    have p4: "p + 4 \<le> 2 ^ 32" using p word(1) by simp
    have "ld32 m1 (of_nat p) = ld32 m (of_nat p)" using eq word(1) by (intro ld32_cong) simp
    show ?thesis
    proof (rule that)
      show "reloc_store m t (of_nat p) s ad v = Some (st32 m (of_nat p) (f (ld32 m (of_nat p))))" by (rule word)
      show "reloc_store m1 t (of_nat p) s ad v = Some (st32 m1 (of_nat p) (f (ld32 m1 (of_nat p))))" by (rule word)
    qed (use b eq word(1) \<open>ld32 m1 (of_nat p) = ld32 m (of_nat p)\<close> in \<open>auto simp: spot_st32 [OF p4]\<close>)
  next
    case (half h)
    have p2: "p + 2 \<le> 2 ^ 32" using p half(1) by simp
    show ?thesis
    proof (rule that)
      show "reloc_store m t (of_nat p) s ad v = Some (st16 m (of_nat p) h)" by (rule half)
      show "reloc_store m1 t (of_nat p) s ad v = Some (st16 m1 (of_nat p) h)" by (rule half)
    qed (use b eq half(1) in \<open>auto simp: spot_st16 [OF p2]\<close>)
  qed
qed

subsection \<open>The relocations of a section\<close>

text \<open>
  Relocation \<open>k\<close> of a table at \<open>R\<close>, against the symbols at \<open>S\<close>, whose section header is at \<open>Y\<close>, and the section
  headers at \<open>H\<close>, for a section at \<open>A\<close>, as the memory \<open>m\<close> has it.
\<close>

definition rel_at :: "nat \<Rightarrow> nat \<Rightarrow> u32" where
  "rel_at R k = of_nat (R + 12 * k)"

definition rk_type :: "mem \<Rightarrow> nat \<Rightarrow> nat \<Rightarrow> u32" where
  "rk_type m R k = ELF32_R_TYPE (rel_info m (rel_at R k))"

definition rk_patch :: "mem \<Rightarrow> nat \<Rightarrow> nat \<Rightarrow> nat \<Rightarrow> nat" where
  "rk_patch m R A k = A + unat (rel_offset m (rel_at R k))"

definition rk_sym :: "mem \<Rightarrow> nat \<Rightarrow> nat \<Rightarrow> nat \<Rightarrow> nat" where
  "rk_sym m R S k = S + 16 * unat (ELF32_R_SYM (rel_info m (rel_at R k)))"

definition rk_index :: "mem \<Rightarrow> nat \<Rightarrow> nat \<Rightarrow> nat \<Rightarrow> u16" where
  "rk_index m R S k = sym_shindex m (of_nat (rk_sym m R S k))"

text \<open>The header of the string table of the symbols, and where the name of the symbol is.\<close>

definition str_head :: "mem \<Rightarrow> nat \<Rightarrow> nat \<Rightarrow> nat" where
  "str_head m H Y = H + 40 * unat (sh_link m (of_nat Y))"

definition rk_name :: "mem \<Rightarrow> nat \<Rightarrow> nat \<Rightarrow> nat \<Rightarrow> nat \<Rightarrow> nat \<Rightarrow> nat" where
  "rk_name m H Y R S k = unat (sh_addr m (of_nat (str_head m H Y)) + sym_name m (of_nat (rk_sym m R S k)))"

text \<open>
  The symbol of relocation \<open>k\<close> is \<open>SysBase\<close> of exec: it is the first absolute symbol of this name that the
  relocations of the table use.
\<close>

definition rk_named :: "mem \<Rightarrow> nat \<Rightarrow> nat \<Rightarrow> nat \<Rightarrow> nat \<Rightarrow> nat \<Rightarrow> bool" where
  "rk_named m H Y R S k \<longleftrightarrow> rk_index m R S k = SHN_ABS
     \<and> chars (mem_bytes m (of_nat (rk_name m H Y R S k)) 8) = lit ''SysBase''"

definition first_sysbase :: "mem \<Rightarrow> nat \<Rightarrow> nat \<Rightarrow> nat \<Rightarrow> nat \<Rightarrow> nat \<Rightarrow> u32 option" where
  "first_sysbase m H Y R S i =
     map_option (\<lambda>j. of_nat (rk_sym m R S j)) (find (rk_named m H Y R S) [0..<i])"

definition rk_sysbase :: "mem \<Rightarrow> nat \<Rightarrow> nat \<Rightarrow> nat \<Rightarrow> nat \<Rightarrow> nat \<Rightarrow> bool" where
  "rk_sysbase m H Y R S k \<longleftrightarrow> rk_index m R S k = SHN_ABS
     \<and> first_sysbase m H Y R S (Suc k) = Some (of_nat (rk_sym m R S k))"

text \<open>
  The value of the symbol: 4 for \<open>SysBase\<close>, the address exec is found at; the value itself for the other
  absolute ones; else it is relative to its section. All but \<open>SysBase\<close> get the offset to virtual addresses.
\<close>

definition rk_value :: "mem \<Rightarrow> nat \<Rightarrow> nat \<Rightarrow> nat \<Rightarrow> nat \<Rightarrow> nat \<Rightarrow> u32" where
  "rk_value m H Y R S k =
     (if rk_sysbase m H Y R S k then 4
      else if rk_index m R S k = SHN_ABS then sym_value m (of_nat (rk_sym m R S k))
      else sh_addr m (of_nat (H + 40 * unat (rk_index m R S k))) + sym_value m (of_nat (rk_sym m R S k)))"

definition rk_virt :: "mem \<Rightarrow> nat \<Rightarrow> nat \<Rightarrow> nat \<Rightarrow> nat \<Rightarrow> u32 \<Rightarrow> nat \<Rightarrow> u32" where
  "rk_virt m H Y R S virt k = (if rk_sysbase m H Y R S k then 0 else virt)"

definition patch_range :: "mem \<Rightarrow> nat \<Rightarrow> nat \<Rightarrow> nat \<Rightarrow> nat set" where
  "patch_range m R A k = {rk_patch m R A k ..< rk_patch m R A k + reloc_width (rk_type m R k)}"

text \<open>
  What relocation \<open>k\<close> is read from: its entry, its symbol and the address of its symbol's section, or, for an
  absolute symbol, its name.
\<close>

definition reloc_reads :: "mem \<Rightarrow> nat \<Rightarrow> nat \<Rightarrow> nat \<Rightarrow> nat \<Rightarrow> nat \<Rightarrow> nat set" where
  "reloc_reads m H Y R S k = {R + 12 * k ..< R + 12 * k + 12} \<union> {rk_sym m R S k ..< rk_sym m R S k + 16}
     \<union> (if rk_index m R S k = SHN_ABS
        then {Y + 24 ..< Y + 28} \<union> {str_head m H Y + 12 ..< str_head m H Y + 16}
          \<union> {rk_name m H Y R S k ..< rk_name m H Y R S k + 8}
        else {H + 40 * unat (rk_index m R S k) + 12 ..< H + 40 * unat (rk_index m R S k) + 16})"

definition relocatable :: "mem \<Rightarrow> nat \<Rightarrow> nat \<Rightarrow> nat \<Rightarrow> nat \<Rightarrow> nat \<Rightarrow> nat \<Rightarrow> bool" where
  "relocatable m H Y R S A n \<longleftrightarrow>
     (\<forall>k < n. known_reloc (rk_type m R k) \<and> rk_index m R S k \<notin> {SHN_UNDEF, SHN_COMMON}
        \<and> rk_patch m R A k + reloc_width (rk_type m R k) \<le> 2 ^ 32 \<and> (\<forall>y \<in> reloc_reads m H Y R S k. y < 2 ^ 32))
     \<and> (\<forall>j < n. \<forall>k < n. patch_range m R A j \<inter> reloc_reads m H Y R S k = {}
        \<and> (j \<noteq> k \<longrightarrow> patch_range m R A j \<inter> patch_range m R A k = {}))"

text \<open>After the first \<open>i\<close> relocations: each has done to its bytes what it does on its own, all else is as it was.\<close>

definition relocated :: "mem \<Rightarrow> nat \<Rightarrow> nat \<Rightarrow> nat \<Rightarrow> nat \<Rightarrow> nat \<Rightarrow> u32 \<Rightarrow> nat \<Rightarrow> mem \<Rightarrow> bool" where
  "relocated m H Y R S A virt i m' \<longleftrightarrow>
     (\<forall>k < i. \<exists>mk. reloc_store m (rk_type m R k) (of_nat (rk_patch m R A k)) (rk_value m H Y R S k)
          (rel_addend m (rel_at R k)) (rk_virt m H Y R S virt k) = Some mk \<and> (\<forall>y \<in> patch_range m R A k. spot m' y = spot mk y))
     \<and> (\<forall>y < 2 ^ 32. (\<forall>k < i. y \<notin> patch_range m R A k) \<longrightarrow> spot m' y = spot m y)"

text \<open>A memory that agrees on these bytes has the same relocation.\<close>

lemma mem_bytes_cong:
  assumes "\<And>y. x \<le> y \<Longrightarrow> y < x + n \<Longrightarrow> spot m' y = spot m y"
  shows "mem_bytes m' (of_nat x) n = mem_bytes m (of_nat x) n"
proof -
  have "spot m' (x + i) = spot m (x + i)" if "i < n" for i using assms that by simp
  then show ?thesis by (simp add: mem_bytes_def spot_def)
qed

lemma reads_same:
  assumes "\<forall>y \<in> reloc_reads m H Y R S k. spot m' y = spot m y"
  shows "rel_info m' (rel_at R k) = rel_info m (rel_at R k)" "rel_offset m' (rel_at R k) = rel_offset m (rel_at R k)"
    "rel_addend m' (rel_at R k) = rel_addend m (rel_at R k)"
    "sym_shindex m' (of_nat (rk_sym m R S k)) = rk_index m R S k"
    "sym_value m' (of_nat (rk_sym m R S k)) = sym_value m (of_nat (rk_sym m R S k))"
    "sym_name m' (of_nat (rk_sym m R S k)) = sym_name m (of_nat (rk_sym m R S k))"
    "rk_index m R S k \<noteq> SHN_ABS \<Longrightarrow>
      sh_addr m' (of_nat (H + 40 * unat (rk_index m R S k))) = sh_addr m (of_nat (H + 40 * unat (rk_index m R S k)))"
    "rk_index m R S k = SHN_ABS \<Longrightarrow> sh_link m' (of_nat Y) = sh_link m (of_nat Y)"
    "rk_index m R S k = SHN_ABS \<Longrightarrow> sh_addr m' (of_nat (str_head m H Y)) = sh_addr m (of_nat (str_head m H Y))"
    "rk_index m R S k = SHN_ABS \<Longrightarrow>
      mem_bytes m' (of_nat (rk_name m H Y R S k)) 8 = mem_bytes m (of_nat (rk_name m H Y R S k)) 8"
proof -
  have eq: "y \<in> reloc_reads m H Y R S k \<Longrightarrow> spot m' y = spot m y" for y using assms by blast
  have "ld32 m' (of_nat (R + 12 * k + d)) = ld32 m (of_nat (R + 12 * k + d))" if "d + 4 \<le> 12" for d
    using that by (intro ld32_cong eq) (simp add: reloc_reads_def)
  from this [of 0] this [of 4] this [of 8]
  show "rel_info m' (rel_at R k) = rel_info m (rel_at R k)" "rel_offset m' (rel_at R k) = rel_offset m (rel_at R k)"
    "rel_addend m' (rel_at R k) = rel_addend m (rel_at R k)"
    by (simp_all add: rel_info_def rel_offset_def rel_addend_def rel_at_def add.commute)
  have "ld32 m' (of_nat (rk_sym m R S k + d)) = ld32 m (of_nat (rk_sym m R S k + d))" if "d + 4 \<le> 16" for d
    using that by (intro ld32_cong eq) (simp add: reloc_reads_def)
  from this [of 0] this [of 4]
  show "sym_value m' (of_nat (rk_sym m R S k)) = sym_value m (of_nat (rk_sym m R S k))"
    "sym_name m' (of_nat (rk_sym m R S k)) = sym_name m (of_nat (rk_sym m R S k))"
    by (simp_all add: sym_value_def sym_name_def add.commute)
  have "ld16 m' (of_nat (rk_sym m R S k + 14)) = ld16 m (of_nat (rk_sym m R S k + 14))"
    by (intro ld16_cong eq) (simp add: reloc_reads_def)
  then show "sym_shindex m' (of_nat (rk_sym m R S k)) = rk_index m R S k"
    by (simp add: sym_shindex_def rk_index_def add.commute)
  { assume "rk_index m R S k \<noteq> SHN_ABS"
    then have "ld32 m' (of_nat (H + 40 * unat (rk_index m R S k) + 12)) = ld32 m (of_nat (H + 40 * unat (rk_index m R S k) + 12))"
      by (intro ld32_cong eq) (simp add: reloc_reads_def)
    then show "sh_addr m' (of_nat (H + 40 * unat (rk_index m R S k))) = sh_addr m (of_nat (H + 40 * unat (rk_index m R S k)))"
      by (simp add: sh_addr_def add.commute) }
  { assume a: "rk_index m R S k = SHN_ABS"
    have "ld32 m' (of_nat (Y + 24)) = ld32 m (of_nat (Y + 24))"
      "ld32 m' (of_nat (str_head m H Y + 12)) = ld32 m (of_nat (str_head m H Y + 12))"
      using a by (intro ld32_cong eq; simp add: reloc_reads_def)+
    then show "sh_link m' (of_nat Y) = sh_link m (of_nat Y)"
      "sh_addr m' (of_nat (str_head m H Y)) = sh_addr m (of_nat (str_head m H Y))"
      by (simp_all add: sh_link_def sh_addr_def add.commute)
    show "mem_bytes m' (of_nat (rk_name m H Y R S k)) 8 = mem_bytes m (of_nat (rk_name m H Y R S k)) 8"
      using a by (intro mem_bytes_cong eq) (simp add: reloc_reads_def) }
qed

lemma rk_same_one:
  assumes "\<forall>y \<in> reloc_reads m H Y R S k. spot m' y = spot m y"
  shows "rk_type m' R k = rk_type m R k" "rk_patch m' R A k = rk_patch m R A k" "rk_sym m' R S k = rk_sym m R S k"
    "rk_index m' R S k = rk_index m R S k" "rel_addend m' (rel_at R k) = rel_addend m (rel_at R k)"
    "rk_named m' H Y R S k = rk_named m H Y R S k"
    "patch_range m' R A k = patch_range m R A k" "reloc_reads m' H Y R S k = reloc_reads m H Y R S k"
proof -
  note rd = reads_same [OF assms]
  show ty: "rk_type m' R k = rk_type m R k" and pa: "rk_patch m' R A k = rk_patch m R A k"
    and sy: "rk_sym m' R S k = rk_sym m R S k" and ad: "rel_addend m' (rel_at R k) = rel_addend m (rel_at R k)"
    by (simp_all add: rk_type_def rk_patch_def rk_sym_def rd)
  show ix: "rk_index m' R S k = rk_index m R S k" by (simp add: rk_index_def [of m'] sy rd)
  have st: "str_head m' H Y = str_head m H Y" if "rk_index m R S k = SHN_ABS"
    using rd(8) [OF that] by (simp add: str_head_def)
  then have na: "rk_name m' H Y R S k = rk_name m H Y R S k" if "rk_index m R S k = SHN_ABS"
    using rd(6) rd(9) [OF that] that by (simp add: rk_name_def sy)
  show "rk_named m' H Y R S k = rk_named m H Y R S k"
    using rd(10) na by (auto simp: rk_named_def ix)
  show "patch_range m' R A k = patch_range m R A k" by (simp add: patch_range_def pa ty)
  show "reloc_reads m' H Y R S k = reloc_reads m H Y R S k" using st na by (simp add: reloc_reads_def ix sy)
qed

lemma find_upt_cong: "(\<And>j. j < i \<Longrightarrow> P j = Q j) \<Longrightarrow> find P [0..<i] = find Q [0..<i]"
  by (rule find_cong) simp_all

lemma rk_same:
  assumes "\<forall>j \<le> k. \<forall>y \<in> reloc_reads m H Y R S j. spot m' y = spot m y"
  shows "rk_sysbase m' H Y R S k = rk_sysbase m H Y R S k" "rk_value m' H Y R S k = rk_value m H Y R S k"
    "rk_virt m' H Y R S virt k = rk_virt m H Y R S virt k"
proof -
  have r: "\<forall>y \<in> reloc_reads m H Y R S j. spot m' y = spot m y" if "j \<le> k" for j using assms that by blast
  note one = rk_same_one [OF r] and rd = reads_same [OF r [OF order.refl]]
  have n: "find (rk_named m' H Y R S) [0..<Suc k] = find (rk_named m H Y R S) [0..<Suc k]"
    using one(6) by (intro find_upt_cong) (simp add: less_Suc_eq_le)
  have "j \<le> k" if "find (rk_named m H Y R S) [0..<Suc k] = Some j" for j
    using that by (auto simp: find_Some_iff less_Suc_eq_le simp del: upt_Suc)
  with one(3) have "first_sysbase m' H Y R S (Suc k) = first_sysbase m H Y R S (Suc k)"
    unfolding first_sysbase_def n by (cases "find (rk_named m H Y R S) [0..<Suc k]") simp_all
  then show sb: "rk_sysbase m' H Y R S k = rk_sysbase m H Y R S k"
    using one(3,4) [OF order.refl] by (simp add: rk_sysbase_def)
  show "rk_value m' H Y R S k = rk_value m H Y R S k"
    using rd(5,7) one(3,4) [OF order.refl] by (simp add: rk_value_def sb)
  show "rk_virt m' H Y R S virt k = rk_virt m H Y R S virt k" by (simp add: rk_virt_def sb)
qed

lemma relocated_reads:
  assumes ok: "relocatable m H Y R S A n" and r: "relocated m H Y R S A virt i m'" and i: "i \<le> n" and k: "k < n"
  shows "\<forall>y \<in> reloc_reads m H Y R S k. spot m' y = spot m y"
proof
  fix y assume y: "y \<in> reloc_reads m H Y R S k"
  have "patch_range m R A j \<inter> reloc_reads m H Y R S k = {}" if "j < i" for j
    using ok i k that by (simp add: relocatable_def)
  with y have "\<forall>j < i. y \<notin> patch_range m R A j" by blast
  moreover have "y < 2 ^ 32" using ok k y by (auto simp: relocatable_def)
  ultimately show "spot m' y = spot m y" using r by (simp add: relocated_def)
qed

lemma relocated_Suc:
  assumes ok: "relocatable m H Y R S A n" and r: "relocated m H Y R S A virt i m1" and i: "i < n"
  obtains m2 where "reloc_store m1 (rk_type m R i) (of_nat (rk_patch m R A i)) (rk_value m H Y R S i)
      (rel_addend m (rel_at R i)) (rk_virt m H Y R S virt i) = Some m2" and "relocated m H Y R S A virt (Suc i) m2"
proof -
  let ?p = "rk_patch m R A i" and ?w = "reloc_width (rk_type m R i)"
  have t: "known_reloc (rk_type m R i)" and p: "?p + ?w \<le> 2 ^ 32" using ok i by (simp_all add: relocatable_def)
  have dj: "patch_range m R A j \<inter> patch_range m R A k = {}" if "j < n" "k < n" "j \<noteq> k" for j k
    using ok that by (simp add: relocatable_def)
  have "spot m1 y = spot m y" if "?p \<le> y" "y < ?p + ?w" for y
  proof -
    have "y \<in> patch_range m R A i" using that by (simp add: patch_range_def)
    then have "y \<notin> patch_range m R A j" if "j < i" for j using dj [of j i] i that by auto
    then have "\<forall>j < i. y \<notin> patch_range m R A j" by blast
    moreover have "y < 2 ^ 32" using that p by simp
    ultimately show ?thesis using r by (simp add: relocated_def)
  qed
  from reloc_store_local [OF t p this] obtain mi m2 where
    mi: "reloc_store m (rk_type m R i) (of_nat ?p) (rk_value m H Y R S i) (rel_addend m (rel_at R i))
      (rk_virt m H Y R S virt i) = Some mi"
    and m2: "reloc_store m1 (rk_type m R i) (of_nat ?p) (rk_value m H Y R S i) (rel_addend m (rel_at R i))
      (rk_virt m H Y R S virt i) = Some m2"
    and inn: "\<And>y. ?p \<le> y \<Longrightarrow> y < ?p + ?w \<Longrightarrow> spot m2 y = spot mi y"
    and out: "\<And>y. y < 2 ^ 32 \<Longrightarrow> y < ?p \<or> ?p + ?w \<le> y \<Longrightarrow> spot m2 y = spot m1 y" by blast
  have "relocated m H Y R S A virt (Suc i) m2"
    unfolding relocated_def
  proof (intro conjI allI impI)
    fix k assume k: "k < Suc i"
    show "\<exists>mk. reloc_store m (rk_type m R k) (of_nat (rk_patch m R A k)) (rk_value m H Y R S k)
        (rel_addend m (rel_at R k)) (rk_virt m H Y R S virt k) = Some mk \<and> (\<forall>y \<in> patch_range m R A k. spot m2 y = spot mk y)"
    proof (cases "k = i")
      case True
      with mi inn show ?thesis by (auto simp: patch_range_def)
    next
      case False
      then have ki: "k < i" using k by simp
      have "spot m2 y = spot m1 y" if y: "y \<in> patch_range m R A k" for y
      proof (rule out)
        have "rk_patch m R A k + reloc_width (rk_type m R k) \<le> 2 ^ 32" using ok ki i by (simp add: relocatable_def)
        then show "y < 2 ^ 32" using y by (simp add: patch_range_def)
        have "y \<notin> patch_range m R A i" using dj [of k i] ki i y by auto
        then show "y < ?p \<or> ?p + ?w \<le> y" by (auto simp: patch_range_def)
      qed
      with r ki show ?thesis by (auto simp: relocated_def)
    qed
  next
    fix y :: nat assume "y < 2 ^ 32" "\<forall>k < Suc i. y \<notin> patch_range m R A k"
    with out [of y] r show "spot m2 y = spot m y" by (auto simp: patch_range_def relocated_def)
  qed
  with m2 that show ?thesis by blast
qed

lemma first_sysbase_Suc:
  "first_sysbase m H Y R S (Suc k) = (case first_sysbase m H Y R S k of Some s \<Rightarrow> Some s
     | None \<Rightarrow> if rk_named m H Y R S k then Some (of_nat (rk_sym m R S k)) else None)"
proof -
  have "find P (xs @ [x]) = (case find P xs of Some y \<Rightarrow> Some y | None \<Rightarrow> if P x then Some x else None)"
    for P and x :: nat and xs by (induction xs) simp_all
  then show ?thesis
    by (cases "find (rk_named m H Y R S) [0..<k]") (simp_all add: first_sysbase_def)
qed

text \<open>The symbol of a relocation, for the name the loop has remembered so far.\<close>

lemma strncmp_name:
  "length a = Suc (length s) \<Longrightarrow> NUL \<notin> set s
    \<Longrightarrow> \<exists>d. strncmp a (s @ [NUL]) (int (Suc (length s))) = Some d \<and> (d = 0 \<longleftrightarrow> a = s @ [NUL])"
proof (induction s arbitrary: a)
  case Nil
  then obtain c where "a = [c]" by (cases a) auto
  then show ?case using code_eq_iff [of NUL c] by (cases "c = NUL") (auto simp: strncmp_step strncmp_0)
next
  case (Cons x s)
  then obtain c a' where a: "a = c # a'" "length a' = Suc (length s)" by (cases a) auto
  show ?case
  proof (cases "c = x")
    case True
    with Cons a show ?thesis using Cons.IH [of a'] by (auto simp: strncmp_step)
  qed (use a code_eq_iff [of x c] in \<open>auto simp: strncmp_step\<close>)
qed

lemma symbol_value:
  assumes same: "\<forall>y \<in> reloc_reads m H Y R S k. spot m1 y = spot m y"
    and ix: "rk_index m R S k \<notin> {SHN_UNDEF, SHN_COMMON}"
  shows "reloc_symbol m1 (of_nat H) (of_nat Y) (first_sysbase m H Y R S k) (of_nat (rk_sym m R S k)) virt
    = Some (Some (rk_value m H Y R S k, rk_virt m H Y R S virt k, first_sysbase m H Y R S (Suc k)))"
proof -
  note rd = reads_same [OF same]
  have hd: "sh_at (of_nat H) (ucast x) = of_nat (H + 40 * unat x)" for x :: u16 by (simp add: sh_at_def)
  have st: "sh_at (of_nat H) (sh_link m (of_nat Y)) = of_nat (str_head m H Y)" by (simp add: sh_at_def str_head_def)
  show ?thesis
  proof (cases "rk_index m R S k = SHN_ABS")
    case False
    then have "\<not> rk_named m H Y R S k" "\<not> rk_sysbase m H Y R S k" by (simp_all add: rk_named_def rk_sysbase_def)
    with False ix rd(7) show ?thesis
      by (simp add: reloc_symbol_def rd(4,5) hd rk_value_def rk_virt_def first_sysbase_Suc split: option.split)
  next
    case abs: True
    show ?thesis
    proof (cases "first_sysbase m H Y R S k")
      case (Some sb)
      with abs show ?thesis
        by (simp add: reloc_symbol_def rd(4,5) rk_value_def rk_virt_def rk_sysbase_def first_sysbase_Suc)
    next
      case None
      have na: "sh_addr m1 (sh_at (of_nat H) (sh_link m1 (of_nat Y))) + sym_name m1 (of_nat (rk_sym m R S k))
          = of_nat (rk_name m H Y R S k)"
        using rd(6) rd(8,9) [OF abs] st by (simp add: rk_name_def)
      have "length (chars (mem_bytes m (of_nat (rk_name m H Y R S k)) 8)) = Suc (length ''SysBase'')"
        by (simp add: chars_def mem_bytes_def)
      from strncmp_name [OF this] obtain d where
        d: "strncmp (chars (mem_bytes m (of_nat (rk_name m H Y R S k)) 8)) (lit ''SysBase'') 8 = Some d"
        "d = 0 \<longleftrightarrow> chars (mem_bytes m (of_nat (rk_name m H Y R S k)) 8) = lit ''SysBase''" by (auto simp: lit_def)
      with None abs rd(10) [OF abs] na show ?thesis
        by (simp add: reloc_symbol_def rd(4,5) first_sysbase_Suc rk_value_def rk_virt_def rk_sysbase_def rk_named_def)
    qed
  qed
qed

lemma relocatable_less:
  assumes "relocatable m H Y R S A (Suc i)"
  shows "relocatable m H Y R S A i"
  unfolding relocatable_def
proof (intro conjI allI impI)
  fix k assume "k < i"
  then have k: "k < Suc i" by simp
  note ok = assms [unfolded relocatable_def, THEN conjunct1, THEN spec, THEN mp, OF k]
  from ok show "known_reloc (rk_type m R k)" "rk_index m R S k \<notin> {SHN_UNDEF, SHN_COMMON}"
    "rk_patch m R A k + reloc_width (rk_type m R k) \<le> 2 ^ 32" "\<forall>y \<in> reloc_reads m H Y R S k. y < 2 ^ 32"
    by blast+
  fix j assume "j < i"
  then have j: "j < Suc i" by simp
  from assms [unfolded relocatable_def, THEN conjunct2, rule_format, OF j k]
  show "patch_range m R A j \<inter> reloc_reads m H Y R S k = {}"
    "j \<noteq> k \<Longrightarrow> patch_range m R A j \<inter> patch_range m R A k = {}" by blast+
qed

lemma reloc_loop_reaches:
  "relocatable m H Y R S A i \<Longrightarrow> i \<le> n
    \<Longrightarrow> \<exists>m1. reloc_loop (of_nat H) (of_nat Y) (of_nat S) (of_nat A) virt n (rel_at R 0) None m
        = reloc_loop (of_nat H) (of_nat Y) (of_nat S) (of_nat A) virt (n - i) (rel_at R i) (first_sysbase m H Y R S i) m1
      \<and> relocated m H Y R S A virt i m1"
proof (induction i)
  case (Suc i)
  from relocatable_less [OF Suc.prems(1)] Suc obtain m1 where
    l: "reloc_loop (of_nat H) (of_nat Y) (of_nat S) (of_nat A) virt n (rel_at R 0) None m
        = reloc_loop (of_nat H) (of_nat Y) (of_nat S) (of_nat A) virt (n - i) (rel_at R i) (first_sysbase m H Y R S i) m1"
    and r: "relocated m H Y R S A virt i m1" by auto
  have ni: "n - i = Suc (n - Suc i)" using Suc.prems(2) by simp
  note same = relocated_reads [OF Suc.prems(1) r le_SucI [OF order.refl] lessI]
  note rd = reads_same [OF same]
  from relocated_Suc [OF Suc.prems(1) r lessI] obtain m2 where
    st: "reloc_store m1 (rk_type m R i) (of_nat (rk_patch m R A i)) (rk_value m H Y R S i)
      (rel_addend m (rel_at R i)) (rk_virt m H Y R S virt i) = Some m2" and r2: "relocated m H Y R S A virt (Suc i) m2" .
  have "rk_index m R S i \<notin> {SHN_UNDEF, SHN_COMMON}" using Suc.prems(1) by (simp add: relocatable_def)
  moreover have "rel_at R i + 12 = rel_at R (Suc i)" by (simp add: rel_at_def)
  ultimately show ?case
    using symbol_value [OF same, of virt] st r2 unfolding l ni
    by (intro exI [of _ m2]) (simp add: rd rk_type_def rk_patch_def rk_sym_def)
qed (auto simp: first_sysbase_def relocated_def)

text \<open>\<open>relocate\<close> for the section table entry \<open>x\<close>.\<close>

lemma relocate_ok:
  assumes ok: "relocatable m H Y R S A n"
    and rel: "sh_addr m (sh_at (of_nat H) x) = of_nat R" and ent: "sh_entsize m (sh_at (of_nat H) x) = 12"
    and size': "unat (sh_size m (sh_at (of_nat H) x)) = 12 * n"
    and head: "sh_at (of_nat H) (sh_link m (sh_at (of_nat H) x)) = of_nat Y" and symtab: "sh_addr m (of_nat Y) = of_nat S"
    and target: "sh_addr m (sh_at (of_nat H) (sh_info m (sh_at (of_nat H) x))) = of_nat A"
  shows "\<exists>m'. relocate (of_nat H) x virt m = Some (1, m') \<and> relocated m H Y R S A virt n m'"
proof -
  have "unat (sh_size m (sh_at (of_nat H) x) div 12) = n" using size' by (simp add: unat_div)
  with reloc_loop_reaches [OF ok order.refl, of virt] show ?thesis
    by (simp add: relocate_def Let_def ent rel head symtab target rel_at_def)
qed

text \<open>
  A relocation against an undefined or common symbol, or of an unknown type, ends the table with an error,
  wherever it is in the table.
\<close>

lemma reloc_loop_fails:
  assumes ok: "relocatable m H Y R S A i" and i: "i < n"
    and reads: "\<forall>y \<in> reloc_reads m H Y R S i. y < 2 ^ 32 \<and> (\<forall>j < i. y \<notin> patch_range m R A j)"
    and bad: "rk_index m R S i \<in> {SHN_UNDEF, SHN_COMMON} \<or> \<not> known_reloc (rk_type m R i)"
  shows "\<exists>m'. reloc_loop (of_nat H) (of_nat Y) (of_nat S) (of_nat A) virt n (rel_at R 0) None m = Some (0, m')"
proof -
  have ni: "n - i = Suc (n - Suc i)" using i by simp
  from reloc_loop_reaches [OF ok, of n virt] i obtain m1 where
    l: "reloc_loop (of_nat H) (of_nat Y) (of_nat S) (of_nat A) virt n (rel_at R 0) None m
        = reloc_loop (of_nat H) (of_nat Y) (of_nat S) (of_nat A) virt (n - i) (rel_at R i) (first_sysbase m H Y R S i) m1"
    and r: "relocated m H Y R S A virt i m1" by auto
  have same: "\<forall>y \<in> reloc_reads m H Y R S i. spot m1 y = spot m y" using reads r by (simp add: relocated_def)
  note rd = reads_same [OF same]
  have sy: "of_nat S + 16 * ELF32_R_SYM (rel_info m1 (rel_at R i)) = of_nat (rk_sym m R S i)"
    by (simp add: rd rk_sym_def)
  show ?thesis
  proof (cases "rk_index m R S i \<in> {SHN_UNDEF, SHN_COMMON}")
    case True
    then have "reloc_symbol m1 (of_nat H) (of_nat Y) sb (of_nat (rk_sym m R S i)) virt = Some None" for sb
      by (auto simp: reloc_symbol_def rd(4))
    then show ?thesis unfolding l ni by (simp add: sy Let_def)
  next
    case False
    with bad have t: "\<not> known_reloc (ELF32_R_TYPE (rel_info m1 (rel_at R i)))" by (simp add: rk_type_def rd)
    from symbol_value [OF same False, of virt] unknown_reloc [OF t] show ?thesis
      unfolding l ni by (simp add: sy Let_def)
  qed
qed

end
