(* ===== verification/Elf_File.thy ===== *)
theory Elf_File
  imports Elf_Load Elf_Reloc
begin

text \<open>
  A whole ELF file: the relocation tables of all its sections, the registration of the module, and
  \<open>load_elf_file\<close>, from the header to the new memory.
\<close>

subsection \<open>The relocation tables of a file\<close>

text \<open>
  Section \<open>i\<close> of the file at \<open>F\<close> with section headers at \<open>H\<close>, in the memory \<open>m\<close> that the sections are
  loaded into: whether it is a table for a loaded section, where the table and its symbols are, which
  section it is for and how many relocations it has.
\<close>

abbreviation head :: "nat \<Rightarrow> nat \<Rightarrow> u32" where
  "head H i \<equiv> of_nat (head_at H i)"

definition tab_symtab :: "mem \<Rightarrow> nat \<Rightarrow> nat \<Rightarrow> nat" where
  "tab_symtab m H i = head_at H (unat (sh_link m (head H i)))"

definition tab_toreloc :: "mem \<Rightarrow> nat \<Rightarrow> nat \<Rightarrow> nat" where
  "tab_toreloc m H i = head_at H (unat (sh_info m (head H i)))"

definition tab_active :: "mem \<Rightarrow> nat \<Rightarrow> nat \<Rightarrow> bool" where
  "tab_active m H i \<longleftrightarrow> sh_type m (head H i) = SHT_RELA \<and> sh_addr m (of_nat (tab_toreloc m H i)) \<noteq> 0"

definition tab_rels :: "mem \<Rightarrow> nat \<Rightarrow> nat \<Rightarrow> nat \<Rightarrow> nat" where
  "tab_rels m F H i = F + unat (sh_offset m (head H i))"

definition tab_syms :: "mem \<Rightarrow> nat \<Rightarrow> nat \<Rightarrow> nat" where
  "tab_syms m H i = unat (sh_addr m (of_nat (tab_symtab m H i)))"

definition tab_target :: "mem \<Rightarrow> nat \<Rightarrow> nat \<Rightarrow> nat" where
  "tab_target m H i = unat (sh_addr m (of_nat (tab_toreloc m H i)))"

definition tab_count :: "mem \<Rightarrow> nat \<Rightarrow> nat \<Rightarrow> nat" where
  "tab_count m H i = unat (sh_size m (head H i)) div 12"

text \<open>The bytes the relocations of the table change, and those its step changes and reads.\<close>

definition tab_patches :: "mem \<Rightarrow> nat \<Rightarrow> nat \<Rightarrow> nat \<Rightarrow> nat set" where
  "tab_patches m F H i = (\<Union>k < tab_count m H i. patch_range m (tab_rels m F H i) (tab_target m H i) k)"

definition tab_writes :: "mem \<Rightarrow> nat \<Rightarrow> nat \<Rightarrow> nat \<Rightarrow> nat set" where
  "tab_writes m F H i = (if tab_active m H i then addr_field H i \<union> tab_patches m F H i else {})"

definition head_reads :: "mem \<Rightarrow> nat \<Rightarrow> nat \<Rightarrow> nat set" where
  "head_reads m H i = {head_at H i + 4 ..< head_at H i + 12} \<union> {head_at H i + 16 ..< head_at H i + 40}
     \<union> {tab_symtab m H i + 12 ..< tab_symtab m H i + 16} \<union> {tab_toreloc m H i + 12 ..< tab_toreloc m H i + 16}"

definition tab_reads :: "mem \<Rightarrow> nat \<Rightarrow> nat \<Rightarrow> nat \<Rightarrow> nat set" where
  "tab_reads m F H i = head_reads m H i
     \<union> (if tab_active m H i
        then (\<Union>k < tab_count m H i. reloc_reads m H (tab_symtab m H i) (tab_rels m F H i) (tab_syms m H i) k) else {})"

text \<open>
  A loaded file whose tables can be applied in their order: each on its own, and none changes what
  another one, or the loop, reads or changes.
\<close>

definition tab_ok :: "mem \<Rightarrow> nat \<Rightarrow> nat \<Rightarrow> nat \<Rightarrow> bool" where
  "tab_ok m F H i \<longleftrightarrow> (tab_active m H i \<longrightarrow>
     sh_entsize m (head H i) = 12 \<and> unat (sh_size m (head H i)) mod 12 = 0 \<and> of_nat (tab_rels m F H i) \<noteq> (0 :: u32)
     \<and> relocatable m H (tab_symtab m H i) (tab_rels m F H i) (tab_syms m H i) (tab_target m H i) (tab_count m H i)
     \<and> (addr_field H i \<union> head_reads m H i) \<inter> tab_patches m F H i = {} \<and> addr_field H i \<inter> tab_reads m F H i = {})"

definition file_relocatable :: "mem \<Rightarrow> nat \<Rightarrow> nat \<Rightarrow> nat \<Rightarrow> bool" where
  "file_relocatable m F H n \<longleftrightarrow>
     unat (eh_shnum m (of_nat F)) = n \<and> F + 50 \<le> 2 ^ 32 \<and> H + 40 * n \<le> 2 ^ 32
     \<and> (\<forall>i < n. tab_ok m F H i \<and> (\<forall>y \<in> tab_reads m F H i. y < 2 ^ 32)
          \<and> {F + 48, F + 49} \<inter> tab_writes m F H i = {})
     \<and> (\<forall>j < n. \<forall>i < n. i \<noteq> j \<longrightarrow> tab_writes m F H j \<inter> tab_reads m F H i = {}
          \<and> tab_writes m F H j \<inter> tab_writes m F H i = {})"

text \<open>After the first \<open>i\<close> sections.\<close>

definition applied :: "mem \<Rightarrow> nat \<Rightarrow> nat \<Rightarrow> u32 \<Rightarrow> nat \<Rightarrow> mem \<Rightarrow> bool" where
  "applied m F H virt i m' \<longleftrightarrow>
     (\<forall>k < tab_count m H i. \<exists>mk.
        reloc_store m (rk_type m (tab_rels m F H i) k) (of_nat (rk_patch m (tab_rels m F H i) (tab_target m H i) k))
          (rk_value m H (tab_symtab m H i) (tab_rels m F H i) (tab_syms m H i) k) (rel_addend m (rel_at (tab_rels m F H i) k))
          (rk_virt m H (tab_symtab m H i) (tab_rels m F H i) (tab_syms m H i) virt k) = Some mk
        \<and> (\<forall>y \<in> patch_range m (tab_rels m F H i) (tab_target m H i) k. spot m' y = spot mk y))"

definition file_relocated :: "mem \<Rightarrow> nat \<Rightarrow> nat \<Rightarrow> u32 \<Rightarrow> nat \<Rightarrow> mem \<Rightarrow> bool" where
  "file_relocated m F H virt i m' \<longleftrightarrow>
     (\<forall>j < i. tab_active m H j \<longrightarrow> applied m F H virt j m')
     \<and> (\<forall>y < 2 ^ 32. (\<forall>j < i. y \<notin> tab_writes m F H j) \<longrightarrow> spot m' y = spot m y)"

subsection \<open>Memories that agree on what is read\<close>

lemma head_same:
  assumes "\<forall>y \<in> head_reads m H i. spot m' y = spot m y"
  shows "sh_type m' (head H i) = sh_type m (head H i)" "sh_flags m' (head H i) = sh_flags m (head H i)"
    "sh_offset m' (head H i) = sh_offset m (head H i)"
    "sh_size m' (head H i) = sh_size m (head H i)" "sh_link m' (head H i) = sh_link m (head H i)"
    "sh_info m' (head H i) = sh_info m (head H i)" "sh_entsize m' (head H i) = sh_entsize m (head H i)"
    "sh_addr m' (of_nat (tab_symtab m H i)) = sh_addr m (of_nat (tab_symtab m H i))"
    "sh_addr m' (of_nat (tab_toreloc m H i)) = sh_addr m (of_nat (tab_toreloc m H i))"
proof -
  have l: "ld32 m' (of_nat x) = ld32 m (of_nat x)" if "{x ..< x + 4} \<subseteq> head_reads m H i" for x
    using that assms by (intro ld32_cong) auto
  have h: "ld32 m' (of_nat (head_at H i + d)) = ld32 m (of_nat (head_at H i + d))"
    if "d + 4 \<le> 12 \<and> 4 \<le> d \<or> 16 \<le> d \<and> d + 4 \<le> 40" for d
    using that by (intro l) (auto simp: head_reads_def)
  from h [of 4] h [of 8] h [of 16] h [of 20] h [of 24] h [of 28] h [of 36]
  show "sh_type m' (head H i) = sh_type m (head H i)" "sh_flags m' (head H i) = sh_flags m (head H i)"
    "sh_offset m' (head H i) = sh_offset m (head H i)"
    "sh_size m' (head H i) = sh_size m (head H i)" "sh_link m' (head H i) = sh_link m (head H i)"
    "sh_info m' (head H i) = sh_info m (head H i)" "sh_entsize m' (head H i) = sh_entsize m (head H i)"
    by (simp_all add: sh_type_def sh_flags_def sh_offset_def sh_size_def sh_link_def sh_info_def sh_entsize_def add.commute)
  have "ld32 m' (of_nat (tab_symtab m H i + 12)) = ld32 m (of_nat (tab_symtab m H i + 12))"
    "ld32 m' (of_nat (tab_toreloc m H i + 12)) = ld32 m (of_nat (tab_toreloc m H i + 12))"
    by (intro l; auto simp: head_reads_def)+
  then show "sh_addr m' (of_nat (tab_symtab m H i)) = sh_addr m (of_nat (tab_symtab m H i))"
    "sh_addr m' (of_nat (tab_toreloc m H i)) = sh_addr m (of_nat (tab_toreloc m H i))"
    by (simp_all add: sh_addr_def add.commute)
qed

lemma tab_same:
  assumes "\<forall>y \<in> head_reads m H i. spot m' y = spot m y"
  shows "tab_symtab m' H i = tab_symtab m H i" "tab_toreloc m' H i = tab_toreloc m H i"
    "tab_active m' H i = tab_active m H i" "tab_rels m' F H i = tab_rels m F H i" "tab_syms m' H i = tab_syms m H i"
    "tab_target m' H i = tab_target m H i" "tab_count m' H i = tab_count m H i"
  using head_same [OF assms]
  by (simp_all add: tab_symtab_def tab_toreloc_def tab_active_def tab_rels_def tab_syms_def tab_target_def tab_count_def)

lemma relocatable_same:
  assumes "\<forall>k < n. \<forall>y \<in> reloc_reads m H Y R S k. spot m' y = spot m y"
  shows "relocatable m' H Y R S A n = relocatable m H Y R S A n"
proof -
  note s = rk_same_one [OF assms [rule_format, THEN ballI]]
  show ?thesis
    unfolding relocatable_def by (intro arg_cong2 [where f = conj] all_cong1 imp_cong) (simp_all add: s)
qed

subsection \<open>The next table\<close>

lemma file_relocated_reads:
  assumes ok: "file_relocatable m F H n" and r: "file_relocated m F H virt i m'" and "i \<le> j" and "j < n"
  shows "y \<in> tab_reads m F H j \<Longrightarrow> spot m' y = spot m y"
proof -
  assume y: "y \<in> tab_reads m F H j"
  have "tab_writes m F H k \<inter> tab_reads m F H j = {}" if "k < i" for k
    using ok assms(3,4) that by (simp add: file_relocatable_def)
  with y have "\<forall>k < i. y \<notin> tab_writes m F H k" by blast
  moreover have "y < 2 ^ 32" using ok assms(4) y by (simp add: file_relocatable_def)
  ultimately show ?thesis using r by (simp add: file_relocated_def)
qed

lemma file_relocated_shnum:
  assumes ok: "file_relocatable m F H n" and r: "file_relocated m F H virt i m'" and "i \<le> n"
  shows "eh_shnum m' (of_nat F) = eh_shnum m (of_nat F)"
proof -
  have "ld16 m' (of_nat (F + 48)) = ld16 m (of_nat (F + 48))"
  proof (rule ld16_cong)
    fix y assume y: "F + 48 \<le> y" "y < F + 48 + 2"
    have "y \<in> {F + 48, F + 49}" using y by auto
    moreover have "{F + 48, F + 49} \<inter> tab_writes m F H k = {}" if "k < i" for k
      using ok assms(3) that by (simp add: file_relocatable_def)
    ultimately have "\<forall>k < i. y \<notin> tab_writes m F H k" by blast
    moreover have "y < 2 ^ 32" using ok y by (simp add: file_relocatable_def)
    ultimately show "spot m' y = spot m y" using r by (simp add: file_relocated_def)
  qed
  then show ?thesis by (simp add: eh_shnum_def add.commute)
qed

text \<open>The step of a table leaves its own header alone but for the address, which is not read.\<close>

lemma set_addr_reads:
  assumes ok: "file_relocatable m F H n" and i: "i < n" and y: "y < 2 ^ 32" "y \<notin> addr_field H i"
  shows "spot (set_sh_addr m' (head H i) a) y = spot m' y"
proof -
  have "40 * i + 40 \<le> 40 * n" using i by simp
  then have "head_at H i + 16 \<le> 2 ^ 32" using ok by (simp add: file_relocatable_def head_at_def)
  with y show ?thesis by (intro spot_set_sh_addr) (auto simp: addr_field_def)
qed

lemma applied_from:
  assumes same: "\<forall>k < tab_count m H i. \<forall>y \<in> reloc_reads m H (tab_symtab m H i) (tab_rels m F H i) (tab_syms m H i) k. spot m2 y = spot m y"
    and patch: "\<And>y. y \<in> tab_patches m F H i \<Longrightarrow> spot m2 y = spot m y"
    and ok: "relocatable m H (tab_symtab m H i) (tab_rels m F H i) (tab_syms m H i) (tab_target m H i) (tab_count m H i)"
    and r: "relocated m2 H (tab_symtab m H i) (tab_rels m F H i) (tab_syms m H i) (tab_target m H i) virt (tab_count m H i) m3"
  shows "applied m F H virt i m3"
  unfolding applied_def
proof (intro allI impI)
  fix k assume k: "k < tab_count m H i"
  let ?Y = "tab_symtab m H i" and ?R = "tab_rels m F H i" and ?S = "tab_syms m H i" and ?A = "tab_target m H i"
  let ?v = "rk_value m H ?Y ?R ?S k" and ?virt = "rk_virt m H ?Y ?R ?S virt k" and ?ad = "rel_addend m (rel_at ?R k)"
  let ?w = "reloc_width (rk_type m ?R k)"
  have "\<forall>j \<le> k. \<forall>y \<in> reloc_reads m H ?Y ?R ?S j. spot m2 y = spot m y"
    using same k by (meson le_less_trans)
  note s = rk_same_one [OF same [THEN spec, THEN mp, OF k]] rk_same [OF this]
  have t: "known_reloc (rk_type m ?R k)" and p: "rk_patch m ?R ?A k + ?w \<le> 2 ^ 32"
    using ok k by (simp_all add: relocatable_def)
  have eq: "spot m2 y = spot m y" if "rk_patch m ?R ?A k \<le> y" "y < rk_patch m ?R ?A k + ?w" for y
    using that k by (intro patch) (auto simp: tab_patches_def patch_range_def)
  from reloc_store_local [OF t p eq, of ?v ?ad ?virt] obtain mk mk2 where
    mk: "reloc_store m (rk_type m ?R k) (of_nat (rk_patch m ?R ?A k)) ?v ?ad ?virt = Some mk"
    and mk2: "reloc_store m2 (rk_type m ?R k) (of_nat (rk_patch m ?R ?A k)) ?v ?ad ?virt = Some mk2"
    and e: "\<And>y. rk_patch m ?R ?A k \<le> y \<Longrightarrow> y < rk_patch m ?R ?A k + ?w \<Longrightarrow> spot mk2 y = spot mk y"
    and "\<And>y. y < 2 ^ 32 \<Longrightarrow> y < rk_patch m ?R ?A k \<or> rk_patch m ?R ?A k + ?w \<le> y \<Longrightarrow> spot mk2 y = spot m2 y" by blast
  from conjunct1 [OF r [unfolded relocated_def], rule_format, OF k] obtain mk' where
    "reloc_store m2 (rk_type m ?R k) (of_nat (rk_patch m ?R ?A k)) ?v ?ad ?virt = Some mk'"
    "\<forall>y \<in> patch_range m ?R ?A k. spot m3 y = spot mk' y"
    unfolding s by blast
  with mk mk2 e show "\<exists>mk. reloc_store m (rk_type m ?R k) (of_nat (rk_patch m ?R ?A k)) ?v ?ad ?virt = Some mk
      \<and> (\<forall>y \<in> patch_range m ?R ?A k. spot m3 y = spot mk y)"
    by (auto simp: patch_range_def)
qed

lemma applied_keep:
  assumes "applied m F H virt j m1" and "\<And>y. y \<in> tab_patches m F H j \<Longrightarrow> spot m2 y = spot m1 y"
  shows "applied m F H virt j m2"
  using assms unfolding applied_def tab_patches_def by fastforce

lemma patches_low:
  assumes "file_relocatable m F H n" and "i < n" and "tab_active m H i" and "y \<in> tab_patches m F H i"
  shows "y < 2 ^ 32"
proof -
  from assms(4) obtain k where k: "k < tab_count m H i" "y \<in> patch_range m (tab_rels m F H i) (tab_target m H i) k"
    by (auto simp: tab_patches_def)
  moreover from assms(1-3) k(1) have "rk_patch m (tab_rels m F H i) (tab_target m H i) k + reloc_width (rk_type m (tab_rels m F H i) k) \<le> 2 ^ 32"
    by (simp add: file_relocatable_def tab_ok_def relocatable_def)
  ultimately show ?thesis by (simp add: patch_range_def)
qed

text \<open>The step of an active table.\<close>

lemma sh_at_head: "sh_at (of_nat H) (of_nat i) = head H i" "sh_at (of_nat H) x = head H (unat x)"
  by (simp_all add: sh_at_def head_at_def)

lemma active_step:
  assumes ok: "file_relocatable m F H n" and r: "file_relocated m F H virt i m1" and i: "i < n"
    and act: "tab_active m H i" and virt: "virt = KERNEL_VIRT_BASE - KERNEL_PHYS_BASE"
  shows "\<exists>m3. reloc_step (of_nat F) (of_nat H) i m1 = Some (1, m3) \<and> file_relocated m F H virt (Suc i) m3"
proof -
  let ?Y = "tab_symtab m H i" and ?R = "tab_rels m F H i" and ?S = "tab_syms m H i" and ?A = "tab_target m H i" and ?c = "tab_count m H i"
  define m2 where "m2 = set_sh_addr m1 (head H i) (of_nat ?R)"
  have tok: "sh_entsize m (head H i) = 12" "unat (sh_size m (head H i)) mod 12 = 0" "of_nat ?R \<noteq> (0 :: u32)"
    "relocatable m H ?Y ?R ?S ?A ?c" and af: "addr_field H i \<inter> tab_patches m F H i = {}"
    using ok i act by (auto simp: file_relocatable_def tab_ok_def)
  have lt: "y < 2 ^ 32" if "y \<in> tab_reads m F H i" for y using ok i that by (simp add: file_relocatable_def)
  have nf: "addr_field H i \<inter> tab_reads m F H i = {}" using ok i act by (simp add: file_relocatable_def tab_ok_def)
  have s1: "spot m1 y = spot m y" if "y \<in> tab_reads m F H i" for y
    using file_relocated_reads [OF ok r order.refl i that] .
  have s2: "spot m2 y = spot m y" if y: "y \<in> tab_reads m F H i" for y
  proof -
    have "y \<notin> addr_field H i" using nf y by blast
    from set_addr_reads [OF ok i lt [OF y] this] s1 [OF y] show ?thesis by (simp add: m2_def)
  qed
  have hr: "y \<in> tab_reads m F H i" if "y \<in> head_reads m H i" for y using that by (simp add: tab_reads_def)
  have rr: "y \<in> tab_reads m F H i" if "k < ?c" "y \<in> reloc_reads m H ?Y ?R ?S k" for k y
    using that act by (auto simp: tab_reads_def)
  have "\<forall>y \<in> head_reads m H i. spot m1 y = spot m y" "\<forall>y \<in> head_reads m H i. spot m2 y = spot m y"
    using s1 s2 hr by blast+
  note h1 = head_same [OF this(1)] and t1 = tab_same [OF this(1)] and h2 = head_same [OF this(2)]
  have sm: "\<forall>k < ?c. \<forall>y \<in> reloc_reads m H ?Y ?R ?S k. spot m2 y = spot m y" using s2 rr by blast
  note pl = patches_low [OF ok i act]
  have keep: "spot m1 y = spot m y" if y: "y \<in> tab_writes m F H i" "y < 2 ^ 32" for y
  proof -
    have "tab_writes m F H j \<inter> tab_writes m F H i = {}" if "j < i" for j
      using ok i that by (simp add: file_relocatable_def)
    with y(1) have "\<forall>j < i. y \<notin> tab_writes m F H j" by blast
    with r y(2) show ?thesis by (simp add: file_relocated_def)
  qed
  have patch: "spot m2 y = spot m y" if y: "y \<in> tab_patches m F H i" for y
  proof -
    have "y \<notin> addr_field H i" using af y by blast
    from set_addr_reads [OF ok i pl [OF y] this] keep [of y] pl [OF y] y act show ?thesis
      by (simp add: m2_def tab_writes_def)
  qed
  have rel: "relocatable m2 H ?Y ?R ?S ?A ?c"
    using relocatable_same [OF sm] tok(4) by blast
  have "\<exists>m3. relocate (of_nat H) (of_nat i) virt m2 = Some (1, m3) \<and> relocated m2 H ?Y ?R ?S ?A virt ?c m3"
  proof (rule relocate_ok [OF rel]; (unfold sh_at_head(1))?)
    show "sh_addr m2 (head H i) = of_nat ?R" by (simp add: m2_def)
    show "sh_entsize m2 (head H i) = 12" by (simp only: h2 tok(1))
    show "unat (sh_size m2 (head H i)) = 12 * ?c"
      using tok(2) mult_div_mod_eq [of 12 "unat (sh_size m (head H i))"] by (simp only: h2 tab_count_def)
    show "sh_at (of_nat H) (sh_link m2 (head H i)) = of_nat ?Y" by (simp only: h2 sh_at_head(2) tab_symtab_def)
    show "sh_addr m2 (of_nat ?Y) = of_nat ?S" by (simp only: h2(8)) (simp add: tab_syms_def)
    show "sh_addr m2 (sh_at (of_nat H) (sh_info m2 (head H i))) = of_nat ?A"
      using h2(9) by (simp only: h2 sh_at_head(2) tab_toreloc_def [symmetric]) (simp add: tab_target_def)
  qed
  then obtain m3 where m3: "relocate (of_nat H) (of_nat i) virt m2 = Some (1, m3)"
    and r3: "relocated m2 H ?Y ?R ?S ?A virt ?c m3" by blast
  have off: "of_nat F + sh_offset m1 (head H i) = of_nat ?R" by (simp add: h1 tab_rels_def)
  have a1: "sh_type m1 (head H i) = SHT_RELA" "sh_addr m1 (head H (unat (sh_info m1 (head H i)))) \<noteq> 0"
    using t1(3) act t1(2) by (simp_all add: tab_active_def tab_toreloc_def)
  have "reloc_step (of_nat F) (of_nat H) i m1 = Some (1, m3)"
    using m3 a1 tok(3) unfolding reloc_step_def Let_def sh_at_head(1) sh_at_head(2) [of H "sh_info m1 (head H i)"] off
    by (simp add: m2_def virt)
  moreover have "file_relocated m F H virt (Suc i) m3"
  proof -
    have out: "spot m3 y = spot m1 y" if y: "y < 2 ^ 32" "y \<notin> tab_writes m F H i" for y
    proof -
      have n: "y \<notin> addr_field H i" "y \<notin> tab_patches m F H i" using y(2) act by (simp_all add: tab_writes_def)
      have "patch_range m2 ?R ?A k = patch_range m ?R ?A k" if "k < ?c" for k
        using rk_same_one(7) [OF sm [rule_format, THEN ballI, OF that]] by blast
      with n(2) have "\<forall>k < ?c. y \<notin> patch_range m2 ?R ?A k" by (auto simp: tab_patches_def)
      with r3 y(1) have "spot m3 y = spot m2 y" by (simp add: relocated_def)
      with set_addr_reads [OF ok i y(1) n(1)] show ?thesis by (simp add: m2_def)
    qed
    have "applied m F H virt j m3" if j: "j < Suc i" "tab_active m H j" for j
    proof (cases "j = i")
      case True
      with applied_from [OF sm patch tok(4) r3] show ?thesis by simp
    next
      case False
      then have ji: "j < i" using j by simp
      have "tab_writes m F H j \<inter> tab_writes m F H i = {}" using ok i ji by (simp add: file_relocatable_def)
      then have e: "spot m3 y = spot m1 y" if "y \<in> tab_patches m F H j" for y
        using that ji i j(2) patches_low [OF ok _ j(2) that] by (intro out) (auto simp: tab_writes_def)
      have "applied m F H virt j m1" using r ji j(2) by (simp add: file_relocated_def)
      from applied_keep [OF this e] show ?thesis .
    qed
    moreover have "spot m3 y = spot m y" if "y < 2 ^ 32" "\<forall>j < Suc i. y \<notin> tab_writes m F H j" for y
    proof -
      have "spot m3 y = spot m1 y" using that by (intro out) simp_all
      also have "\<dots> = spot m y" using r that by (simp add: file_relocated_def)
      finally show ?thesis .
    qed
    ultimately show ?thesis unfolding file_relocated_def by blast
  qed
  ultimately show ?thesis by blast
qed

lemma reloc_step_ok:
  assumes ok: "file_relocatable m F H n" and r: "file_relocated m F H virt i m1" and i: "i < n"
    and virt: "virt = KERNEL_VIRT_BASE - KERNEL_PHYS_BASE"
  shows "\<exists>m3. reloc_step (of_nat F) (of_nat H) i m1 = Some (1, m3) \<and> file_relocated m F H virt (Suc i) m3"
proof (cases "tab_active m H i")
  case True
  from active_step [OF ok r i this virt] show ?thesis .
next
  case False
  have "\<forall>y \<in> head_reads m H i. spot m1 y = spot m y"
    using file_relocated_reads [OF ok r order.refl i] by (simp add: tab_reads_def)
  from tab_same(3) [OF this] False have "\<not> tab_active m1 H i" by simp
  then have "reloc_step (of_nat F) (of_nat H) i m1 = Some (1, m1)"
    unfolding reloc_step_def Let_def sh_at_head(1) sh_at_head(2) [of H "sh_info m1 (head H i)"]
    by (auto simp: tab_active_def tab_toreloc_def)
  moreover have "file_relocated m F H virt (Suc i) m1"
    using r False by (auto simp: file_relocated_def tab_writes_def less_Suc_eq)
  ultimately show ?thesis by blast
qed

lemma reloc_sections_ok:
  assumes ok: "file_relocatable m F H n" and virt: "virt = KERNEL_VIRT_BASE - KERNEL_PHYS_BASE"
    and "file_relocated m F H virt i m1" and "i \<le> n"
  shows "\<exists>m'. reloc_sections (of_nat F) (of_nat F) (of_nat H) i m1 = Some (1, m') \<and> file_relocated m F H virt n m'"
  using assms(3,4)
proof (induction "n - i" arbitrary: i m1)
  case 0
  with file_relocated_shnum [OF ok 0(2,3)] ok show ?case
    by (simp add: reloc_sections.simps [of _ _ _ i] file_relocatable_def)
next
  case (Suc k)
  then have i: "i < n" by simp
  have c: "i < unat (eh_shnum m1 (of_nat F))"
    using file_relocated_shnum [OF ok Suc.prems] ok i by (simp add: file_relocatable_def)
  from reloc_step_ok [OF ok Suc.prems(1) i virt] obtain m2 where
    s: "reloc_step (of_nat F) (of_nat H) i m1 = Some (1, m2)" "file_relocated m F H virt (Suc i) m2" by blast
  have "k = n - Suc i" using Suc.hyps(2) by simp
  from Suc.hyps(1) [OF this s(2)] i obtain m' where
    "reloc_sections (of_nat F) (of_nat F) (of_nat H) (Suc i) m2 = Some (1, m')" "file_relocated m F H virt n m'" by auto
  with c s(1) show ?case by (simp add: reloc_sections.simps [of _ _ _ i])
qed

subsection \<open>The module\<close>

text \<open>
  What the debugger of AROS is told of a module: bounds that hold all its code, and its symbols, the last
  one first.
\<close>

definition code_at :: "mem \<Rightarrow> u32 \<Rightarrow> bool" where
  "code_at m s \<longleftrightarrow> sh_addr m s \<noteq> 0 \<and> is_code m s"

definition virt_addr :: "u32 \<Rightarrow> u32" where
  "virt_addr a = a + KERNEL_VIRT_BASE - KERNEL_PHYS_BASE"

definition code_symbol :: "mem \<Rightarrow> u32 \<Rightarrow> u32 \<Rightarrow> nat \<Rightarrow> bool" where
  "code_symbol m sh st j \<longleftrightarrow> code_at m (sh_at sh (ucast (sym_shindex m (st + 16 * of_nat j))))"

definition symbol_entry :: "mem \<Rightarrow> u32 \<Rightarrow> u32 \<Rightarrow> nat \<Rightarrow> symbol_t" where
  "symbol_entry m sh st j =
     (let sy = st + 16 * of_nat j;
          a = virt_addr (sh_addr m (sh_at sh (ucast (sym_shindex m sy))) + sym_value m sy)
      in \<lparr>s_name = sym_name m sy, s_lowest = a, s_highest = a + sym_size m sy\<rparr>)"

definition first_symtab :: "mem \<Rightarrow> u32 \<Rightarrow> nat \<Rightarrow> nat option" where
  "first_symtab m sh n =
     find (\<lambda>i. sh_addr m (sh_at sh (of_nat i)) \<noteq> 0 \<and> sh_type m (sh_at sh (of_nat i)) = SHT_SYMTAB) [0..<n]"

definition module_symbols :: "mem \<Rightarrow> u32 \<Rightarrow> nat \<Rightarrow> symbol_t list" where
  "module_symbols m sh n = (case first_symtab m sh n of
     None \<Rightarrow> []
   | Some i \<Rightarrow> (let s = sh_at sh (of_nat i) in
       rev (map (symbol_entry m sh (sh_addr m s)) (filter (code_symbol m sh (sh_addr m s)) [0..<unat (sh_size m s div 16)]))))"

definition bounds_code :: "mem \<Rightarrow> u32 \<Rightarrow> module_t \<Rightarrow> bool" where
  "bounds_code m s mo \<longleftrightarrow> (code_at m s \<longrightarrow>
     m_lowest mo \<le> virt_addr (sh_addr m s) \<and> virt_addr (sh_addr m s) + sh_size m s \<le> m_highest mo)"

definition describes_module :: "mem \<Rightarrow> u32 \<Rightarrow> nat \<Rightarrow> string \<Rightarrow> module_t \<Rightarrow> bool" where
  "describes_module m sh n name mo \<longleftrightarrow> m_name mo = name \<and> m_symbols mo = module_symbols m sh n
     \<and> (\<forall>i < n. bounds_code m (sh_at sh (of_nat i)) mo)"

lemma symbols_collected:
  "\<exists>w'. foldl (symbol_step ctx m sh st) (mo, w) js
    = (mo\<lparr>m_symbols := rev (map (symbol_entry m sh st) (filter (code_symbol m sh st) js)) @ m_symbols mo\<rparr>, w')"
proof (induction js arbitrary: mo w)
  case (Cons j js)
  show ?case
  proof (cases "code_symbol m sh st j")
    case True
    then have "symbol_step ctx m sh st (mo, w) j
        = (mo\<lparr>m_symbols := symbol_entry m sh st j # m_symbols mo\<rparr>, snd (malloc ctx 20 w))"
      by (simp add: symbol_step_def code_symbol_def code_at_def symbol_entry_def virt_addr_def Let_def case_prod_beta)
    with Cons.IH [of "mo\<lparr>m_symbols := symbol_entry m sh st j # m_symbols mo\<rparr>"] True show ?thesis by simp
  next
    case False
    then have "symbol_step ctx m sh st (mo, w) j = (mo, w)"
      by (auto simp: symbol_step_def code_symbol_def code_at_def Let_def)
    with Cons.IH [of mo w] False show ?thesis by simp
  qed
qed simp

definition grows :: "module_t \<Rightarrow> module_t \<Rightarrow> bool" where
  "grows mo mo' \<longleftrightarrow> m_name mo' = m_name mo \<and> m_symbols mo' = m_symbols mo
     \<and> m_lowest mo' \<le> m_lowest mo \<and> m_highest mo \<le> m_highest mo'"

lemma grows_trans: "grows a b \<Longrightarrow> grows b c \<Longrightarrow> grows a c"
  by (auto simp: grows_def)

lemma bounds_code_grows: "bounds_code m s mo \<Longrightarrow> grows mo mo' \<Longrightarrow> bounds_code m s mo'"
  by (auto simp: bounds_code_def grows_def)

lemma module_step_ok:
  assumes alloc: "alloc_ok ctx"
    and str: "sh_type m (sh_at sh (of_nat i)) = SHT_STRTAB \<longrightarrow> unat (sh_size m (sh_at sh (of_nat i))) < 2 ^ 31"
  shows "\<exists>mo' w'. module_step ctx m eh sh i (mo, w) = Some (mo', w') \<and> grows mo mo'
    \<and> bounds_code m (sh_at sh (of_nat i)) mo'"
proof -
  let ?s = "sh_at sh (of_nat i)"
  obtain mo1 w1 where 1: "(if sh_type m ?s = SHT_STRTAB \<and> int i \<noteq> uint (eh_shstrndx m eh) \<and> m_str mo = None
        then do {
          let (blk, w) = malloc ctx (sint (sh_size m ?s)) w;
          blk \<leftarrow> memcpy blk 0 (mem_bytes m (sh_addr m ?s) (unat (sh_size m ?s))) (unat (sh_size m ?s));
          Some (mo\<lparr>m_str := Some blk\<rparr>, w)
        }
        else Some (mo, w)) = Some (mo1, w1)" and g: "grows mo mo1"
  proof (cases "sh_type m ?s = SHT_STRTAB \<and> int i \<noteq> uint (eh_shstrndx m eh) \<and> m_str mo = None")
    case True
    obtain blk w1 where b: "malloc ctx (sint (sh_size m ?s)) w = (blk, w1)" by force
    have "sint (sh_size m ?s) = int (unat (sh_size m ?s))" using str True by (simp add: sint_unat)
    moreover have "length (fst (malloc ctx (int (unat (sh_size m ?s))) w)) = unat (sh_size m ?s)"
      using alloc by (simp add: alloc_ok_def)
    ultimately have "length blk = unat (sh_size m ?s)" using b by simp
    then have "memcpy blk 0 (mem_bytes m (sh_addr m ?s) (unat (sh_size m ?s))) (unat (sh_size m ?s))
        = Some (mem_bytes m (sh_addr m ?s) (unat (sh_size m ?s)))"
      by (simp add: memcpy_def memmove_def slice_def blit_def mem_bytes_def)
    with True b that show ?thesis by (simp add: grows_def)
  next
    case False
    show ?thesis by (rule that [OF if_not_P [OF False]]) (simp add: grows_def)
  qed
  define low where "low = (if virt_addr (sh_addr m ?s) < m_lowest mo1 then mo1\<lparr>m_lowest := virt_addr (sh_addr m ?s)\<rparr> else mo1)"
  define mo2 where "mo2 = (if \<not> code_at m ?s then mo1
    else if virt_addr (sh_addr m ?s) + sh_size m ?s > m_highest low
    then low\<lparr>m_highest := virt_addr (sh_addr m ?s) + sh_size m ?s\<rparr> else low)"
  have "module_step ctx m eh sh i (mo, w) = Some (mo2, w1)"
    unfolding module_step_def Let_def prod.case 1 [unfolded Let_def]
    by (simp add: mo2_def low_def virt_addr_def code_at_def)
  moreover have "grows mo1 mo2" "bounds_code m ?s mo2"
    by (auto simp: mo2_def low_def grows_def bounds_code_def not_less)
  ultimately show ?thesis using grows_trans [OF g] by blast
qed

lemma module_loop_ok:
  assumes alloc: "alloc_ok ctx"
  shows "\<forall>i \<in> set is. sh_type m (sh_at sh (of_nat i)) = SHT_STRTAB \<longrightarrow> unat (sh_size m (sh_at sh (of_nat i))) < 2 ^ 31
    \<Longrightarrow> \<exists>mo' w'. module_loop ctx m eh sh is (mo, w) = Some (mo', w') \<and> grows mo mo'
      \<and> (\<forall>i \<in> set is. bounds_code m (sh_at sh (of_nat i)) mo')"
proof (induction "is" arbitrary: mo w)
  case (Cons i "is")
  from module_step_ok [OF alloc, of m sh i eh mo w] Cons.prems obtain mo1 w1 where
    1: "module_step ctx m eh sh i (mo, w) = Some (mo1, w1)" "grows mo mo1" "bounds_code m (sh_at sh (of_nat i)) mo1" by auto
  from Cons obtain mo2 w2 where
    2: "module_loop ctx m eh sh is (mo1, w1) = Some (mo2, w2)" "grows mo1 mo2"
      "\<forall>i \<in> set is. bounds_code m (sh_at sh (of_nat i)) mo2" by fastforce
  with 1 grows_trans [OF 1(2) 2(2)] bounds_code_grows [OF 1(3) 2(2)] show ?case by simp
qed (simp add: grows_def)

lemma register_module_ok:
  assumes alloc: "alloc_ok ctx" and n: "unat (eh_shnum m eh) = n"
    and str: "\<forall>i < n. sh_type m (sh_at sh (of_nat i)) = SHT_STRTAB \<longrightarrow> unat (sh_size m (sh_at sh (of_nat i))) < 2 ^ 31"
  shows "\<exists>mo w'. register_module ctx name eh sh m w = Some (mo, w') \<and> describes_module m sh n name mo"
proof -
  define mo0 where "mo0 = \<lparr>m_name = name, m_str = None, m_lowest = 0xFFFFFFFF, m_highest = 0, m_symbols = []\<rparr>"
  define w0 where "w0 = snd (malloc ctx (int (length name) + 1) (snd (malloc ctx 36 w)))"
  from module_loop_ok [OF alloc, of "[0..<n]" m sh eh mo0 w0] str obtain mo1 w1 where
    1: "module_loop ctx m eh sh [0..<n] (mo0, w0) = Some (mo1, w1)" "grows mo0 mo1"
      "\<forall>i < n. bounds_code m (sh_at sh (of_nat i)) mo1" by auto
  have g: "m_name mo1 = name" "m_symbols mo1 = []" using 1(2) by (simp_all add: grows_def mo0_def)
  have r: "register_module ctx name eh sh m w = Some (case first_symtab m sh n of None \<Rightarrow> (mo1, w1)
      | Some i \<Rightarrow> foldl (symbol_step ctx m sh (sh_addr m (sh_at sh (of_nat i)))) (mo1, w1)
          [0..<unat (sh_size m (sh_at sh (of_nat i)) div 16)])"
    using 1(1) by (simp add: register_module_def n first_symtab_def w0_def mo0_def case_prod_beta
        split: option.split)
  show ?thesis
  proof (cases "first_symtab m sh n")
    case None
    with r g 1(3) show ?thesis by (simp add: describes_module_def module_symbols_def)
  next
    case (Some i)
    let ?s = "sh_at sh (of_nat i)"
    from symbols_collected [of ctx m sh "sh_addr m ?s" mo1 w1 "[0..<unat (sh_size m ?s div 16)]"] obtain w2 where
      "foldl (symbol_step ctx m sh (sh_addr m ?s)) (mo1, w1) [0..<unat (sh_size m ?s div 16)]
        = (mo1\<lparr>m_symbols := module_symbols m sh n\<rparr>, w2)"
      using Some g(2) by (auto simp: module_symbols_def Let_def)
    with r Some g 1(3) show ?thesis by (simp add: describes_module_def bounds_code_def)
  qed
qed

subsection \<open>The file\<close>

text \<open>
  The state after the file at \<open>F\<close>, from the state \<open>st0\<close> with the file in its memory; \<open>m1\<close> is the memory with
  the sections loaded, which \<open>mem_loaded\<close> determines. All relocations are applied and nothing else is
  changed, the bounds of the kernel are moved, the markers of its \<open>.bss\<close> sections are added behind
  those before, and the module is registered.
\<close>

definition only_adds :: "elf_state \<Rightarrow> elf_state \<Rightarrow> bool" where
  "only_adds st0 st \<longleftrightarrow> bss_next st0 \<le> bss_next st
     \<and> (\<forall>k. k < bss_next st0 \<or> bss_next st \<le> k \<longrightarrow> tracker st ! k = tracker st0 ! k)"

definition file_loaded ::
    "elf_state \<Rightarrow> mem \<Rightarrow> nat \<Rightarrow> nat \<Rightarrow> nat \<times> nat \<Rightarrow> nat \<Rightarrow> string \<Rightarrow> elf_state \<Rightarrow> bool" where
  "file_loaded st0 m1 F H B n name st \<longleftrightarrow> (let secs = sec_of (es_mem st0) H in
     file_relocated m1 F H (KERNEL_VIRT_BASE - KERNEL_PHYS_BASE) n (es_mem st)
     \<and> ptr_ro st = of_nat (fst (bounds secs B n)) \<and> ptr_rw st = of_nat (snd (bounds secs B n))
     \<and> length (tracker st) = MAX_BSS_SECTIONS \<and> bss_next st = bss_next st0 + bss_count secs n \<and> only_adds st0 st
     \<and> (\<forall>j < n. is_bss (secs j) \<longrightarrow> tracker st ! (bss_next st0 + bss_count secs j) = bss_marker secs B j)
     \<and> (\<exists>mo. debug_info st = mo # debug_info st0 \<and> describes_module (es_mem st) (of_nat H) n name mo))"

lemma mem_loaded_unique:
  assumes "mem_loaded m F H B n m1" and "mem_loaded m F H B n m2"
  shows "m1 = m2"
proof
  fix a :: u32
  define y where "y = unat a"
  have y: "y < 2 ^ 32" "spot m1 y = m1 a" "spot m2 y = m2 a"
    using unsigned_less [of a, where ?'a = nat] by (simp_all add: y_def spot_def)
  consider (field) j where "j < n" "y \<in> addr_field H j"
    | (hunk) j where "j < n" "is_hunk (sec_of m H j)" "y \<in> hunk_range (sec_of m H) B j"
    | (other) "\<forall>j < n. y \<notin> addr_field H j \<and> (is_hunk (sec_of m H j) \<longrightarrow> y \<notin> hunk_range (sec_of m H) B j)" by blast
  then have "spot m1 y = spot m2 y"
  proof cases
    case field
    let ?x = "head_at H j + 12"
    have "ld32 m1 (of_nat ?x) = ld32 m2 (of_nat ?x)"
      using assms field(1) by (simp add: mem_loaded_def sh_addr_def add.commute)
    then have "split32 (ld32 m1 (of_nat ?x)) = split32 (ld32 m2 (of_nat ?x))" by simp
    then have "[spot m1 ?x, spot m1 (?x + 1), spot m1 (?x + 2), spot m1 (?x + 3)]
        = [spot m2 ?x, spot m2 (?x + 1), spot m2 (?x + 2), spot m2 (?x + 3)]"
      unfolding ld32_spot split32_join32 .
    moreover from field(2) have "y = ?x \<or> y = ?x + 1 \<or> y = ?x + 2 \<or> y = ?x + 3" by (auto simp: addr_field_def)
    ultimately show ?thesis by (elim disjE) simp_all
  next
    case hunk
    from hunk(3) obtain k where "y = hunk_addr (sec_of m H) B j + k" "k < sc_size (sec_of m H j)"
      using le_Suc_ex by (force simp: hunk_range_def)
    with assms hunk show ?thesis by (simp add: mem_loaded_def)
  next
    case other
    with assms y(1) show ?thesis by (simp add: mem_loaded_def)
  qed
  then show "m1 a = m2 a" using y by simp
qed

lemma file_relocated_head:
  assumes ok: "file_relocatable m F H n" and r: "file_relocated m F H virt n m'" and i: "i < n"
  shows "\<forall>y \<in> head_reads m H i. spot m' y = spot m y"
proof
  fix y assume y: "y \<in> head_reads m H i"
  then have tr: "y \<in> tab_reads m F H i" by (simp add: tab_reads_def)
  have "y \<notin> tab_writes m F H k" if "k < n" for k
  proof (cases "k = i")
    case True
    have "tab_ok m F H i" using ok i by (simp add: file_relocatable_def)
    with True y tr show ?thesis by (auto simp: tab_writes_def tab_ok_def)
  next
    case False
    then have "tab_writes m F H k \<inter> tab_reads m F H i = {}" using ok i that by (simp add: file_relocatable_def)
    with tr show ?thesis by blast
  qed
  moreover have "y < 2 ^ 32" using ok i tr by (simp add: file_relocatable_def)
  ultimately show "spot m' y = spot m y" using r by (simp add: file_relocated_def)
qed

lemma only_adds_trans: "only_adds a b \<Longrightarrow> only_adds b c \<Longrightarrow> only_adds a c"
  by (auto simp: only_adds_def)

lemma section_step_adds:
  assumes "section_step f s st = Some (ok, st')"
  shows "debug_info st' = debug_info st \<and> only_adds st st'"
proof -
  obtain p st1 where h: "hunk_place s st = (p, st1)" by force
  moreover from this have "debug_info st1 = debug_info st" "tracker st1 = tracker st" "bss_next st1 = bss_next st"
    by (auto simp: hunk_place_def Let_def split: if_splits)
  ultimately show ?thesis
    using assms
    by (auto simp: section_step_def load_hunk_def Let_def bind_eq_Some_conv only_adds_def store_def split: if_splits)
qed

lemma load_sections_adds:
  "load_sections f eh sh i st = Some (ok, st') \<Longrightarrow> debug_info st' = debug_info st \<and> only_adds st st'"
proof (induction f eh sh i st rule: load_sections.induct)
  case (1 f eh sh i st)
  show ?case
  proof (cases "i < unat (eh_shnum (es_mem st) eh)")
    case True
    with "1.prems" obtain ok1 st1 where s: "section_step f (sh_at sh (of_nat i)) st = Some (ok1, st1)"
      and r: "(if ok1 = 0 then Some (0, st1) else load_sections f eh sh (i + 1) st1) = Some (ok, st')"
      by (subst (asm) load_sections.simps) (auto simp: bind_eq_Some_conv)
    show ?thesis
    proof (cases "ok1 = 0")
      case False
      with r have "debug_info st' = debug_info st1 \<and> only_adds st1 st'"
        using "1.IH" [OF True s] by simp
      with section_step_adds [OF s] show ?thesis using only_adds_trans by auto
    qed (use r section_step_adds [OF s] in simp)
  next
    case False
    with "1.prems" show ?thesis by (subst (asm) load_sections.simps) (simp add: only_adds_def)
  qed
qed

lemma load_elf_file_ok:
  fixes st
  defines "m \<equiv> es_mem st" and "bss \<equiv> bss_next st"
  assumes alloc: "alloc_ok ctx" and hdr: "check_header m (of_nat F)" and H: "of_nat F + eh_shoff m (of_nat F) = of_nat H"
    and ok: "loadable m F L H n B" and room: "bss + bss_count (sec_of m H) n \<le> MAX_BSS_SECTIONS"
    and str: "\<forall>i < n. sc_type (sec_of m H i) = SHT_STRTAB \<longrightarrow> sc_size (sec_of m H i) < 2 ^ 31"
    and m1: "mem_loaded m F H B n m1" and rel: "file_relocatable m1 F H n"
    and st: "ptr_ro st = of_nat (fst B)" "ptr_rw st = of_nat (snd B)" "length (tracker st) = MAX_BSS_SECTIONS"
  shows "\<exists>st' w'. load_elf_file ctx name (of_nat F) st w = Some ((1, st'), w')
    \<and> file_loaded st m1 F H B n name st'"
proof -
  let ?virt = "KERNEL_VIRT_BASE - KERNEL_PHYS_BASE"
  from load_sections_ok [OF ok room loaded_0 [OF _ st]] obtain st1 where
    l: "load_sections (of_nat F) (of_nat F) (of_nat H) 0 st = Some (1, st1)" and ld: "loaded m F H B bss n st1"
    using m_def bss_def by blast
  have e1: "es_mem st1 = m1" using ld mem_loaded_unique [OF _ m1] by (simp add: loaded_def)
  have "file_relocated m1 F H ?virt 0 m1" by (simp add: file_relocated_def)
  from reloc_sections_ok [OF rel refl this] obtain m2 where
    r: "reloc_sections (of_nat F) (of_nat F) (of_nat H) 0 m1 = Some (1, m2)" and fr: "file_relocated m1 F H ?virt n m2"
    by blast
  have n: "unat (eh_shnum m2 (of_nat F)) = n"
    using file_relocated_shnum [OF rel fr] rel by (simp add: file_relocatable_def)
  have "sh_type m2 (head H i) = SHT_STRTAB \<longrightarrow> unat (sh_size m2 (head H i)) < 2 ^ 31" if i: "i < n" for i
  proof -
    note h = head_same [OF file_relocated_head [OF rel fr i]]
    from mem_loaded_sec [OF ok m1 order.refl i] sec_fields [of m1 H i] str i show ?thesis
      by (simp add: h) (auto simp: unsigned_of_nat intro: le_less_trans [OF take_bit_nat_less_eq_self])
  qed
  from register_module_ok [OF alloc n, of "of_nat H", unfolded sh_at_head(1)] this obtain mo w1 where
    "register_module ctx name (of_nat F) (of_nat H) m2 w = Some (mo, w1)" "describes_module m2 (of_nat H) n name mo" by blast
  with l r fr ld e1 hdr H load_sections_adds [OF l] show ?thesis
    by (simp add: load_elf_file_def file_loaded_def loaded_def only_adds_def Let_def flip: m_def bss_def)
qed

end
