(* ===== verification/Boot_Aros.thy ===== *)
theory Boot_Aros
  imports Boot_Files Elf_File
begin

text \<open>
  Starting AROS: the kernel and the modules of an entry, ELF files all of them, are loaded one after the
  other, each into the memory the ones before it have left, and the kernel is entered with its tags.
\<close>

text \<open>
  An ELF file in a block at \<open>F\<close>, for the loader's state \<open>es\<close>, can be loaded, and every state it can leave the
  loader in satisfies \<open>Q\<close>.
\<close>

definition elf_ready :: "nat \<Rightarrow> string \<Rightarrow> byte list \<Rightarrow> elf_state \<Rightarrow> (elf_state \<Rightarrow> bool) \<Rightarrow> bool" where
  "elf_ready F name b es Q \<longleftrightarrow> (\<exists>L H n B m1.
     let m = place_block (of_nat F) b (es_mem es); secs = sec_of m H in
     check_header m (of_nat F) \<and> of_nat F + eh_shoff m (of_nat F) = of_nat H \<and> loadable m F L H n B
     \<and> bss_next es + bss_count secs n \<le> MAX_BSS_SECTIONS
     \<and> (\<forall>i < n. sc_type (secs i) = SHT_STRTAB \<longrightarrow> sc_size (secs i) < 2 ^ 31)
     \<and> mem_loaded m F H B n m1 \<and> file_relocatable m1 F H n
     \<and> ptr_ro es = of_nat (fst B) \<and> ptr_rw es = of_nat (snd B) \<and> length (tracker es) = MAX_BSS_SECTIONS
     \<and> (\<forall>st. file_loaded (es\<lparr>es_mem := m\<rparr>) m1 F H B n name st \<longrightarrow> Q st))"

text \<open>The same for a list of files that are read into one buffer in turn.\<close>

primrec files_ready :: "nat \<Rightarrow> (string \<times> byte list) list \<Rightarrow> byte list \<Rightarrow> elf_state \<Rightarrow> (elf_state \<Rightarrow> bool) \<Rightarrow> bool" where
  "files_ready F [] buf es Q = Q es"
| "files_ready F (f # fs) buf es Q =
     elf_ready F (fst f) (snd f @ drop (length (snd f)) buf) es
       (\<lambda>st. files_ready F fs (mem_bytes (es_mem st) (of_nat F) (length buf)) st Q)"

text \<open>Of the world, loading a file only uses \<open>malloc\<close>.\<close>

lemma module_step_side:
  assumes "module_step ctx m eh sh i (mo, w) = Some (mo', w')"
  shows "side_calls ctx w w'"
proof -
  let ?s = "sh_at sh (of_nat i)"
  from assms show ?thesis
    unfolding module_step_def Let_def prod.case bind_eq_Some_conv
    by (cases "sh_type m ?s = SHT_STRTAB \<and> int i \<noteq> uint (eh_shstrndx m eh) \<and> m_str mo = None")
      (auto simp: case_prod_beta bind_eq_Some_conv split: if_splits)
qed

lemma module_loop_side: "module_loop ctx m eh sh is (mo, w) = Some (mo', w') \<Longrightarrow> side_calls ctx w w'"
proof (induction "is" arbitrary: mo w)
  case (Cons i "is")
  then obtain mo1 w1 where s: "module_step ctx m eh sh i (mo, w) = Some (mo1, w1)"
    and l: "module_loop ctx m eh sh is (mo1, w1) = Some (mo', w')" by (auto simp: bind_eq_Some_conv)
  from side_trans [OF Cons.IH [OF l] module_step_side [OF s]] show ?case .
qed simp

lemma symbols_side: "side_calls ctx w v \<Longrightarrow> side_calls ctx w (snd (foldl (symbol_step ctx m sh st) (mo, v) js))"
proof (induction js arbitrary: mo v)
  case (Cons j js)
  obtain mo1 v1 where s: "symbol_step ctx m sh st (mo, v) j = (mo1, v1)" by force
  have "side_calls ctx w v1" using s Cons.prems
    by (auto simp: symbol_step_def Let_def case_prod_beta split: if_splits)
  with Cons.IH s show ?case by simp
qed simp

lemma register_module_side:
  assumes "register_module ctx name eh sh m w = Some (mo, w')"
  shows "side_calls ctx w w'"
proof -
  define w1 where "w1 = snd (malloc ctx (int (length name) + 1) (snd (malloc ctx 36 w)))"
  from assms obtain mo2 w2 where
    l: "module_loop ctx m eh sh [0..<unat (eh_shnum m eh)]
      (\<lparr>m_name = name, m_str = None, m_lowest = 0xFFFFFFFF, m_highest = 0, m_symbols = []\<rparr>, w1) = Some (mo2, w2)"
    and r: "(case find (\<lambda>i. sh_addr m (sh_at sh (of_nat i)) \<noteq> 0 \<and> sh_type m (sh_at sh (of_nat i)) = SHT_SYMTAB)
        [0..<unat (eh_shnum m eh)] of None \<Rightarrow> (mo2, w2)
      | Some i \<Rightarrow> foldl (symbol_step ctx m sh (sh_addr m (sh_at sh (of_nat i)))) (mo2, w2)
          [0..<unat (sh_size m (sh_at sh (of_nat i)) div 16)]) = (mo, w')"
    unfolding register_module_def Let_def w1_def by (auto simp: bind_eq_Some_conv case_prod_beta cong: option.case_cong)
  have "side_calls ctx w w1" by (simp add: w1_def)
  with module_loop_side [OF l] have w2: "side_calls ctx w w2" by (rule side_trans)
  have "w' = snd (case find (\<lambda>i. sh_addr m (sh_at sh (of_nat i)) \<noteq> 0 \<and> sh_type m (sh_at sh (of_nat i)) = SHT_SYMTAB)
        [0..<unat (eh_shnum m eh)] of None \<Rightarrow> (mo2, w2)
      | Some i \<Rightarrow> foldl (symbol_step ctx m sh (sh_addr m (sh_at sh (of_nat i)))) (mo2, w2)
          [0..<unat (sh_size m (sh_at sh (of_nat i)) div 16)])" by (simp only: r snd_conv)
  with w2 symbols_side [OF w2] show ?thesis by (simp split: option.splits)
qed

lemma load_elf_side: "load_elf_block ctx name at' b es w = Some (r, w') \<Longrightarrow> side_calls ctx w w'"
  by (auto simp: load_elf_block_def load_elf_file_def bind_eq_Some_conv Let_def dest: register_module_side split: if_splits)

lemma elf_ready_loads:
  assumes alloc: "alloc_ok ctx" and "elf_ready F name b es Q"
  obtains st w' where "load_elf_block ctx name (of_nat F) b es w
    = Some ((1, mem_bytes (es_mem st) (of_nat F) (length b), st), w')" and "Q st"
proof -
  define st0 where "st0 = es\<lparr>es_mem := place_block (of_nat F) b (es_mem es)\<rparr>"
  from assms(2) obtain L H n B m1 where
    a: "check_header (es_mem st0) (of_nat F)" "of_nat F + eh_shoff (es_mem st0) (of_nat F) = of_nat H"
      "loadable (es_mem st0) F L H n B" "bss_next st0 + bss_count (sec_of (es_mem st0) H) n \<le> MAX_BSS_SECTIONS"
      "\<forall>i < n. sc_type (sec_of (es_mem st0) H i) = SHT_STRTAB \<longrightarrow> sc_size (sec_of (es_mem st0) H i) < 2 ^ 31"
      "mem_loaded (es_mem st0) F H B n m1" "file_relocatable m1 F H n"
      "ptr_ro st0 = of_nat (fst B)" "ptr_rw st0 = of_nat (snd B)" "length (tracker st0) = MAX_BSS_SECTIONS"
    and q: "\<And>st. file_loaded st0 m1 F H B n name st \<Longrightarrow> Q st"
    by (auto simp: elf_ready_def Let_def st0_def)
  from load_elf_file_ok [OF alloc a, of name w] obtain st w' where
    "load_elf_file ctx name (of_nat F) st0 w = Some ((1, st), w')" "file_loaded st0 m1 F H B n name st" by blast
  with q that show ?thesis by (simp add: load_elf_block_def st0_def)
qed

text \<open>
  What starting AROS needs of an entry with the kernel \<open>f\<close>, which has the bytes \<open>k\<close>, and the modules \<open>cs\<close>: when the
  block for the kernel is allocated in the world \<open>w\<close> and the one for the modules in \<open>v\<close>, the files can be loaded
  there one after the other, with what the blocks hold behind them.
\<close>

definition aros_ready ::
    "'w context_t \<Rightarrow> ('w \<Rightarrow> u32) \<Rightarrow> 'w \<Rightarrow> 'w \<Rightarrow> mem \<Rightarrow> menu_t \<Rightarrow> string \<Rightarrow> byte list \<Rightarrow> byte list list
     \<Rightarrow> (elf_state \<Rightarrow> bool) \<Rightarrow> bool" where
  "aros_ready ctx adr w v m e f k cs Q \<longleftrightarrow>
     (let (kb, kw) = malloc ctx 5242880 w; (mb, mw) = malloc ctx 10485760 v
      in elf_ready (unat (adr kw)) f (k @ drop (length k) kb) (elf_init m)
           (\<lambda>st. files_ready (unat (adr mw)) (zip (map eo_name (me_modules e)) cs) mb st
             (\<lambda>es. Q es \<and> (\<exists>b \<in> set (tracker es). bt_addr b = 0))))"

context boot_files begin

lemma aros_modules_loaded:
  assumes alloc: "alloc_ok ctx"
  shows "usable d w \<Longrightarrow> list_all2 (\<lambda>mo c. holds (eo_name mo) c \<and> length c \<le> length b) mos cs
    \<Longrightarrow> files_ready F (zip (map eo_name mos) cs) b es Q
    \<Longrightarrow> \<exists>d' es' w'. aros_modules ctx (of_nat F) mx i mos (b, d, es, w) = Some (True, d', es', w') \<and> Q es'"
proof (induction mos arbitrary: cs i b d es w)
  case (Cons mo mos)
  from Cons.prems(2) obtain c cs' where cs: "cs = c # cs'" and h: "holds (eo_name mo) c" "length c \<le> length b"
    and rest: "list_all2 (\<lambda>mo c. holds (eo_name mo) c \<and> length c \<le> length b) mos cs'"
    by (auto simp: list_all2_Cons1)
  from load_held [OF Cons.prems(1) h] obtain d1 w1 where
    l: "dev_load_file ctx d (eo_name mo) b w = Some ((int (length c), c @ drop (length c) b), d1, w1)"
    and d1: "usable d1 w1" by blast
  have len: "length (c @ drop (length c) b) = length b" using h(2) by simp
  from Cons.prems(3) have "elf_ready F (eo_name mo) (c @ drop (length c) b) es
      (\<lambda>st. files_ready F (zip (map eo_name mos) cs') (mem_bytes (es_mem st) (of_nat F) (length b)) st Q)"
    by (simp add: cs)
  from elf_ready_loads [OF alloc this, of w1] obtain st w2 where
    e: "load_elf_block ctx (eo_name mo) (of_nat F) (c @ drop (length c) b) es w1
      = Some ((1, mem_bytes (es_mem st) (of_nat F) (length b), st), w2)"
    and q: "files_ready F (zip (map eo_name mos) cs') (mem_bytes (es_mem st) (of_nat F) (length b)) st Q"
    unfolding len by blast
  define w3 where "w3 = video_draw_text ctx 7 9 0 (eo_name mo) 66 (set_progress ctx mx (i + 2) w2)"
  have "side_calls ctx w1 w3" using load_elf_side [OF e] by (simp add: w3_def)
  with d1 have d3: "usable d1 w3" by (rule side_usable)
  have "length (mem_bytes (es_mem st) (of_nat F) (length b)) = length b" by (simp add: mem_bytes_def)
  with rest have "list_all2 (\<lambda>mo c. holds (eo_name mo) c \<and> length c \<le> length (mem_bytes (es_mem st) (of_nat F) (length b))) mos cs'"
    by simp
  from Cons.IH [OF d3 this q] l e show ?case by (simp add: w3_def)
qed simp

lemma aros_started:
  assumes alloc: "alloc_ok ctx" and "usable d w" and boot: "bootable e" and k: "me_kernel e = Some f"
    and mods: "list_all2 (\<lambda>mo c. holds (eo_name mo) c \<and> length c \<le> 10485760) (me_modules e) cs"
    and buf: "malloc ctx 10485760 w = (buf, w1)" "adr w1 = of_nat F"
    and ready: "elf_ready K f krnl (elf_init m) (\<lambda>st. files_ready F (zip (map eo_name (me_modules e)) cs) buf st
      (\<lambda>es. Q es \<and> (\<exists>b \<in> set (tracker es). bt_addr b = 0)))"
  shows "\<exists>es w'. boot_native ctx adr ver date m e (of_nat K) krnl d w
    = Some (Enter (Jump_aros (aros_tags ver date e es) es), w') \<and> Q es"
proof -
  from elf_ready_loads [OF alloc ready, of w1] obtain st w2 where
    l: "load_elf_block ctx f (of_nat K) krnl (elf_init m) w1
      = Some ((1, mem_bytes (es_mem st) (of_nat K) (length krnl), st), w2)"
    and q: "files_ready F (zip (map eo_name (me_modules e)) cs) buf st
      (\<lambda>es. Q es \<and> (\<exists>b \<in> set (tracker es). bt_addr b = 0))" by blast
  from boot_screen_ok [OF boot, of ctx w2] obtain w3 where s: "boot_screen ctx e w2 = Some w3" by blast
  have "side_calls ctx w w3"
    using side_trans [OF side_screen [OF s] side_trans [OF load_elf_side [OF l] side_mallocD [OF buf(1)]]] .
  with assms(2) have d3: "usable d w3" by (rule side_usable)
  have "length (fst (malloc ctx 10485760 w)) = 10485760" using alloc by (simp add: alloc_ok_def)
  with buf(1) mods have "list_all2 (\<lambda>mo c. holds (eo_name mo) c \<and> length c \<le> length buf) (me_modules e) cs" by simp
  from aros_modules_loaded [OF alloc d3 this q, of "int (modules_cnt e) + 1" 0] obtain d' es w4 where
    "aros_modules ctx (of_nat F) (int (modules_cnt e) + 1) 0 (me_modules e) (buf, d, st, w3) = Some (True, d', es, w4)"
    "Q es" "\<exists>b \<in> set (tracker es). bt_addr b = 0" by auto
  then show ?thesis
    using k buf l s by (simp add: boot_native_def testboot_aros_def guard_def)
qed

text \<open>
  From the choice of the entry on: the kernel is loaded from the device, too; \<open>v\<close> is the world after that. Whether
  AROS can be started depends on the addresses of the two blocks in this run.
\<close>

lemma aros_kernel_started:
  assumes alloc: "alloc_ok ctx" and "usable d w" and boot: "bootable e" and k: "me_kernel e = Some f" "holds f k" "length k \<le> 5242880"
    and mods: "list_all2 (\<lambda>mo c. holds (eo_name mo) c \<and> length c \<le> 10485760) (me_modules e) cs"
  shows "\<exists>r d' v. dev_load_file ctx d f (fst (malloc ctx 5242880 w)) (snd (malloc ctx 5242880 w)) = Some ((int (length k), k @ r), d', v)
    \<and> (aros_ready ctx adr w v m e f k cs Q
       \<longrightarrow> (\<exists>es w'. start_kernel ctx adr ver date m e d w = Some (Enter (Jump_aros (aros_tags ver date e es) es), w') \<and> Q es))"
proof -
  obtain b w1 where m: "malloc ctx 5242880 w = (b, w1)" by force
  define krnl where "krnl = k @ drop (length k) b"
  from load_in_block [OF alloc assms(2) k(2,3)] m obtain d1 w2 where
    l: "dev_load_file ctx d f b w1 = Some ((int (length k), krnl), d1, w2)" and d1: "usable d1 w2"
    and lk: "length krnl = 5242880" by (auto simp: krnl_def)
  obtain buf w3 where buf: "malloc ctx 10485760 w2 = (buf, w3)" by force
  have "\<exists>es w'. start_kernel ctx adr ver date m e d w = Some (Enter (Jump_aros (aros_tags ver date e es) es), w') \<and> Q es"
    if "aros_ready ctx adr w w2 m e f k cs Q"
  proof -
    let ?K = "unat (adr w1)" and ?F = "unat (adr w3)"
    have kat: "adr w1 = of_nat ?K" and fat: "adr w3 = of_nat ?F" by simp_all
    from that have r: "elf_ready ?K f krnl (elf_init m) (\<lambda>st. files_ready ?F (zip (map eo_name (me_modules e)) cs) buf st
        (\<lambda>es. Q es \<and> (\<exists>b \<in> set (tracker es). bt_addr b = 0)))"
      by (simp add: aros_ready_def m buf krnl_def)
    have "check_header (place_block (of_nat ?K) krnl m) (of_nat ?K)"
      using r by (auto simp: elf_ready_def Let_def elf_init_def)
    then have v: "ih_magic krnl \<noteq> Some IH_MAGIC" using image_not_elf by blast
    obtain v' ty os where to: "ih_magic krnl = Some v'" "ih_type krnl = Some ty" "ih_os krnl = Some os"
      using lk by (auto simp: ih_magic_def be32_def ih_type_def ih_os_def load_def)
    with v have "testboot_standalone ctx krnl w2 = Some w2" "testboot_linux ctx e krnl d1 w2 = Some (d1, w2)"
      by (simp_all add: testboot_standalone_def testboot_linux_def)
    with m l k(1) aros_started [where Q = Q and adr = adr and F = ?F and ver = ver and date = date, OF alloc d1 boot k(1) mods buf fat r]
    show ?thesis by (simp add: start_kernel_def)
  qed
  with m l show ?thesis by (auto simp: krnl_def)
qed

end

text \<open>A file that adds fewer markers than there is room for leaves one without an address for the walk.\<close>

lemma marker_left:
  assumes "file_loaded (elf_init m) m1 F H B n name st" and "bss_count (sec_of m H) n < MAX_BSS_SECTIONS"
  shows "\<exists>b \<in> set (tracker st). bt_addr b = 0"
proof
  let ?b = "tracker st ! bss_count (sec_of m H) n"
  show "?b \<in> set (tracker st)" using assms by (intro nth_mem) (simp add: file_loaded_def Let_def)
  show "bt_addr ?b = 0" using assms by (simp add: file_loaded_def Let_def only_adds_def elf_init_def)
qed

end
