(* ===== verification/Samples_Elf.thy ===== *)
theory Samples_Elf
  imports Samples Boot_Aros
begin

text \<open>Memories given by their longs from an address on, and two small ELF files in them.\<close>

definition mem_of :: "nat \<Rightarrow> nat \<Rightarrow> (nat \<Rightarrow> u32) \<Rightarrow> mem" where
  "mem_of F n f = (\<lambda>a. let k = unat (a - of_nat F) in if k < 4 * n then split32 (f (k div 4)) ! (k mod 4) else 0)"

lemma spot_mem_of:
  assumes "j < n" and "k < 4" and "4 * n < 2 ^ 32"
  shows "spot (mem_of F n f) (F + 4 * j + k) = split32 (f j) ! k"
proof -
  have "(of_nat (F + 4 * j + k) - of_nat F :: u32) = of_nat (4 * j + k)" by simp
  moreover have "4 * j + k < 4 * n" using assms(1,2) by simp
  moreover from this have "unat (of_nat (4 * j + k) :: u32) = 4 * j + k" using assms(3) by (intro unat_small) simp
  ultimately show ?thesis unfolding spot_def mem_of_def Let_def using assms(2) by (simp only: if_True) simp
qed

lemma ld32_mem_of:
  assumes "j < n" and "4 * n < 2 ^ 32"
  shows "ld32 (mem_of F n f) (of_nat (F + 4 * j)) = f j"
  using spot_mem_of [OF assms(1) _ assms(2), of 0 F f] spot_mem_of [OF assms(1) _ assms(2), of 1 F f]
    spot_mem_of [OF assms(1) _ assms(2), of 2 F f] spot_mem_of [OF assms(1) _ assms(2), of 3 F f]
    join32_split32 [of "f j"]
  by (simp only: ld32_spot) (simp add: split32_def numeral_eq_Suc)

lemma ld16_mem_of:
  assumes "j < n" and "4 * n < 2 ^ 32"
  shows "ld16 (mem_of F n f) (of_nat (F + 4 * j)) = ucast (drop_bit 16 (f j))"
    "ld16 (mem_of F n f) (of_nat (F + 4 * j + 2)) = ucast (f j)"
proof -
  have b: "ucast (drop_bit 8 (ucast x :: u16)) = (ucast (drop_bit 8 x) :: byte)"
    "ucast (ucast x :: u16) = (ucast x :: byte)" for x :: u32
    by (rule bit_eqI, auto simp: bit_simps)+
  show "ld16 (mem_of F n f) (of_nat (F + 4 * j)) = ucast (drop_bit 16 (f j))"
    using spot_mem_of [OF assms(1) _ assms(2), of 0 F f] spot_mem_of [OF assms(1) _ assms(2), of 1 F f]
      join16_split16 [of "ucast (drop_bit 16 (f j))"]
    by (simp only: ld16_spot) (simp add: split32_def b)
  have "spot (mem_of F n f) (F + 4 * j + 2) = ucast (drop_bit 8 (f j))"
    using spot_mem_of [OF assms(1) _ assms(2), of 2 F f] by (simp add: split32_def)
  moreover have "spot (mem_of F n f) (F + 4 * j + 3) = ucast (f j)"
    using spot_mem_of [OF assms(1) _ assms(2), of 3 F f] by (simp add: split32_def)
  moreover have e: "F + 4 * j + 2 + 1 = F + 4 * j + 3" by simp
  ultimately show "ld16 (mem_of F n f) (of_nat (F + 4 * j + 2)) = ucast (f j)"
    using join16_split16 [of "ucast (f j)"] by (simp only: ld16_spot e b)
qed

subsection \<open>A file with code, bss, a symbol and a relocation\<close>

definition file_longs :: "nat \<Rightarrow> u32" where
  "file_longs = (\<lambda>_. 0)(0 := 0x7F454C46, 4 := 0x00010014, 8 := 56, 12 := 0x00050000, 13 := 0x60000000,
     25 := 1, 26 := 6, 28 := 52, 29 := 4, 32 := 4, 35 := 8, 36 := 3, 39 := 8, 42 := 4,
     45 := 2, 48 := 256, 49 := 16, 53 := 16, 55 := 4, 58 := 272, 59 := 12, 60 := 3, 61 := 1, 63 := 12,
     67 := 1, 69 := 1, 70 := 2)"

definition elf_mem :: mem where
  "elf_mem = mem_of 0x100000 71 file_longs"

lemma elf_mem_long: "j < 71 \<Longrightarrow> ld32 elf_mem (of_nat (0x100000 + 4 * j)) = file_longs j"
  unfolding elf_mem_def by (rule ld32_mem_of) simp_all

lemma elf_mem_sec:
  assumes "i < 5"
  shows "sec_of elf_mem 0x100038 i = \<lparr>sc_type = file_longs (15 + 10 * i), sc_flags = file_longs (16 + 10 * i),
    sc_offset = unat (file_longs (18 + 10 * i)), sc_size = unat (file_longs (19 + 10 * i)),
    sc_align = unat (file_longs (22 + 10 * i))\<rparr>"
  using elf_mem_long [of "15 + 10 * i"] elf_mem_long [of "16 + 10 * i"] elf_mem_long [of "18 + 10 * i"]
    elf_mem_long [of "19 + 10 * i"] elf_mem_long [of "22 + 10 * i"] assms
  by (simp add: sec_of_def head_at_def sh_type_def sh_flags_def sh_offset_def sh_size_def sh_addralign_def
      algebra_simps)

lemma elf_secs:
  "sec_of elf_mem 0x100038 0 = \<lparr>sc_type = 0, sc_flags = 0, sc_offset = 0, sc_size = 0, sc_align = 0\<rparr>"
  "sec_of elf_mem 0x100038 (Suc 0) = \<lparr>sc_type = 1, sc_flags = 6, sc_offset = 52, sc_size = 4, sc_align = 4\<rparr>"
  "sec_of elf_mem 0x100038 2 = \<lparr>sc_type = 8, sc_flags = 3, sc_offset = 0, sc_size = 8, sc_align = 4\<rparr>"
  "sec_of elf_mem 0x100038 3 = \<lparr>sc_type = 2, sc_flags = 0, sc_offset = 256, sc_size = 16, sc_align = 0\<rparr>"
  "sec_of elf_mem 0x100038 4 = \<lparr>sc_type = 4, sc_flags = 0, sc_offset = 272, sc_size = 12, sc_align = 0\<rparr>"
  using elf_mem_sec [of 0] elf_mem_sec [of 1] elf_mem_sec [of 2] elf_mem_sec [of 3] elf_mem_sec [of 4]
  by (simp_all add: file_longs_def)

definition elf_bounds :: "nat \<times> nat" where
  "elf_bounds = (0x800000, 0x800000)"

lemma elf_bounds_simps [simp]: "fst elf_bounds = 0x800000" "snd elf_bounds = 0x800000"
  by (simp_all add: elf_bounds_def)

lemma elf_hunks:
  "\<not> is_hunk (sec_of elf_mem 0x100038 0)" "is_hunk (sec_of elf_mem 0x100038 (Suc 0))"
  "is_hunk (sec_of elf_mem 0x100038 2)" "\<not> is_hunk (sec_of elf_mem 0x100038 3)"
  "\<not> is_hunk (sec_of elf_mem 0x100038 4)"
  "\<not> writable (sec_of elf_mem 0x100038 (Suc 0))" "writable (sec_of elf_mem 0x100038 2)"
  by (simp_all add: elf_secs is_hunk_def is_table_def writable_def)

lemma elf_bounds_at:
  "bounds (sec_of elf_mem 0x100038) elf_bounds (Suc 0) = (0x800000, 0x800000)"
  "bounds (sec_of elf_mem 0x100038) elf_bounds 2 = (0x800004, 0x800000)"
  "hunk_addr (sec_of elf_mem 0x100038) elf_bounds (Suc 0) = 0x800000"
  "hunk_addr (sec_of elf_mem 0x100038) elf_bounds 2 = 0x7FFFF4"
  using elf_hunks
  by (simp_all add: elf_bounds_def numeral_2_eq_2 hunk_addr_def place_def elf_secs [unfolded numeral_2_eq_2])

lemma all_5: "(\<forall>i < 5. P i) \<longleftrightarrow> P 0 \<and> P (Suc 0) \<and> P 2 \<and> P 3 \<and> P 4" for P :: "nat \<Rightarrow> bool"
proof -
  have "i < 5 \<longleftrightarrow> i = 0 \<or> i = Suc 0 \<or> i = 2 \<or> i = 3 \<or> i = 4" for i :: nat by arith
  then show ?thesis by simp blast
qed

lemma elf_shnum: "eh_shnum elf_mem (of_nat 0x100000) = 5"
proof -
  have "ld16 elf_mem (of_nat (0x100000 + 4 * 12)) = 5"
    unfolding elf_mem_def by (subst ld16_mem_of(1)) (simp_all add: file_longs_def)
  then show ?thesis by (simp add: eh_shnum_def)
qed

lemma elf_loadable: "loadable elf_mem 0x100000 284 0x100038 5 elf_bounds"
proof -
  have "unat (eh_shnum elf_mem (of_nat 0x100000)) = 5" by (simp only: elf_shnum) simp
  moreover have "hunk_ok (sec_of elf_mem 0x100038) elf_bounds (Suc 0)" "hunk_ok (sec_of elf_mem 0x100038) elf_bounds 2"
    using elf_hunks elf_bounds_at by (auto simp: hunk_ok_def elf_secs intro: exI [of _ 2])
  ultimately show ?thesis
    unfolding loadable_def all_5 using elf_hunks elf_bounds_at by (simp add: hunk_range_def) (simp add: elf_secs)
qed

lemma elf_bss: "bss_count (sec_of elf_mem 0x100038) 5 \<le> 5"
  using length_filter_le [of "\<lambda>j. is_bss (sec_of elf_mem 0x100038 j)" "[0..<5]"] by (simp add: bss_count_def)

text \<open>The memory with its sections loaded.\<close>

lemma elf_loaded:
  assumes m1: "mem_loaded elf_mem 0x100000 0x100038 elf_bounds 5 m1"
  shows "j < 71 \<Longrightarrow> j \<notin> {17, 27, 37, 47, 57} \<Longrightarrow> ld32 m1 (of_nat (0x100000 + 4 * j)) = file_longs j"
    "sh_addr m1 (of_nat (head_at 0x100038 0)) = 0"
    "sh_addr m1 (of_nat (head_at 0x100038 (Suc 0))) = 0x800000"
    "sh_addr m1 (of_nat (head_at 0x100038 3)) = 0x100100"
    "eh_shnum m1 (of_nat 0x100000) = 5"
proof -
  show "eh_shnum m1 (of_nat 0x100000) = 5"
    using mem_loaded_shnum [OF elf_loadable m1 order.refl] elf_shnum by simp
  have "sh_addr m1 (of_nat (head_at 0x100038 i)) = final_addr elf_mem 0x100000 0x100038 elf_bounds i" if "i < 5" for i
    using m1 that by (simp add: mem_loaded_def)
  from this [of 0] this [of "Suc 0"] this [of 3]
  show "sh_addr m1 (of_nat (head_at 0x100038 0)) = 0" "sh_addr m1 (of_nat (head_at 0x100038 (Suc 0))) = 0x800000"
    "sh_addr m1 (of_nat (head_at 0x100038 3)) = 0x100100"
    using elf_hunks elf_bounds_at elf_mem_long [of 17]
    by (simp_all add: final_addr_def Let_def elf_secs is_table_def head_at_def sh_addr_def file_longs_def)
next
  assume j: "j < 71" "j \<notin> {17, 27, 37, 47, 57}"
  have "ld32 m1 (of_nat (0x100000 + 4 * j)) = ld32 elf_mem (of_nat (0x100000 + 4 * j))"
  proof (rule ld32_cong)
    fix y assume y: "0x100000 + 4 * j \<le> y" "y < 0x100000 + 4 * j + 4"
    have "y \<notin> addr_field 0x100038 i" if "i < 5" for i
    proof
      assume "y \<in> addr_field 0x100038 i"
      with y have "j = 17 + 10 * i" by (auto simp: addr_field_def head_at_def)
      with j(2) that show False by auto
    qed
    with y j(1) show "spot m1 y = spot elf_mem y" by (intro mem_loaded_file [OF elf_loadable m1 order.refl]) auto
  qed
  with elf_mem_long [OF j(1)] show "ld32 m1 (of_nat (0x100000 + 4 * j)) = file_longs j" by simp
qed

lemma ld16_low: "ld16 (m :: mem) (a + 2) = ucast (ld32 m a)"
proof -
  have "ucast (join32 a b c d) = join16 c d" for a b c d :: byte
    by (rule bit_eqI) (auto simp: join32_def join16_def bit_simps)
  moreover have "a + 2 + 1 = a + (3 :: u32)" by simp
  ultimately show ?thesis by (simp only: ld16_def ld32_def)
qed

lemma elf_file_relocatable:
  assumes m1: "mem_loaded elf_mem 0x100000 0x100038 elf_bounds 5 m1"
  shows "file_relocatable m1 0x100000 0x100038 5"
proof -
  let ?H = "0x100038 :: nat"
  note l = elf_loaded [OF m1]
  have field: "ld32 m1 (of_nat (head_at ?H i) + of_nat (4 * d)) = file_longs (14 + 10 * i + d)"
    if "i < 5" "d < 10" "d \<noteq> 3" for i d
  proof -
    have "14 + 10 * i + d \<notin> {17, 27, 37, 47, 57}" using that by auto arith+
    moreover have "(of_nat (head_at ?H i) + of_nat (4 * d) :: u32) = of_nat (0x100000 + 4 * (14 + 10 * i + d))"
      by (simp only: of_nat_add [symmetric]) (simp add: head_at_def algebra_simps)
    moreover have "14 + 10 * i + d < 71" using that by simp
    ultimately show ?thesis using l(1) [of "14 + 10 * i + d"] by (simp only: not_False_eq_True)
  qed
  have f: "sh_type m1 (head ?H i) = file_longs (15 + 10 * i)" "sh_offset m1 (head ?H i) = file_longs (18 + 10 * i)"
    "sh_size m1 (head ?H i) = file_longs (19 + 10 * i)" "sh_link m1 (head ?H i) = file_longs (20 + 10 * i)"
    "sh_info m1 (head ?H i) = file_longs (21 + 10 * i)" "sh_entsize m1 (head ?H i) = file_longs (23 + 10 * i)"
    if "i < 5" for i
    using field [OF that, of 1] field [OF that, of 4] field [OF that, of 5] field [OF that, of 6] field [OF that, of 7]
      field [OF that, of 9]
    by (simp_all add: sh_type_def sh_offset_def sh_size_def sh_link_def sh_info_def sh_entsize_def)
  have heads: "tab_symtab m1 ?H i = head_at ?H (unat (file_longs (20 + 10 * i)))"
    "tab_toreloc m1 ?H i = head_at ?H (unat (file_longs (21 + 10 * i)))" if "i < 5" for i
    using f [OF that] by (simp_all add: tab_symtab_def tab_toreloc_def)
  have idle: "\<not> tab_active m1 ?H 0" "\<not> tab_active m1 ?H (Suc 0)" "\<not> tab_active m1 ?H 2" "\<not> tab_active m1 ?H 3"
    using f(1) [of 0] f(1) [of "Suc 0"] f(1) [of 2] f(1) [of 3] by (simp_all add: tab_active_def file_longs_def)
  have act: "tab_active m1 ?H 4" "tab_rels m1 0x100000 ?H 4 = 0x100110" "tab_syms m1 ?H 4 = 0x100100"
    "tab_target m1 ?H 4 = 0x800000" "tab_count m1 ?H 4 = 1" "sh_entsize m1 (head ?H 4) = 12"
    "unat (sh_size m1 (head ?H 4)) mod 12 = 0"
    using f [of 4] heads [of 4] l(3,4)
    by (simp_all add: tab_active_def tab_rels_def tab_syms_def tab_target_def tab_count_def file_longs_def)
  have r: "rel_at 0x100110 0 = 0x100110" "rel_info m1 0x100110 = 1" "rel_offset m1 0x100110 = 0"
    using l(1) [of 68] l(1) [of 69] by (simp_all add: rel_at_def rel_info_def rel_offset_def file_longs_def)
  have sy: "rk_sym m1 0x100110 0x100100 0 = 0x100100" by (simp add: rk_sym_def r ELF32_R_SYM_def)
  have "sym_shindex m1 (of_nat 0x100100) = 1"
    using ld16_low [of m1 "0x10010C"] l(1) [of 67] by (simp add: sym_shindex_def file_longs_def)
  then have ix: "rk_index m1 0x100110 0x100100 0 = 1" by (simp add: rk_index_def sy)
  have pt: "rk_patch m1 0x100110 0x800000 0 = 0x800000" by (simp add: rk_patch_def r)
  have rel: "relocatable m1 ?H Y 0x100110 0x100100 0x800000 1" for Y
    by (simp add: relocatable_def rk_type_def patch_range_def reloc_reads_def r sy ix pt known_reloc_def reloc_width_def
        ELF32_R_TYPE_def) auto
  have pa: "tab_patches m1 0x100000 ?H 4 = {0x800000 ..< 0x800004}"
    by (auto simp: tab_patches_def act patch_range_def pt rk_type_def r reloc_width_def ELF32_R_TYPE_def)
  have hr: "head_reads m1 ?H i = {head_at ?H i + 4 ..< head_at ?H i + 12} \<union> {head_at ?H i + 16 ..< head_at ?H i + 40}
      \<union> {head_at ?H 0 + 12 ..< head_at ?H 0 + 16}" if "i < 4" for i
  proof -
    have "i = 0 \<or> i = Suc 0 \<or> i = 2 \<or> i = 3" using that by arith
    then have "file_longs (20 + 10 * i) = 0" "file_longs (21 + 10 * i) = 0" by (auto simp: file_longs_def)
    with heads [of i] that show ?thesis by (simp add: head_reads_def Un_assoc)
  qed
  have hr4: "head_reads m1 ?H 4 = {head_at ?H 4 + 4 ..< head_at ?H 4 + 12} \<union> {head_at ?H 4 + 16 ..< head_at ?H 4 + 40}
      \<union> {head_at ?H 3 + 12 ..< head_at ?H 3 + 16} \<union> {head_at ?H 1 + 12 ..< head_at ?H 1 + 16}"
    using heads [of 4] by (simp add: head_reads_def file_longs_def)
  have rr: "reloc_reads m1 ?H Y 0x100110 0x100100 0 = {0x100110 ..< 0x10011C} \<union> {0x100100 ..< 0x100110}
      \<union> {?H + 52 ..< ?H + 56}" for Y
    by (simp add: reloc_reads_def sy ix)
  have low: "y < ?H + 160" if "i < 4" "y \<in> tab_reads m1 0x100000 ?H i" for i y
  proof -
    have "i = 0 \<or> i = Suc 0 \<or> i = 2 \<or> i = 3" using that(1) by arith
    with idle have "\<not> tab_active m1 ?H i" by auto
    with that have "y \<in> head_reads m1 ?H i" by (simp add: tab_reads_def)
    then show "y < ?H + 160"
      unfolding hr [OF that(1)] using that(1) by (auto simp: head_at_def)
  qed
  have w: "tab_writes m1 0x100000 ?H i = {}" if "i < 4" for i
  proof -
    have "i = 0 \<or> i = Suc 0 \<or> i = 2 \<or> i = 3" using that by arith
    with idle show ?thesis by (auto simp: tab_writes_def)
  qed
  have w4: "tab_writes m1 0x100000 ?H 4 = {?H + 172 ..< ?H + 176} \<union> {0x800000 ..< 0x800004}"
    by (simp add: tab_writes_def act(1) pa addr_field_def head_at_def)
  have r4: "tab_reads m1 0x100000 ?H 4 = head_reads m1 ?H 4 \<union> reloc_reads m1 ?H (tab_symtab m1 ?H 4) 0x100110 0x100100 0"
    by (simp add: tab_reads_def act lessThan_Suc)
  have ok: "tab_ok m1 0x100000 ?H i" if "i < 5" for i
  proof (cases "i = 4")
    case True
    have "(addr_field ?H 4 \<union> head_reads m1 ?H 4) \<inter> {0x800000 ..< 0x800004} = {}"
      "addr_field ?H 4 \<inter> tab_reads m1 0x100000 ?H 4 = {}"
      unfolding r4 hr4 rr by (auto simp: addr_field_def head_at_def)
    with True act rel pa show ?thesis by (simp add: tab_ok_def)
  next
    case False
    then have "i = 0 \<or> i = Suc 0 \<or> i = 2 \<or> i = 3" using that by arith
    with idle show ?thesis by (auto simp: tab_ok_def)
  qed
  have one: "y < 2 ^ 32" if "i < 5" "y \<in> tab_reads m1 0x100000 ?H i" for i y
  proof (cases "i = 4")
    case True
    with that(2) show ?thesis unfolding True r4 hr4 rr by (auto simp: head_at_def)
  next
    case False
    with that low [of i y] show ?thesis by simp
  qed
  have sep: "tab_writes m1 0x100000 ?H j \<inter> tab_reads m1 0x100000 ?H i = {}
      \<and> tab_writes m1 0x100000 ?H j \<inter> tab_writes m1 0x100000 ?H i = {}" if "j < 5" "i < 5" "i \<noteq> j" for i j
  proof (cases "j = 4")
    case True
    then have i: "i < 4" using that by simp
    from low [OF i] w [OF i] w4 True show ?thesis by fastforce
  next
    case False
    with w [of j] that(1) show ?thesis by simp
  qed
  have sh: "{0x100000 + 48, 0x100000 + 49} \<inter> tab_writes m1 0x100000 ?H i = {}" if "i < 5" for i
    using w [of i] w4 that by (cases "i = 4") auto
  have "unat (eh_shnum m1 (of_nat 0x100000)) = 5" by (simp only: l(5)) simp
  then show ?thesis
    unfolding file_relocatable_def
    by (intro conjI allI impI ballI)
      ((rule ok one sh sep [THEN conjunct1] sep [THEN conjunct2]; assumption) | simp)+
qed

subsection \<open>A table of relocations\<close>

text \<open>
  Section headers at \<open>0x1000\<close>, two symbols, one in the code and \<open>SysBase\<close>, and the relocations of what a
  compiler makes of an access and a call: the two halves of an address in \<open>lis\<close> and \<open>addi\<close>, a branch right
  behind them, and a long with the address of exec.
\<close>

definition rel_longs :: "nat \<Rightarrow> u32" where
  "rel_longs = (\<lambda>_. 0)(13 := 0x1120, 23 := 0x10C8, 26 := 4, 43 := 0x10E8, 51 := 8, 53 := 1, 55 := 4, 57 := 0xFFF1,
     58 := 0x53797342, 59 := 0x61736500, 60 := 2, 61 := 6, 63 := 6, 64 := 4, 66 := 8, 67 := 10, 69 := 12, 70 := 0x101,
     72 := 0x3C600000, 73 := 0x38630000, 74 := 0x48000001)"

definition rel_mem :: mem where
  "rel_mem = mem_of 0x1000 76 rel_longs"

lemma rel_mem_long: "j < 76 \<Longrightarrow> ld32 rel_mem (of_nat (0x1000 + 4 * j)) = rel_longs j"
  unfolding rel_mem_def by (rule ld32_mem_of) simp_all

lemma rel_entries:
  "rk_type rel_mem 0x10F0 0 = R_PPC_ADDR16_HA" "rk_type rel_mem 0x10F0 (Suc 0) = R_PPC_ADDR16_LO"
  "rk_type rel_mem 0x10F0 2 = R_PPC_REL24" "rk_type rel_mem 0x10F0 3 = R_PPC_ADDR32"
  "rk_patch rel_mem 0x10F0 0x1120 0 = 0x1122" "rk_patch rel_mem 0x10F0 0x1120 (Suc 0) = 0x1126"
  "rk_patch rel_mem 0x10F0 0x1120 2 = 0x1128" "rk_patch rel_mem 0x10F0 0x1120 3 = 0x112C"
  "rk_sym rel_mem 0x10F0 0x10C8 0 = 0x10C8" "rk_sym rel_mem 0x10F0 0x10C8 (Suc 0) = 0x10C8"
  "rk_sym rel_mem 0x10F0 0x10C8 2 = 0x10C8" "rk_sym rel_mem 0x10F0 0x10C8 3 = 0x10D8"
  using rel_mem_long [of 60] rel_mem_long [of 61] rel_mem_long [of 63] rel_mem_long [of 64] rel_mem_long [of 66]
    rel_mem_long [of 67] rel_mem_long [of 69] rel_mem_long [of 70]
  by (simp_all add: rk_type_def rk_patch_def rk_sym_def rel_at_def rel_info_def rel_offset_def rel_longs_def
      ELF32_R_TYPE_def ELF32_R_SYM_def)

lemma rel_symbols:
  "rk_index rel_mem 0x10F0 0x10C8 0 = 1" "rk_index rel_mem 0x10F0 0x10C8 (Suc 0) = 1"
  "rk_index rel_mem 0x10F0 0x10C8 2 = 1" "rk_index rel_mem 0x10F0 0x10C8 3 = SHN_ABS"
  "str_head rel_mem 0x1000 0x1050 = 0x10A0" "rk_name rel_mem 0x1000 0x1050 0x10F0 0x10C8 3 = 0x10E8"
proof -
  have i: "sym_shindex rel_mem 0x10C8 = 1" "sym_shindex rel_mem 0x10D8 = SHN_ABS"
    using ld16_low [of rel_mem "0x10D4"] ld16_low [of rel_mem "0x10E4"] rel_mem_long [of 53] rel_mem_long [of 57]
    by (simp_all add: sym_shindex_def rel_longs_def)
  show "rk_index rel_mem 0x10F0 0x10C8 0 = 1" "rk_index rel_mem 0x10F0 0x10C8 (Suc 0) = 1"
    "rk_index rel_mem 0x10F0 0x10C8 2 = 1" "rk_index rel_mem 0x10F0 0x10C8 3 = SHN_ABS"
    using i by (simp_all add: rk_index_def rel_entries)
  show st: "str_head rel_mem 0x1000 0x1050 = 0x10A0"
    using rel_mem_long [of 26] by (simp add: str_head_def sh_link_def rel_longs_def)
  show "rk_name rel_mem 0x1000 0x1050 0x10F0 0x10C8 3 = 0x10E8"
    using rel_mem_long [of 43] rel_mem_long [of 54]
    by (simp add: rk_name_def st sh_addr_def sym_name_def rel_entries rel_longs_def)
qed

lemma less_4_cases: "(k :: nat) < 4 \<longleftrightarrow> k = 0 \<or> k = Suc 0 \<or> k = 2 \<or> k = 3"
  by auto

lemma rel_relocatable: "relocatable rel_mem 0x1000 0x1050 0x10F0 0x10C8 0x1120 4"
proof -
  have p: "patch_range rel_mem 0x10F0 0x1120 0 = {0x1122 ..< 0x1124}"
    "patch_range rel_mem 0x10F0 0x1120 (Suc 0) = {0x1126 ..< 0x1128}"
    "patch_range rel_mem 0x10F0 0x1120 2 = {0x1128 ..< 0x112C}" "patch_range rel_mem 0x10F0 0x1120 3 = {0x112C ..< 0x1130}"
    by (simp_all add: patch_range_def rel_entries reloc_width_def)
  have below: "y < 0x1120" if "k < 4" "y \<in> reloc_reads rel_mem 0x1000 0x1050 0x10F0 0x10C8 k" for k y
    using that unfolding less_4_cases by (auto simp: reloc_reads_def rel_entries rel_symbols)
  have above: "0x1120 \<le> y \<and> y < 2 ^ 32" if "k < 4" "y \<in> patch_range rel_mem 0x10F0 0x1120 k" for k y
    using that unfolding less_4_cases by (auto simp: p)
  have dis: "patch_range rel_mem 0x10F0 0x1120 j \<inter> patch_range rel_mem 0x10F0 0x1120 k = {}"
    if "j < 4" "k < 4" "j \<noteq> k" for j k
    using that unfolding less_4_cases by (auto simp: p)
  have one: "known_reloc (rk_type rel_mem 0x10F0 k) \<and> rk_index rel_mem 0x10F0 0x10C8 k \<notin> {SHN_UNDEF, SHN_COMMON}
      \<and> rk_patch rel_mem 0x10F0 0x1120 k + reloc_width (rk_type rel_mem 0x10F0 k) \<le> 2 ^ 32" if "k < 4" for k
    using that unfolding less_4_cases by (auto simp: rel_entries rel_symbols known_reloc_def reloc_width_def)
  show ?thesis
    unfolding relocatable_def
  proof (intro conjI allI impI ballI)
    show "y < 2 ^ 32" if "k < 4" "y \<in> reloc_reads rel_mem 0x1000 0x1050 0x10F0 0x10C8 k" for k y
      using below [OF that] by simp
    show "patch_range rel_mem 0x10F0 0x1120 j \<inter> reloc_reads rel_mem 0x1000 0x1050 0x10F0 0x10C8 k = {}"
      if "j < 4" "k < 4" for j k
      using below [OF that(2)] above [OF that(1)] by fastforce
  qed (use one dis in auto)
qed

text \<open>The long gets the address 4, where exec is found, and no offset.\<close>

lemma rel_sysbase:
  "rk_value rel_mem 0x1000 0x1050 0x10F0 0x10C8 3 = 4" "rk_virt rel_mem 0x1000 0x1050 0x10F0 0x10C8 virt 3 = 0"
proof -
  have "mem_bytes rel_mem (of_nat 0x10E8) 8 = split32 (rel_longs 58) @ split32 (rel_longs 59)"
  proof -
    have "spot rel_mem (0x1000 + 4 * 58 + k) = split32 (rel_longs 58) ! k"
      "spot rel_mem (0x1000 + 4 * 59 + k) = split32 (rel_longs 59) ! k" if "k < 4" for k
      unfolding rel_mem_def by (rule spot_mem_of [OF _ that]; simp)+
    from this [of 0] this [of 1] this [of 2] this [of 3] show ?thesis
      by (simp add: mem_bytes_def spot_def split32_def upt_rec)
  qed
  moreover have "chars (split32 (rel_longs 58) @ split32 (rel_longs 59)) = lit ''SysBase''"
    by (simp add: chars_def split32_def rel_longs_def lit_def char_of_def bit_Suc_0_iff)
  ultimately have n: "rk_named rel_mem 0x1000 0x1050 0x10F0 0x10C8 3"
    by (simp add: rk_named_def rel_symbols)
  have "\<not> rk_named rel_mem 0x1000 0x1050 0x10F0 0x10C8 j" if "j < 3" for j
  proof -
    have "j = 0 \<or> j = Suc 0 \<or> j = 2" using that by arith
    then show ?thesis by (auto simp: rk_named_def rel_symbols)
  qed
  then have "find (rk_named rel_mem 0x1000 0x1050 0x10F0 0x10C8) [0..<3] = None" by (simp add: find_None_iff)
  then have "first_sysbase rel_mem 0x1000 0x1050 0x10F0 0x10C8 3 = None" by (simp add: first_sysbase_def)
  with n have "rk_sysbase rel_mem 0x1000 0x1050 0x10F0 0x10C8 3"
    using first_sysbase_Suc [of rel_mem "0x1000" "0x1050" "0x10F0" "0x10C8" 3] by (simp add: rk_sysbase_def rel_symbols)
  then show "rk_value rel_mem 0x1000 0x1050 0x10F0 0x10C8 3 = 4" "rk_virt rel_mem 0x1000 0x1050 0x10F0 0x10C8 virt 3 = 0"
    by (simp_all add: rk_value_def rk_virt_def)
qed

subsection \<open>The file in a block\<close>

definition elf_file :: "byte list" where
  "elf_file = concat (map (\<lambda>i. split32 (file_longs i)) [0..<71])"

lemma length_elf_file [simp]: "length elf_file = 284"
  unfolding elf_file_def by (subst length_concat_const [where n = 4]) simp_all

lemma elf_mem_block: "place_block (of_nat 0x100000) elf_file (\<lambda>_. 0) = elf_mem"
proof
  fix a :: u32
  have "elf_file ! k = split32 (file_longs (k div 4)) ! (k mod 4)" if "k < 284" for k
  proof -
    have k: "k div 4 < 71" "k mod 4 < 4" "4 * (k div 4) + k mod 4 = k" using that by auto
    have "take 4 (drop (4 * (k div 4)) elf_file) = split32 (file_longs (k div 4))"
      using take_drop_concat [of "map (\<lambda>i. split32 (file_longs i)) [0..<71]" 4 "k div 4"] k(1) by (simp add: elf_file_def)
    then have "take 4 (drop (4 * (k div 4)) elf_file) ! (k mod 4) = split32 (file_longs (k div 4)) ! (k mod 4)" by simp
    with k that show ?thesis by simp
  qed
  then show "place_block (of_nat 0x100000) elf_file (\<lambda>_. 0) a = elf_mem a"
    by (simp add: place_block_def elf_mem_def mem_of_def Let_def)
qed

lemma elf_check_header: "check_header elf_mem (of_nat 0x100000)" "eh_shoff elf_mem (of_nat 0x100000) = 56"
proof -
  have b: "elf_mem (of_nat (0x100000 + 4 * 0 + k)) = split32 0x7F454C46 ! k" if "k < 4" for k
    using spot_mem_of [of 0 71 k "0x100000" file_longs] that
    by (simp only: elf_mem_def spot_def) (simp add: file_longs_def)
  have "ld16 elf_mem (of_nat (0x100000 + 4 * 4)) = 1"
    unfolding elf_mem_def by (subst ld16_mem_of(1)) (simp_all add: file_longs_def)
  moreover have "ld16 elf_mem (of_nat (0x100000 + 4 * 4 + 2)) = 20"
    unfolding elf_mem_def by (subst ld16_mem_of(2)) (simp_all add: file_longs_def)
  ultimately
  show "check_header elf_mem (of_nat 0x100000)"
    using b [of 0] b [of 1] b [of 2] b [of 3]
    by (simp add: check_header_def eh_ident_def eh_type_def eh_machine_def split32_def)
  show "eh_shoff elf_mem (of_nat 0x100000) = 56"
    using elf_mem_long [of 8] by (simp add: eh_shoff_def file_longs_def)
qed

lemma elf_mem_padded: "place_block (of_nat 0x100000) (elf_file @ replicate n 0) (\<lambda>_. 0) = elf_mem"
proof -
  have "place_block at' (b @ replicate n 0) (\<lambda>_. 0) = place_block at' b (\<lambda>_. 0)" for at' b
    by (rule ext) (simp add: place_block_def nth_append)
  then show ?thesis by (simp only: elf_mem_block)
qed

text \<open>Loaded as a kernel, it is described by \<open>file_loaded\<close> and leaves a marker without an address.\<close>

lemma elf_kernel_ready:
  assumes b: "place_block (of_nat 0x100000) b (\<lambda>_. 0) = elf_mem"
    and m1: "mem_loaded elf_mem 0x100000 0x100038 elf_bounds 5 m1"
  shows "elf_ready 0x100000 name b (elf_init (\<lambda>_. 0))
    (\<lambda>st. files_ready F [] buf st (\<lambda>es. file_loaded (elf_init elf_mem) m1 0x100000 0x100038 elf_bounds 5 name es
      \<and> (\<exists>b \<in> set (tracker es). bt_addr b = 0)))"
proof -
  have m: "place_block (of_nat 0x100000) b (es_mem (elf_init (\<lambda>_. 0))) = elf_mem"
    using b by (simp add: elf_init_def)
  have e: "elf_init (\<lambda>_. 0)\<lparr>es_mem := elf_mem\<rparr> = elf_init elf_mem" by (simp add: elf_init_def)
  have str: "\<forall>i < 5. sc_type (sec_of elf_mem 0x100038 i) = SHT_STRTAB \<longrightarrow> sc_size (sec_of elf_mem 0x100038 i) < 2 ^ 31"
    unfolding all_5 by (simp add: elf_secs)
  have c: "bss_count (sec_of elf_mem 0x100038) 5 < MAX_BSS_SECTIONS" using elf_bss by (simp add: MAX_BSS_SECTIONS_def)
  show ?thesis
    unfolding elf_ready_def Let_def m e
    by (rule exI [of _ 284], rule exI [of _ "0x100038"], rule exI [of _ 5], rule exI [of _ elf_bounds], rule exI [of _ m1])
      (use elf_check_header elf_loadable str m1 elf_file_relocatable [OF m1] c in
        \<open>simp add: marker_left [OF _ c] elf_init_def KERNEL_PHYS_BASE_def\<close>)
qed

end
