(* ===== verification/Menu_Cases.thy ===== *)
theory Menu_Cases
  imports Menu_Fsm
begin

text \<open>
  What each \<open>case\<close> of the two parsers does, as an equation over C strings: the memory level of
  \<open>Menu_Fsm\<close> (blocks, offsets, terminators) disappears, and with it every possible fault, as long
  as \<open>line\<close> is a terminated block and \<open>lineptr\<close> points into its string.
\<close>

named_theorems case_eqs \<open>the parser cases as functions of strings\<close>

definition ptr_ok :: "fsm_st \<Rightarrow> bool" where
  "ptr_ok st \<longleftrightarrow>
     (\<exists>line p. f_line st = Some line \<and> terminated line \<and> f_lineptr st = Some p
       \<and> p \<le> length (cstr line))"

definition arg_str :: "fsm_st \<Rightarrow> string" where
  "arg_str st = cstr (drop (the (f_lineptr st)) (the (f_line st)))"

lemma ptr_ok_update [simp]:
  "ptr_ok (st\<lparr>f_status := s\<rparr>) = ptr_ok st" "ptr_ok (st\<lparr>f_entry := e\<rparr>) = ptr_ok st"
  "ptr_ok (st\<lparr>f_kernel := k\<rparr>) = ptr_ok st" "ptr_ok (st\<lparr>f_menu := m\<rparr>) = ptr_ok st"
  "ptr_ok (st\<lparr>f_offset := o1\<rparr>) = ptr_ok st"
  "arg_str (st\<lparr>f_status := s\<rparr>) = arg_str st" "arg_str (st\<lparr>f_entry := e\<rparr>) = arg_str st"
  "arg_str (st\<lparr>f_kernel := k\<rparr>) = arg_str st" "arg_str (st\<lparr>f_menu := m\<rparr>) = arg_str st"
  "arg_str (st\<lparr>f_offset := o1\<rparr>) = arg_str st"
  by (simp_all add: ptr_ok_def arg_str_def)

lemma ptr_okI:
  "terminated line \<Longrightarrow> p \<le> length (cstr line) \<Longrightarrow>
     ptr_ok (st\<lparr>f_offset := off, f_line := Some line, f_lineptr := Some p\<rparr>)"
  by (simp add: ptr_ok_def)

lemma at_ptr_ok:
  assumes "ptr_ok st"
  shows "\<exists>s. at_ptr st = Some s \<and> terminated s \<and> cstr s = arg_str st"
proof -
  from assms obtain line p where l: "f_line st = Some line" "terminated line"
      "f_lineptr st = Some p" "p \<le> length (cstr line)"
    by (auto simp: ptr_ok_def)
  then have "p \<le> length line" using length_cstr_le [of line] by simp
  with l show ?thesis by (simp add: at_ptr_def arg_str_def terminated_drop_le)
qed

lemma trim_ptr_ok:
  assumes "ptr_ok st"
  shows "\<exists>l. trim_ptr st = Some (st\<lparr>f_line := Some l\<rparr>) \<and> ptr_ok (st\<lparr>f_line := Some l\<rparr>)
    \<and> arg_str (st\<lparr>f_line := Some l\<rparr>) = trim (arg_str st)"
proof -
  from assms obtain line p where l: "f_line st = Some line" "terminated line"
      "f_lineptr st = Some p" "p \<le> length (cstr line)"
    by (auto simp: ptr_ok_def)
  have p: "p \<le> length line" using l(4) length_cstr_le [of line] by simp
  have d: "terminated (drop p line)" using l by (simp add: terminated_drop_le)
  from strtrim_cstr [OF d] obtain s' where s': "strtrim (drop p line) = Some s'" "terminated s'"
      "cstr s' = trim (cstr (drop p line))" by blast
  define l' where "l' = take p line @ s'"
  have t: "take p line = take p (cstr line)" using l(4) by (rule take_cstr)
  have nn: "NUL \<notin> set (take p (cstr line))" using NUL_notin_cstr in_set_takeD by metis
  have "cstr (xs @ s') = xs @ cstr s'" if "NUL \<notin> set xs" for xs
    using that by (induction xs) auto
  then have "cstr l' = take p (cstr line) @ cstr s'" using t nn by (simp add: l'_def)
  then have "ptr_ok (st\<lparr>f_line := Some l'\<rparr>)"
    using l s' by (simp add: ptr_ok_def l'_def)
  moreover have "arg_str (st\<lparr>f_line := Some l'\<rparr>) = trim (arg_str st)"
    using l s' p by (simp add: arg_str_def l'_def)
  moreover have "trim_ptr st = Some (st\<lparr>f_line := Some l'\<rparr>)"
    using l s' p by (simp add: trim_ptr_def at_ptr_def l'_def)
  ultimately show ?thesis by blast
qed

lemma advance_ptr_ok:
  assumes "ptr_ok st" and "terminated w" and "length (cstr w) \<le> length (arg_str st)"
  shows "\<exists>p. f_lineptr st = Some p
    \<and> advance_ptr w st = Some (st\<lparr>f_lineptr := Some (p + length (cstr w))\<rparr>)
    \<and> ptr_ok (st\<lparr>f_lineptr := Some (p + length (cstr w))\<rparr>)
    \<and> arg_str (st\<lparr>f_lineptr := Some (p + length (cstr w))\<rparr>) = drop (length (cstr w)) (arg_str st)"
proof -
  from assms(1) obtain line p where l: "f_line st = Some line" "terminated line"
      "f_lineptr st = Some p" "p \<le> length (cstr line)"
    by (auto simp: ptr_ok_def)
  from l have a: "arg_str st = drop p (cstr line)" by (simp add: arg_str_def cstr_drop)
  with assms(3) l(4) have n: "p + length (cstr w) \<le> length (cstr line)" by simp
  with l assms(2) show ?thesis
    by (simp add: advance_ptr_def strlen_cstr ptr_ok_def arg_str_def cstr_drop add.commute)
qed

lemma free_line_ok: "ptr_ok st \<Longrightarrow> free_line st = Some (st\<lparr>f_line := None\<rparr>)"
  by (auto simp: ptr_ok_def free_line_def)

lemma keyword_map_of:
  "terminated w \<Longrightarrow> list_all (\<lambda>(k, _). NUL \<notin> set k) ks \<Longrightarrow> keyword w ks = Some (map_of ks (cstr w))"
  by (induction w ks rule: keyword.induct) (auto simp: streq_cstr)

declare keyword.simps [simp del]

subsection \<open>The cases\<close>

lemma st_TIT_eq [case_eqs]:
  assumes "ptr_ok st"
  shows "st_TIT st = Some (
    (if trim (arg_str st) = [] then st\<lparr>f_status := St_S\<rparr>
     else st\<lparr>f_status := St_IN, f_kernel := False,
             f_entry := Some (entry_alloc\<lparr>me_title := Some (trim (arg_str st))\<rparr>)\<rparr>)
    \<lparr>f_line := None\<rparr>)"
proof -
  from trim_ptr_ok [OF assms] obtain l where l: "trim_ptr st = Some (st\<lparr>f_line := Some l\<rparr>)"
    "ptr_ok (st\<lparr>f_line := Some l\<rparr>)" "arg_str (st\<lparr>f_line := Some l\<rparr>) = trim (arg_str st)" by blast
  from at_ptr_ok [OF l(2)] obtain s where s: "at_ptr (st\<lparr>f_line := Some l\<rparr>) = Some s" "terminated s"
    "cstr s = trim (arg_str st)" using l(3) by auto
  show ?thesis
    by (simp add: st_TIT_def l(1) s strlen_cstr dup_cstr free_line_def)
qed


text \<open>The opening moves of the cases with an argument: trim, take the first word.\<close>

lemma trim_word:
  assumes "ptr_ok st"
  obtains l s where "trim_ptr st = Some (st\<lparr>f_line := Some l\<rparr>)"
    and "ptr_ok (st\<lparr>f_line := Some l\<rparr>)"
    and "arg_str (st\<lparr>f_line := Some l\<rparr>) = trim (arg_str st)"
    and "at_ptr (st\<lparr>f_line := Some l\<rparr>) = Some s" and "terminated s" and "cstr s = trim (arg_str st)"
    and "getnextword s = Some (first_word (trim (arg_str st)) @ [NUL])"
    and "cstr (first_word (trim (arg_str st)) @ [NUL]) = first_word (trim (arg_str st))"
proof -
  from trim_ptr_ok [OF assms] obtain l where l: "trim_ptr st = Some (st\<lparr>f_line := Some l\<rparr>)"
    "ptr_ok (st\<lparr>f_line := Some l\<rparr>)" "arg_str (st\<lparr>f_line := Some l\<rparr>) = trim (arg_str st)" by blast
  from at_ptr_ok [OF l(2)] obtain s where s: "at_ptr (st\<lparr>f_line := Some l\<rparr>) = Some s" "terminated s"
    "cstr s = trim (arg_str st)" using l(3) by auto
  show thesis
    using that [OF l s getnextword_cstr [OF s(2), unfolded s(3)]] cstr_first_word [of s] s(3) by simp
qed

lemma at_ptr_status [simp]:
  "at_ptr (st\<lparr>f_status := x\<rparr>) = at_ptr st" "at_ptr (st\<lparr>f_kernel := k\<rparr>) = at_ptr st"
  "at_ptr (st\<lparr>f_entry := e\<rparr>) = at_ptr st"
  by (simp_all add: at_ptr_def)

text \<open>Advancing past the word and trimming what follows.\<close>

lemma advance_trim:
  assumes ok: "ptr_ok st" and arg: "arg_str st = t" and w: "terminated w" "cstr w = first_word t"
    and p: "p = f_lineptr st"
  obtains l where "advance_ptr w st
        = Some (st\<lparr>f_lineptr := map_option ((+) (length (first_word t))) p\<rparr>)"
    and "ptr_ok (st\<lparr>f_lineptr := map_option ((+) (length (first_word t))) p\<rparr>)"
    and "trim_ptr (st\<lparr>f_lineptr := map_option ((+) (length (first_word t))) p\<rparr>)
      = Some (st\<lparr>f_lineptr := map_option ((+) (length (first_word t))) p, f_line := Some l\<rparr>)"
    and "ptr_ok (st\<lparr>f_lineptr := map_option ((+) (length (first_word t))) p, f_line := Some l\<rparr>)"
    and "arg_str (st\<lparr>f_lineptr := map_option ((+) (length (first_word t))) p, f_line := Some l\<rparr>)
      = trim (drop (length (first_word t)) t)"
proof -
  from advance_ptr_ok [OF ok w(1)] obtain q where q: "f_lineptr st = Some q"
    "advance_ptr w st = Some (st\<lparr>f_lineptr := Some (q + length (first_word t))\<rparr>)"
    "ptr_ok (st\<lparr>f_lineptr := Some (q + length (first_word t))\<rparr>)"
    "arg_str (st\<lparr>f_lineptr := Some (q + length (first_word t))\<rparr>) = drop (length (first_word t)) t"
    using arg w(2) first_word_le [of t] by auto
  from trim_ptr_ok [OF q(3)] q show thesis
    using that p by (auto simp: add.commute)
qed

definition set_kernel :: "string \<Rightarrow> string \<Rightarrow> menu_t \<Rightarrow> menu_t" where
  "set_kernel w a e =
     (if a = [] then e\<lparr>me_kernel := Some w\<rparr> else e\<lparr>me_kernel := Some w, me_append := Some a\<rparr>)"

lemma st_K_eq [case_eqs]:
  assumes ok: "ptr_ok st" and e: "f_entry st = Some e"
  defines "t \<equiv> trim (arg_str st)"
  shows "st_K st = Some (
    if first_word t = [] then st\<lparr>f_status := St_R, f_line := None\<rparr>
    else st\<lparr>f_status := St_IN, f_kernel := True,
            f_entry := Some (set_kernel (first_word t) (trim (drop (length (first_word t)) t)) e),
            f_lineptr := map_option ((+) (length (first_word t))) (f_lineptr st), f_line := None\<rparr>)"
proof -
  from trim_word [OF ok] obtain l s where l: "trim_ptr st = Some (st\<lparr>f_line := Some l\<rparr>)"
    "ptr_ok (st\<lparr>f_line := Some l\<rparr>)" "arg_str (st\<lparr>f_line := Some l\<rparr>) = t"
    "at_ptr (st\<lparr>f_line := Some l\<rparr>) = Some s" "terminated s" "cstr s = t"
    "getnextword s = Some (first_word t @ [NUL])" "cstr (first_word t @ [NUL]) = first_word t"
    unfolding t_def .
  show ?thesis
  proof (cases "first_word t = []")
    case True
    then show ?thesis by (simp add: st_K_def l strlen_cstr free_line_def)
  next
    case False
    let ?st1 = "st\<lparr>f_line := Some l, f_status := St_IN, f_kernel := True,
                   f_entry := Some (e\<lparr>me_kernel := Some (first_word t)\<rparr>)\<rparr>"
    have ok1: "ptr_ok ?st1" "arg_str ?st1 = t" using l by simp_all
    obtain l2 where l2: "advance_ptr (first_word t @ [NUL]) ?st1
        = Some (?st1\<lparr>f_lineptr := map_option ((+) (length (first_word t))) (f_lineptr st)\<rparr>)"
      "trim_ptr (?st1\<lparr>f_lineptr := map_option ((+) (length (first_word t))) (f_lineptr st)\<rparr>)
        = Some (?st1\<lparr>f_lineptr := map_option ((+) (length (first_word t))) (f_lineptr st), f_line := Some l2\<rparr>)"
      "ptr_ok (?st1\<lparr>f_lineptr := map_option ((+) (length (first_word t))) (f_lineptr st), f_line := Some l2\<rparr>)"
      "arg_str (?st1\<lparr>f_lineptr := map_option ((+) (length (first_word t))) (f_lineptr st), f_line := Some l2\<rparr>)
        = trim (drop (length (first_word t)) t)"
      by (rule advance_trim [OF ok1, of "first_word t @ [NUL]"]) (use l(8) in auto)
    from at_ptr_ok [OF l2(3)] l2(4) obtain s2 where s2: "at_ptr (?st1\<lparr>f_lineptr :=
        map_option ((+) (length (first_word t))) (f_lineptr st), f_line := Some l2\<rparr>) = Some s2"
      "terminated s2" "cstr s2 = trim (drop (length (first_word t)) t)" by auto
    show ?thesis
      using False e l l2 s2
      by (simp add: st_K_def strlen_cstr dup_cstr free_line_def upd_entry_def set_kernel_def)
  qed
qed


definition add_module :: "string \<Rightarrow> menu_t \<Rightarrow> menu_t" where
  "add_module w e =
     e\<lparr>me_modules := me_modules e @ [\<lparr>eo_name = w, eo_args = None, eo_partition = None\<rparr>]\<rparr>"

lemma st_M_eq [case_eqs]:
  assumes ok: "ptr_ok st" and e: "f_entry st = Some e"
  defines "t \<equiv> trim (arg_str st)"
  shows "st_M st =
    (if first_word t = [] then Some (st\<lparr>f_status := St_R, f_line := None\<rparr>)
     else if modules_cnt e < MAX_MODULES
     then Some (st\<lparr>f_status := St_IN, f_entry := Some (add_module (first_word t) e), f_line := None\<rparr>)
     else None)"
proof -
  from trim_word [OF ok] obtain l s where l: "trim_ptr st = Some (st\<lparr>f_line := Some l\<rparr>)"
    "at_ptr (st\<lparr>f_line := Some l\<rparr>) = Some s" "terminated s"
    "getnextword s = Some (first_word t @ [NUL])" "cstr (first_word t @ [NUL]) = first_word t"
    unfolding t_def .
  then show ?thesis
    using e by (simp add: st_M_def strlen_cstr dup_cstr free_line_def upd_entry_def
        EntryObject_new_def add_module_def)
qed

lemma st_word_eq [case_eqs]:
  assumes ok: "ptr_ok st" and e: "f_entry st = Some e"
  defines "t \<equiv> trim (arg_str st)"
  shows "st_word g st = Some (
    if first_word t = [] then st\<lparr>f_status := St_R, f_line := None\<rparr>
    else st\<lparr>f_status := St_IN, f_entry := Some (g (first_word t) e), f_line := None\<rparr>)"
proof -
  from trim_word [OF ok] obtain l s where l: "trim_ptr st = Some (st\<lparr>f_line := Some l\<rparr>)"
    "at_ptr (st\<lparr>f_line := Some l\<rparr>) = Some s" "terminated s"
    "getnextword s = Some (first_word t @ [NUL])" "cstr (first_word t @ [NUL]) = first_word t"
    unfolding t_def .
  then show ?thesis
    using e by (simp add: st_word_def strlen_cstr dup_cstr free_line_def upd_entry_def)
qed

definition strtol_val :: "string \<Rightarrow> u32" where
  "strtol_val s = strtol_loop (rev s) 1 0"

lemma strtol_cstr [cstr_simps]: "terminated m \<Longrightarrow> strtol m = Some (strtol_val (cstr m))"
  using take_cstr [of "length (cstr m)" m] by (simp add: strtol_def strlen_cstr strtol_val_def)

lemma first_word_trim_Nil [simp]: "first_word [] = []"
  by (simp add: first_word_def)

lemma st_option_eq [case_eqs]:
  assumes ok: "ptr_ok st" and m: "f_menu st = h # rest"
  defines "w \<equiv> first_word (trim (arg_str st))"
  shows "\<exists>l. st_option g st = Some (
    if w = [] then st\<lparr>f_status := St_S, f_line := l\<rparr>
    else st\<lparr>f_status := St_S, f_menu := g (sint (strtol_val w)) h # rest, f_line := l\<rparr>)"
proof -
  let ?st = "st\<lparr>f_status := St_S\<rparr>"
  have ok': "ptr_ok ?st" "arg_str ?st = arg_str st" using ok by simp_all
  from at_ptr_ok [OF ok] obtain s0 where s0: "at_ptr st = Some s0" "terminated s0"
    "cstr s0 = arg_str st" by blast
  from trim_word [OF ok'(1), unfolded ok'(2)] obtain l s where l: "trim_ptr ?st = Some (?st\<lparr>f_line := Some l\<rparr>)"
    "at_ptr (?st\<lparr>f_line := Some l\<rparr>) = Some s" "terminated s"
    "getnextword s = Some (w @ [NUL])" "cstr (w @ [NUL]) = w"
    unfolding w_def .
  have "(st\<lparr>f_status := St_S\<rparr>) = st\<lparr>f_status := St_S, f_line := f_line st\<rparr>" by simp
  moreover have "w = []" if "arg_str st = []" using that by (simp add: w_def)
  ultimately show ?thesis
    using s0 l m by (cases "arg_str st = []") (auto simp: st_option_def Let_def strlen_cstr strtol_cstr upd_head_def
        intro: exI [of _ "f_line st"] exI [of _ "Some l"])
qed

lemma st_A_eq [case_eqs]:
  "f_menu st \<noteq> [] \<Longrightarrow> f_entry st = Some e \<Longrightarrow>
     st_A st = Some (st\<lparr>f_menu := f_menu st @ [e], f_n := f_n st + 1, f_status := St_S\<rparr>)"
  by (simp add: st_A_def)

lemma st_R_eq [case_eqs]:
  "f_entry st = Some e \<Longrightarrow> st_R st = Some (st\<lparr>f_entry := None, f_status := St_S\<rparr>)"
  by (simp add: st_R_def entry_free_def)

lemma st_AQ_eq [case_eqs]:
  "f_menu st \<noteq> [] \<Longrightarrow> f_entry st = Some e \<Longrightarrow> st_AQ st = Some (1, f_menu st @ [e])"
  by (simp add: st_AQ_def)

lemma st_RQ_eq [case_eqs]: "f_entry st = Some e \<Longrightarrow> st_RQ st = Some (0, f_menu st)"
  by (simp add: st_RQ_def entry_free_def)

lemma fsm_O_eq [case_eqs]:
  assumes ok: "ptr_ok st" and e: "f_entry st = Some e"
  defines "t \<equiv> trim (arg_str st)"
  shows "\<exists>l p. fsm_O st = Some (
    if first_word t = [] then st\<lparr>f_status := St_R, f_line := None\<rparr>
    else st\<lparr>f_status := St_IN, f_kernel := True, f_entry := Some (e\<lparr>me_other := Some (first_word t)\<rparr>),
            f_lineptr := p, f_line := l\<rparr>)"
proof -
  from trim_word [OF ok] obtain l s where l: "trim_ptr st = Some (st\<lparr>f_line := Some l\<rparr>)"
    "ptr_ok (st\<lparr>f_line := Some l\<rparr>)" "arg_str (st\<lparr>f_line := Some l\<rparr>) = t"
    "at_ptr (st\<lparr>f_line := Some l\<rparr>) = Some s" "terminated s"
    "getnextword s = Some (first_word t @ [NUL])" "cstr (first_word t @ [NUL]) = first_word t"
    unfolding t_def .
  obtain l2 where l2: "advance_ptr (first_word t @ [NUL]) (st\<lparr>f_line := Some l\<rparr>)
      = Some (st\<lparr>f_line := Some l, f_lineptr := map_option ((+) (length (first_word t))) (f_lineptr st)\<rparr>)"
    by (rule advance_trim [OF l(2,3), of "first_word t @ [NUL]"]) (use l(7) in auto)
  have eq: "fsm_O st = Some (
    if first_word t = [] then st\<lparr>f_status := St_R, f_line := None\<rparr>
    else st\<lparr>f_line := Some l, f_lineptr := map_option ((+) (length (first_word t))) (f_lineptr st),
            f_kernel := True, f_status := St_IN, f_entry := Some (e\<lparr>me_other := Some (first_word t)\<rparr>)\<rparr>)"
    using e l l2 by (simp add: fsm_O_def strlen_cstr dup_cstr free_line_def upd_entry_def)
  show ?thesis
    unfolding eq by (intro exI [of _ "Some l"] exI [of _ "map_option ((+) (length (first_word t))) (f_lineptr st)"]) simp
qed


text \<open>\<open>root\<close>: the entry it makes, or \<open>None\<close> when the line is malformed.\<close>

definition ide_dev :: "string \<Rightarrow> string" where
  "ide_dev u = takeWhile (\<lambda>c. c \<noteq> CHR '':'') u"

definition ide_part :: "string \<Rightarrow> string" where
  "ide_part u = drop (length (ide_dev u) + 1) u"

definition parse_root :: "string \<Rightarrow> string \<Rightarrow> menu_t \<Rightarrow> menu_t option" where
  "parse_root w u e =
     (if w = ''tftp'' then Some (e\<lparr>me_device_type := TFTP_TYPE\<rparr>)
      else if w = ''cdrom'' then Some (e\<lparr>me_device_type := CD_TYPE\<rparr>)
      else if w = ''ide'' \<and> CHR '':'' \<in> set u \<and> ide_part u \<noteq> []
      then Some (e\<lparr>me_device_type := IDE_TYPE, me_device_num := sint (strtol_val (ide_dev u)),
                   me_partition := sint (strtol_val (ide_part u) - 1)\<rparr>)
      else None)"

lemma ide_split:
  assumes s: "terminated s" and colon: "CHR '':'' \<in> set (cstr s)"
  defines "u \<equiv> cstr s"
  defines "i \<equiv> length (ide_dev u)"
  shows "load s (i + 1) = Some (if ide_part u = [] then NUL else hd (ide_part u))"
    and "hd (ide_part u) \<noteq> NUL \<or> ide_part u = []"
    and "strncpy (replicate (i + 1) NUL) 0 s i = Some (ide_dev u @ [NUL])"
    and "strtol (ide_dev u @ [NUL]) = Some (strtol_val (ide_dev u))"
    and "strtol (drop (i + 1) s) = Some (strtol_val (ide_part u))"
proof -
  have i: "i < length u" using colon by (simp add: i_def ide_dev_def u_def takeWhile_stops)
  obtain r where r: "s = u @ NUL # r" using terminated_split [OF s] by (auto simp: u_def)
  have nn: "NUL \<notin> set u" by (simp add: u_def)
  show "load s (i + 1) = Some (if ide_part u = [] then NUL else hd (ide_part u))"
    using i by (auto simp: load_def r nth_append ide_part_def hd_drop_conv_nth i_def [symmetric])
  show "hd (ide_part u) \<noteq> NUL \<or> ide_part u = []"
    using nn by (metis hd_in_set ide_part_def in_set_dropD)
  have "i \<le> length s" using i by (simp add: r)
  moreover have "take i s = ide_dev u"
    using i by (simp add: r i_def ide_dev_def takeWhile_eq_take [symmetric])
  ultimately show "strncpy (replicate (i + 1) NUL) 0 s i = Some (ide_dev u @ [NUL])"
    using strncpy_fresh [of i s] by simp
  have "NUL \<notin> set (ide_dev u)" using nn by (auto simp: ide_dev_def dest: set_takeWhileD)
  then show "strtol (ide_dev u @ [NUL]) = Some (strtol_val (ide_dev u))"
    by (simp add: strtol_cstr cstr_append_NUL)
  show "strtol (drop (i + 1) s) = Some (strtol_val (ide_part u))"
    using i s by (subst strtol_cstr)
      (auto simp: terminated_drop_le cstr_drop ide_part_def i_def u_def)
qed

lemma fsm_RT_eq [case_eqs]:
  assumes ok: "ptr_ok st" and e: "f_entry st = Some e"
  defines "t \<equiv> trim (arg_str st)"
  defines "u \<equiv> trim (drop (length (first_word t)) t)"
  shows "\<exists>p. fsm_RT st = Some (
    case parse_root (first_word t) u e of
      None \<Rightarrow> st\<lparr>f_status := St_R, f_lineptr := p, f_line := None\<rparr>
    | Some e' \<Rightarrow> st\<lparr>f_status := St_IN, f_entry := Some e', f_lineptr := p, f_line := None\<rparr>)"
proof -
  from trim_word [OF ok] obtain l s where l: "trim_ptr st = Some (st\<lparr>f_line := Some l\<rparr>)"
    "ptr_ok (st\<lparr>f_line := Some l\<rparr>)" "arg_str (st\<lparr>f_line := Some l\<rparr>) = t"
    "at_ptr (st\<lparr>f_line := Some l\<rparr>) = Some s" "terminated s" "cstr s = t"
    "getnextword s = Some (first_word t @ [NUL])" "cstr (first_word t @ [NUL]) = first_word t"
    unfolding t_def .
  let ?p = "map_option ((+) (length (first_word t))) (f_lineptr st)"
  let ?st1 = "st\<lparr>f_line := Some l\<rparr>"
  obtain l2 where l2: "advance_ptr (first_word t @ [NUL]) ?st1 = Some (?st1\<lparr>f_lineptr := ?p\<rparr>)"
    "trim_ptr (?st1\<lparr>f_lineptr := ?p\<rparr>) = Some (?st1\<lparr>f_lineptr := ?p, f_line := Some l2\<rparr>)"
    "ptr_ok (?st1\<lparr>f_lineptr := ?p, f_line := Some l2\<rparr>)"
    "arg_str (?st1\<lparr>f_lineptr := ?p, f_line := Some l2\<rparr>) = u"
    unfolding u_def by (rule advance_trim [OF l(2,3), of "first_word t @ [NUL]"]) (use l(8) in auto)
  from at_ptr_ok [OF l2(3)] l2(4) obtain s2 where
    s2: "at_ptr (?st1\<lparr>f_lineptr := ?p, f_line := Some l2\<rparr>) = Some s2" "terminated s2" "cstr s2 = u"
    by auto
  let ?kws = "[(''tftp'', TFTP_TYPE), (''cdrom'', CD_TYPE), (''ide'', IDE_TYPE)]"
  have kw: "keyword (first_word t @ [NUL]) ?kws = Some (map_of ?kws (first_word t))"
    using l(8) by (subst keyword_map_of) simp_all
  note sep = ide_split [OF s2(2)]
  have chr: "strchr s2 (CHR '':'') = Some (if CHR '':'' \<in> set u then Some (length (ide_dev u)) else None)"
    using s2 by (simp add: strchr_cstr ide_dev_def)
  have "fsm_RT st = Some (
    case parse_root (first_word t) u e of
      None \<Rightarrow> st\<lparr>f_status := St_R, f_lineptr := (if first_word t = [] then f_lineptr st else ?p), f_line := None\<rparr>
    | Some e' \<Rightarrow> st\<lparr>f_status := St_IN, f_entry := Some e',
                    f_lineptr := (if first_word t = [] then f_lineptr st else ?p), f_line := None\<rparr>)"
    using e l(1,4,5,7,8) l2(1,2) s2 kw chr sep
    by (auto simp: fsm_RT_def strlen_cstr free_line_def upd_entry_def parse_root_def store_snoc)
  then show ?thesis by blast
qed


subsection \<open>Reading a line\<close>

text \<open>
  \<open>buf_ok\<close> is what the parsers need of the buffer: the file fits, and the byte that ends the last
  line's scan (a newline that ends the file, or a newline or terminator in the rest of the block)
  is inside the block.
\<close>

definition buf_ok :: "char list \<Rightarrow> nat \<Rightarrow> bool" where
  "buf_ok src n \<longleftrightarrow>
     n \<le> length src \<and> (\<exists>i < length src. n \<le> i + 1 \<and> (src ! i = NUL \<or> src ! i = chr_nl))"

definition line_text :: "char list \<Rightarrow> nat \<Rightarrow> nat \<Rightarrow> string" where
  "line_text src n off = cstr (take (line_end src n off - off) (drop off src) @ [NUL])"

definition clean :: "char \<Rightarrow> string \<Rightarrow> string" where
  "clean c s = trim (takeWhile (\<lambda>x. x \<noteq> c) s)"

lemma stop_reached:
  "i < length m \<Longrightarrow> m ! i = NUL \<or> m ! i = chr_nl \<Longrightarrow> terminated m \<or> chr_nl \<in> set (cstr m)"
  by (induction m arbitrary: i) (auto simp: nth_Cons split: nat.splits)

lemma buf_ok_stop:
  assumes "buf_ok src n" and "off < n"
  shows "terminated (drop off src) \<or> chr_nl \<in> set (cstr (drop off src))"
proof -
  from assms obtain i where i: "i < length src" "n \<le> i + 1" "src ! i = NUL \<or> src ! i = chr_nl"
    by (auto simp: buf_ok_def)
  with assms(2) show ?thesis
    by (intro stop_reached [of "i - off"]) auto
qed

lemma buf_ok_len: "buf_ok src n \<Longrightarrow> n \<le> length src"
  by (simp add: buf_ok_def)

lemma line_end_le: "buf_ok src n \<Longrightarrow> off < n \<Longrightarrow> line_end src n off \<le> length src"
  by (rule getline_line(2) [OF _ buf_ok_len buf_ok_stop])

lemma length_line_text: "length (line_text src n off) \<le> line_end src n off - off"
  using length_cstr_less [of "take (line_end src n off - off) (drop off src) @ [NUL]"]
  by (simp add: line_text_def min_def split: if_splits)

lemma clean_le: "length (clean c s) \<le> length s"
  unfolding clean_def by (meson length_takeWhile_le order_trans trim_le)

text \<open>The contract of the two comment strippers, and a line as both parsers read it.\<close>

locale comment_eater =
  fixes eat :: "char list \<Rightarrow> char list option" and c :: char
  assumes eat_cstr: "terminated m \<Longrightarrow>
    \<exists>m'. eat m = Some m' \<and> terminated m' \<and> length m' = length m
      \<and> cstr m' = takeWhile (\<lambda>x. x \<noteq> c) (cstr m)"
begin

lemma read_clean:
  assumes "buf_ok src n" and "off < n"
  obtains raw m line where
    "getline src (int n) (int off) = Some (Some raw, int (line_end src n off))"
    and "eat raw = Some m" and "strtrim m = Some line" and "terminated line"
    and "cstr line = clean c (line_text src n off)"
proof -
  let ?raw = "take (line_end src n off - off) (drop off src) @ [NUL]"
  have get: "getline src (int n) (int off) = Some (Some ?raw, int (line_end src n off))"
    by (rule getline_line(1) [OF assms(2) buf_ok_len [OF assms(1)] buf_ok_stop [OF assms]])
  from eat_cstr [of ?raw] obtain m where m: "eat ?raw = Some m" "terminated m"
    "cstr m = takeWhile (\<lambda>x. x \<noteq> c) (line_text src n off)"
    by (auto simp: line_text_def)
  from strtrim_cstr [OF m(2)] obtain line where "strtrim m = Some line" "terminated line"
    "cstr line = clean c (line_text src n off)"
    by (auto simp: m(3) clean_def)
  with get m(1) show thesis by (rule that)
qed

end

interpretation hash: comment_eater eatcomments "CHR ''#''"
  by unfold_locales (rule eatcomments_cstr)

interpretation semicolon: comment_eater kick_eatcomments "CHR '';''"
  by unfold_locales (rule kick_eatcomments_cstr)

subsection \<open>The cases that read\<close>

abbreviation fsm_S_words :: "(string \<times> states) list" where
  "fsm_S_words \<equiv> [(''title'', St_TIT), (''default'', St_DEF), (''delay'', St_DLY)]"

abbreviation fsm_IN_words :: "(string \<times> states option) list" where
  "fsm_IN_words \<equiv>
     [(''kernel'', Some St_K), (''other'', Some St_O), (''root'', Some St_RT),
      (''initrd'', Some St_RD), (''dtb'', Some St_DTB), (''module'', Some St_M), (''title'', None)]"

abbreviation kick_S_words :: "(string \<times> states) list" where
  "kick_S_words \<equiv> [(''LABEL'', St_TIT)]"

abbreviation kick_IN_words :: "(string \<times> states option) list" where
  "kick_IN_words \<equiv> [(''EXEC'', Some St_K), (''MODULE'', Some St_M), (''LABEL'', None)]"

text \<open>The state after a line has been read outside and inside an entry; \<open>t\<close> is its clean text.\<close>

definition after_S :: "(string \<times> states) list \<Rightarrow> nat \<Rightarrow> string \<Rightarrow> char list \<Rightarrow> fsm_st \<Rightarrow> fsm_st" where
  "after_S kws e t line st =
     (if t = [] then st\<lparr>f_offset := int e, f_line := None, f_status := St_S\<rparr>
      else case map_of kws (first_word t) of
        None \<Rightarrow> st\<lparr>f_offset := int e, f_line := Some line, f_status := St_S\<rparr>
      | Some s \<Rightarrow> st\<lparr>f_offset := int e, f_line := Some line,
                     f_lineptr := Some (length (first_word t)), f_status := s\<rparr>)"

definition after_IN ::
    "(string \<times> states option) list \<Rightarrow> nat \<Rightarrow> string \<Rightarrow> char list \<Rightarrow> fsm_st \<Rightarrow> fsm_st" where
  "after_IN kws e t line st =
     (if t = [] then st\<lparr>f_offset := int e, f_line := None, f_status := St_IN\<rparr>
      else case map_of kws (first_word t) of
        Some (Some s) \<Rightarrow> st\<lparr>f_offset := int e, f_line := Some line,
                            f_lineptr := Some (length (first_word t)), f_status := s\<rparr>
      | Some None \<Rightarrow> st\<lparr>f_offset := int e - (int (length t) + 1), f_line := None,
                         f_lineptr := Some (length (first_word t)),
                         f_status := (if f_kernel st then St_A else St_R)\<rparr>
      | None \<Rightarrow> st\<lparr>f_offset := int e, f_line := None,
                   f_lineptr := Some (length (first_word t)), f_status := St_R\<rparr>)"

lemma fsm_S_eq [case_eqs]:
  assumes "buf_ok src n" and "off < n" and o: "f_offset st = int off"
  defines "t \<equiv> clean (CHR ''#'') (line_text src n off)"
  shows "\<exists>line. terminated line \<and> cstr line = t
    \<and> fsm_S src (int n) st = Some (Inl (after_S fsm_S_words (line_end src n off) t line st))"
proof -
  from hash.read_clean [OF assms(1,2)] obtain raw m line where l:
    "getline src (int n) (int off) = Some (Some raw, int (line_end src n off))"
    "eatcomments raw = Some m" "strtrim m = Some line" "terminated line" "cstr line = t"
    unfolding t_def by blast
  have "keyword (first_word t @ [NUL]) fsm_S_words = Some (map_of fsm_S_words (first_word t))"
    using cstr_first_word [of line] l(5) by (subst keyword_map_of) simp_all
  with l have "fsm_S src (int n) st = Some (Inl (after_S fsm_S_words (line_end src n off) t line st))"
    using cstr_first_word [of line] o
    by (auto simp: fsm_S_def after_S_def strlen_cstr getnextword_cstr split: option.splits)
  with l show ?thesis by blast
qed

lemma kick_S_eq [case_eqs]:
  assumes "buf_ok src n" and "off < n" and o: "f_offset st = int off"
  defines "t \<equiv> clean (CHR '';'') (line_text src n off)"
  shows "\<exists>line. terminated line \<and> cstr line = t
    \<and> kick_S src (int n) st = Some (Inl (after_S kick_S_words (line_end src n off) t line st))"
proof -
  from semicolon.read_clean [OF assms(1,2)] obtain raw m line where l:
    "getline src (int n) (int off) = Some (Some raw, int (line_end src n off))"
    "kick_eatcomments raw = Some m" "strtrim m = Some line" "terminated line" "cstr line = t"
    unfolding t_def by blast
  have "keyword (first_word t @ [NUL]) kick_S_words = Some (map_of kick_S_words (first_word t))"
    using cstr_first_word [of line] l(5) by (subst keyword_map_of) simp_all
  with l have "kick_S src (int n) st = Some (Inl (after_S kick_S_words (line_end src n off) t line st))"
    using cstr_first_word [of line] o
    by (auto simp: kick_S_def after_S_def strlen_cstr getnextword_cstr split: option.splits)
  with l show ?thesis by blast
qed

lemma put_back_eq:
  assumes "terminated line" and "f_line st = Some line"
  shows "put_back st = Some (st\<lparr>f_offset := f_offset st - (int (length (cstr line)) + 1), f_line := None,
    f_status := (if f_kernel st then St_A else St_R)\<rparr>)"
  using assms by (simp add: put_back_def free_line_def strlen_cstr)

lemma fsm_IN_eq [case_eqs]:
  assumes "buf_ok src n" and "off < n" and o: "f_offset st = int off"
  defines "t \<equiv> clean (CHR ''#'') (line_text src n off)"
  shows "\<exists>line. terminated line \<and> cstr line = t
    \<and> fsm_IN src (int n) st = Some (after_IN fsm_IN_words (line_end src n off) t line st)"
proof -
  from hash.read_clean [OF assms(1,2)] obtain raw m line where l:
    "getline src (int n) (int off) = Some (Some raw, int (line_end src n off))"
    "eatcomments raw = Some m" "strtrim m = Some line" "terminated line" "cstr line = t"
    unfolding t_def by blast
  have "keyword (first_word t @ [NUL]) fsm_IN_words = Some (map_of fsm_IN_words (first_word t))"
    using cstr_first_word [of line] l(5) by (subst keyword_map_of) simp_all
  with l have "fsm_IN src (int n) st = Some (after_IN fsm_IN_words (line_end src n off) t line st)"
    using cstr_first_word [of line] o
    by (auto simp: fsm_IN_def after_IN_def strlen_cstr getnextword_cstr put_back_eq free_line_def
        Let_def split: option.splits)
  with l show ?thesis by blast
qed

lemma kick_IN_eq [case_eqs]:
  assumes "buf_ok src n" and "off < n" and o: "f_offset st = int off"
  defines "t \<equiv> clean (CHR '';'') (line_text src n off)"
  shows "\<exists>line. terminated line \<and> cstr line = t
    \<and> kick_IN src (int n) st = Some (after_IN kick_IN_words (line_end src n off) t line st)"
proof -
  from semicolon.read_clean [OF assms(1,2)] obtain raw m line where l:
    "getline src (int n) (int off) = Some (Some raw, int (line_end src n off))"
    "kick_eatcomments raw = Some m" "strtrim m = Some line" "terminated line" "cstr line = t"
    unfolding t_def by blast
  have "keyword (first_word t @ [NUL]) kick_IN_words = Some (map_of kick_IN_words (first_word t))"
    using cstr_first_word [of line] l(5) by (subst keyword_map_of) simp_all
  with l have "kick_IN src (int n) st = Some (after_IN kick_IN_words (line_end src n off) t line st)"
    using cstr_first_word [of line] o
    by (auto simp: kick_IN_def after_IN_def strlen_cstr getnextword_cstr put_back_eq free_line_def
        Let_def split: option.splits)
  with l show ?thesis by blast
qed

text \<open>At the end of the file.\<close>

lemma read_eof [case_eqs]:
  assumes "int n \<le> f_offset st"
  shows "fsm_S src (int n) st = Some (Inr (1, f_menu st))"
    and "kick_S src (int n) st = Some (Inr (f_n st, f_menu st))"
    and "fsm_IN src (int n) st
      = Some (st\<lparr>f_line := None, f_status := (if f_kernel st then St_AQ else St_RQ)\<rparr>)"
    and "kick_IN src (int n) st
      = Some (st\<lparr>f_line := None, f_status := (if f_kernel st then St_AQ else St_RQ)\<rparr>)"
  using assms by (simp_all add: fsm_S_def kick_S_def fsm_IN_def kick_IN_def getline_eof)

end
