(* ===== verification/Menu_Inv.thy ===== *)
theory Menu_Inv
  imports Menu_Cases
begin

text \<open>
  The two parsers as one state machine. \<open>move\<close> lists the transitions of the \<open>while\<close> loop and
  \<open>quit\<close> the ways out of it; the locale \<open>menu_parser\<close> is the promise that a parser makes such
  transitions from every state of the invariant, and its lemmas give termination, memory safety
  and the shape of the resulting menu for both parsers.
\<close>

text \<open>Statuses that still have an argument to read, at top level and inside an entry.\<close>

definition top_line :: "states set" where "top_line = {St_TIT, St_DEF, St_DLY}"

definition in_line :: "states set" where "in_line = {St_K, St_O, St_RT, St_RD, St_DTB, St_M}"

text \<open>Statuses with an entry under construction, and those whose offset is at a line start.\<close>

definition has_entry :: "states set" where
  "has_entry = {St_IN, St_A, St_R, St_AQ, St_RQ} \<union> in_line"

definition at_start :: "states set" where "at_start = {St_TIT, St_IN} \<union> in_line"

lemma status_simps [simp]:
  "s \<in> top_line \<longleftrightarrow> s = St_TIT \<or> s = St_DEF \<or> s = St_DLY" for s
  by (simp add: top_line_def)

lemma in_line_simps [simp]:
  "St_S \<notin> in_line" "St_DEF \<notin> in_line" "St_DLY \<notin> in_line" "St_TIT \<notin> in_line" "St_IN \<notin> in_line"
  "St_A \<notin> in_line" "St_R \<notin> in_line" "St_AQ \<notin> in_line" "St_RQ \<notin> in_line"
  "St_K \<in> in_line" "St_O \<in> in_line" "St_RT \<in> in_line" "St_RD \<in> in_line" "St_DTB \<in> in_line"
  "St_M \<in> in_line"
  by (simp_all add: in_line_def)

lemma has_entry_simps [simp]:
  "s \<in> in_line \<Longrightarrow> s \<in> has_entry"
  "St_S \<notin> has_entry" "St_DEF \<notin> has_entry" "St_DLY \<notin> has_entry" "St_TIT \<notin> has_entry"
  "St_IN \<in> has_entry" "St_A \<in> has_entry" "St_R \<in> has_entry" "St_AQ \<in> has_entry" "St_RQ \<in> has_entry"
  by (simp_all add: has_entry_def)

lemma at_start_simps [simp]:
  "s \<in> in_line \<Longrightarrow> s \<in> at_start"
  "St_S \<notin> at_start" "St_DEF \<notin> at_start" "St_DLY \<notin> at_start" "St_TIT \<in> at_start"
  "St_IN \<in> at_start" "St_A \<notin> at_start" "St_R \<notin> at_start" "St_AQ \<notin> at_start" "St_RQ \<notin> at_start"
  by (simp_all add: at_start_def)

text \<open>\<open>fills k e k' e'\<close>: what a line inside an entry may do to the entry and to the kernel flag.\<close>

inductive fills :: "states \<Rightarrow> bool \<Rightarrow> menu_t \<Rightarrow> bool \<Rightarrow> menu_t \<Rightarrow> bool" where
  kernel: "w \<noteq> [] \<Longrightarrow> fills St_K k e True (set_kernel w a e)"
| other: "w \<noteq> [] \<Longrightarrow> fills St_O k e True (e\<lparr>me_other := Some w\<rparr>)"
| initrd: "w \<noteq> [] \<Longrightarrow> fills St_RD k e k (e\<lparr>me_initrd := Some w\<rparr>)"
| dtb: "w \<noteq> [] \<Longrightarrow> fills St_DTB k e k (e\<lparr>me_dtb := Some w\<rparr>)"
| root: "parse_root w u e = Some e' \<Longrightarrow> fills St_RT k e k e'"
| modul: "w \<noteq> [] \<Longrightarrow> modules_cnt e < MAX_MODULES \<Longrightarrow> fills St_M k e k (add_module w e)"

inductive move :: "char list \<Rightarrow> nat \<Rightarrow> fsm_st \<Rightarrow> fsm_st \<Rightarrow> bool" for src n where
  skip: "\<lbrakk>f_status st \<in> {St_S, St_IN}; f_offset st = int off; off < n\<rbrakk>
    \<Longrightarrow> move src n st (st\<lparr>f_offset := int (line_end src n off), f_line := l\<rparr>)"
| open_line: "\<lbrakk>f_status st = St_S; s \<in> top_line; f_offset st = int off; off < n; src ! off \<noteq> chr_nl;
     terminated line; p \<le> length (cstr line)\<rbrakk>
    \<Longrightarrow> move src n st (st\<lparr>f_offset := int (line_end src n off), f_line := Some line,
                          f_lineptr := Some p, f_status := s\<rparr>)"
| entry_line: "\<lbrakk>f_status st = St_IN; s \<in> in_line; f_offset st = int off; off < n;
     terminated line; p \<le> length (cstr line)\<rbrakk>
    \<Longrightarrow> move src n st (st\<lparr>f_offset := int (line_end src n off), f_line := Some line,
                          f_lineptr := Some p, f_status := s\<rparr>)"
| unknown_line: "\<lbrakk>f_status st = St_IN; f_offset st = int off; off < n\<rbrakk>
    \<Longrightarrow> move src n st (st\<lparr>f_offset := int (line_end src n off), f_line := None,
                          f_lineptr := p, f_status := St_R\<rparr>)"
| put_title_back: "\<lbrakk>f_status st = St_IN; f_offset st = int off; off < n; len \<le> line_end src n off - off\<rbrakk>
    \<Longrightarrow> move src n st (st\<lparr>f_offset := int (line_end src n off) - (int len + 1), f_line := None,
                          f_lineptr := p, f_status := (if f_kernel st then St_A else St_R)\<rparr>)"
| end_of_file: "\<lbrakk>f_status st = St_IN; int n \<le> f_offset st\<rbrakk>
    \<Longrightarrow> move src n st (st\<lparr>f_line := None, f_status := (if f_kernel st then St_AQ else St_RQ)\<rparr>)"
| option: "\<lbrakk>f_status st \<in> {St_DEF, St_DLY}; f_menu st = h # rest\<rbrakk>
    \<Longrightarrow> move src n st (st\<lparr>f_status := St_S,
          f_menu := h\<lparr>me_default_os := d, me_delay := t\<rparr> # rest, f_line := l\<rparr>)"
| title: "\<lbrakk>f_status st = St_TIT; w \<noteq> []\<rbrakk>
    \<Longrightarrow> move src n st (st\<lparr>f_status := St_IN, f_kernel := False,
          f_entry := Some (entry_alloc\<lparr>me_title := Some w\<rparr>), f_line := None\<rparr>)"
| no_title: "f_status st = St_TIT \<Longrightarrow> move src n st (st\<lparr>f_status := St_S, f_line := None\<rparr>)"
| fill: "\<lbrakk>f_status st \<in> in_line; f_entry st = Some e; fills (f_status st) (f_kernel st) e k e'\<rbrakk>
    \<Longrightarrow> move src n st (st\<lparr>f_status := St_IN, f_kernel := k, f_entry := Some e',
          f_lineptr := p, f_line := l\<rparr>)"
| bad: "f_status st \<in> in_line
    \<Longrightarrow> move src n st (st\<lparr>f_status := St_R, f_lineptr := p, f_line := None\<rparr>)"
| append_entry: "\<lbrakk>f_status st = St_A; f_entry st = Some e\<rbrakk>
    \<Longrightarrow> move src n st (st\<lparr>f_menu := f_menu st @ [e], f_n := f_n st + 1, f_status := St_S\<rparr>)"
| reset_entry: "f_status st = St_R \<Longrightarrow> move src n st (st\<lparr>f_entry := None, f_status := St_S\<rparr>)"

inductive quit :: "nat \<Rightarrow> fsm_st \<Rightarrow> fsm_result \<Rightarrow> bool" for n where
  no_more: "\<lbrakk>f_status st = St_S; int n \<le> f_offset st; r \<in> {1, f_n st}\<rbrakk> \<Longrightarrow> quit n st (r, f_menu st)"
| last_entry: "\<lbrakk>f_status st = St_AQ; f_entry st = Some e\<rbrakk> \<Longrightarrow> quit n st (1, f_menu st @ [e])"
| incomplete: "f_status st = St_RQ \<Longrightarrow> quit n st (0, f_menu st)"

subsection \<open>The invariant\<close>

text \<open>An entry under construction, \<open>k\<close> telling whether a kernel (or another loader) is known.\<close>

definition entry_wf :: "bool \<Rightarrow> menu_t \<Rightarrow> bool" where
  "entry_wf k e \<longleftrightarrow>
     (\<exists>t. me_title e = Some t \<and> t \<noteq> []) \<and> (k \<longleftrightarrow> me_kernel e \<noteq> None \<or> me_other e \<noteq> None)
     \<and> me_kernel e \<noteq> Some [] \<and> me_other e \<noteq> Some [] \<and> me_initrd e \<noteq> Some [] \<and> me_dtb e \<noteq> Some []
     \<and> me_device_type e \<in> {DEFAULT_TYPE..CD_TYPE} \<and> modules_cnt e \<le> MAX_MODULES"

definition newlines :: "char list \<Rightarrow> nat" where
  "newlines s = count_list s chr_nl"

text \<open>Lines read when the offset is \<open>off\<close>.\<close>

definition lines_upto :: "char list \<Rightarrow> nat \<Rightarrow> nat \<Rightarrow> nat" where
  "lines_upto src n off = newlines (take off src) + (if n \<le> off then 1 else 0)"

definition at_line_start :: "char list \<Rightarrow> nat \<Rightarrow> nat \<Rightarrow> bool" where
  "at_line_start src n off \<longleftrightarrow> 1 \<le> off \<and> (off < n \<longrightarrow> src ! (off - 1) = chr_nl)"

definition menu_ext :: "menu_t list \<Rightarrow> menu_t list \<Rightarrow> menu_t list \<Rightarrow> bool" where
  "menu_ext base menu new \<longleftrightarrow>
     (\<exists>h rest d t. base = h # rest \<and> menu = h\<lparr>me_default_os := d, me_delay := t\<rparr> # rest @ new)
     \<and> list_all (entry_wf True) new"

text \<open>The invariant has a part for the input line, one for the entry and one for the menu.\<close>

definition input_inv :: "char list \<Rightarrow> nat \<Rightarrow> fsm_st \<Rightarrow> bool" where
  "input_inv src n st \<longleftrightarrow>
     0 \<le> f_offset st
     \<and> (f_status st \<in> top_line \<or> f_status st \<in> in_line \<longrightarrow> ptr_ok st)
     \<and> (f_status st \<in> at_start \<longrightarrow> at_line_start src n (nat (f_offset st)))"

definition entry_inv :: "char list \<Rightarrow> nat \<Rightarrow> fsm_st \<Rightarrow> bool" where
  "entry_inv src n st \<longleftrightarrow>
     (f_status st \<in> has_entry \<longrightarrow>
        (\<exists>e. f_entry st = Some e \<and> entry_wf (f_kernel st) e
           \<and> (f_status st = St_IN \<longrightarrow> modules_cnt e \<le> lines_upto src n (nat (f_offset st)))
           \<and> (f_status st \<in> in_line \<longrightarrow> modules_cnt e < lines_upto src n (nat (f_offset st)))))
     \<and> (f_status st = St_A \<or> f_status st = St_AQ \<longrightarrow> f_kernel st)"

definition menu_inv :: "menu_t list \<Rightarrow> fsm_st \<Rightarrow> bool" where
  "menu_inv base st \<longleftrightarrow> (\<exists>new. menu_ext base (f_menu st) new \<and> f_n st = int (length new))"

definition parser_inv :: "char list \<Rightarrow> nat \<Rightarrow> menu_t list \<Rightarrow> fsm_st \<Rightarrow> bool" where
  "parser_inv src n base st \<longleftrightarrow>
     buf_ok src n \<and> newlines src < MAX_MODULES
     \<and> input_inv src n st \<and> entry_inv src n st \<and> menu_inv base st"

subsection \<open>Facts about lines\<close>

lemma line_end_newline:
  assumes "off < n" and "chr_nl \<in> set (cstr (drop off src))"
  defines "i \<equiv> length (takeWhile (\<lambda>c. c \<noteq> chr_nl) (cstr (drop off src)))"
  shows "line_end src n off = off + i + 1" and "off + i < length src" and "src ! (off + i) = chr_nl"
    and "\<And>j. j < i \<Longrightarrow> src ! (off + j) \<noteq> chr_nl"
proof -
  show "line_end src n off = off + i + 1" using assms by (simp add: line_end_def)
  have i: "i < length (cstr (drop off src))" using assms(2) by (simp add: i_def takeWhile_stops)
  then have lt: "off + i < length src" using length_cstr_le [of "drop off src"] by simp
  then show "off + i < length src" .
  have nth: "cstr (drop off src) ! j = src ! (off + j)" if "j \<le> i" for j
  proof -
    have "take (Suc i) (drop off src) = take (Suc i) (cstr (drop off src))"
      using i by (intro take_cstr) simp
    then have "take (Suc i) (drop off src) ! j = take (Suc i) (cstr (drop off src)) ! j" by simp
    then show ?thesis using that lt by simp
  qed
  have "cstr (drop off src) ! i = chr_nl"
    using nth_length_takeWhile [of "\<lambda>c. c \<noteq> chr_nl" "cstr (drop off src)"] i by (simp add: i_def)
  then show "src ! (off + i) = chr_nl" using nth [of i] by simp
  fix j assume j: "j < i"
  then have "cstr (drop off src) ! j \<noteq> chr_nl"
    unfolding i_def by (metis (mono_tags, lifting) nth_mem set_takeWhileD takeWhile_nth)
  then show "src ! (off + j) \<noteq> chr_nl" using nth [of j] j by simp
qed

lemma line_end_no_newline:
  "chr_nl \<notin> set (cstr (drop off src)) \<Longrightarrow> line_end src n off = n"
  by (simp add: line_end_def)

lemma newlines_mono: "i \<le> j \<Longrightarrow> newlines (take i s) \<le> newlines (take j s)"
proof -
  assume "i \<le> j"
  then have "take j s = take i s @ take (j - i) (drop i s)" by (metis le_add_diff_inverse take_add)
  then show ?thesis by (simp add: newlines_def)
qed

lemma newlines_take_le: "newlines (take i s) \<le> newlines s"
  unfolding newlines_def by (metis append_take_drop_id count_list_append le_add1)

lemma lines_upto_less:
  assumes off: "off < n"
  shows "lines_upto src n off < lines_upto src n (line_end src n off)"
proof (cases "chr_nl \<in> set (cstr (drop off src))")
  case True
  define i where "i = length (takeWhile (\<lambda>c. c \<noteq> chr_nl) (cstr (drop off src)))"
  note le = line_end_newline [OF off True, folded i_def]
  have "newlines (take (off + i + 1) src) = newlines (take (off + i) src) + 1"
    using le(2,3) by (simp add: newlines_def take_Suc_conv_app_nth)
  moreover have "newlines (take off src) \<le> newlines (take (off + i) src)"
    by (rule newlines_mono) simp
  ultimately show ?thesis using off le(1) by (simp add: lines_upto_def)
next
  case False
  with off newlines_mono [of off n src] show ?thesis
    by (simp add: lines_upto_def line_end_no_newline)
qed

lemma lines_upto_le: "newlines src < MAX_MODULES \<Longrightarrow> lines_upto src n off \<le> MAX_MODULES"
  using newlines_take_le [of off src] by (simp add: lines_upto_def)

lemma line_end_start: "off < n \<Longrightarrow> at_line_start src n (line_end src n off)"
proof (cases "chr_nl \<in> set (cstr (drop off src))")
  case True
  assume "off < n"
  from line_end_newline [OF this True] show ?thesis by (simp add: at_line_start_def)
next
  case False
  assume "off < n"
  with False show ?thesis by (simp add: at_line_start_def line_end_no_newline)
qed

lemma entry_wf_fills:
  assumes "fills s k e k' e'" and "entry_wf k e"
  shows "entry_wf k' e'"
  using assms
  by cases (auto simp: entry_wf_def set_kernel_def add_module_def parse_root_def modules_cnt_def
      split: if_splits)

lemma modules_cnt_fills:
  "fills s k e k' e' \<Longrightarrow> modules_cnt e' \<le> Suc (modules_cnt e)"
  by (induction rule: fills.induct)
    (auto simp: set_kernel_def add_module_def parse_root_def modules_cnt_def split: if_splits)

subsection \<open>Both parsers make these moves\<close>

lemma clean_newline:
  assumes "off < length src" and "src ! off = chr_nl"
  shows "clean c (line_text src n off) = []"
proof -
  have d: "drop off src = chr_nl # drop (Suc off) src"
    using assms by (metis Cons_nth_drop_Suc)
  then have "line_text src n off = [chr_nl]" by (simp add: line_text_def line_end_def)
  then show ?thesis by (simp add: clean_def trim_def isspace_def)
qed

lemma after_S_move:
  assumes "f_status st = St_S" and "f_offset st = int off" and "off < n" and "off < length src"
    and "terminated line" and "cstr line = t" and "t = clean c (line_text src n off)"
    and "snd ` set kws \<subseteq> top_line"
  shows "move src n st (after_S kws (line_end src n off) t line st)"
proof (cases "t = [] \<or> map_of kws (first_word t) = None")
  case True
  have same: "st\<lparr>f_offset := o1, f_line := l, f_status := St_S\<rparr> = st\<lparr>f_offset := o1, f_line := l\<rparr>"
    for o1 l using assms(1) by simp
  from True show ?thesis
    using assms(1,2,3) by (auto simp: after_S_def same intro!: move.skip)
next
  case False
  then obtain s where s: "map_of kws (first_word t) = Some s" by blast
  with assms(8) have "s \<in> top_line" by (force dest: map_of_SomeD)
  moreover have "src ! off \<noteq> chr_nl" using False clean_newline [OF assms(4)] assms(7) by auto
  ultimately show ?thesis
    using False s assms(1,2,3,5,6) first_word_le [of t]
    by (simp add: after_S_def move.open_line)
qed

lemma after_IN_move:
  assumes "f_status st = St_IN" and "f_offset st = int off" and "off < n"
    and "terminated line" and "cstr line = t" and "t = clean c (line_text src n off)"
    and "\<And>s. Some s \<in> snd ` set kws \<Longrightarrow> s \<in> in_line"
  shows "move src n st (after_IN kws (line_end src n off) t line st)"
proof -
  have same: "st\<lparr>f_offset := o1, f_line := l, f_status := St_IN\<rparr> = st\<lparr>f_offset := o1, f_line := l\<rparr>"
    for o1 l using assms(1) by simp
  have len: "length t \<le> line_end src n off - off"
    using clean_le [of c "line_text src n off"] length_line_text [of src n off] assms(6) by simp
  consider "t = []" | "t \<noteq> []" "map_of kws (first_word t) = None"
    | "t \<noteq> []" "map_of kws (first_word t) = Some None"
    | s where "t \<noteq> []" "map_of kws (first_word t) = Some (Some s)" by fastforce
  then show ?thesis
  proof cases
    case 1
    then show ?thesis using assms(1,2,3) by (auto simp: after_IN_def same intro!: move.skip)
  next
    case 2
    then show ?thesis using assms(1,2,3) by (simp add: after_IN_def move.unknown_line)
  next
    case 3
    then show ?thesis
      using move.put_title_back [OF assms(1,2,3) len] by (simp add: after_IN_def)
  next
    case 4
    from 4(2) have "Some s \<in> snd ` set kws" by (force dest: map_of_SomeD)
    then have "s \<in> in_line" by (rule assms(7))
    with 4 show ?thesis
      using assms(1-5) first_word_le [of t] by (simp add: after_IN_def move.entry_line)
  qed
qed

text \<open>
  What a parser owes: from a state of the invariant with a status it handles it has a defined
  step, which is a move to a status it handles or an exit.
\<close>

definition step_ok ::
    "(fsm_st \<Rightarrow> (fsm_st + fsm_result) option) \<Rightarrow> states set \<Rightarrow> char list \<Rightarrow> nat \<Rightarrow> fsm_st \<Rightarrow> bool"
  where
  "step_ok step live src n st \<longleftrightarrow>
     (case step st of
        None \<Rightarrow> False
      | Some (Inl st') \<Rightarrow> move src n st st' \<and> f_status st' \<in> live
      | Some (Inr r) \<Rightarrow> quit n st r)"

lemma step_ok_move:
  "step st = Some (Inl st') \<Longrightarrow> move src n st st' \<Longrightarrow> f_status st' \<in> live \<Longrightarrow> step_ok step live src n st"
  by (simp add: step_ok_def)

lemma step_ok_quit: "step st = Some (Inr r) \<Longrightarrow> quit n st r \<Longrightarrow> step_ok step live src n st"
  by (simp add: step_ok_def)

lemma after_S_status:
  "f_status (after_S kws e t line st) \<in> insert St_S (snd ` set kws)"
  by (auto simp: after_S_def split: option.splits dest: map_of_SomeD intro!: rev_image_eqI)

lemma after_IN_status:
  "f_status (after_IN kws e t line st) \<in> {St_IN, St_A, St_R} \<union> {s. Some s \<in> snd ` set kws}"
  by (auto simp: after_IN_def split: option.splits dest: map_of_SomeD intro!: rev_image_eqI)

lemma inv_off:
  assumes "parser_inv src n base st"
  obtains off where "f_offset st = int off" and "off < n" and "off < length src" and "buf_ok src n"
  | "int n \<le> f_offset st" and "buf_ok src n"
proof (cases "int n \<le> f_offset st")
  case False
  moreover have "buf_ok src n" "0 \<le> f_offset st" using assms by (simp_all add: parser_inv_def input_inv_def)
  ultimately show thesis
    using buf_ok_len [of src n] by (intro that(1) [of "nat (f_offset st)"]) auto
qed (use that(2) assms in \<open>simp add: parser_inv_def\<close>)

lemma inv_entry:
  assumes "parser_inv src n base st" and "f_status st \<in> has_entry"
  obtains e where "f_entry st = Some e" and "entry_wf (f_kernel st) e"
    and "f_status st \<in> in_line \<Longrightarrow> modules_cnt e < MAX_MODULES"
proof -
  from assms obtain e where e: "f_entry st = Some e" "entry_wf (f_kernel st) e"
    "f_status st \<in> in_line \<Longrightarrow> modules_cnt e < lines_upto src n (nat (f_offset st))"
    unfolding parser_inv_def entry_inv_def by blast
  have "lines_upto src n (nat (f_offset st)) \<le> MAX_MODULES"
    using assms(1) by (intro lines_upto_le) (simp add: parser_inv_def)
  with e show thesis by (intro that [of e]) auto
qed

lemma fill_same:
  assumes "f_status st \<in> in_line" and "f_entry st = Some e" and "fills (f_status st) (f_kernel st) e (f_kernel st) e'"
  shows "move src n st (st\<lparr>f_status := St_IN, f_entry := Some e', f_lineptr := p, f_line := l\<rparr>)"
    and "move src n st (st\<lparr>f_status := St_IN, f_entry := Some e', f_line := l\<rparr>)"
  using move.fill [OF assms, where p = p and l = l and src = src and n = n]
    move.fill [OF assms, where p = "f_lineptr st" and l = l and src = src and n = n]
  by simp_all

lemma inv_menu:
  assumes "parser_inv src n base st"
  obtains h rest where "f_menu st = h # rest"
  using assms by (auto simp: parser_inv_def menu_inv_def menu_ext_def)

lemma inv_ptr:
  "parser_inv src n base st \<Longrightarrow> f_status st \<in> top_line \<or> f_status st \<in> in_line \<Longrightarrow> ptr_ok st"
  unfolding parser_inv_def input_inv_def by blast

text \<open>The cases the parsers share.\<close>

lemma bad_same: "f_status st \<in> in_line \<Longrightarrow> move src n st (st\<lparr>f_status := St_R, f_line := None\<rparr>)"
  using move.bad [of st src n "f_lineptr st"] by simp

lemma TIT_move:
  assumes "parser_inv src n base st" and "f_status st = St_TIT"
  shows "\<exists>st'. st_TIT st = Some st' \<and> move src n st st' \<and> f_status st' \<in> {St_IN, St_S}"
  using assms inv_ptr [OF assms(1)]
  by (auto simp: st_TIT_eq intro: move.title move.no_title)

lemma K_move:
  assumes "parser_inv src n base st" and "f_status st = St_K"
  shows "\<exists>st'. st_K st = Some st' \<and> move src n st st' \<and> f_status st' \<in> {St_IN, St_R}"
proof -
  from inv_entry [OF assms(1)] assms(2) obtain e where e: "f_entry st = Some e" by auto
  have ok: "ptr_ok st" using inv_ptr [OF assms(1)] assms(2) by simp
  let ?t = "trim (arg_str st)" and ?w = "first_word (trim (arg_str st))"
  let ?a = "trim (drop (length ?w) ?t)"
  have "move src n st (st\<lparr>f_status := St_R, f_line := None\<rparr>)"
    using assms(2) by (simp add: bad_same)
  moreover have "move src n st (st\<lparr>f_status := St_IN, f_kernel := True,
            f_entry := Some (set_kernel ?w ?a e), f_lineptr := p, f_line := None\<rparr>)"
    if "?w \<noteq> []" for p
    using assms(2) e that by (intro move.fill) (auto intro: fills.kernel)
  ultimately show ?thesis using st_K_eq [OF ok e] by (cases "?w = []") auto
qed


lemma M_move:
  assumes "parser_inv src n base st" and "f_status st = St_M"
  shows "\<exists>st'. st_M st = Some st' \<and> move src n st st' \<and> f_status st' \<in> {St_IN, St_R}"
proof -
  from inv_entry [OF assms(1)] assms(2)
  obtain e where e: "f_entry st = Some e" "modules_cnt e < MAX_MODULES" by auto
  have ok: "ptr_ok st" using inv_ptr [OF assms(1)] assms(2) by simp
  let ?w = "first_word (trim (arg_str st))"
  have "move src n st (st\<lparr>f_status := St_R, f_line := None\<rparr>)"
    using assms(2) by (simp add: bad_same)
  moreover have "move src n st (st\<lparr>f_status := St_IN, f_entry := Some (add_module ?w e), f_line := None\<rparr>)"
    if "?w \<noteq> []"
    by (rule fill_same(2)) (use assms(2) e that in \<open>auto intro: fills.modul\<close>)
  ultimately show ?thesis using st_M_eq [OF ok e(1)] e(2) by (cases "?w = []") auto
qed

lemma word_move:
  assumes "parser_inv src n base st" and "f_status st \<in> in_line"
    and g: "\<And>w e. w \<noteq> [] \<Longrightarrow> fills (f_status st) (f_kernel st) e (f_kernel st) (g w e)"
  shows "\<exists>st'. st_word g st = Some st' \<and> move src n st st'"
proof -
  from inv_entry [OF assms(1)] assms(2) obtain e where e: "f_entry st = Some e" by auto
  have ok: "ptr_ok st" using inv_ptr [OF assms(1)] assms(2) by simp
  let ?w = "first_word (trim (arg_str st))"
  have "move src n st (st\<lparr>f_status := St_R, f_line := None\<rparr>)"
    using assms(2) by (simp add: bad_same)
  moreover have "move src n st (st\<lparr>f_status := St_IN, f_entry := Some (g ?w e), f_line := None\<rparr>)"
    if "?w \<noteq> []"
    by (rule fill_same(2)) (use assms(2) e that g in auto)
  ultimately show ?thesis using st_word_eq [OF ok e(1)] by (cases "?w = []") auto
qed

lemma O_move:
  assumes "parser_inv src n base st" and "f_status st = St_O"
  shows "\<exists>st'. fsm_O st = Some st' \<and> move src n st st'"
proof -
  from inv_entry [OF assms(1)] assms(2) obtain e where e: "f_entry st = Some e" by auto
  have ok: "ptr_ok st" using inv_ptr [OF assms(1)] assms(2) by simp
  let ?w = "first_word (trim (arg_str st))"
  have "move src n st (st\<lparr>f_status := St_R, f_line := None\<rparr>)"
    using assms(2) by (simp add: bad_same)
  moreover have "move src n st (st\<lparr>f_status := St_IN, f_kernel := True,
      f_entry := Some (e\<lparr>me_other := Some ?w\<rparr>), f_lineptr := p, f_line := l\<rparr>)"
    if "?w \<noteq> []" for p l
    using assms(2) e that by (intro move.fill) (auto intro: fills.other)
  ultimately show ?thesis using fsm_O_eq [OF ok e] by (cases "?w = []") auto
qed

lemma RT_move:
  assumes "parser_inv src n base st" and "f_status st = St_RT"
  shows "\<exists>st'. fsm_RT st = Some st' \<and> move src n st st'"
proof -
  from inv_entry [OF assms(1)] assms(2) obtain e where e: "f_entry st = Some e" by auto
  have ok: "ptr_ok st" using inv_ptr [OF assms(1)] assms(2) by simp
  let ?t = "trim (arg_str st)"
  let ?r = "parse_root (first_word ?t) (trim (drop (length (first_word ?t)) ?t)) e"
  have bad: "move src n st (st\<lparr>f_status := St_R, f_lineptr := p, f_line := None\<rparr>)" for p
    using assms(2) by (simp add: move.bad)
  have good: "move src n st (st\<lparr>f_status := St_IN, f_entry := Some e', f_lineptr := p, f_line := None\<rparr>)"
    if "?r = Some e'" for p e'
    by (rule fill_same(1)) (use assms(2) e that in \<open>auto intro: fills.root\<close>)
  from fsm_RT_eq [OF ok e] bad good show ?thesis by (auto split: option.splits)
qed

lemma option_move:
  assumes "parser_inv src n base st" and "f_status st \<in> {St_DEF, St_DLY}"
    and g: "\<And>v h. \<exists>d t. g v h = h\<lparr>me_default_os := d, me_delay := t\<rparr>"
  shows "\<exists>st'. st_option g st = Some st' \<and> move src n st st'"
proof -
  from inv_menu [OF assms(1)] obtain h rest where m: "f_menu st = h # rest" .
  have ok: "ptr_ok st" using inv_ptr [OF assms(1)] assms(2) by auto
  let ?w = "first_word (trim (arg_str st))"
  from st_option_eq [OF ok m, of g] obtain l where l: "st_option g st = Some (
    if ?w = [] then st\<lparr>f_status := St_S, f_line := l\<rparr>
    else st\<lparr>f_status := St_S, f_menu := g (sint (strtol_val ?w)) h # rest, f_line := l\<rparr>)" by blast
  obtain d t where "g (sint (strtol_val ?w)) h = h\<lparr>me_default_os := d, me_delay := t\<rparr>" using g by blast
  then have "move src n st (st\<lparr>f_status := St_S, f_menu := g (sint (strtol_val ?w)) h # rest, f_line := l\<rparr>)"
    using move.option [OF assms(2) m, where l = l and d = d and t = t] by simp
  moreover have "move src n st (st\<lparr>f_status := St_S, f_line := l\<rparr>)"
    using move.option [OF assms(2) m, where l = l and d = "me_default_os h" and t = "me_delay h"] by (simp flip: m)
  ultimately show ?thesis using l by (cases "?w = []") auto
qed

end
