(* ===== verification/Menu_Run.thy ===== *)
theory Menu_Run
  imports Menu_Inv
begin

text \<open>
  Both parsers run to an end without a fault: every step from a state of the invariant is a
  \<open>move\<close> or an exit, every move keeps the invariant and decreases a lexicographic measure.
\<close>

subsection \<open>The steps of the two parsers\<close>

abbreviation kick_live :: "states set" where
  "kick_live \<equiv> {St_S, St_TIT, St_IN, St_K, St_M, St_A, St_R, St_AQ, St_RQ}"

lemma step_ok_Inl:
  "\<exists>st'. x = Some st' \<and> move src n st st' \<and> f_status st' \<in> live \<Longrightarrow> step st = map_option Inl x
     \<Longrightarrow> step_ok step live src n st"
  by (auto simp: step_ok_def)

lemma inv_menu_ne: "parser_inv src n base st \<Longrightarrow> f_menu st \<noteq> []"
  by (erule inv_menu) simp

lemma set_default: "\<exists>d t. h\<lparr>me_default_os := Some v\<rparr> = h\<lparr>me_default_os := d, me_delay := t\<rparr>"
  by (rule exI [of _ "Some v"], rule exI [of _ "me_delay h"]) simp

lemma set_delay: "\<exists>d t. h\<lparr>me_delay := Some v\<rparr> = h\<lparr>me_default_os := d, me_delay := t\<rparr>"
  by (rule exI [of _ "me_default_os h"], rule exI [of _ "Some v"]) simp

lemma A_move:
  assumes inv: "parser_inv src n base st" and s: "f_status st = St_A"
  shows "\<exists>st'. st_A st = Some st' \<and> move src n st st' \<and> f_status st' = St_S"
proof -
  from inv_entry [OF inv] s obtain e where "f_entry st = Some e" by auto
  with inv_menu_ne [OF inv] s show ?thesis by (simp add: st_A_eq move.append_entry)
qed

lemma R_move:
  assumes inv: "parser_inv src n base st" and s: "f_status st = St_R"
  shows "\<exists>st'. st_R st = Some st' \<and> move src n st st' \<and> f_status st' = St_S"
proof -
  from inv_entry [OF inv] s obtain e where "f_entry st = Some e" by auto
  with s show ?thesis by (simp add: st_R_eq move.reset_entry)
qed

lemma AQ_quit:
  assumes inv: "parser_inv src n base st" and s: "f_status st = St_AQ"
  shows "\<exists>r. st_AQ st = Some r \<and> quit n st r"
proof -
  from inv_entry [OF inv] s obtain e where "f_entry st = Some e" by auto
  with inv_menu_ne [OF inv] s show ?thesis by (simp add: st_AQ_eq quit.last_entry)
qed

lemma RQ_quit:
  assumes inv: "parser_inv src n base st" and s: "f_status st = St_RQ"
  shows "\<exists>r. st_RQ st = Some r \<and> quit n st r"
proof -
  from inv_entry [OF inv] s obtain e where "f_entry st = Some e" by auto
  with s show ?thesis by (simp add: st_RQ_eq quit.incomplete)
qed

lemma S_step_ok:
  assumes inv: "parser_inv src n base st" and s: "f_status st = St_S"
    and words: "snd ` set kws \<subseteq> top_line \<inter> live" "St_S \<in> live"
    and eof: "int n \<le> f_offset st \<Longrightarrow> \<exists>r. r \<in> {1, f_n st} \<and> step st = Some (Inr (r, f_menu st))"
    and line: "\<And>off. buf_ok src n \<Longrightarrow> off < n \<Longrightarrow> f_offset st = int off \<Longrightarrow>
      \<exists>line. terminated line \<and> cstr line = clean c (line_text src n off) \<and>
        step st = Some (Inl (after_S kws (line_end src n off) (clean c (line_text src n off)) line st))"
  shows "step_ok step live src n st"
  using inv
proof (cases rule: inv_off)
  case (1 off)
  from line [OF 1(4,2,1)] obtain l where l: "terminated l" "cstr l = clean c (line_text src n off)"
    "step st = Some (Inl (after_S kws (line_end src n off) (clean c (line_text src n off)) l st))"
    by blast
  have "move src n st (after_S kws (line_end src n off) (clean c (line_text src n off)) l st)"
  proof -
    have sub: "snd ` set kws \<subseteq> top_line"
      using words(1) by (simp only: Int_subset_iff)
    show ?thesis
      by (rule after_S_move [OF s 1(1-3) l(1,2) refl sub])
  qed
  moreover have "f_status (after_S kws (line_end src n off) (clean c (line_text src n off)) l st) \<in> live"
    by (rule subsetD [OF _ after_S_status]) (use words in \<open>simp only: Int_subset_iff insert_subset\<close>)
  ultimately show ?thesis using l(3) by (intro step_ok_move)
next
  case 2
  with eof obtain r where r: "r \<in> {1, f_n st}" "step st = Some (Inr (r, f_menu st))" by blast
  show ?thesis by (rule step_ok_quit [where step = step, OF r(2)]) (rule quit.no_more [OF s 2(1) r(1)])
qed

lemma IN_step_ok:
  assumes inv: "parser_inv src n base st" and s: "f_status st = St_IN"
    and words: "\<And>s. Some s \<in> snd ` set kws \<Longrightarrow> s \<in> in_line \<inter> live"
      "{St_IN, St_A, St_R, St_AQ, St_RQ} \<subseteq> live"
    and eof: "int n \<le> f_offset st \<Longrightarrow> step st
      = Some (Inl (st\<lparr>f_line := None, f_status := (if f_kernel st then St_AQ else St_RQ)\<rparr>))"
    and line: "\<And>off. buf_ok src n \<Longrightarrow> off < n \<Longrightarrow> f_offset st = int off \<Longrightarrow>
      \<exists>line. terminated line \<and> cstr line = clean c (line_text src n off) \<and>
        step st = Some (Inl (after_IN kws (line_end src n off) (clean c (line_text src n off)) line st))"
  shows "step_ok step live src n st"
  using inv
proof (cases rule: inv_off)
  case (1 off)
  from line [OF 1(4,2,1)] obtain l where l: "terminated l" "cstr l = clean c (line_text src n off)"
    "step st = Some (Inl (after_IN kws (line_end src n off) (clean c (line_text src n off)) l st))"
    by blast
  have "move src n st (after_IN kws (line_end src n off) (clean c (line_text src n off)) l st)"
    by (rule after_IN_move [OF s 1(1,2) l(1,2) refl]) (use words(1) in blast)
  moreover have "f_status (after_IN kws (line_end src n off) (clean c (line_text src n off)) l st) \<in> live"
    by (rule subsetD [OF _ after_IN_status]) (use words in blast)
  ultimately show ?thesis using l(3) by (intro step_ok_move)
next
  case 2
  with s have "move src n st (st\<lparr>f_line := None, f_status := (if f_kernel st then St_AQ else St_RQ)\<rparr>)"
    by (intro move.end_of_file)
  with eof [OF 2(1)] words(2) show ?thesis by (auto intro!: step_ok_move)
qed

lemma fsm_step_ok:
  assumes inv: "parser_inv src n base st"
  shows "step_ok (fsm_step src (int n)) UNIV src n st"
proof (cases "f_status st")
  case St_S
  then have eq: "fsm_step src (int n) st = fsm_S src (int n) st" by (simp add: fsm_step_def)
  show ?thesis
    by (rule S_step_ok [OF inv St_S, where kws = fsm_S_words and c = "CHR ''#''"])
      (use fsm_S_eq read_eof(1) in \<open>auto simp: eq\<close>)
next
  case St_IN
  then have eq: "fsm_step src (int n) st = map_option Inl (fsm_IN src (int n) st)"
    by (simp add: fsm_step_def)
  show ?thesis
  proof (rule IN_step_ok [OF inv St_IN, where kws = fsm_IN_words and c = "CHR ''#''"])
    fix off assume "buf_ok src n" "off < n" "f_offset st = int off"
    from fsm_IN_eq [OF this] show "\<exists>line. terminated line \<and>
        cstr line = clean (CHR ''#'') (line_text src n off) \<and>
        fsm_step src (int n) st = Some (Inl (after_IN fsm_IN_words (line_end src n off)
          (clean (CHR ''#'') (line_text src n off)) line st))"
      by (auto simp: eq)
  qed (auto simp: eq read_eof(3))
next
  case St_TIT
  with TIT_move [OF inv] show ?thesis by (auto simp: fsm_step_def intro!: step_ok_Inl)
next
  case St_DEF
  then show ?thesis
    using option_move [OF inv _ set_default, of "\<lambda>v h. v"]
    by (intro step_ok_Inl [where x = "fsm_DEF st"]) (auto simp: fsm_step_def fsm_DEF_def set_default)
next
  case St_DLY
  then show ?thesis
    using option_move [OF inv _ set_delay, of "\<lambda>v h. v"]
    by (intro step_ok_Inl [where x = "fsm_DLY st"]) (auto simp: fsm_step_def fsm_DLY_def set_delay)
next
  case St_K
  with K_move [OF inv] show ?thesis by (auto simp: fsm_step_def intro!: step_ok_Inl)
next
  case St_M
  with M_move [OF inv] show ?thesis by (auto simp: fsm_step_def intro!: step_ok_Inl)
next
  case St_O
  with O_move [OF inv] show ?thesis by (auto simp: fsm_step_def intro!: step_ok_Inl)
next
  case St_RT
  with RT_move [OF inv] show ?thesis by (auto simp: fsm_step_def intro!: step_ok_Inl)
next
  case St_RD
  then show ?thesis
    using word_move [OF inv, of "\<lambda>w e. e\<lparr>me_initrd := Some w\<rparr>"]
    by (intro step_ok_Inl [where x = "fsm_RD st"])
      (auto simp: fsm_step_def fsm_RD_def intro: fills.initrd)
next
  case St_DTB
  then show ?thesis
    using word_move [OF inv, of "\<lambda>w e. e\<lparr>me_dtb := Some w\<rparr>"]
    by (intro step_ok_Inl [where x = "fsm_DTB st"])
      (auto simp: fsm_step_def fsm_DTB_def intro: fills.dtb)
next
  case St_A
  with A_move [OF inv] show ?thesis by (auto simp: fsm_step_def intro!: step_ok_Inl)
next
  case St_R
  with R_move [OF inv] show ?thesis by (auto simp: fsm_step_def intro!: step_ok_Inl)
next
  case St_AQ
  with AQ_quit [OF inv] show ?thesis by (auto simp: fsm_step_def step_ok_def)
next
  case St_RQ
  with RQ_quit [OF inv] show ?thesis by (auto simp: fsm_step_def step_ok_def)
qed

lemma kick_step_ok:
  assumes inv: "parser_inv src n base st" and live: "f_status st \<in> kick_live"
  shows "step_ok (kick_step src (int n)) kick_live src n st"
proof -
  consider "f_status st = St_S" | "f_status st = St_IN" | "f_status st = St_TIT" | "f_status st = St_K"
    | "f_status st = St_M" | "f_status st = St_A" | "f_status st = St_R" | "f_status st = St_AQ"
    | "f_status st = St_RQ"
    using live by auto
  then show ?thesis
  proof cases
    case 1
    then have eq: "kick_step src (int n) st = kick_S src (int n) st" by (simp add: kick_step_def)
    show ?thesis
      by (rule S_step_ok [OF inv 1, where kws = kick_S_words and c = "CHR '';''"])
        (use kick_S_eq read_eof(2) in \<open>auto simp: eq\<close>)
  next
    case 2
    then have eq: "kick_step src (int n) st = map_option Inl (kick_IN src (int n) st)"
      by (simp add: kick_step_def)
    show ?thesis
    proof (rule IN_step_ok [OF inv 2, where kws = kick_IN_words and c = "CHR '';''"])
      fix off assume "buf_ok src n" "off < n" "f_offset st = int off"
      from kick_IN_eq [OF this] show "\<exists>line. terminated line \<and>
          cstr line = clean (CHR '';'') (line_text src n off) \<and>
          kick_step src (int n) st = Some (Inl (after_IN kick_IN_words (line_end src n off)
            (clean (CHR '';'') (line_text src n off)) line st))"
        by (auto simp: eq)
    qed (auto simp: eq read_eof(4))
  next
    case 3
    with TIT_move [OF inv] show ?thesis by (auto simp: kick_step_def intro!: step_ok_Inl)
  next
    case 4
    with K_move [OF inv] show ?thesis by (auto simp: kick_step_def intro!: step_ok_Inl)
  next
    case 5
    with M_move [OF inv] show ?thesis by (auto simp: kick_step_def intro!: step_ok_Inl)
  next
    case 6
    with A_move [OF inv] show ?thesis by (auto simp: kick_step_def intro!: step_ok_Inl)
  next
    case 7
    with R_move [OF inv] show ?thesis by (auto simp: kick_step_def intro!: step_ok_Inl)
  next
    case 8
    with AQ_quit [OF inv] show ?thesis by (auto simp: kick_step_def step_ok_def)
  next
    case 9
    with RQ_quit [OF inv] show ?thesis by (auto simp: kick_step_def step_ok_def)
  qed
qed

subsection \<open>Moves keep the invariant\<close>

lemma buf_off: "buf_ok src n \<Longrightarrow> off < n \<Longrightarrow> off < length src"
  using buf_ok_len by (meson less_le_trans)

lemma menu_ext_snoc:
  "menu_ext base menu new \<Longrightarrow> entry_wf True e \<Longrightarrow> menu_ext base (menu @ [e]) (new @ [e])"
  by (auto simp: menu_ext_def)

lemma menu_ext_option:
  assumes "menu_ext base (h # rest) new"
  shows "menu_ext base (h\<lparr>me_default_os := d, me_delay := t\<rparr> # rest) new"
proof -
  from assms obtain h0 rest0 d0 t0 where m: "list_all (entry_wf True) new" "base = h0 # rest0"
    "rest = rest0 @ new" "h = h0\<lparr>me_default_os := d0, me_delay := t0\<rparr>" by (auto simp: menu_ext_def)
  then have "h\<lparr>me_default_os := d, me_delay := t\<rparr> = h0\<lparr>me_default_os := d, me_delay := t\<rparr>" by simp
  with m(1-3) show ?thesis unfolding menu_ext_def by blast
qed

lemma entry_wf_new: "w \<noteq> [] \<Longrightarrow> entry_wf False (entry_alloc\<lparr>me_title := Some w\<rparr>)"
  by (simp add: entry_wf_def entry_alloc_def modules_cnt_def)

lemma move_input:
  assumes "move src n st st'" and "input_inv src n st"
  shows "input_inv src n st'"
  using assms
proof (induction rule: move.induct)
  case (skip st off l)
  then show ?case using line_end_start [of off n src] by (simp add: input_inv_def) auto
next
  case (open_line st s off line p)
  then show ?case using line_end_start [of off n src] by (simp add: input_inv_def ptr_ok_def)
next
  case (entry_line st s off line p)
  then show ?case using line_end_start [of off n src] by (simp add: input_inv_def ptr_ok_def)
next
  case (put_title_back st off len p)
  then show ?case
    using line_end_bounds [of off n src] by (auto simp: input_inv_def at_line_start_def)
next
  case (fill st e k e' p l)
  then show ?case by (simp add: input_inv_def)
qed (simp_all add: input_inv_def split: if_splits)

lemma move_entry:
  assumes "move src n st st'" and "entry_inv src n st"
  shows "entry_inv src n st'"
  using assms
proof (induction rule: move.induct)
  case (skip st off l)
  then show ?case using lines_upto_less [of off n src] by (auto simp: entry_inv_def)
next
  case (entry_line st s off line p)
  then have "s \<in> has_entry" "s \<noteq> St_A" "s \<noteq> St_AQ" "s \<noteq> St_IN" by auto
  with entry_line show ?case using lines_upto_less [of off n src] by (auto simp: entry_inv_def)
next
  case (title st w)
  then show ?case by (simp add: entry_inv_def entry_wf_new) (simp add: entry_alloc_def modules_cnt_def)
next
  case (fill st e k e' p l)
  then show ?case
    using entry_wf_fills [OF fill(3)] modules_cnt_fills [OF fill(3)] by (auto simp: entry_inv_def)
qed (auto simp: entry_inv_def split: if_splits)

lemma move_menu:
  assumes "move src n st st'" and "entry_inv src n st" and "menu_inv base st"
  shows "menu_inv base st'"
  using assms
proof (induction rule: move.induct)
  case (option st h rest d t l)
  then show ?case by (auto simp: menu_inv_def intro: menu_ext_option)
next
  case (append_entry st e)
  then have "entry_wf True e" by (auto simp: entry_inv_def)
  moreover from append_entry obtain new where "menu_ext base (f_menu st) new" "f_n st = int (length new)"
    by (auto simp: menu_inv_def)
  ultimately have "menu_ext base (f_menu st @ [e]) (new @ [e])" "f_n st + 1 = int (length (new @ [e]))"
    by (simp_all add: menu_ext_snoc)
  then show ?case unfolding menu_inv_def by (intro exI [of _ "new @ [e]"]) simp
qed (auto simp: menu_inv_def)

lemma move_inv: "move src n st st' \<Longrightarrow> parser_inv src n base st \<Longrightarrow> parser_inv src n base st'"
  using move_input move_entry move_menu unfolding parser_inv_def by blast

subsection \<open>Moves come to an end\<close>

text \<open>
  The offset can move back, when a title line is put back, so it is no measure by itself. Outside an
  entry what is left is counted from the end of the next line that is not empty: putting the line
  back does not reach before that.
\<close>

definition next_end :: "char list \<Rightarrow> nat \<Rightarrow> nat \<Rightarrow> nat" where
  "next_end src n off = line_end src n (if src ! off = chr_nl then off + 1 else off)"

definition text_left :: "char list \<Rightarrow> nat \<Rightarrow> fsm_st \<Rightarrow> nat" where
  "text_left src n st =
     (let off = nat (f_offset st) in
      if f_status st = St_S \<or> f_status st = St_A \<or> f_status st = St_R
      then (if off < n then length src - next_end src n off else 0)
      else if f_status st = St_AQ \<or> f_status st = St_RQ then 0
      else length src - off)"

definition rank :: "nat \<Rightarrow> fsm_st \<Rightarrow> nat" where
  "rank n st =
     (case f_status st of
        St_S \<Rightarrow> if nat (f_offset st) < n then 5 else 0
      | St_A \<Rightarrow> 6 | St_R \<Rightarrow> 6 | St_AQ \<Rightarrow> 0 | St_RQ \<Rightarrow> 0 | St_IN \<Rightarrow> 3
      | St_TIT \<Rightarrow> 4 | St_DEF \<Rightarrow> 4 | St_DLY \<Rightarrow> 4 | _ \<Rightarrow> 7)"

definition progress :: "char list \<Rightarrow> nat \<Rightarrow> (fsm_st \<times> fsm_st) set" where
  "progress src n =
     measures [text_left src n, rank n, \<lambda>st. length src - nat (f_offset st)]"

lemma wf_progress: "wf (progress src n)"
  by (simp add: progress_def)

lemma line_end_ge: "off \<le> n \<Longrightarrow> off \<le> line_end src n off"
  by (simp add: line_end_def Let_def)

lemma next_end_bound: "off < n \<Longrightarrow> off < next_end src n off"
  using line_end_bounds [of off n src] by (auto simp: next_end_def line_end_def Let_def)

lemma line_end_of_newline:
  assumes "off < length src" and "src ! off = chr_nl"
  shows "line_end src n off = off + 1"
proof -
  have "drop off src = chr_nl # drop (Suc off) src" using assms by (metis Cons_nth_drop_Suc)
  then show ?thesis by (simp add: line_end_def)
qed

lemma move_progress:
  assumes "move src n st st'" and "buf_ok src n" and "input_inv src n st"
  shows "(st', st) \<in> progress src n"
  using assms
proof (induction rule: move.induct)
  case (skip st off l)
  then have len: "off < length src" by (auto intro: buf_off)
  note b = line_end_bounds [of off n src]
  let ?e = "line_end src n off"
  have e: "text_left src n (st\<lparr>f_offset := int ?e, f_line := l\<rparr>) \<le> text_left src n st"
    if "f_status st = St_S"
  proof (cases "src ! off = chr_nl")
    case True
    then have "?e = off + 1" using len by (intro line_end_of_newline)
    moreover have "next_end src n off \<le> next_end src n (off + 1)" if "off + 1 < n"
    proof (cases "src ! (off + 1) = chr_nl")
      case True
      have "line_end src n (off + 1) = off + 2"
        using skip(4) that buf_off True by (subst line_end_of_newline) auto
      then show ?thesis
        using \<open>src ! off = chr_nl\<close> True line_end_ge [of "off + 2" n src] that
        by (simp add: next_end_def)
    qed (use \<open>src ! off = chr_nl\<close> in \<open>simp add: next_end_def\<close>)
    moreover have "nat (1 + int off) = Suc off" by simp
    ultimately show ?thesis using skip that by (simp add: text_left_def Let_def diff_le_mono2)
  next
    case False
    have "?e \<le> next_end src n ?e" if "?e < n"
      using next_end_bound [OF that, of src] by simp
    then show ?thesis
      using skip that False by (simp add: text_left_def Let_def diff_le_mono2 next_end_def)
  qed
  from skip(1) consider "f_status st = St_S" | "f_status st = St_IN" by auto
  then show ?case
  proof cases
    case 1
    with skip e [OF 1] b len show ?thesis by (simp add: progress_def rank_def) linarith
  next
    case 2
    with skip b len show ?thesis by (simp add: progress_def text_left_def Let_def diff_less_mono2)
  qed
next
  case (open_line st s off line p)
  then show ?case
    by (auto simp: progress_def text_left_def rank_def Let_def next_end_def)
next
  case (entry_line st s off line p)
  then have "s \<noteq> St_S" "s \<noteq> St_A" "s \<noteq> St_R" "s \<noteq> St_AQ" "s \<noteq> St_RQ" "off < length src"
    using buf_off by auto
  with entry_line line_end_bounds [of off n src] show ?case
    by (simp add: progress_def text_left_def Let_def diff_less_mono2)
next
  case (unknown_line st off p)
  then have "off < length src" by (auto intro: buf_off)
  with unknown_line line_end_bounds [of off n src] next_end_bound [of "line_end src n off" n src]
  show ?case by (simp add: progress_def text_left_def Let_def) linarith
next
  case (put_title_back st off len p)
  then have len: "off < length src" by (auto intro: buf_off)
  let ?o = "nat (int (line_end src n off) - (int len + 1))"
  from put_title_back have s: "1 \<le> off" "src ! (off - 1) = chr_nl"
    by (auto simp: input_inv_def at_line_start_def)
  have o: "off - 1 \<le> ?o" using put_title_back line_end_bounds [of off n src] s by linarith
  have "off < next_end src n ?o" if "?o < n"
  proof (cases "?o = off - 1")
    case True
    with s have "next_end src n ?o = line_end src n off" by (simp add: next_end_def)
    with line_end_bounds put_title_back show ?thesis by simp
  next
    case False
    with o next_end_bound [OF that, of src] show ?thesis by linarith
  qed
  with put_title_back len show ?case
    by (auto simp: progress_def text_left_def Let_def)
next
  case (end_of_file st)
  then show ?case by (auto simp: progress_def text_left_def Let_def rank_def)
next
  case (append_entry st e)
  then show ?case by (simp add: progress_def text_left_def Let_def rank_def)
next
  case (reset_entry st)
  then show ?case by (simp add: progress_def text_left_def Let_def rank_def)
next
  case (title st w)
  then show ?case by (simp add: progress_def text_left_def Let_def rank_def)
next
  case (no_title st)
  then show ?case
    using next_end_bound [of "nat (f_offset st)" n src] buf_off [of src n "nat (f_offset st)"]
    by (simp add: progress_def text_left_def Let_def rank_def) linarith
next
  case (option st h rest d t l)
  then show ?case
    using next_end_bound [of "nat (f_offset st)" n src] buf_off [of src n "nat (f_offset st)"]
    by (auto simp: progress_def text_left_def Let_def rank_def)
next
  case (fill st e k e' p l)
  then show ?case by (auto simp: progress_def text_left_def Let_def rank_def in_line_def)
next
  case (bad st p)
  then show ?case
    using next_end_bound [of "nat (f_offset st)" n src] buf_off [of src n "nat (f_offset st)"]
    by (auto simp: progress_def text_left_def Let_def rank_def in_line_def)
qed

subsection \<open>Runs\<close>

text \<open>The contract of a parser, and what follows for its loop.\<close>

locale menu_parser =
  fixes step :: "char list \<Rightarrow> nat \<Rightarrow> fsm_st \<Rightarrow> (fsm_st + fsm_result) option"
    and live :: "states set"
  assumes step: "parser_inv src n base st \<Longrightarrow> f_status st \<in> live \<Longrightarrow> step_ok (step src n) live src n st"
    and start: "St_S \<in> live"
begin

lemma run:
  assumes inv: "parser_inv src n base st" and live: "f_status st \<in> live"
  shows "\<exists>r. loop (step src n) st = Some r
    \<and> (\<exists>st'. (move src n)\<^sup>*\<^sup>* st st' \<and> parser_inv src n base st' \<and> quit n st' r)"
proof (rule loop_total_wf [where R = "progress src n" and
      I = "\<lambda>s. (move src n)\<^sup>*\<^sup>* st s \<and> parser_inv src n base s \<and> f_status s \<in> live"])
  fix s assume I: "(move src n)\<^sup>*\<^sup>* st s \<and> parser_inv src n base s \<and> f_status s \<in> live"
  then have ok: "step_ok (step src n) live src n s" using step by blast
  then show "\<exists>x. step src n s = Some x" by (auto simp: step_ok_def split: option.splits)
  show "((move src n)\<^sup>*\<^sup>* st s' \<and> parser_inv src n base s' \<and> f_status s' \<in> live) \<and> (s', s) \<in> progress src n"
    if s': "step src n s = Some (Inl s')" for s'
  proof -
    from ok s' have m: "move src n s s'" "f_status s' \<in> live" by (simp_all add: step_ok_def)
    moreover from I m(1) have "(move src n)\<^sup>*\<^sup>* st s'" by (meson rtranclp.rtrancl_into_rtrancl)
    moreover from I m(1) have "parser_inv src n base s'" using move_inv by blast
    moreover from I m(1) have "(s', s) \<in> progress src n"
      using move_progress unfolding parser_inv_def by blast
    ultimately show ?thesis by blast
  qed
  show "\<exists>st'. (move src n)\<^sup>*\<^sup>* st st' \<and> parser_inv src n base st' \<and> quit n st' r"
    if "step src n s = Some (Inr r)" for r
    using that ok I by (auto simp: step_ok_def)
qed (use inv live in \<open>simp_all add: wf_progress\<close>)

end

text \<open>What every exit gives: the base menu with its options set, and complete entries behind it.\<close>

lemma quit_menu:
  assumes "quit n st r" and "parser_inv src n base st"
  shows "\<exists>new. menu_ext base (snd r) new
    \<and> (fst r = 1 \<or> fst r = 0 \<or> fst r = int (length new))"
  using assms
proof (induction rule: quit.induct)
  case (no_more st r)
  then show ?case by (auto simp: parser_inv_def menu_inv_def)
next
  case (last_entry st e)
  then have "entry_wf True e" by (auto simp: parser_inv_def entry_inv_def)
  with last_entry show ?case by (auto simp: parser_inv_def menu_inv_def intro: menu_ext_snoc)
next
  case (incomplete st)
  then show ?case by (auto simp: parser_inv_def menu_inv_def)
qed

lemma menu_ext_self: "menu_ext (h # rest) (h # rest) []"
proof -
  have "h = h\<lparr>me_default_os := me_default_os h, me_delay := me_delay h\<rparr>" by simp
  then have "\<exists>d t. h = h\<lparr>me_default_os := d, me_delay := t\<rparr>" by blast
  then show ?thesis by (auto simp: menu_ext_def)
qed

lemma init_inv:
  "buf_ok src n \<Longrightarrow> newlines src < MAX_MODULES \<Longrightarrow> parser_inv src n (h # rest) (fsm_init (h # rest))"
  using menu_ext_self [of h rest]
  by (auto simp: parser_inv_def input_inv_def entry_inv_def menu_inv_def fsm_init_def)

interpretation menu_lst: menu_parser "\<lambda>src n. fsm_step src (int n)" UNIV
  by unfold_locales (simp_all add: fsm_step_ok)

interpretation kicklayout: menu_parser "\<lambda>src n. kick_step src (int n)" kick_live
  by unfold_locales (rule kick_step_ok, simp_all)

text \<open>The parser of \<open>menu.lst\<close> only tells whether the file ends in an unfinished entry.\<close>

lemma fsm_step_exit:
  assumes "fsm_step src n st = Some (Inr r)"
  shows "fst r = 0 \<or> fst r = 1"
  using assms
  by (cases "f_status st") (auto simp: fsm_step_def fsm_S_def st_AQ_def st_RQ_def Let_def bind_eq_Some_conv
    split: option.splits if_splits prod.splits)

lemma fsm_result:
  assumes "fsm src n menu = Some r"
  shows "fst r = 0 \<or> fst r = 1"
proof (rule loop_partial [OF assms [unfolded fsm_def], where I = "\<lambda>_. True"])
  show "fst r = 0 \<or> fst r = 1" if "fsm_step src n st = Some (Inr r)" for st r using that by (rule fsm_step_exit)
qed simp_all

end
