(* ===== verification/Menu_Spec.thy ===== *)
theory Menu_Spec
  imports Menu_Run
begin

text \<open>
  What the two configuration files mean, line by line, and the refinement: on every text file the
  parsers of \<open>Menu_Fsm\<close> compute exactly this meaning. A \<open>dialect\<close> is what distinguishes
  \<open>menu.lst\<close> from \<open>Kicklayout\<close>.
\<close>

record dialect =
  d_comment :: char
  d_top :: "(string \<times> states) list"
  d_in :: "(string \<times> states option) list"
  d_count :: bool

definition menu_lst_dialect :: dialect where
  "menu_lst_dialect =
     \<lparr>d_comment = CHR ''#'', d_top = fsm_S_words, d_in = fsm_IN_words, d_count = False\<rparr>"

definition kick_dialect :: dialect where
  "kick_dialect =
     \<lparr>d_comment = CHR '';'', d_top = kick_S_words, d_in = kick_IN_words, d_count = True\<rparr>"

subsection \<open>The meaning of a line\<close>

definition apply_option :: "states \<Rightarrow> string \<Rightarrow> menu_t list \<Rightarrow> menu_t list" where
  "apply_option s arg menu =
     (let w = first_word (trim arg)
      in if w = [] then menu
         else case menu of [] \<Rightarrow> []
           | h # rest \<Rightarrow>
               (if s = St_DEF then h\<lparr>me_default_os := Some (sint (strtol_val w))\<rparr>
                else h\<lparr>me_delay := Some (sint (strtol_val w))\<rparr>) # rest)"

text \<open>A line inside an entry, with its argument: the new entry, or \<open>None\<close> for a malformed line.\<close>

definition fill_arg :: "states \<Rightarrow> string \<Rightarrow> bool \<Rightarrow> menu_t \<Rightarrow> (bool \<times> menu_t) option" where
  "fill_arg s arg k e =
     (let t = trim arg; w = first_word t; u = trim (drop (length w) t)
      in if w = [] then None
         else case s of
           St_K \<Rightarrow> Some (True, set_kernel w u e)
         | St_O \<Rightarrow> Some (True, e\<lparr>me_other := Some w\<rparr>)
         | St_RD \<Rightarrow> Some (k, e\<lparr>me_initrd := Some w\<rparr>)
         | St_DTB \<Rightarrow> Some (k, e\<lparr>me_dtb := Some w\<rparr>)
         | St_M \<Rightarrow> Some (k, add_module w e)
         | St_RT \<Rightarrow> map_option (Pair k) (parse_root w u e)
         | _ \<Rightarrow> None)"

text \<open>The one thing that goes wrong: a module beyond the array of the entry.\<close>

definition overflows :: "states \<Rightarrow> string \<Rightarrow> menu_t \<Rightarrow> bool" where
  "overflows s arg e \<longleftrightarrow>
     s = St_M \<and> first_word (trim arg) \<noteq> [] \<and> MAX_MODULES \<le> modules_cnt e"

text \<open>
  The meaning of a list of lines outside (\<open>spec_top\<close>) and inside an entry (\<open>spec_in\<close>): the return
  value and the menu, or \<open>None\<close> when an entry overflows. A title line that ends an entry is read again, but only as many of its last
  characters as its clean text has.
\<close>

function spec_top :: "dialect \<Rightarrow> nat \<Rightarrow> menu_t list \<Rightarrow> string list \<Rightarrow> fsm_result option"
  and spec_in :: "dialect \<Rightarrow> nat \<Rightarrow> menu_t list \<Rightarrow> bool \<Rightarrow> menu_t \<Rightarrow> string list \<Rightarrow> fsm_result option"
  where
  "spec_top d cnt menu [] = Some (if d_count d then int cnt else 1, menu)"
| "spec_top d cnt menu (l # ls) =
     (let t = clean (d_comment d) l; w = first_word t; arg = drop (length w) t
      in if t = [] then spec_top d cnt menu ls
         else case map_of (d_top d) w of
           None \<Rightarrow> spec_top d cnt menu ls
         | Some s \<Rightarrow>
             if s \<noteq> St_TIT then spec_top d cnt (apply_option s arg menu) ls
             else if trim arg = [] then spec_top d cnt menu ls
             else spec_in d cnt menu False (entry_alloc\<lparr>me_title := Some (trim arg)\<rparr>) ls)"
| "spec_in d cnt menu k e [] = Some (if k then (1, menu @ [e]) else (0, menu))"
| "spec_in d cnt menu k e (l # ls) =
     (let t = clean (d_comment d) l; w = first_word t; arg = drop (length w) t
      in if t = [] then spec_in d cnt menu k e ls
         else case map_of (d_in d) w of
           None \<Rightarrow> spec_top d cnt menu ls
         | Some None \<Rightarrow>
             (let again = drop (length l - length t) l
              in if k then spec_top d (cnt + 1) (menu @ [e]) (again # ls)
                 else spec_top d cnt menu (again # ls))
         | Some (Some s) \<Rightarrow>
             (if overflows s arg e then None
              else case fill_arg s arg k e of
                None \<Rightarrow> spec_top d cnt menu ls
              | Some (k', e') \<Rightarrow> spec_in d cnt menu k' e' ls))"
  by pat_completeness auto

termination
  by (relation "measures [\<lambda>x. case x of Inl (_, _, _, ls) \<Rightarrow> length ls | Inr (_, _, _, _, _, ls) \<Rightarrow> length ls,
      \<lambda>x. case x of Inl _ \<Rightarrow> 0 | Inr _ \<Rightarrow> 1]") auto

subsection \<open>Text files\<close>

definition text_of :: "string list \<Rightarrow> string" where
  "text_of ls = concat (map (\<lambda>l. l @ [chr_nl]) ls)"

definition plain :: "string \<Rightarrow> bool" where
  "plain l \<longleftrightarrow> NUL \<notin> set l \<and> chr_nl \<notin> set l"

lemma text_of_simps [simp]: "text_of [] = []" "text_of (l # ls) = l @ chr_nl # text_of ls"
  by (simp_all add: text_of_def)

lemma plain_drop: "plain l \<Longrightarrow> plain (drop i l)"
  by (auto simp: plain_def dest: in_set_dropD)

lemma cstr_plain: "NUL \<notin> set l \<Longrightarrow> cstr (l @ m) = l @ cstr m"
  by (induction l) auto

lemma takeWhile_plain: "chr_nl \<notin> set l \<Longrightarrow> takeWhile (\<lambda>c. c \<noteq> chr_nl) (l @ chr_nl # m) = l"
  by (induction l) auto

lemma line_at:
  assumes "drop off src = l @ chr_nl # m" and "plain l"
  shows "line_end src n off = off + length l + 1" and "line_text src n off = l @ [chr_nl]"
proof -
  have "cstr (drop off src) = l @ chr_nl # cstr m"
    using assms by (simp add: cstr_plain plain_def)
  then show e: "line_end src n off = off + length l + 1"
    using assms(2) by (simp add: line_end_def plain_def takeWhile_plain)
  show "line_text src n off = l @ [chr_nl]"
    using assms by (simp add: line_text_def e plain_def cstr_plain)
qed

lemma trim_newline: "trim (l @ [chr_nl]) = trim l"
proof -
  have "isspace chr_nl" by (simp add: isspace_def)
  then show ?thesis
  proof (cases "\<forall>x \<in> set l. isspace x")
    case True
    then have "dropWhile isspace l = []" "dropWhile isspace (l @ [chr_nl]) = []"
      using \<open>isspace chr_nl\<close> by simp_all
    then show ?thesis by (simp only: trim_def)
  next
    case False
    then have "dropWhile isspace (l @ [chr_nl]) = dropWhile isspace l @ [chr_nl]"
      by (metis dropWhile_append1)
    with \<open>isspace chr_nl\<close> show ?thesis by (simp add: trim_def)
  qed
qed

lemma clean_line: "c \<noteq> chr_nl \<Longrightarrow> clean c (l @ [chr_nl]) = clean c l"
  by (cases "c \<in> set l") (auto simp: clean_def trim_newline takeWhile_append1)

subsection \<open>The refinement\<close>

locale dialect_parser =
  fixes step :: "char list \<Rightarrow> nat \<Rightarrow> fsm_st \<Rightarrow> (fsm_st + fsm_result) option" and d :: dialect
  assumes comment_char: "d_comment d \<noteq> chr_nl"
    and top_words: "snd ` set (d_top d) \<subseteq> {St_TIT, St_DEF, St_DLY}"
    and in_words: "Some s \<in> snd ` set (d_in d) \<Longrightarrow> s \<in> in_line"
    and top_eof: "f_status st = St_S \<Longrightarrow> int n \<le> f_offset st \<Longrightarrow>
      step src n st = Some (Inr (if d_count d then f_n st else 1, f_menu st))"
    and top_line: "f_status st = St_S \<Longrightarrow> buf_ok src n \<Longrightarrow> off < n \<Longrightarrow> f_offset st = int off \<Longrightarrow>
      \<exists>line. terminated line \<and> cstr line = clean (d_comment d) (line_text src n off) \<and>
        step src n st = Some (Inl (after_S (d_top d) (line_end src n off)
          (clean (d_comment d) (line_text src n off)) line st))"
    and in_eof: "f_status st = St_IN \<Longrightarrow> int n \<le> f_offset st \<Longrightarrow> step src n st
      = Some (Inl (st\<lparr>f_line := None, f_status := (if f_kernel st then St_AQ else St_RQ)\<rparr>))"
    and in_line: "f_status st = St_IN \<Longrightarrow> buf_ok src n \<Longrightarrow> off < n \<Longrightarrow> f_offset st = int off \<Longrightarrow>
      \<exists>line. terminated line \<and> cstr line = clean (d_comment d) (line_text src n off) \<and>
        step src n st = Some (Inl (after_IN (d_in d) (line_end src n off)
          (clean (d_comment d) (line_text src n off)) line st))"
    and titles: "f_status st = St_TIT \<Longrightarrow> step src n st = map_option Inl (st_TIT st)"
    and appends: "f_status st = St_A \<Longrightarrow> step src n st = map_option Inl (st_A st)"
    and resets: "f_status st = St_R \<Longrightarrow> step src n st = map_option Inl (st_R st)"
    and last_append: "f_status st = St_AQ \<Longrightarrow> step src n st = map_option Inr (st_AQ st)"
    and last_reset: "f_status st = St_RQ \<Longrightarrow> step src n st = map_option Inr (st_RQ st)"
    and options: "f_status st \<in> snd ` set (d_top d) - {St_TIT} \<Longrightarrow> ptr_ok st \<Longrightarrow> f_menu st \<noteq> [] \<Longrightarrow>
      \<exists>l. step src n st = Some (Inl (st\<lparr>f_status := St_S,
        f_menu := apply_option (f_status st) (arg_str st) (f_menu st), f_line := l\<rparr>))"
    and fills: "Some (f_status st) \<in> snd ` set (d_in d) \<Longrightarrow> ptr_ok st \<Longrightarrow> f_entry st = Some e \<Longrightarrow>
      \<not> overflows (f_status st) (arg_str st) e \<Longrightarrow>
      \<exists>p l. step src n st = Some (Inl (case fill_arg (f_status st) (arg_str st) (f_kernel st) e of
          None \<Rightarrow> st\<lparr>f_status := St_R, f_lineptr := p, f_line := l\<rparr>
        | Some (k, e') \<Rightarrow> st\<lparr>f_status := St_IN, f_kernel := k, f_entry := Some e', f_lineptr := p,
                             f_line := l\<rparr>))"
    and full: "Some (f_status st) \<in> snd ` set (d_in d) \<Longrightarrow> ptr_ok st \<Longrightarrow> f_entry st = Some e \<Longrightarrow>
      overflows (f_status st) (arg_str st) e \<Longrightarrow> step src n st = None"
begin

text \<open>A state at the start of the lines \<open>ls\<close>.\<close>

definition at_lines :: "char list \<Rightarrow> nat \<Rightarrow> string list \<Rightarrow> fsm_st \<Rightarrow> bool" where
  "at_lines src n ls st \<longleftrightarrow>
     (\<exists>off m. f_offset st = int off \<and> drop off src = text_of ls @ m
        \<and> n = off + length (text_of ls)) \<and> list_all plain ls \<and> buf_ok src n"

lemma at_linesD:
  assumes "at_lines src n ls st"
  obtains off m where "f_offset st = int off" "drop off src = text_of ls @ m"
    "n = off + length (text_of ls)" "list_all plain ls" "buf_ok src n" "off \<le> n"
  using assms by (auto simp: at_lines_def)

lemma next_line:
  assumes "at_lines src n (l # ls) st"
  obtains off where "f_offset st = int off" "off < n" "buf_ok src n"
    "clean (d_comment d) (line_text src n off) = clean (d_comment d) l"
    "\<And>st'. f_offset st' = int (line_end src n off) \<Longrightarrow> at_lines src n ls st'"
    "\<And>st'. f_offset st' = int (line_end src n off) - (int (length (clean (d_comment d) l)) + 1) \<Longrightarrow>
       at_lines src n (drop (length l - length (clean (d_comment d) l)) l # ls) st'"
proof -
  from at_linesD [OF assms] obtain off m where o: "f_offset st = int off"
    "drop off src = text_of (l # ls) @ m" "n = off + length (text_of (l # ls))"
    "list_all plain (l # ls)" "buf_ok src n" "off \<le> n" .
  let ?t = "clean (d_comment d) l"
  let ?k = "length l - length ?t"
  have t: "length ?t \<le> length l" by (rule clean_le)
  from o(2) have d: "drop off src = l @ chr_nl # text_of ls @ m" by simp
  from o(4) have p: "plain l" "list_all plain ls" by simp_all
  note le = line_at [OF d p(1), of n]
  have "drop (off + length l + 1) src = drop (length l + 1) (drop off src)"
    by (simp add: add.commute add.left_commute)
  then have d1: "drop (off + length l + 1) src = text_of ls @ m" by (simp add: d)
  have "drop (off + ?k) src = drop ?k (drop off src)" by (simp add: add.commute)
  then have d2: "drop (off + ?k) src = text_of (drop ?k l # ls) @ m" by (simp add: d)
  show thesis
  proof (rule that [of off])
    show "clean (d_comment d) (line_text src n off) = clean (d_comment d) l"
      by (simp add: le(2) clean_line [OF comment_char])
    show "at_lines src n ls st'" if "f_offset st' = int (line_end src n off)" for st'
      unfolding at_lines_def using that le(1) d1 p o(3,5)
      by (intro conjI exI [of _ "off + length l + 1"] exI [of _ m]) simp_all
    show "at_lines src n (drop ?k l # ls) st'"
      if "f_offset st' = int (line_end src n off) - (int (length ?t) + 1)" for st'
      unfolding at_lines_def using that le(1) d2 p o(3,5) t plain_drop [of l ?k]
      by (intro conjI exI [of _ "off + ?k"] exI [of _ m]) simp_all
  qed (use o in simp_all)
qed

text \<open>One line outside an entry, up to the next state that reads.\<close>

lemma title_state:
  assumes "f_status st = St_TIT" and "ptr_ok st"
  shows "loop (step src n) st = loop (step src n)
    ((if trim (arg_str st) = [] then st\<lparr>f_status := St_S\<rparr>
     else st\<lparr>f_status := St_IN, f_kernel := False,
             f_entry := Some (entry_alloc\<lparr>me_title := Some (trim (arg_str st))\<rparr>)\<rparr>)
    \<lparr>f_line := None\<rparr>)"
  using titles [OF assms(1)] st_TIT_eq [OF assms(2)] by (intro loop_continue) simp

lemma top_step:
  assumes lines: "at_lines src n (l # ls) st" and st: "f_status st = St_S" "f_menu st \<noteq> []"
  defines "t \<equiv> clean (d_comment d) l"
  defines "arg \<equiv> drop (length (first_word t)) t"
  obtains st' where "loop (step src n) st = loop (step src n) st'" and "at_lines src n ls st'"
    and "f_n st' = f_n st"
    and "t = [] \<or> map_of (d_top d) (first_word t) = None \<longrightarrow> f_status st' = St_S \<and> f_menu st' = f_menu st"
    and "\<forall>s. t \<noteq> [] \<longrightarrow> map_of (d_top d) (first_word t) = Some s \<longrightarrow> s \<noteq> St_TIT
      \<longrightarrow> f_status st' = St_S \<and> f_menu st' = apply_option s arg (f_menu st)"
    and "t \<noteq> [] \<longrightarrow> map_of (d_top d) (first_word t) = Some St_TIT
      \<longrightarrow> f_menu st' = f_menu st \<and> (if trim arg = [] then f_status st' = St_S
        else f_status st' = St_IN \<and> f_kernel st' = False
          \<and> f_entry st' = Some (entry_alloc\<lparr>me_title := Some (trim arg)\<rparr>))"
proof -
  from next_line [OF lines] obtain off where off: "f_offset st = int off" "off < n" "buf_ok src n"
    "clean (d_comment d) (line_text src n off) = t"
    "\<And>st'. f_offset st' = int (line_end src n off) \<Longrightarrow> at_lines src n ls st'"
    unfolding t_def by metis
  from top_line [OF st(1) off(3,2,1)] off(4) obtain line where line: "terminated line" "cstr line = t"
    "step src n st = Some (Inl (after_S (d_top d) (line_end src n off) t line st))" by auto
  let ?st1 = "after_S (d_top d) (line_end src n off) t line st"
  have loop1: "loop (step src n) st = loop (step src n) ?st1"
    using line(3) by (rule loop_continue)
  consider "t = [] \<or> map_of (d_top d) (first_word t) = None"
    | s where "t \<noteq> []" "map_of (d_top d) (first_word t) = Some s" "s \<noteq> St_TIT"
    | "t \<noteq> []" "map_of (d_top d) (first_word t) = Some St_TIT" by blast
  then show thesis
  proof cases
    case 1
    show thesis
      by (rule that [OF loop1 off(5)]) (use 1 in \<open>auto simp: after_S_def\<close>)
  next
    case 2
    then have st1: "?st1 = st\<lparr>f_offset := int (line_end src n off), f_line := Some line,
        f_lineptr := Some (length (first_word t)), f_status := s\<rparr>"
      by (simp add: after_S_def)
    have ok: "ptr_ok ?st1" "arg_str ?st1 = arg"
      using line first_word_le [of t] by (simp_all add: st1 ptr_ok_def arg_str_def arg_def cstr_drop)
    from 2 have s: "s \<in> snd ` set (d_top d) - {St_TIT}" by (force dest: map_of_SomeD)
    obtain l' where l': "step src n ?st1 = Some (Inl (?st1\<lparr>f_status := St_S,
        f_menu := apply_option s arg (f_menu st), f_line := l'\<rparr>))"
      using options [of ?st1 src n] ok s st(2) by (auto simp: st1)
    show thesis
      by (rule that [OF trans [OF loop1 loop_continue [where body = "step src n", OF l']] off(5)]) (use 2 in \<open>auto simp: st1\<close>)
  next
    case 3
    then have st1: "?st1 = st\<lparr>f_offset := int (line_end src n off), f_line := Some line,
        f_lineptr := Some (length (first_word t)), f_status := St_TIT\<rparr>"
      by (simp add: after_S_def)
    have ok: "ptr_ok ?st1" "arg_str ?st1 = arg"
      using line first_word_le [of t] by (simp_all add: st1 ptr_ok_def arg_str_def arg_def cstr_drop)
    have "f_status ?st1 = St_TIT" by (simp add: st1)
    note loop2 = trans [OF loop1 title_state [OF this ok(1), unfolded ok(2)]]
    show thesis
      by (rule that [OF loop2 off(5)]) (use 3 in \<open>auto simp: st1\<close>)
  qed
qed

text \<open>One line inside an entry.\<close>

lemma in_step:
  assumes lines: "at_lines src n (l # ls) st" and st: "f_status st = St_IN" "f_menu st \<noteq> []"
    "f_entry st = Some e"
  defines "t \<equiv> clean (d_comment d) l"
  defines "arg \<equiv> drop (length (first_word t)) t"
  obtains (overflow) s where "t \<noteq> []" and "map_of (d_in d) (first_word t) = Some (Some s)"
    and "overflows s arg e" and "loop (step src n) st = None"
  | (go_on) st' where "loop (step src n) st = loop (step src n) st'"
    and "\<forall>s. t \<noteq> [] \<longrightarrow> map_of (d_in d) (first_word t) = Some (Some s) \<longrightarrow> \<not> overflows s arg e"
    and "map_of (d_in d) (first_word t) \<noteq> Some None \<longrightarrow> f_n st' = f_n st \<and> f_menu st' = f_menu st
      \<and> at_lines src n ls st'"
    and "t = [] \<longrightarrow> f_status st' = St_IN \<and> f_entry st' = Some e \<and> f_kernel st' = f_kernel st
      \<and> f_n st' = f_n st \<and> f_menu st' = f_menu st \<and> at_lines src n ls st'"
    and "t \<noteq> [] \<longrightarrow> map_of (d_in d) (first_word t) = None \<longrightarrow> f_status st' = St_S"
    and "t \<noteq> [] \<longrightarrow> map_of (d_in d) (first_word t) = Some None \<longrightarrow>
      f_status st' = St_S \<and> at_lines src n (drop (length l - length t) l # ls) st'
      \<and> (if f_kernel st then f_menu st' = f_menu st @ [e] \<and> f_n st' = f_n st + 1
         else f_menu st' = f_menu st \<and> f_n st' = f_n st)"
    and "\<forall>s. t \<noteq> [] \<longrightarrow> map_of (d_in d) (first_word t) = Some (Some s) \<longrightarrow>
      (case fill_arg s arg (f_kernel st) e of
         None \<Rightarrow> f_status st' = St_S
       | Some (k, e') \<Rightarrow> f_status st' = St_IN \<and> f_kernel st' = k \<and> f_entry st' = Some e')"
proof -
  from next_line [OF lines] obtain off where off: "f_offset st = int off" "off < n" "buf_ok src n"
    "clean (d_comment d) (line_text src n off) = t"
    "\<And>st'. f_offset st' = int (line_end src n off) \<Longrightarrow> at_lines src n ls st'"
    "\<And>st'. f_offset st' = int (line_end src n off) - (int (length t) + 1) \<Longrightarrow>
       at_lines src n (drop (length l - length t) l # ls) st'"
    unfolding t_def by metis
  from in_line [OF st(1) off(3,2,1)] off(4) obtain line where line: "terminated line" "cstr line = t"
    "step src n st = Some (Inl (after_IN (d_in d) (line_end src n off) t line st))" by auto
  let ?st1 = "after_IN (d_in d) (line_end src n off) t line st"
  have loop1: "loop (step src n) st = loop (step src n) ?st1"
    using line(3) by (rule loop_continue)
  have reset: "loop (step src n) s = loop (step src n) (s\<lparr>f_entry := None, f_status := St_S\<rparr>)"
    if "f_status s = St_R" "f_entry s = Some e" for s
    using resets [OF that(1)] st_R_eq [OF that(2)] by (intro loop_continue) simp
  consider (empty) "t = []"
    | (unknown) "t \<noteq> []" "map_of (d_in d) (first_word t) = None"
    | (title) "t \<noteq> []" "map_of (d_in d) (first_word t) = Some None"
    | (word) s where "t \<noteq> []" "map_of (d_in d) (first_word t) = Some (Some s)" by fastforce
  then show thesis
  proof cases
    case empty
    show thesis
      by (rule go_on [OF loop1]) (use empty st off(5) in \<open>auto simp: after_IN_def\<close>)
  next
    case unknown
    then have st1: "?st1 = st\<lparr>f_offset := int (line_end src n off), f_line := None,
        f_lineptr := Some (length (first_word t)), f_status := St_R\<rparr>"
      by (simp add: after_IN_def)
    note loop2 = trans [OF loop1 reset [of ?st1]]
    show thesis
      by (rule go_on [OF loop2]) (use unknown st off(5) in \<open>auto simp: st1\<close>)
  next
    case title
    then have st1: "?st1 = st\<lparr>f_offset := int (line_end src n off) - (int (length t) + 1), f_line := None,
        f_lineptr := Some (length (first_word t)), f_status := (if f_kernel st then St_A else St_R)\<rparr>"
      by (simp add: after_IN_def)
    show thesis
    proof (cases "f_kernel st")
      case True
      have "loop (step src n) ?st1 = loop (step src n)
          (?st1\<lparr>f_menu := f_menu ?st1 @ [e], f_n := f_n ?st1 + 1, f_status := St_S\<rparr>)"
        using appends [of ?st1 src n] st_A_eq [of ?st1 e] True st
        by (intro loop_continue) (simp add: st1)
      note loop2 = trans [OF loop1 this]
      show thesis
        by (rule go_on [OF loop2]) (use title st True off(6) in \<open>auto simp: st1\<close>)
    next
      case False
      then have "f_status ?st1 = St_R" "f_entry ?st1 = Some e" using st by (simp_all add: st1)
      note loop2 = trans [OF loop1 reset [OF this]]
      show thesis
        by (rule go_on [OF loop2]) (use title st False off(6) in \<open>auto simp: st1\<close>)
    qed
  next
    case (word s)
    then have st1: "?st1 = st\<lparr>f_offset := int (line_end src n off), f_line := Some line,
        f_lineptr := Some (length (first_word t)), f_status := s\<rparr>"
      by (simp add: after_IN_def)
    have ok: "ptr_ok ?st1" "arg_str ?st1 = arg"
      using line first_word_le [of t]
      by (simp_all add: st1 ptr_ok_def arg_str_def arg_def cstr_drop)
    have s: "Some s \<in> snd ` set (d_in d)" using word by (force dest: map_of_SomeD)
    show thesis
    proof (cases "overflows s arg e")
      case True
      then have "step src n ?st1 = None" using full [of ?st1 e src n] ok s st(3) by (simp add: st1)
      then have "loop (step src n) st = None" using loop1 by (simp add: loop_fault)
      with word True show thesis by (intro overflow)
    next
      case False
      obtain p l' where l': "step src n ?st1 = Some (Inl (case fill_arg s arg (f_kernel st) e of
            None \<Rightarrow> ?st1\<lparr>f_status := St_R, f_lineptr := p, f_line := l'\<rparr>
          | Some (k, e') \<Rightarrow> ?st1\<lparr>f_status := St_IN, f_kernel := k, f_entry := Some e', f_lineptr := p,
                               f_line := l'\<rparr>))"
        using fills [of ?st1 e src n] ok s st(3) False by (auto simp: st1)
      note loop2 = trans [OF loop1 loop_continue [where body = "step src n", OF l']]
      show thesis
      proof (cases "fill_arg s arg (f_kernel st) e")
        case None
        note loop3 = trans [OF loop2 [unfolded None option.case] reset]
        show thesis
          by (rule go_on [OF loop3]) (use word None False st off(5) in \<open>auto simp: st1\<close>)
      next
        case (Some ke)
        show thesis
          by (rule go_on [OF loop2]) (use word Some False st off(5) in \<open>auto simp: st1 split: prod.splits\<close>)
      qed
    qed
  qed
qed

text \<open>The parser computes the meaning of the remaining lines.\<close>

lemma apply_option_ne: "menu \<noteq> [] \<Longrightarrow> apply_option s arg menu \<noteq> []"
  by (cases menu) (auto simp: apply_option_def Let_def)

lemma run_spec:
  "d' = d \<Longrightarrow> at_lines src n ls st \<Longrightarrow> f_status st = St_S \<Longrightarrow> f_menu st = menu \<Longrightarrow> menu \<noteq> [] \<Longrightarrow>
     f_n st = int cnt \<Longrightarrow> loop (step src n) st = spec_top d' cnt menu ls"
  "d' = d \<Longrightarrow> at_lines src n ls st \<Longrightarrow> f_status st = St_IN \<Longrightarrow> f_menu st = menu \<Longrightarrow> menu \<noteq> [] \<Longrightarrow>
     f_n st = int cnt \<Longrightarrow> f_kernel st = k \<Longrightarrow> f_entry st = Some e \<Longrightarrow>
     loop (step src n) st = spec_in d' cnt menu k e ls"
proof (induction d' cnt menu ls and d' cnt menu k e ls arbitrary: st and st
    rule: spec_top_spec_in.induct)
  case (1 d' cnt menu)
  from 1 have "int n \<le> f_offset st" by (auto elim!: at_linesD)
  with 1 top_eof [of st n src] show ?case by (simp add: loop_exit)
next
  case (2 d' cnt menu l ls)
  let ?t = "clean (d_comment d) l"
  let ?w = "first_word ?t"
  let ?arg = "drop (length ?w) ?t"
  from "2.prems"(4,5) have ne: "f_menu st \<noteq> []" by simp
  from top_step [OF "2.prems"(2,3) ne] obtain st' where st': "loop (step src n) st = loop (step src n) st'"
    "at_lines src n ls st'" "f_n st' = f_n st"
    "?t = [] \<or> map_of (d_top d) ?w = None \<longrightarrow> f_status st' = St_S \<and> f_menu st' = f_menu st"
    "\<forall>s. ?t \<noteq> [] \<longrightarrow> map_of (d_top d) ?w = Some s \<longrightarrow> s \<noteq> St_TIT
      \<longrightarrow> f_status st' = St_S \<and> f_menu st' = apply_option s ?arg (f_menu st)"
    "?t \<noteq> [] \<longrightarrow> map_of (d_top d) ?w = Some St_TIT
      \<longrightarrow> f_menu st' = f_menu st \<and> (if trim ?arg = [] then f_status st' = St_S
        else f_status st' = St_IN \<and> f_kernel st' = False
          \<and> f_entry st' = Some (entry_alloc\<lparr>me_title := Some (trim ?arg)\<rparr>))" .
  have d: "d' = d" "f_n st' = int cnt" using "2.prems"(1,6) st'(3) by simp_all
  note IH = "2.IH" [OF refl refl refl, unfolded d(1)]
  consider (skip) "?t = [] \<or> map_of (d_top d) ?w = None"
    | (option) s where "?t \<noteq> []" "map_of (d_top d) ?w = Some s" "s \<noteq> St_TIT"
    | (no_title) "?t \<noteq> []" "map_of (d_top d) ?w = Some St_TIT" "trim ?arg = []"
    | (title) "?t \<noteq> []" "map_of (d_top d) ?w = Some St_TIT" "trim ?arg \<noteq> []" by blast
  then show ?case
  proof cases
    case skip
    then have "loop (step src n) st' = spec_top d cnt menu ls"
      using IH(1,2) [of st'] st' d "2.prems"(4,5) by auto
    with skip st'(1) d show ?thesis by (auto simp: Let_def)
  next
    case option
    then have "loop (step src n) st' = spec_top d cnt (apply_option s ?arg menu) ls"
      using IH(3) [OF _ _ _ refl] st' d "2.prems"(4,5) apply_option_ne by auto
    with option st'(1) d show ?thesis by (auto simp: Let_def)
  next
    case no_title
    then have "loop (step src n) st' = spec_top d cnt menu ls"
      using IH(4) st' d "2.prems"(4,5) by auto
    with no_title st'(1) d show ?thesis by (auto simp: Let_def)
  next
    case title
    then have "loop (step src n) st'
        = spec_in d cnt menu False (entry_alloc\<lparr>me_title := Some (trim ?arg)\<rparr>) ls"
      using IH(5) st' d "2.prems"(4,5) by (auto simp: entry_alloc_def modules_cnt_def)
    with title st'(1) d show ?thesis by (auto simp: Let_def)
  qed
next
  case (3 d' cnt menu k e)
  then have eof: "int n \<le> f_offset st" by (auto elim!: at_linesD)
  let ?st1 = "st\<lparr>f_line := None, f_status := (if f_kernel st then St_AQ else St_RQ)\<rparr>"
  have l1: "loop (step src n) st = loop (step src n) ?st1"
    using 3 in_eof [OF _ eof] by (intro loop_continue) simp
  have "loop (step src n) ?st1 = Some (if k then (1, menu @ [e]) else (0, menu))"
    using 3 last_append [of ?st1 src n] last_reset [of ?st1 src n] st_AQ_eq [of ?st1 e] st_RQ_eq [of ?st1 e]
    by (intro loop_exit) auto
  with l1 show ?case by simp
next
  case (4 d' cnt menu k e l ls)
  let ?t = "clean (d_comment d) l"
  let ?w = "first_word ?t"
  let ?arg = "drop (length ?w) ?t"
  let ?again = "drop (length l - length ?t) l"
  from "4.prems"(4,5) have ne: "f_menu st \<noteq> []" by simp
  consider (overflow) s where "?t \<noteq> []" "map_of (d_in d) ?w = Some (Some s)" "overflows s ?arg e"
      "loop (step src n) st = None"
  | (go_on) st' where "loop (step src n) st = loop (step src n) st'"
    "\<forall>s. ?t \<noteq> [] \<longrightarrow> map_of (d_in d) ?w = Some (Some s) \<longrightarrow> \<not> overflows s ?arg e"
    "map_of (d_in d) ?w \<noteq> Some None \<longrightarrow> f_n st' = f_n st \<and> f_menu st' = f_menu st
      \<and> at_lines src n ls st'"
    "?t = [] \<longrightarrow> f_status st' = St_IN \<and> f_entry st' = Some e \<and> f_kernel st' = f_kernel st
      \<and> f_n st' = f_n st \<and> f_menu st' = f_menu st \<and> at_lines src n ls st'"
    "?t \<noteq> [] \<longrightarrow> map_of (d_in d) ?w = None \<longrightarrow> f_status st' = St_S"
    "?t \<noteq> [] \<longrightarrow> map_of (d_in d) ?w = Some None \<longrightarrow>
      f_status st' = St_S \<and> at_lines src n (?again # ls) st'
      \<and> (if f_kernel st then f_menu st' = f_menu st @ [e] \<and> f_n st' = f_n st + 1
         else f_menu st' = f_menu st \<and> f_n st' = f_n st)"
    "\<forall>s. ?t \<noteq> [] \<longrightarrow> map_of (d_in d) ?w = Some (Some s) \<longrightarrow>
      (case fill_arg s ?arg (f_kernel st) e of
         None \<Rightarrow> f_status st' = St_S
       | Some (k, e') \<Rightarrow> f_status st' = St_IN \<and> f_kernel st' = k \<and> f_entry st' = Some e')"
    using in_step [OF "4.prems"(2,3) ne "4.prems"(8)] by blast
  then show ?case
  proof cases
    case overflow
    then show ?thesis using "4.prems"(1) by (simp add: Let_def)
  next
    case st': (go_on st')
    have d: "d' = d" by (rule "4.prems"(1))
    note st = "4.prems"(4-7)
    note IH = "4.IH" [OF refl refl refl, unfolded d]
    consider (empty) "?t = []" | (unknown) "?t \<noteq> []" "map_of (d_in d) ?w = None"
      | (title) "?t \<noteq> []" "map_of (d_in d) ?w = Some None"
      | (bad) s where "?t \<noteq> []" "map_of (d_in d) ?w = Some (Some s)" "fill_arg s ?arg k e = None"
      | (word) s k' e' where "?t \<noteq> []" "map_of (d_in d) ?w = Some (Some s)" "fill_arg s ?arg k e = Some (k', e')"
      by fastforce
    then show ?thesis
    proof cases
      case empty
      then have "loop (step src n) st' = spec_in d cnt menu k e ls"
        using IH(1) st' st by auto
      with empty st'(1) d show ?thesis by (simp add: Let_def)
    next
      case unknown
      then have "loop (step src n) st' = spec_top d cnt menu ls"
        using IH(2) st' st by auto
      with unknown st'(1) d show ?thesis by (simp add: Let_def)
    next
      case title
      show ?thesis
      proof (cases k)
        case True
        then have "loop (step src n) st' = spec_top d (cnt + 1) (menu @ [e]) (?again # ls)"
          using IH(3) [OF title refl refl] title st' st by simp
        with title True st'(1) d show ?thesis by (simp add: Let_def)
      next
        case False
        then have "loop (step src n) st' = spec_top d cnt menu (?again # ls)"
          using IH(4) [OF title refl refl] title st' st by simp
        with title False st'(1) d show ?thesis by (simp add: Let_def)
      qed
    next
      case bad
      then have ok: "\<not> overflows s ?arg e" using st'(2) by blast
      with bad have "loop (step src n) st' = spec_top d cnt menu ls"
        using IH(5) st' st by auto
      with bad ok st'(1) d show ?thesis by (simp add: Let_def)
    next
      case word
      then have ok: "\<not> overflows s ?arg e" using st'(2) by blast
      with word have "loop (step src n) st' = spec_in d cnt menu k' e' ls"
        using IH(6) [OF word(1,2) refl ok word(3) refl] word st' st by auto
      with word ok st'(1) d show ?thesis by (simp add: Let_def)
    qed
  qed
qed

end

subsection \<open>Both parsers\<close>

lemma apply_option_sel:
  "h # rest = f_menu st \<Longrightarrow> w = first_word (trim arg) \<Longrightarrow>
     apply_option St_DEF arg (f_menu st)
       = (if w = [] then f_menu st else h\<lparr>me_default_os := Some (sint (strtol_val w))\<rparr> # rest)"
  "h # rest = f_menu st \<Longrightarrow> w = first_word (trim arg) \<Longrightarrow>
     apply_option St_DLY arg (f_menu st)
       = (if w = [] then f_menu st else h\<lparr>me_delay := Some (sint (strtol_val w))\<rparr> # rest)"
  by (auto simp: apply_option_def Let_def split: list.splits)

lemma option_step:
  assumes "ptr_ok st" and "f_menu st \<noteq> []"
  shows "\<exists>l. fsm_DEF st = Some (st\<lparr>f_status := St_S,
      f_menu := apply_option St_DEF (arg_str st) (f_menu st), f_line := l\<rparr>)"
    and "\<exists>l. fsm_DLY st = Some (st\<lparr>f_status := St_S,
      f_menu := apply_option St_DLY (arg_str st) (f_menu st), f_line := l\<rparr>)"
proof -
  from assms(2) obtain h rest where m: "f_menu st = h # rest" by (cases "f_menu st") auto
  note sel = apply_option_sel [OF m [symmetric] refl]
  have same: "st\<lparr>f_status := St_S, f_line := l\<rparr>
      = st\<lparr>f_status := St_S, f_menu := f_menu st, f_line := l\<rparr>" for l by simp
  show "\<exists>l. fsm_DEF st = Some (st\<lparr>f_status := St_S,
      f_menu := apply_option St_DEF (arg_str st) (f_menu st), f_line := l\<rparr>)"
    using st_option_eq [OF assms(1) m, of "\<lambda>v m. m\<lparr>me_default_os := Some v\<rparr>"]
    by (cases "first_word (trim (arg_str st)) = []") (auto simp: fsm_DEF_def sel)
  show "\<exists>l. fsm_DLY st = Some (st\<lparr>f_status := St_S,
      f_menu := apply_option St_DLY (arg_str st) (f_menu st), f_line := l\<rparr>)"
    using st_option_eq [OF assms(1) m, of "\<lambda>v m. m\<lparr>me_delay := Some v\<rparr>"]
    by (cases "first_word (trim (arg_str st)) = []") (auto simp: fsm_DLY_def sel)
qed

text \<open>The step of each case with an argument, in the form of the contract.\<close>

abbreviation filled :: "fsm_st \<Rightarrow> menu_t \<Rightarrow> nat option \<Rightarrow> char list option \<Rightarrow> fsm_st" where
  "filled st e p l \<equiv>
     (case fill_arg (f_status st) (arg_str st) (f_kernel st) e of
        None \<Rightarrow> st\<lparr>f_status := St_R, f_lineptr := p, f_line := l\<rparr>
      | Some (k, e') \<Rightarrow> st\<lparr>f_status := St_IN, f_kernel := k, f_entry := Some e', f_lineptr := p,
                           f_line := l\<rparr>)"

lemma fill_steps:
  assumes ok: "ptr_ok st" and e: "f_entry st = Some e"
  shows fill_K: "f_status st = St_K \<Longrightarrow> \<exists>p l. st_K st = Some (filled st e p l)"
    and fill_O: "f_status st = St_O \<Longrightarrow> \<exists>p l. fsm_O st = Some (filled st e p l)"
    and fill_RT: "f_status st = St_RT \<Longrightarrow> \<exists>p l. fsm_RT st = Some (filled st e p l)"
    and fill_RD: "f_status st = St_RD \<Longrightarrow> \<exists>p l. fsm_RD st = Some (filled st e p l)"
    and fill_DTB: "f_status st = St_DTB \<Longrightarrow> \<exists>p l. fsm_DTB st = Some (filled st e p l)"
    and fill_M: "f_status st = St_M \<Longrightarrow> \<not> overflows St_M (arg_str st) e
      \<Longrightarrow> \<exists>p l. st_M st = Some (filled st e p l)"
proof -
  let ?t = "trim (arg_str st)"
  let ?w = "first_word ?t"
  let ?p = "map_option ((+) (length ?w)) (f_lineptr st)"
  show "\<exists>p l. st_K st = Some (filled st e p l)" if "f_status st = St_K"
    using st_K_eq [OF ok e] that
    by (intro exI [of _ "if ?w = [] then f_lineptr st else ?p"] exI [of _ None])
      (simp add: fill_arg_def Let_def)
  show "\<exists>p l. fsm_O st = Some (filled st e p l)" if s: "f_status st = St_O"
  proof -
    from fsm_O_eq [OF ok e] obtain l p where eq: "fsm_O st = Some (
      if ?w = [] then st\<lparr>f_status := St_R, f_line := None\<rparr>
      else st\<lparr>f_status := St_IN, f_kernel := True, f_entry := Some (e\<lparr>me_other := Some ?w\<rparr>),
              f_lineptr := p, f_line := l\<rparr>)" by blast
    show ?thesis
      by (intro exI [of _ "if ?w = [] then f_lineptr st else p"] exI [of _ "if ?w = [] then None else l"])
        (simp add: eq s fill_arg_def Let_def)
  qed
  show "\<exists>p l. fsm_RT st = Some (filled st e p l)" if s: "f_status st = St_RT"
  proof -
    have "parse_root [] u e = None" for u by (simp add: parse_root_def)
    moreover from fsm_RT_eq [OF ok e] obtain p where "fsm_RT st = Some (
      case parse_root ?w (trim (drop (length ?w) ?t)) e of
        None \<Rightarrow> st\<lparr>f_status := St_R, f_lineptr := p, f_line := None\<rparr>
      | Some e' \<Rightarrow> st\<lparr>f_status := St_IN, f_entry := Some e', f_lineptr := p, f_line := None\<rparr>)" by blast
    ultimately show ?thesis
      using s by (intro exI [of _ p] exI [of _ None])
        (auto simp: fill_arg_def Let_def split: option.splits)
  qed
  show "\<exists>p l. fsm_RD st = Some (filled st e p l)" if "f_status st = St_RD"
    using st_word_eq [OF ok e, of "\<lambda>w e. e\<lparr>me_initrd := Some w\<rparr>"] that
    by (intro exI [of _ "f_lineptr st"] exI [of _ None]) (simp add: fsm_RD_def fill_arg_def Let_def)
  show "\<exists>p l. fsm_DTB st = Some (filled st e p l)" if "f_status st = St_DTB"
    using st_word_eq [OF ok e, of "\<lambda>w e. e\<lparr>me_dtb := Some w\<rparr>"] that
    by (intro exI [of _ "f_lineptr st"] exI [of _ None]) (simp add: fsm_DTB_def fill_arg_def Let_def)
  show "\<exists>p l. st_M st = Some (filled st e p l)" if "f_status st = St_M" "\<not> overflows St_M (arg_str st) e"
    using st_M_eq [OF ok e] that
    by (intro exI [of _ "f_lineptr st"] exI [of _ None]) (auto simp: fill_arg_def Let_def overflows_def)
qed

lemma full_M: "ptr_ok st \<Longrightarrow> f_entry st = Some e \<Longrightarrow> overflows s (arg_str st) e \<Longrightarrow> st_M st = None"
  by (simp add: st_M_eq overflows_def)

interpretation menu_lst_text: dialect_parser "\<lambda>src n. fsm_step src (int n)" menu_lst_dialect
proof (unfold_locales, goal_cases)
  case (3 s)
  then show ?case by (auto simp: menu_lst_dialect_def)
next
  case (5 st src n off)
  then show ?case using fsm_S_eq by (simp add: menu_lst_dialect_def fsm_step_def)
next
  case (7 st src n off)
  then show ?case using fsm_IN_eq by (simp add: menu_lst_dialect_def fsm_step_def)
next
  case (13 st src n)
  then show ?case
    using option_step [of st] by (auto simp: menu_lst_dialect_def fsm_step_def)
next
  case (14 st e src n)
  have "\<exists>x. fsm_step src (int n) st = map_option Inl x \<and> (\<exists>p l. x = Some (filled st e p l))"
    using 14 fill_steps [OF 14(2,3)] by (auto simp: menu_lst_dialect_def fsm_step_def)
  then obtain p l where "fsm_step src (int n) st = Some (Inl (filled st e p l))" by auto
  then show ?case by blast
next
  case (15 st e src n)
  then have "f_status st = St_M" by (simp add: overflows_def)
  with full_M [OF 15(2,3,4)] show ?case by (simp add: fsm_step_def)
qed (auto simp: menu_lst_dialect_def fsm_step_def read_eof)

interpretation kicklayout_text: dialect_parser "\<lambda>src n. kick_step src (int n)" kick_dialect
proof (unfold_locales, goal_cases)
  case (3 s)
  then show ?case by (auto simp: kick_dialect_def)
next
  case (5 st src n off)
  then show ?case using kick_S_eq by (simp add: kick_dialect_def kick_step_def)
next
  case (7 st src n off)
  then show ?case using kick_IN_eq by (simp add: kick_dialect_def kick_step_def)
next
  case (14 st e src n)
  have "\<exists>x. kick_step src (int n) st = map_option Inl x \<and> (\<exists>p l. x = Some (filled st e p l))"
    using 14 fill_steps [OF 14(2,3)] by (auto simp: kick_dialect_def kick_step_def)
  then obtain p l where "kick_step src (int n) st = Some (Inl (filled st e p l))" by auto
  then show ?case by blast
next
  case (15 st e src n)
  then have "f_status st = St_M" by (simp add: overflows_def)
  with full_M [OF 15(2,3,4)] show ?case by (simp add: kick_step_def)
qed (auto simp: kick_dialect_def kick_step_def read_eof)

text \<open>Both parsers compute the meaning of their file.\<close>

definition buffer_of :: "string list \<Rightarrow> char list \<Rightarrow> char list" where
  "buffer_of ls rest = text_of ls @ NUL # rest"

lemma buf_ok_text:
  assumes "ls \<noteq> []"
  shows "buf_ok (text_of ls @ rest) (length (text_of ls))"
proof -
  obtain xs l where "ls = xs @ [l]" using assms by (cases ls rule: rev_cases) auto
  then have "text_of ls = (text_of xs @ l) @ [chr_nl]" by (simp add: text_of_def)
  then obtain t where t: "text_of ls = t @ [chr_nl]" by blast
  show ?thesis unfolding buf_ok_def t by (intro conjI exI [of _ "length t"]) simp_all
qed

lemma init_at_lines:
  assumes "list_all plain ls" and "buf_ok (text_of ls @ rest) (length (text_of ls))"
  shows "menu_lst_text.at_lines (text_of ls @ rest) (length (text_of ls)) ls (fsm_init menu)"
    and "kicklayout_text.at_lines (text_of ls @ rest) (length (text_of ls)) ls (fsm_init menu)"
  using assms
  by (simp_all add: menu_lst_text.at_lines_def kicklayout_text.at_lines_def fsm_init_def)

lemma fsm_refines_text:
  assumes "list_all plain ls" and "menu \<noteq> []" and "buf_ok (text_of ls @ rest) (length (text_of ls))"
  shows "fsm (text_of ls @ rest) (int (length (text_of ls))) menu = spec_top menu_lst_dialect 0 menu ls"
  unfolding fsm_def
  by (rule menu_lst_text.run_spec(1) [OF refl init_at_lines(1) [OF assms(1,3)]])
    (use assms in \<open>auto simp: fsm_init_def\<close>)

lemma kick_fsm_refines_text:
  assumes "list_all plain ls" and "menu \<noteq> []" and "buf_ok (text_of ls @ rest) (length (text_of ls))"
  shows "kick_fsm (text_of ls @ rest) (int (length (text_of ls))) menu = spec_top kick_dialect 0 menu ls"
  unfolding kick_fsm_def
  by (rule kicklayout_text.run_spec(1) [OF refl init_at_lines(2) [OF assms(1,3)]])
    (use assms in \<open>auto simp: fsm_init_def\<close>)

text \<open>With a terminator behind the text there may be no lines at all.\<close>

lemma buf_ok_buffer: "buf_ok (text_of ls @ NUL # rest) (length (text_of ls))"
  unfolding buf_ok_def by (intro conjI exI [of _ "length (text_of ls)"]) simp_all

lemma fsm_refines:
  assumes "list_all plain ls" and "menu \<noteq> []"
  shows "fsm (buffer_of ls rest) (int (length (text_of ls))) menu
    = spec_top menu_lst_dialect 0 menu ls"
  unfolding buffer_of_def by (rule fsm_refines_text [OF assms buf_ok_buffer])

lemma kick_fsm_refines:
  assumes "list_all plain ls" and "menu \<noteq> []"
  shows "kick_fsm (buffer_of ls rest) (int (length (text_of ls))) menu
    = spec_top kick_dialect 0 menu ls"
  unfolding buffer_of_def by (rule kick_fsm_refines_text [OF assms buf_ok_buffer])

end
