(* ===== verification/Menu_Roundtrip.thy ===== *)
theory Menu_Roundtrip
  imports Menu_Spec
begin

text \<open>
  Writing a menu as text and reading it back: \<open>render\<close> prints an entry the way a user writes it in
  \<open>menu.lst\<close>, and \<open>fsm\<close> on the printed file gives exactly the printed entries.
\<close>

subsection \<open>Words and arguments\<close>

definition tidy :: "string \<Rightarrow> bool" where
  "tidy a \<longleftrightarrow> a \<noteq> [] \<and> \<not> isspace (hd a) \<and> \<not> isspace (last a) \<and> CHR ''#'' \<notin> set a \<and> plain a"

definition word :: "string \<Rightarrow> bool" where
  "word w \<longleftrightarrow> w \<noteq> [] \<and> (\<forall>c \<in> set w. \<not> isspace c \<and> c \<noteq> CHR ''#'' \<and> c \<noteq> NUL)"

lemma word_tidy: "word w \<Longrightarrow> tidy w"
  by (auto simp: word_def tidy_def plain_def isspace_def)

lemma word_space [simp]: "word w \<Longrightarrow> CHR '' '' \<notin> set w" "word w \<Longrightarrow> chr_tab \<notin> set w" "word w \<Longrightarrow> w \<noteq> []"
  by (auto simp: word_def isspace_def isblank_def)

lemma trim_tidy [simp]:
  assumes "tidy a" shows "trim a = a"
proof -
  have "dropWhile isspace a = a" using assms by (cases a) (auto simp: tidy_def)
  moreover have "dropWhile isspace (rev a) = rev a"
    using assms by (cases "rev a") (auto simp: tidy_def hd_rev [symmetric])
  ultimately show ?thesis by (simp add: trim_def)
qed

lemma trim_space [simp]: "trim (CHR '' '' # a) = trim a"
  by (simp add: trim_def isspace_def isblank_def)

lemma first_word_word [simp]: "word w \<Longrightarrow> first_word w = w"
  by (simp add: first_word_def)

lemma takeWhile_before: "c \<notin> set w \<Longrightarrow> takeWhile (\<lambda>x. x \<noteq> c) (w @ c # a) = w"
  by (induction w) auto

lemma first_word_space [simp]: "CHR '' '' \<notin> set w \<Longrightarrow> first_word (w @ CHR '' '' # a) = w"
  by (simp add: first_word_def takeWhile_before)

definition keyword_line :: "string \<Rightarrow> string \<Rightarrow> string" where
  "keyword_line kw a = kw @ CHR '' '' # a"

lemma clean_keyword_line:
  assumes "word kw" and "tidy a"
  shows "clean (CHR ''#'') (keyword_line kw a) = keyword_line kw a"
proof -
  from assms have "tidy (keyword_line kw a)"
    by (auto simp: tidy_def keyword_line_def plain_def word_def isspace_def)
  then show ?thesis by (simp add: clean_def tidy_def)
qed

text \<open>Decimal numbers.\<close>

lemma strtol_loop_shift:
  "strtol_loop s (m * a) (m * b + l) = m * strtol_loop s a b + l"
proof (induction s arbitrary: a b)
  case (Cons c s)
  have "strtol_loop (c # s) (m * a) (m * b + l)
      = strtol_loop s (m * (a * 10)) (m * (b + (of_char c - 48) * a) + l)"
    by (simp add: algebra_simps)
  then show ?case by (simp add: Cons.IH)
qed simp

lemma strtol_val_snoc: "strtol_val (s @ [c]) = 10 * strtol_val s + (of_char c - 48)"
  using strtol_loop_shift [of "rev s" 10 1 0 "of_char c - 48"] by (simp add: strtol_val_def)

lemma digit_val: "k < 10 \<Longrightarrow> (of_char (char_of (48 + k) :: char) :: u32) - 48 = of_nat k"
proof -
  assume "k < 10"
  then have "of_char (char_of (48 + k) :: char) = (of_nat (48 + k) :: u32)"
    by (subst of_nat_of_char [symmetric]) (simp only: of_char_of, simp)
  then show ?thesis by simp
qed

lemma strtol_val_decimal: "strtol_val (decimal n) = of_nat n"
proof (induction n rule: decimal.induct)
  case (1 n)
  show ?case
  proof (cases "n < 10")
    case True
    then have "strtol_val (decimal n) = strtol_val ([] @ [char_of (48 + n)])"
      by (simp add: decimal.simps)
    also have "\<dots> = of_nat n"
      unfolding strtol_val_snoc using digit_val [OF True] by (simp add: strtol_val_def)
    finally show ?thesis .
  next
    case False
    then have "strtol_val (decimal n) = 10 * of_nat (n div 10) + of_nat (n mod 10)"
      using 1 digit_val [of "n mod 10"] by (subst decimal.simps) (simp add: strtol_val_snoc)
    also have "\<dots> = of_nat (10 * (n div 10) + n mod 10)" by (simp only: of_nat_add of_nat_mult of_nat_numeral)
    finally show ?thesis by simp
  qed
qed

lemma decimal_digits: "c \<in> set (decimal n) \<Longrightarrow> isdigit c"
proof (induction n rule: decimal.induct)
  case (1 n)
  have "code (char_of (48 + k)) = int (48 + k)" if "k < 10" for k :: nat
    using that by (subst of_nat_of_char [symmetric]) (simp only: of_char_of, simp)
  then have "isdigit (char_of (48 + k))" if "k < 10" for k :: nat
    using that by (simp add: isdigit_def)
  with 1 show ?case by (subst (asm) (2) decimal.simps) (auto split: if_splits)
qed

subsection \<open>Printing entries\<close>

definition opt_line :: "string \<Rightarrow> string option \<Rightarrow> string list" where
  "opt_line kw a = (case a of None \<Rightarrow> [] | Some w \<Rightarrow> [keyword_line kw w])"

definition kernel_arg :: "menu_t \<Rightarrow> string option" where
  "kernel_arg e =
     map_option (\<lambda>w. w @ (case me_append e of None \<Rightarrow> [] | Some a \<Rightarrow> CHR '' '' # a)) (me_kernel e)"

definition root_arg :: "menu_t \<Rightarrow> string option" where
  "root_arg e =
     (if me_device_type e = TFTP_TYPE then Some ''tftp''
      else if me_device_type e = CD_TYPE then Some ''cdrom''
      else if me_device_type e = IDE_TYPE
      then Some (''ide '' @ decimal (nat (me_device_num e)) @ '':'' @ decimal (nat (me_partition e + 1)))
      else None)"

definition body_lines :: "menu_t \<Rightarrow> string list" where
  "body_lines e =
     opt_line ''kernel'' (kernel_arg e) @ opt_line ''other'' (me_other e)
     @ opt_line ''initrd'' (me_initrd e) @ opt_line ''dtb'' (me_dtb e)
     @ map (keyword_line ''module'') (map eo_name (me_modules e)) @ opt_line ''root'' (root_arg e)"

definition render :: "menu_t \<Rightarrow> string list" where
  "render e = keyword_line ''title'' (the (me_title e)) # body_lines e"

text \<open>The entries \<open>menu.lst\<close> can express.\<close>

definition opt_ok :: "(string \<Rightarrow> bool) \<Rightarrow> string option \<Rightarrow> bool" where
  "opt_ok P a = (case a of None \<Rightarrow> True | Some w \<Rightarrow> P w)"

definition root_ok :: "menu_t \<Rightarrow> bool" where
  "root_ok e \<longleftrightarrow>
     (if me_device_type e = IDE_TYPE
      then 0 \<le> me_device_num e \<and> me_device_num e < 2 ^ 31 \<and> 0 \<le> me_partition e \<and> me_partition e < 2 ^ 31 - 1
      else me_device_type e \<in> {DEFAULT_TYPE, TFTP_TYPE, CD_TYPE} \<and> me_device_num e = 0 \<and> me_partition e = 0)"

definition printable :: "menu_t \<Rightarrow> bool" where
  "printable e \<longleftrightarrow>
     me_title e \<noteq> None \<and> opt_ok tidy (me_title e)
     \<and> (me_kernel e \<noteq> None \<or> me_other e \<noteq> None)
     \<and> opt_ok word (me_kernel e) \<and> opt_ok tidy (me_append e) \<and> (me_kernel e = None \<longrightarrow> me_append e = None)
     \<and> opt_ok word (me_other e) \<and> opt_ok word (me_initrd e) \<and> opt_ok word (me_dtb e)
     \<and> list_all (\<lambda>m. word (eo_name m) \<and> eo_args m = None \<and> eo_partition m = None) (me_modules e)
     \<and> modules_cnt e \<le> MAX_MODULES \<and> root_ok e \<and> me_argc e = 0 \<and> me_default_os e = None \<and> me_delay e = None \<and> me_server_ip e = None"

subsection \<open>Reading the lines back\<close>

lemma first_word_keyword_line [simp]: "word kw \<Longrightarrow> first_word (keyword_line kw a) = kw"
  by (simp add: keyword_line_def)

lemma keyword_line_arg [simp]: "drop (length kw) (keyword_line kw a) = CHR '' '' # a"
  by (simp add: keyword_line_def)

lemma keyword_line_ne [simp]: "keyword_line kw a \<noteq> []"
  by (simp add: keyword_line_def)

lemma spec_in_line:
  assumes "word kw" and "tidy a" and "map_of fsm_IN_words kw = Some (Some s)"
    and "fill_arg s (CHR '' '' # a) k e = Some (k', e')"
    and "s = St_M \<Longrightarrow> modules_cnt e < MAX_MODULES"
  shows "spec_in menu_lst_dialect cnt menu k e (keyword_line kw a # ls)
    = spec_in menu_lst_dialect cnt menu k' e' ls"
proof -
  have "\<not> overflows s (CHR '' '' # a) e" using assms(5) by (auto simp: overflows_def)
  with assms(1-4) clean_keyword_line [OF assms(1,2)] show ?thesis
    by (simp add: menu_lst_dialect_def Let_def)
qed

lemma spec_top_title:
  assumes "tidy a"
  shows "spec_top menu_lst_dialect cnt menu (keyword_line ''title'' a # ls)
    = spec_in menu_lst_dialect cnt menu False (entry_alloc\<lparr>me_title := Some a\<rparr>) ls"
proof -
  have "word ''title''" by (simp add: word_def isspace_def isblank_def)
  moreover have "a \<noteq> []" using assms by (simp add: tidy_def)
  ultimately show ?thesis
    using assms clean_keyword_line [of "''title''" a] keyword_line_arg [of "''title''" a]
    by (simp add: menu_lst_dialect_def Let_def)
qed

lemma spec_in_title:
  assumes "tidy a"
  shows "spec_in menu_lst_dialect cnt menu True e (keyword_line ''title'' a # ls)
    = spec_top menu_lst_dialect (cnt + 1) (menu @ [e]) (keyword_line ''title'' a # ls)"
proof -
  have "word ''title''" by (simp add: word_def isspace_def isblank_def)
  then show ?thesis
    using assms clean_keyword_line [of "''title''" a] by (simp add: menu_lst_dialect_def Let_def)
qed

lemma menu_words:
  "word ''kernel''" "word ''other''" "word ''initrd''" "word ''dtb''" "word ''module''" "word ''root''"
  "word ''tftp''" "word ''cdrom''" "word ''ide''"
  by (simp_all add: word_def isspace_def isblank_def)

lemma fill_word:
  assumes "word w"
  shows "fill_arg St_O (CHR '' '' # w) k e = Some (True, e\<lparr>me_other := Some w\<rparr>)"
    and "fill_arg St_RD (CHR '' '' # w) k e = Some (k, e\<lparr>me_initrd := Some w\<rparr>)"
    and "fill_arg St_DTB (CHR '' '' # w) k e = Some (k, e\<lparr>me_dtb := Some w\<rparr>)"
    and "fill_arg St_M (CHR '' '' # w) k e = Some (k, add_module w e)"
    and "fill_arg St_K (CHR '' '' # w) k e = Some (True, e\<lparr>me_kernel := Some w\<rparr>)"
  using assms word_tidy [OF assms] by (simp_all add: fill_arg_def Let_def set_kernel_def)

lemma tidy_two: "word w \<Longrightarrow> tidy a \<Longrightarrow> tidy (w @ CHR '' '' # a)"
  by (auto simp: tidy_def plain_def word_def isspace_def)

lemma fill_kernel:
  assumes "word w" and "tidy a"
  shows "fill_arg St_K (CHR '' '' # w @ CHR '' '' # a) k e
    = Some (True, e\<lparr>me_kernel := Some w, me_append := Some a\<rparr>)"
proof -
  have "a \<noteq> []" using assms(2) by (simp add: tidy_def)
  with assms tidy_two [OF assms] show ?thesis
    by (simp add: fill_arg_def Let_def set_kernel_def)
qed

lemma decimal_ne [simp]: "decimal n \<noteq> []"
  by (subst decimal.simps) simp

lemma isdigit_word: "isdigit c \<Longrightarrow> \<not> isspace c \<and> c \<noteq> CHR ''#'' \<and> c \<noteq> NUL"
  by (auto simp: isspace_def isdigit_def)

lemma word_decimal: "word (decimal n)"
  unfolding word_def using decimal_digits [of _ n] isdigit_word by simp

lemma no_colon_decimal [simp]: "CHR '':'' \<notin> set (decimal n)"
  using decimal_digits [of "CHR '':''" n] by (auto simp: isdigit_def)

lemma ide_arg:
  "ide_dev (decimal a @ CHR '':'' # decimal b) = decimal a"
  "ide_part (decimal a @ CHR '':'' # decimal b) = decimal b"
proof -
  show "ide_dev (decimal a @ CHR '':'' # decimal b) = decimal a"
    by (simp add: ide_dev_def takeWhile_before)
  then show "ide_part (decimal a @ CHR '':'' # decimal b) = decimal b"
    by (simp add: ide_part_def)
qed

lemma word_ide_arg: "word (decimal a @ CHR '':'' # decimal b)"
  using word_decimal [of a] word_decimal [of b] by (auto simp: word_def isspace_def isblank_def)

lemma sint_of_nat: "n < 2 ^ 31 \<Longrightarrow> sint (of_nat n :: u32) = int n"
  by (simp add: sint_uint unsigned_of_nat signed_take_bit_int_eq_self take_bit_nat_eq_self)

lemma fill_ide:
  assumes "a < 2 ^ 31" and "b < 2 ^ 31 - 1"
  shows "fill_arg St_RT (CHR '' '' # ''ide '' @ decimal a @ '':'' @ decimal (b + 1)) k e
    = Some (k, e\<lparr>me_device_type := IDE_TYPE, me_device_num := int a, me_partition := int b\<rparr>)"
proof -
  let ?u = "decimal a @ CHR '':'' # decimal (b + 1)"
  have t: "tidy (''ide'' @ CHR '' '' # ?u)"
    using tidy_two [OF menu_words(9) word_tidy [OF word_ide_arg [of a "b + 1"]]] .
  have w: "first_word (''ide'' @ CHR '' '' # ?u) = ''ide''"
    by (rule first_word_space) simp
  have "of_nat (b + 1) - 1 = (of_nat b :: u32)" by simp
  then have "parse_root ''ide'' ?u e
      = Some (e\<lparr>me_device_type := IDE_TYPE, me_device_num := int a, me_partition := int b\<rparr>)"
    using assms by (simp add: parse_root_def ide_arg strtol_val_decimal sint_of_nat)
  moreover have "trim (CHR '' '' # ?u) = ?u" using word_ide_arg [of a "b + 1"] by (simp add: word_tidy)
  ultimately show ?thesis
    using t w by (simp add: fill_arg_def Let_def)
qed

lemma fill_tftp: "fill_arg St_RT (CHR '' '' # ''tftp'') k e = Some (k, e\<lparr>me_device_type := TFTP_TYPE\<rparr>)"
  using menu_words(7) word_tidy [OF menu_words(7)]
    trim_space [of "''tftp''"] trim_tidy [of "''tftp''"] first_word_word [of "''tftp''"]
  by (simp add: fill_arg_def Let_def parse_root_def del: trim_tidy trim_space first_word_word)

lemma fill_cdrom: "fill_arg St_RT (CHR '' '' # ''cdrom'') k e = Some (k, e\<lparr>me_device_type := CD_TYPE\<rparr>)"
  using menu_words(8) word_tidy [OF menu_words(8)]
    trim_space [of "''cdrom''"] trim_tidy [of "''cdrom''"] first_word_word [of "''cdrom''"]
  by (simp add: fill_arg_def Let_def parse_root_def del: trim_tidy trim_space first_word_word)

subsection \<open>The round trip\<close>

declare spec_top.simps [simp del] spec_in.simps [simp del]

lemma read_modules:
  assumes "list_all (\<lambda>m. word (eo_name m) \<and> eo_args m = None \<and> eo_partition m = None) ms"
    and "modules_cnt e + length ms \<le> MAX_MODULES"
  shows "spec_in menu_lst_dialect cnt menu k e (map (keyword_line ''module'') (map eo_name ms) @ ls)
    = spec_in menu_lst_dialect cnt menu k (e\<lparr>me_modules := me_modules e @ ms\<rparr>) ls"
  using assms
proof (induction ms arbitrary: e)
  case (Cons m ms)
  then have w: "word (eo_name m)" and m: "m = \<lparr>eo_name = eo_name m, eo_args = None, eo_partition = None\<rparr>"
    by (auto intro: EntryObject.equality)
  from w Cons spec_in_line [OF menu_words(5) word_tidy _ fill_word(4)] have "spec_in menu_lst_dialect cnt menu k e
      (map (keyword_line ''module'') (map eo_name (m # ms)) @ ls)
    = spec_in menu_lst_dialect cnt menu k ((add_module (eo_name m) e)
        \<lparr>me_modules := me_modules (add_module (eo_name m) e) @ ms\<rparr>) ls"
    by (simp add: add_module_def modules_cnt_def)
  then show ?case using m by (simp add: add_module_def)
qed simp

lemma read_kernel:
  assumes "opt_ok word (me_kernel e0)" "opt_ok tidy (me_append e0)"
    "me_kernel e0 = None \<longrightarrow> me_append e0 = None" "me_kernel e = None" "me_append e = None"
  shows "spec_in menu_lst_dialect cnt menu k e (opt_line ''kernel'' (kernel_arg e0) @ ls)
    = spec_in menu_lst_dialect cnt menu (k \<or> me_kernel e0 \<noteq> None)
        (e\<lparr>me_kernel := me_kernel e0, me_append := me_append e0\<rparr>) ls"
proof (cases "me_kernel e0")
  case None
  have same: "e\<lparr>me_kernel := None, me_append := None\<rparr> = e"
    by (rule menu_t.equality) (use assms in simp_all)
  with None assms show ?thesis by (simp add: kernel_arg_def opt_line_def same)
next
  case (Some w)
  show ?thesis
  proof (cases "me_append e0")
    case None
    have same: "e\<lparr>me_kernel := Some w, me_append := None\<rparr> = e\<lparr>me_kernel := Some w\<rparr>"
      by (rule menu_t.equality) (use assms in simp_all)
    from None Some assms show ?thesis
      using spec_in_line [OF menu_words(1) word_tidy _ fill_word(5)]
      by (simp add: kernel_arg_def opt_line_def opt_ok_def same)
  next
    case (Some a)
    with \<open>me_kernel e0 = Some w\<close> assms show ?thesis
      using spec_in_line [OF menu_words(1) tidy_two _ fill_kernel]
      by (simp add: kernel_arg_def opt_line_def opt_ok_def)
  qed
qed

lemma read_root:
  assumes "root_ok e0" "me_device_type e = DEFAULT_TYPE" "me_device_num e = 0" "me_partition e = 0"
  shows "spec_in menu_lst_dialect cnt menu k e (opt_line ''root'' (root_arg e0) @ ls)
    = spec_in menu_lst_dialect cnt menu k
        (e\<lparr>me_device_type := me_device_type e0, me_device_num := me_device_num e0,
           me_partition := me_partition e0\<rparr>) ls"
proof -
  have same: "e\<lparr>me_device_type := v, me_device_num := 0, me_partition := 0\<rparr> = e\<lparr>me_device_type := v\<rparr>" for v
    by (rule menu_t.equality) (use assms in simp_all)
  consider (default) "me_device_type e0 = 0" "me_device_num e0 = 0" "me_partition e0 = 0"
    | (tftp) "me_device_type e0 = 2" "me_device_num e0 = 0" "me_partition e0 = 0"
    | (cd) "me_device_type e0 = 3" "me_device_num e0 = 0" "me_partition e0 = 0"
    | (ide) a b where "me_device_type e0 = 1" "me_device_num e0 = int a" "me_partition e0 = int b"
        "a < 2 ^ 31" "b < 2 ^ 31 - 1"
  proof (cases "me_device_type e0 = 1")
    case True
    with assms(1) show thesis
      by (intro ide [of "nat (me_device_num e0)" "nat (me_partition e0)"]) (auto simp: root_ok_def)
  next
    case False
    with assms(1) default tftp cd show thesis by (auto simp: root_ok_def)
  qed
  then show ?thesis
  proof cases
    case default
    have same0: "e\<lparr>me_device_type := 0, me_device_num := 0, me_partition := 0\<rparr> = e"
      by (rule menu_t.equality) (use assms in simp_all)
    from default assms show ?thesis by (simp add: root_arg_def opt_line_def same0)
  next
    case tftp
    with assms show ?thesis
      using spec_in_line [OF menu_words(6) word_tidy [OF menu_words(7)] _ fill_tftp]
      by (simp add: root_arg_def opt_line_def same)
  next
    case cd
    with assms show ?thesis
      using spec_in_line [OF menu_words(6) word_tidy [OF menu_words(8)] _ fill_cdrom]
      by (simp add: root_arg_def opt_line_def same)
  next
    case ide
    have arg: "root_arg e0 = Some (''ide '' @ decimal a @ '':'' @ decimal (b + 1))"
      using ide by (simp add: root_arg_def nat_add_distrib)
    have "tidy (''ide '' @ decimal a @ '':'' @ decimal (b + 1))"
      using tidy_two [OF menu_words(9) word_tidy [OF word_ide_arg [of a "b + 1"]]] by simp
    from spec_in_line [OF menu_words(6) this _ fill_ide [OF ide(4,5)]] ide assms arg
    show ?thesis by (simp add: opt_line_def)
  qed
qed

lemma render_body:
  assumes e0: "printable e0" and t: "me_title e0 = Some t"
  shows "spec_in menu_lst_dialect cnt menu False (entry_alloc\<lparr>me_title := Some t\<rparr>) (body_lines e0 @ ls)
    = spec_in menu_lst_dialect cnt menu True e0 ls"
proof -
  let ?e = "entry_alloc\<lparr>me_title := Some t\<rparr>"
  let ?k = "me_kernel e0 \<noteq> None"
  define e1 where "e1 = ?e\<lparr>me_kernel := me_kernel e0, me_append := me_append e0\<rparr>"
  define e2 where "e2 = e1\<lparr>me_other := me_other e0\<rparr>"
  define e3 where "e3 = e2\<lparr>me_initrd := me_initrd e0\<rparr>"
  define e4 where "e4 = e3\<lparr>me_dtb := me_dtb e0\<rparr>"
  define e5 where "e5 = e4\<lparr>me_modules := me_modules e0\<rparr>"
  note fresh = e1_def e2_def e3_def e4_def e5_def entry_alloc_def
  let ?in = "spec_in menu_lst_dialect cnt menu"
  let ?root = "opt_line ''root'' (root_arg e0) @ ls"
  let ?mods = "map (keyword_line ''module'') (map eo_name (me_modules e0)) @ ?root"
  let ?dtb = "opt_line ''dtb'' (me_dtb e0) @ ?mods"
  let ?rd = "opt_line ''initrd'' (me_initrd e0) @ ?dtb"
  let ?other = "opt_line ''other'' (me_other e0) @ ?rd"
  note p = e0 [unfolded printable_def]
  have ok: "me_kernel e0 \<noteq> None \<or> me_other e0 \<noteq> None" using p by blast
  have "?in False ?e (body_lines e0 @ ls) = ?in ?k e1 ?other"
    using p unfolding body_lines_def e1_def append_assoc
    by (subst read_kernel) (simp_all add: entry_alloc_def)
  also have "\<dots> = ?in True e2 ?rd"
  proof (cases "me_other e0")
    case None
    then have "e2 = e1" by (simp add: e2_def e1_def entry_alloc_def)
    with None ok show ?thesis by (simp add: opt_line_def)
  next
    case (Some w)
    with p show ?thesis
      using spec_in_line [OF menu_words(2) word_tidy _ fill_word(1)]
      by (simp add: opt_line_def opt_ok_def e2_def)
  qed
  also have "\<dots> = ?in True e3 ?dtb"
  proof (cases "me_initrd e0")
    case None
    then have "e3 = e2" by (simp add: fresh)
    with None show ?thesis by (simp add: opt_line_def)
  next
    case (Some w)
    with p show ?thesis
      using spec_in_line [OF menu_words(3) word_tidy _ fill_word(2)]
      by (simp add: opt_line_def opt_ok_def e3_def)
  qed
  also have "\<dots> = ?in True e4 ?mods"
  proof (cases "me_dtb e0")
    case None
    then have "e4 = e3" by (simp add: fresh)
    with None show ?thesis by (simp add: opt_line_def)
  next
    case (Some w)
    with p show ?thesis
      using spec_in_line [OF menu_words(4) word_tidy _ fill_word(3)]
      by (simp add: opt_line_def opt_ok_def e4_def)
  qed
  also have "\<dots> = ?in True e5 ?root"
    using p by (subst read_modules) (simp_all add: e5_def e4_def e3_def e2_def e1_def entry_alloc_def modules_cnt_def)
  also have "\<dots> = ?in True e0 ls"
  proof -
    have "e5\<lparr>me_device_type := me_device_type e0, me_device_num := me_device_num e0,
        me_partition := me_partition e0\<rparr> = e0"
      using p t by (intro menu_t.equality) (simp_all add: fresh)
    moreover have "root_ok e0" using p by blast
    ultimately show ?thesis by (subst read_root) (simp_all add: fresh)
  qed
  finally show ?thesis .
qed

lemma render_tail:
  assumes "list_all printable es" and "printable e"
  shows "spec_in menu_lst_dialect cnt menu True e (concat (map render es)) = Some (1, menu @ e # es)"
  using assms
proof (induction es arbitrary: cnt menu e)
  case Nil
  then show ?case by (simp add: spec_in.simps)
next
  case (Cons e1 es)
  then obtain t where t: "me_title e1 = Some t" "tidy t" by (auto simp: printable_def opt_ok_def)
  with Cons show ?case
    by (simp add: render_def spec_in_title spec_top_title render_body)
qed

lemma render_menu:
  assumes "list_all printable es" and "es \<noteq> []"
  shows "spec_top menu_lst_dialect cnt menu (concat (map render es)) = Some (1, menu @ es)"
proof -
  from assms(2) obtain e es' where es: "es = e # es'" by (cases es) auto
  with assms obtain t where t: "me_title e = Some t" "tidy t" by (auto simp: printable_def opt_ok_def)
  with es assms show ?thesis
    by (simp add: render_def spec_top_title render_body render_tail)
qed

end
