(* ===== verification/Menu_Lines.thy ===== *)
theory Menu_Lines
  imports Menu_Roundtrip
begin

text \<open>
  How the parsers treat lines that are not in the printed form: the title lines that \<open>fsm\<close> loses
  when it puts them back (DOS line ends, trailing comments), and menus that end in an entry
  without a kernel.
\<close>

definition cr :: "string \<Rightarrow> string" where "cr l = l @ [CHR 0x0D]"

lemma trim_snoc_space:
  assumes "isspace c" shows "trim (l @ [c]) = trim l"
proof (cases "\<forall>x \<in> set l. isspace x")
  case True
  with assms have "dropWhile isspace (l @ [c]) = []" "dropWhile isspace l = []" by simp_all
  then show ?thesis by (simp only: trim_def)
next
  case False
  then have "dropWhile isspace (l @ [c]) = dropWhile isspace l @ [c]" by (metis dropWhile_append1)
  with assms show ?thesis by (simp add: trim_def)
qed

lemma clean_cr [simp]: "clean (CHR ''#'') (cr l) = clean (CHR ''#'') l"
proof -
  have "isspace (CHR 0x0D)" by (simp add: isspace_def)
  from trim_snoc_space [OF this] show ?thesis
    by (cases "CHR ''#'' \<in> set l") (auto simp: clean_def cr_def takeWhile_append1)
qed

abbreviation line_word :: "string \<Rightarrow> string" where
  "line_word l \<equiv> first_word (clean (CHR ''#'') l)"

text \<open>Lines with no title among them mean the same with either line end.\<close>

lemma spec_cr:
  assumes "\<forall>l \<in> set ls. line_word l \<noteq> ''title''"
  shows "spec_in menu_lst_dialect cnt menu k e (map cr ls @ rest)
      = spec_in menu_lst_dialect cnt menu k e (ls @ rest)"
    and "spec_top menu_lst_dialect cnt menu (map cr ls @ rest)
      = spec_top menu_lst_dialect cnt menu (ls @ rest)"
  using assms
proof (induction ls arbitrary: cnt menu k e)
  case (Cons l ls)
  {
    case 1
    with Cons show ?case
      by (simp add: menu_lst_dialect_def spec_in.simps Let_def split: option.splits)
  next
    case 2
    with Cons show ?case
      by (simp add: menu_lst_dialect_def spec_top.simps Let_def split: option.splits)
  }
qed simp_all

lemma spec_top_skip:
  assumes "\<forall>l \<in> set ls. map_of fsm_S_words (line_word l) = None"
  shows "spec_top menu_lst_dialect cnt menu (ls @ rest) = spec_top menu_lst_dialect cnt menu rest"
  using assms
  by (induction ls) (simp_all add: menu_lst_dialect_def spec_top.simps Let_def)

lemma body_words:
  assumes "printable e" and "l \<in> set (body_lines e)"
  shows "line_word l \<in> {''kernel'', ''other'', ''initrd'', ''dtb'', ''module'', ''root''}"
proof -
  have kw: "line_word (keyword_line kw a) = kw" if "word kw" "tidy a" for kw a
    using clean_keyword_line [OF that] that by simp
  have opt: "line_word l = kw" if "l \<in> set (opt_line kw a)" "word kw" "opt_ok tidy a" for kw a
    using that kw by (auto simp: opt_line_def opt_ok_def split: option.splits)
  have wt: "opt_ok word a \<Longrightarrow> opt_ok tidy a" for a
    by (auto simp: opt_ok_def word_tidy split: option.splits)
  note p = assms(1) [unfolded printable_def]
  have k: "opt_ok tidy (kernel_arg e)"
    using p by (auto simp: opt_ok_def kernel_arg_def word_tidy tidy_two split: option.splits)
  have r: "opt_ok tidy (root_arg e)"
    using tidy_two [OF menu_words(9) word_tidy [OF word_ide_arg]]
      word_tidy [OF menu_words(7)] word_tidy [OF menu_words(8)]
    by (simp add: opt_ok_def root_arg_def)
  have m: "line_word l = ''module''" if "l \<in> set (map (keyword_line ''module'') (map eo_name (me_modules e)))"
    using that p kw [OF menu_words(5)] by (auto simp: list_all_iff word_tidy)
  from assms(2) show ?thesis
    using opt [OF _ menu_words(1) k] opt [OF _ menu_words(2)] opt [OF _ menu_words(3)]
      opt [OF _ menu_words(4)] opt [OF _ menu_words(6) r] m wt p
    unfolding body_lines_def set_append by blast
qed

text \<open>A DOS title line that ends an entry is put back short of its first character.\<close>

lemma dos_title_top:
  assumes "tidy t"
  shows "spec_top menu_lst_dialect cnt menu (cr (keyword_line ''title'' t) # ls)
    = spec_in menu_lst_dialect cnt menu False (entry_alloc\<lparr>me_title := Some t\<rparr>) ls"
  using spec_top_title [OF assms, of cnt menu ls]
  by (simp add: menu_lst_dialect_def spec_top.simps)

lemma dos_title_in:
  assumes "tidy t"
  shows "spec_in menu_lst_dialect cnt menu True e (cr (keyword_line ''title'' t) # ls)
    = spec_top menu_lst_dialect (cnt + 1) (menu @ [e]) ls"
proof -
  have w: "word ''title''" by (simp add: word_def isspace_def isblank_def)
  have c: "clean (CHR ''#'') (keyword_line ''title'' t) = keyword_line ''title'' t"
    by (rule clean_keyword_line [OF w assms])
  have again: "drop (length (cr (keyword_line ''title'' t)) - length (keyword_line ''title'' t))
      (cr (keyword_line ''title'' t)) = cr (keyword_line ''itle'' t)"
    by (simp add: cr_def keyword_line_def)
  have w': "word ''itle''" by (simp add: word_def isspace_def isblank_def)
  have c': "clean (CHR ''#'') (keyword_line ''itle'' t) = keyword_line ''itle'' t"
    by (rule clean_keyword_line [OF w' assms])
  have "spec_in menu_lst_dialect cnt menu True e (cr (keyword_line ''title'' t) # ls)
      = spec_top menu_lst_dialect (cnt + 1) (menu @ [e]) (cr (keyword_line ''itle'' t) # ls)"
    using w again by (simp add: menu_lst_dialect_def spec_in.simps c Let_def)
  also have "\<dots> = spec_top menu_lst_dialect (cnt + 1) (menu @ [e]) ls"
    using w' by (simp add: menu_lst_dialect_def spec_top.simps c' Let_def)
  finally show ?thesis .
qed

fun every_other :: "'a list \<Rightarrow> 'a list" where
  "every_other [] = []"
| "every_other [x] = [x]"
| "every_other (x # y # xs) = x # every_other xs"

lemma dos_body:
  assumes "printable e" "me_title e = Some t"
  shows "spec_in menu_lst_dialect cnt menu False (entry_alloc\<lparr>me_title := Some t\<rparr>)
      (map cr (body_lines e) @ ls) = spec_in menu_lst_dialect cnt menu True e ls"
    and "spec_top menu_lst_dialect cnt menu (map cr (body_lines e) @ ls)
      = spec_top menu_lst_dialect cnt menu ls"
proof -
  have nt: "\<forall>l \<in> set (body_lines e). line_word l \<noteq> ''title''"
    "\<forall>l \<in> set (body_lines e). map_of fsm_S_words (line_word l) = None"
    using body_words [OF assms(1)] by fastforce+
  show "spec_in menu_lst_dialect cnt menu False (entry_alloc\<lparr>me_title := Some t\<rparr>)
      (map cr (body_lines e) @ ls) = spec_in menu_lst_dialect cnt menu True e ls"
    by (simp only: spec_cr(1) [OF nt(1)] render_body [OF assms])
  show "spec_top menu_lst_dialect cnt menu (map cr (body_lines e) @ ls)
      = spec_top menu_lst_dialect cnt menu ls"
    by (simp only: spec_cr(2) [OF nt(1)] spec_top_skip [OF nt(2)])
qed

lemma dos_menu:
  assumes "list_all printable es"
  shows "spec_top menu_lst_dialect cnt menu (map cr (concat (map render es))) = Some (1, menu @ every_other es)"
  using assms
proof (induction es arbitrary: cnt menu rule: every_other.induct)
  case (3 x y xs)
  then obtain t u where t: "me_title x = Some t" "tidy t" and u: "me_title y = Some u" "tidy u"
    by (auto simp: printable_def opt_ok_def)
  have "spec_top menu_lst_dialect cnt menu (map cr (concat (map render (x # y # xs))))
      = spec_top menu_lst_dialect (cnt + 1) (menu @ [x]) (map cr (concat (map render xs)))"
    using 3 t u dos_body(1) [OF _ t(1)] dos_body(2) [OF _ u(1)]
    by (simp add: render_def dos_title_top dos_title_in)
  also have "\<dots> = Some (1, (menu @ [x]) @ every_other xs)"
    using "3.prems" by (intro "3.IH") simp_all
  finally show ?case by simp
next
  case (2 x)
  then obtain t where t: "me_title x = Some t" "tidy t"
    by (auto simp: printable_def opt_ok_def)
  with 2 dos_body(1) [OF _ t(1), of cnt menu "[]"] show ?case
    by (simp add: render_def dos_title_top spec_in.simps)
qed (simp add: spec_top.simps menu_lst_dialect_def)

text \<open>The side conditions of the refinement, for printed menus.\<close>

lemma plain_cr: "plain l \<Longrightarrow> plain (cr l)"
  by (simp add: plain_def cr_def)

lemma plain_keyword_line: "plain kw \<Longrightarrow> tidy a \<Longrightarrow> plain (keyword_line kw a)"
  by (auto simp: plain_def keyword_line_def tidy_def)

lemma word_plain: "word w \<Longrightarrow> plain w"
  by (auto simp: word_def plain_def isspace_def)

lemma body_plain:
  assumes "printable e"
  shows "list_all plain (body_lines e)"
proof -
  have opt: "list_all plain (opt_line kw a)" if "word kw" "opt_ok tidy a" for kw a
    using that plain_keyword_line [OF word_plain] by (auto simp: opt_line_def opt_ok_def split: option.splits)
  have wt: "opt_ok word a \<Longrightarrow> opt_ok tidy a" for a
    by (auto simp: opt_ok_def word_tidy split: option.splits)
  note p = assms [unfolded printable_def]
  have "opt_ok tidy (kernel_arg e)"
    using p by (auto simp: opt_ok_def kernel_arg_def word_tidy tidy_two split: option.splits)
  moreover have "opt_ok tidy (root_arg e)"
    using tidy_two [OF menu_words(9) word_tidy [OF word_ide_arg]]
      word_tidy [OF menu_words(7)] word_tidy [OF menu_words(8)]
    by (simp add: opt_ok_def root_arg_def)
  moreover have "list_all plain (map (keyword_line ''module'') (map eo_name (me_modules e)))"
    using p plain_keyword_line [OF word_plain [OF menu_words(5)] word_tidy]
    by (auto simp: list_all_iff)
  ultimately show ?thesis
    using p opt wt menu_words unfolding body_lines_def by simp
qed

lemma render_plain:
  assumes "printable e"
  shows "list_all plain (render e)"
proof -
  have "word ''title''" by (simp add: word_def isspace_def isblank_def)
  from assms obtain t where t: "me_title e = Some t" "tidy t" by (auto simp: printable_def opt_ok_def)
  then have "plain (keyword_line ''title'' t)"
    using plain_keyword_line [OF word_plain [OF \<open>word ''title''\<close>]] by blast
  with t body_plain [OF assms] show ?thesis by (simp add: render_def)
qed

lemma menu_plain: "list_all printable es \<Longrightarrow> list_all plain (concat (map render es))"
  by (induction es) (simp_all add: render_plain)

text \<open>Menus that end in an entry without a kernel, and entries with too many modules.\<close>

lemma incomplete_tail:
  assumes "list_all printable es" and "printable e" and "tidy t"
  shows "spec_in menu_lst_dialect cnt menu True e (concat (map render es) @ [keyword_line ''title'' t])
    = Some (0, menu @ e # es)"
  using assms
proof (induction es arbitrary: cnt menu e)
  case Nil
  then show ?case by (simp add: spec_in_title spec_top_title spec_in.simps(1))
next
  case (Cons e1 es)
  then obtain u where "me_title e1 = Some u" "tidy u" by (auto simp: printable_def opt_ok_def)
  with Cons show ?case
    by (simp add: render_def spec_in_title spec_top_title render_body)
qed

lemma incomplete_menu:
  assumes "list_all printable es" and "tidy t"
  shows "spec_top menu_lst_dialect cnt menu (concat (map render es) @ [keyword_line ''title'' t])
    = Some (0, menu @ es)"
proof (cases es)
  case Nil
  with assms show ?thesis by (simp add: spec_top_title spec_in.simps(1))
next
  case (Cons e es')
  with assms obtain u where "me_title e = Some u" "tidy u" by (auto simp: printable_def opt_ok_def)
  with Cons assms show ?thesis
    by (simp add: render_def spec_top_title render_body incomplete_tail)
qed

lemma overflow_modules:
  assumes "list_all word ms" and "MAX_MODULES < modules_cnt e + length ms" and "modules_cnt e \<le> MAX_MODULES"
  shows "spec_in menu_lst_dialect cnt menu k e (map (keyword_line ''module'') ms) = None"
  using assms
proof (induction ms arbitrary: e)
  case (Cons m ms)
  show ?case
  proof (cases "modules_cnt e < MAX_MODULES")
    case True
    with Cons spec_in_line [OF menu_words(5) word_tidy _ fill_word(4)] show ?thesis
      by (simp add: add_module_def modules_cnt_def)
  next
    case False
    with Cons clean_keyword_line [OF menu_words(5) word_tidy] menu_words(5) word_tidy [of m]
    show ?thesis
      using keyword_line_arg [of "''module''" m]
      by (simp add: spec_in.simps menu_lst_dialect_def Let_def overflows_def)
  qed
qed simp

lemma overflow_plain:
  assumes "tidy t" and "list_all word ms"
  shows "list_all plain (keyword_line ''title'' t # map (keyword_line ''module'') ms)"
proof -
  have "word ''title''" by (simp add: word_def isspace_def isblank_def)
  then have "plain (keyword_line ''title'' t)"
    using plain_keyword_line [OF word_plain] assms(1) by blast
  moreover have "list_all plain (map (keyword_line ''module'') ms)"
    using assms(2) plain_keyword_line [OF word_plain [OF menu_words(5)] word_tidy]
    by (auto simp: list_all_iff)
  ultimately show ?thesis by simp
qed

lemma overflow_menu:
  assumes "tidy t" and "list_all word ms" and "MAX_MODULES < length ms"
  shows "spec_top menu_lst_dialect cnt menu (keyword_line ''title'' t # map (keyword_line ''module'') ms) = None"
  using assms by (simp add: spec_top_title overflow_modules entry_alloc_def modules_cnt_def)

end
