(* ===== verification/Boot_Menu.thy ===== *)
theory Boot_Menu
  imports Boot_Aros Menu_Lines
begin

text \<open>
  The menu of the device the program was started from, read through the interface \<open>boot_files\<close>, and the way
  from the entry point to the kernel of its first entry, for a device without a state in the world: the
  network and CDs are such devices.
\<close>

subsection \<open>The menu of one device\<close>

definition menu_text :: "menu_t list \<Rightarrow> char list" where
  "menu_text es = text_of (concat (map render es))"

lemma menu_text_pos: "es \<noteq> [] \<Longrightarrow> 0 < length (menu_text es)"
  by (cases es) (simp_all add: menu_text_def render_def text_of_def)

lemma menu_text_parsed:
  assumes "list_all printable es" and "es \<noteq> []" and "menu \<noteq> []"
  shows "fsm (menu_text es @ rest) (int (length (menu_text es))) menu = Some (1, menu @ es)"
proof -
  have "concat (map render es) \<noteq> []" using assms(2) by (cases es) (simp_all add: render_def)
  from fsm_refines_text [OF menu_plain [OF assms(1)] assms(3) buf_ok_text [OF this], of rest]
  show ?thesis using render_menu [OF assms(1,2)] by (simp add: menu_text_def)
qed

lemma chars_append: "chars (a @ b) = chars a @ chars b"
  by (simp add: chars_def)

text \<open>A console on a serial line where no key is pressed.\<close>

definition quiet_serial :: "'w context_t \<Rightarrow> bool" where
  "quiet_serial ctx \<longleftrightarrow> (\<exists>s. NUL \<notin> set s \<and> s \<noteq> ''vga'' \<and> (\<forall>w. getenv ctx ''stdout'' w = Some s))
     \<and> (\<forall>w. fst (tstc ctx w) = 0)"

lemma quiet_display:
  assumes "quiet_serial ctx" and "me_default_os h = Some 0" and "me_delay h = Some 5"
  shows "\<exists>w'. menu_display ctx (h # e # es) w = Some (Some e, w')"
proof -
  from assms(1) obtain s where s: "NUL \<notin> set s" "s \<noteq> ''vga''" "\<forall>w. getenv ctx ''stdout'' w = Some s"
    and quiet: "\<forall>w. fst (tstc ctx w) = 0" unfolding quiet_serial_def by blast
  from serial_timeout [OF _ quiet assms(2) _ assms(3), of "e # es" w] show ?thesis
    unfolding serial_display [OF s(3,1,2)] by auto
qed

context boot_files begin

lemma menu_read:
  assumes "alloc_ok ctx" and "usable d w" and "holds ''menu.lst'' (bytes_of (menu_text es))"
    and "length (menu_text es) \<le> 65536" and "list_all printable es" and "es \<noteq> []" and "self \<noteq> []"
  shows "\<exists>d' w'. dev_load ctx self d w = Some ((1, self @ es), d', w') \<and> usable d' w'"
proof -
  have "length (bytes_of (menu_text es)) \<le> 65536" using assms(4) by (simp add: bytes_of_def)
  from load_in_block [OF assms(1-3) this] obtain r d' w' where
    "dev_load_file ctx d ''menu.lst'' (fst (malloc ctx 65536 w)) (snd (malloc ctx 65536 w))
      = Some ((int (length (menu_text es)), bytes_of (menu_text es) @ r), d', w')" "usable d' w'"
    by (auto simp: bytes_of_def)
  then show ?thesis
    using menu_text_pos [OF assms(6)] menu_text_parsed [OF assms(5-7), of "chars r"]
    by (simp add: dev_load_def chars_append case_prod_beta)
qed

end

context static_files begin

lemma device_bootstrap:
  assumes alloc: "alloc_ok ctx" and boots: "\<And>w. \<exists>d w'. get_booting_device ctx w = Some (Some d, w') \<and> usable d w'"
    and rdb: "\<forall>w. \<exists>table w'. RdbPartitionTable_init ctx w = Some (table, w')" and quiet: "quiet_serial ctx"
    and menu: "holds ''menu.lst'' (bytes_of (menu_text (e # es)))" "length (menu_text (e # es)) \<le> 65536"
      "list_all printable (e # es)"
    and other: "me_other e = None"
    and dev: "\<And>table d w. usable d w \<Longrightarrow> \<exists>d' w'. entry_device ctx table e (Some d) w = Some (Some d', w') \<and> usable d' w'"
  shows "\<exists>d w'. boot_choice ctx ver w = Some (e, d, w') \<and> usable d w'"
proof -
  define w1 where "w1 = video_draw_text ctx 5 4 0 ('' Parthenope (ub2lb) version 0.'' @ ver) 80
    (video_clear ctx (snd (malloc ctx 12 w)))"
  from rdb obtain table w2 where t: "RdbPartitionTable_init ctx w1 = Some (table, w2)" by blast
  from boots obtain d w3 where d: "get_booting_device ctx w2 = Some (Some d, w3)" "usable d w3" by blast
  from menu_read [OF alloc d(2) menu _, of "[menu_head]"] obtain d' w4 where
    l: "menu_load ctx table (Some d) w3 = Some (Some (menu_head # e # es), Some d', w4)" and d': "usable d' w4"
    by (auto simp: menu_load_def)
  from quiet_display [OF quiet, of menu_head e es w4] obtain w5 where
    p: "menu_display ctx (menu_head # e # es) w4 = Some (Some e, w5)" by (auto simp: menu_head_def)
  from dev [OF always_usable [OF d']] obtain d'' w6 where
    en: "entry_device ctx table e (Some d') w5 = Some (Some d'', w6)" "usable d'' w6" by blast
  with t [unfolded w1_def] d(1) l p other have "boot_choice ctx ver w = Some (e, d'', w6)"
    by (simp add: boot_choice_def guard_def)
  with en(2) show ?thesis by blast
qed

end

subsection \<open>The partition table of a machine that is not started from its disk\<close>

text \<open>The first hard disk of a scan, if there is one, has a valid RDB.\<close>

definition disks_readable :: "'w context_t \<Rightarrow> bool" where
  "disks_readable ctx \<longleftrightarrow> (\<forall>w. \<exists>hnd bs w1 us. start_unit_scan ctx get_scan_list w = ((hnd, bs), w1) \<and> scanned ctx hnd w1 us
     \<and> (case find is_disk us of None \<Rightarrow> True
        | Some h \<Rightarrow> \<exists>disk rdb ps. reads_from (ush_device h) disk \<and> boot_disk disk rdb ps))"

lemma table_read:
  assumes "alloc_ok ctx" and "disks_readable ctx"
  shows "\<exists>t w'. RdbPartitionTable_init ctx w = Some (t, w')"
proof -
  from assms(2) obtain hnd bs w1 us where
    s: "start_unit_scan ctx get_scan_list w = ((hnd, bs), w1)" "scanned ctx hnd w1 us"
    and r: "case find is_disk us of None \<Rightarrow> True
      | Some h \<Rightarrow> \<exists>disk rdb ps. reads_from (ush_device h) disk \<and> boot_disk disk rdb ps"
    unfolding disks_readable_def by blast
  from get_dev_first [OF s] obtain w2 where g: "get_dev ctx w = Some (map_option ush_device (find is_disk us), w2)" by blast
  show ?thesis
  proof (cases "find is_disk us")
    case None
    with g show ?thesis by (simp add: RdbPartitionTable_init_def)
  next
    case (Some h)
    with r obtain disk rdb ps where "reads_from (ush_device h) disk" "boot_disk disk rdb ps" by auto
    from boot_disk_table [OF assms(1) this] g Some show ?thesis by fastforce
  qed
qed

subsection \<open>The network\<close>

lemma get_booting_device_net:
  assumes "get_curr_device ctx = Some u" and "bd_type (ush_device u) = DEV_TYPE_NETBOOT"
  shows "\<exists>d w'. get_booting_device ctx w = Some (Some d, w') \<and> d = Tftp_dev"
  using assms by (simp add: get_booting_device_def tftp_create_def case_prod_beta)

lemma entry_device_net:
  assumes "me_device_type e \<in> {DEFAULT_TYPE, TFTP_TYPE}"
  shows "\<exists>d' w'. entry_device ctx table e (Some Tftp_dev) w = Some (Some d', w') \<and> d' = Tftp_dev"
  using assms by (auto simp: entry_device_def tftp_create_def case_prod_beta)

subsection \<open>CDs\<close>

lemma entry_device_default:
  assumes "me_device_type e = DEFAULT_TYPE" and "P d"
  shows "\<exists>d' w'. entry_device ctx table e (Some d) w = Some (Some d', w') \<and> P d'"
  using assms by (simp add: entry_device_def)

text \<open>A machine that was started from a CD without Rock Ridge names, in the first drive of a scan.\<close>

definition cd_machine :: "'w context_t \<Rightarrow> byte list \<Rightarrow> nat \<Rightarrow> nat \<Rightarrow> nat \<Rightarrow> bool" where
  "cd_machine ctx img N b s \<longleftrightarrow>
     (\<exists>u. get_curr_device ctx = Some u \<and> bd_type (ush_device u) = DEV_TYPE_CDROM)
     \<and> fresh_ok ctx img N \<and> iso_disc img N b s \<and> rock_ridge (sua_of img b) 0
     \<and> (\<forall>w. \<exists>hnd bs w1 us h. start_unit_scan ctx get_scan_list (snd (start_unit_scan ctx [] w)) = ((hnd, bs), w1)
          \<and> scanned ctx hnd w1 us \<and> find is_cd us = Some h \<and> cd_reads (ush_device h) img N)"

lemma get_booting_device_cd:
  assumes "alloc_ok ctx" and "cd_machine ctx img N b s"
  shows "\<exists>d w'. get_booting_device ctx w = Some (Some d, w') \<and> cd_usable ctx img N b s d"
proof -
  from assms(2) have m: "fresh_ok ctx img N" "iso_disc img N b s" "rock_ridge (sua_of img b) 0"
    by (simp_all add: cd_machine_def)
  from assms(2) obtain u where u: "get_curr_device ctx = Some u" "bd_type (ush_device u) = DEV_TYPE_CDROM"
    by (auto simp: cd_machine_def)
  from assms(2) obtain hnd bs w1 us h where
    "start_unit_scan ctx get_scan_list (snd (start_unit_scan ctx [] w)) = ((hnd, bs), w1)" "scanned ctx hnd w1 us"
    "find is_cd us = Some h" "cd_reads (ush_device h) img N" unfolding cd_machine_def by blast
  from cdrom_create_usable [OF assms(1) m(1) this m(2,3)] u show ?thesis by (auto simp: get_booting_device_def)
qed

end
