(* ===== verification/Boot_Disk.thy ===== *)
theory Boot_Disk
  imports Boot_Menu
begin

text \<open>
  Booting from a hard disk: the menus of the ext2 and SFS partitions of a disk with an RDB are read and put together,
  one of their entries is taken, and its kernel is loaded from the partition the entry belongs to.
\<close>

subsection \<open>The partitions of a disk\<close>

text \<open>What is on a partition: nothing the loader knows, or a file system with a menu, which may be empty.\<close>

datatype 'w volume = Other_volume
  | Ext2_volume "'w ext2_view" int "string \<Rightarrow> byte list option" "menu_t list"
  | Sfs_volume "u32 \<Rightarrow> byte list option" u32 u32 "menu_t list"

primrec entries_of :: "'w volume \<Rightarrow> menu_t list" where
  "entries_of Other_volume = []"
| "entries_of (Ext2_volume V n files es) = es"
| "entries_of (Sfs_volume fs b x es) = es"

definition no_ext2 :: "'w context_t \<Rightarrow> 'w RdbPartition \<Rightarrow> bool" where
  "no_ext2 ctx p \<longleftrightarrow> (\<forall>w. fst (ext2_create ctx p w) = None)"

definition no_sfs :: "'w context_t \<Rightarrow> 'w RdbPartition \<Rightarrow> bool" where
  "no_sfs ctx p \<longleftrightarrow> (\<exists>sb v. (\<forall>buf w. \<exists>r w'.
     loadsector ctx (dp_start (rp_info p)) (dp_blksz (rp_info p)) 64 buf w = ((r, sb), w'))
     \<and> be32 sb 0 = Some v \<and> v \<noteq> SRB_ID)"

definition sfs_lacks :: "(u32 \<Rightarrow> byte list option) \<Rightarrow> u32 \<Rightarrow> string \<Rightarrow> bool" where
  "sfs_lacks fs b f \<longleftrightarrow> (\<exists>path. path_ok path \<and> hd path \<noteq> [] \<and> f = join_path path \<and> lookup fs b path None)"

primrec vol_opens :: "'w context_t \<Rightarrow> 'w RdbPartition \<Rightarrow> 'w volume \<Rightarrow> bool" where
  "vol_opens ctx p Other_volume \<longleftrightarrow> no_ext2 ctx p \<and> no_sfs ctx p"
| "vol_opens ctx p (Ext2_volume V n files es) \<longleftrightarrow> ext2_partition ctx V n files p"
| "vol_opens ctx p (Sfs_volume fs b x es) \<longleftrightarrow> no_ext2 ctx p \<and> sfs_partition ctx p fs b x"

primrec vol_usable :: "'w context_t \<Rightarrow> 'w volume \<Rightarrow> 'w boot_dev_t \<Rightarrow> 'w \<Rightarrow> bool" where
  "vol_usable ctx Other_volume d w \<longleftrightarrow> False"
| "vol_usable ctx (Ext2_volume V n files es) d w \<longleftrightarrow> ext2_usable ctx V n files d w"
| "vol_usable ctx (Sfs_volume fs b x es) d w \<longleftrightarrow> sfs_usable ctx fs b x d"

primrec vol_holds :: "'w context_t \<Rightarrow> 'w volume \<Rightarrow> string \<Rightarrow> byte list \<Rightarrow> bool" where
  "vol_holds ctx Other_volume f c \<longleftrightarrow> False"
| "vol_holds ctx (Ext2_volume V n files es) f c \<longleftrightarrow> ext2_holds files f c"
| "vol_holds ctx (Sfs_volume fs b x es) f c \<longleftrightarrow> sfs_holds fs b x f c"

primrec vol_lacks :: "'w volume \<Rightarrow> string \<Rightarrow> bool" where
  "vol_lacks Other_volume f \<longleftrightarrow> True"
| "vol_lacks (Ext2_volume V n files es) f \<longleftrightarrow> files f = None"
| "vol_lacks (Sfs_volume fs b x es) f \<longleftrightarrow> sfs_lacks fs b f"

interpretation vol: boot_files ctx "vol_usable ctx v" "vol_holds ctx v" for ctx :: "'w context_t" and v
proof
  fix d :: "'w boot_dev_t" and f c and b :: "byte list" and w :: 'w
  assume "vol_usable ctx v d w" "vol_holds ctx v f c" "length c \<le> length b"
  then show "\<exists>d' w'. dev_load_file ctx d f b w = Some ((int (length c), c @ drop (length c) b), d', w') \<and> vol_usable ctx v d' w'"
    using ext2.load_held [of ctx _ _ _ d w f c b] sfs.load_held [of ctx _ _ _ d f c b w] by (cases v) auto
next
  fix d :: "'w boot_dev_t" and w w' :: 'w
  assume "vol_usable ctx v d w" "side_calls ctx w w'"
  then show "vol_usable ctx v d w'" using ext2.side_usable [of ctx _ _ _ d w w'] by (cases v) auto
qed

text \<open>The environment is no part of the devices.\<close>

lemma vol_setenv: "vol_usable ctx v d w \<Longrightarrow> vol_usable ctx v d (setenv ctx ''bootargs'' s w)"
  using ext2_setenv [of ctx _ _ _ d w s] by (cases v) auto

lemma vol_holds_some: "vol_holds ctx v f c \<Longrightarrow> v \<noteq> Other_volume"
  by (cases v) simp_all

text \<open>What a partition stores.\<close>

definition stores :: "'w context_t \<Rightarrow> 'w RdbPartition \<Rightarrow> 'w volume \<Rightarrow> bool" where
  "stores ctx p v \<longleftrightarrow> vol_opens ctx p v
     \<and> (if entries_of v = [] then vol_lacks v ''menu.lst'' \<and> vol_lacks v ''boot/menu.lst''
          \<and> vol_lacks v ''Kickstart/Kicklayout''
        else list_all printable (entries_of v) \<and> length (menu_text (entries_of v)) \<le> 65536
          \<and> vol_holds ctx v ''menu.lst'' (bytes_of (menu_text (entries_of v))))"

lemma vol_dev:
  assumes "vol_opens ctx p v" and "v \<noteq> Other_volume"
  shows "\<exists>d w'. partition_dev ctx p w = Some (Some d, w') \<and> vol_usable ctx v d w'"
  using assms partition_dev_ext2 [of ctx _ _ _ p w] partition_dev_sfs [of ctx p _ _ _ w]
  by (cases v) (simp_all add: no_ext2_def)

lemma no_volume_dev:
  assumes "no_ext2 ctx p" and "no_sfs ctx p"
  shows "\<exists>w'. partition_dev ctx p w = Some (None, w')"
proof -
  obtain w1 where e: "ext2_create ctx p w = (None, w1)" using assms(1) unfolding no_ext2_def by (metis prod.collapse)
  from assms(2) obtain sb v where
    ld: "\<And>buf w. \<exists>r w'. loadsector ctx (dp_start (rp_info p)) (dp_blksz (rp_info p)) 64 buf w = ((r, sb), w')"
    and v: "be32 sb 0 = Some v" "v \<noteq> SRB_ID" unfolding no_sfs_def by blast
  obtain buf w2 where m: "malloc ctx (64 * 512) (snd (malloc ctx 24 w1)) = (buf, w2)" by force
  from ld obtain r w3 where "loadsector ctx (dp_start (rp_info p)) (dp_blksz (rp_info p)) 64 buf w2 = ((r, sb), w3)" by blast
  with m v have "sfs_create ctx p w1 = Some (None, w3)" by (simp add: sfs_create_def sbh_id_def case_prod_beta)
  with e show ?thesis by (simp add: partition_dev_def)
qed

lemma lacking_load:
  assumes "vol_usable ctx v d w" and "vol_lacks v f"
  shows "\<exists>n w'. dev_load_file ctx d f buf w = Some ((n, buf), d, w') \<and> n < 0 \<and> vol_usable ctx v d w'"
proof (cases v)
  case (Ext2_volume V n files es)
  with assms have "ext2_usable ctx V n files d w" "files f = None" by simp_all
  from ext2_missing [OF this, of buf] Ext2_volume show ?thesis by auto
next
  case (Sfs_volume fs b x es)
  with assms have "sfs_usable ctx fs b x d" "sfs_lacks fs b f" by simp_all
  then obtain self path where d: "d = Sfs_dev self" and
    a: "sfs_reads ctx self fs" "lookup fs b path None" "path_ok path" "hd path \<noteq> []" "be32 (sd_root self) 16 = Some b"
      "f = join_path path" unfolding sfs_usable_def sfs_lacks_def by blast
  from sfs_loadfile_missing [OF a(1-5), of f buf w] a(6) Sfs_volume assms(1) show ?thesis
    by (auto simp: d dev_load_file_def)
qed (use assms in simp)

text \<open>The menu of a partition is appended, whatever the menu was.\<close>

lemma stored_menu:
  assumes alloc: "alloc_ok ctx" and st: "stores ctx p v" and "v \<noteq> Other_volume" and self: "self \<noteq> []"
  shows "\<exists>d d' w1 w2. partition_dev ctx p w = Some (Some d, w1)
    \<and> dev_load ctx self d w1 = Some ((if entries_of v = [] then 0 else 1, self @ entries_of v), d', w2)"
proof -
  from vol_dev [OF _ assms(3), of ctx p w] st obtain d w1 where
    d: "partition_dev ctx p w = Some (Some d, w1)" "vol_usable ctx v d w1" by (auto simp: stores_def)
  show ?thesis
  proof (cases "entries_of v = []")
    case True
    with st have l: "vol_lacks v ''menu.lst''" "vol_lacks v ''boot/menu.lst''" "vol_lacks v ''Kickstart/Kicklayout''"
      by (simp_all add: stores_def)
    obtain buf w2 where m: "malloc ctx 65536 w1 = (buf, w2)" by force
    have "vol_usable ctx v d w2" using d(2) side_mallocD [OF m] by (rule vol.side_usable)
    from lacking_load [OF this l(1), of buf] obtain n3 w3 where
      a: "dev_load_file ctx d ''menu.lst'' buf w2 = Some ((n3, buf), d, w3)" "n3 < 0" "vol_usable ctx v d w3" by blast
    from lacking_load [OF a(3) l(2), of buf] obtain n4 w4 where
      b: "dev_load_file ctx d ''boot/menu.lst'' buf w3 = Some ((n4, buf), d, w4)" "n4 < 0" "vol_usable ctx v d w4" by blast
    from lacking_load [OF b(3) l(3), of buf] obtain n5 w5 where
      c: "dev_load_file ctx d ''Kickstart/Kicklayout'' buf w4 = Some ((n5, buf), d, w5)" "n5 < 0" by blast
    show ?thesis using True d(1) m a b c by (simp add: dev_load_def)
  next
    case False
    with st vol.menu_read [OF alloc d(2) _ _ _ False self] d(1) show ?thesis by (auto simp: stores_def)
  qed
qed

subsection \<open>The menu of a disk\<close>

text \<open>An entry read from partition \<open>i\<close>: it belongs to this partition unless it names a device.\<close>

definition read_from :: "nat \<Rightarrow> menu_t \<Rightarrow> menu_t" where
  "read_from i e = (if me_device_type e = DEFAULT_TYPE
     then e\<lparr>me_device_type := IDE_TYPE, me_device_num := 0, me_partition := int i\<rparr> else e)"

lemma set_partition_eq: "set_partition i = read_from i"
  by (rule ext) (simp add: set_partition_def read_from_def)

text \<open>The entries of partition \<open>i\<close> and of those after it.\<close>

fun collected :: "nat \<Rightarrow> 'w volume list \<Rightarrow> menu_t list" where
  "collected i [] = []"
| "collected i (v # vs) = map (read_from i) (entries_of v) @ collected (Suc i) vs"

definition menu_count :: "'w volume list \<Rightarrow> nat" where
  "menu_count vs = length (filter (\<lambda>v. entries_of v \<noteq> []) vs)"

lemma menu_count_pos: "menu_count vs = 0 \<longleftrightarrow> collected i vs = []"
  by (induction vs arbitrary: i) (simp_all add: menu_count_def)

lemma placed_fixed: "\<forall>e \<in> set es. me_device_type e \<noteq> DEFAULT_TYPE \<Longrightarrow> map (set_partition i) es = es"
  by (induction es) (simp_all add: set_partition_def)

lemma placed_options [simp]:
  "me_default_os (set_partition i e) = me_default_os e" "me_delay (set_partition i e) = me_delay e"
  by (simp_all add: set_partition_def)

lemma magic_loop_volumes:
  assumes alloc: "alloc_ok ctx"
  shows "list_all2 (stores ctx) qs vs \<Longrightarrow> i + length qs \<le> RDB_LOCATION_LIMIT
    \<Longrightarrow> \<forall>j < length qs. RdbPartitionTable_get table 0 (of_nat (i + j)) = Some (qs ! j)
    \<Longrightarrow> i + length qs < RDB_LOCATION_LIMIT \<longrightarrow> RdbPartitionTable_get table 0 (of_nat (i + length qs)) = None
    \<Longrightarrow> \<forall>e \<in> set es. me_device_type e \<noteq> DEFAULT_TYPE
    \<Longrightarrow> \<exists>h' w'. magic_loop ctx table [i..<RDB_LOCATION_LIMIT] n (h # es) w
          = Some ((n + int (menu_count vs), h' # es @ collected i vs), w')
        \<and> me_default_os h' = me_default_os h \<and> me_delay h' = me_delay h"
proof (induction qs arbitrary: vs i n h es w)
  case Nil
  then show ?case by (cases "i < RDB_LOCATION_LIMIT") (auto simp: upt_conv_Cons menu_count_def)
next
  case (Cons q qs)
  from Cons.prems(1) obtain v vs' where vs: "vs = v # vs'" and v: "stores ctx q v" "list_all2 (stores ctx) qs vs'"
    by (auto simp: list_all2_Cons1)
  have i: "[i..<RDB_LOCATION_LIMIT] = i # [Suc i..<RDB_LOCATION_LIMIT]" using Cons.prems(2) by (simp add: upt_conv_Cons)
  have g: "RdbPartitionTable_get table 0 (of_nat i) = Some q" using Cons.prems(3) by auto
  have "\<forall>j < length qs. RdbPartitionTable_get table 0 (of_nat (Suc i + j)) = Some (qs ! j)"
    using Cons.prems(3) by (metis Suc_less_eq add_Suc_right add_Suc length_Cons nth_Cons_Suc)
  moreover have "Suc i + length qs \<le> RDB_LOCATION_LIMIT" using Cons.prems(2) by simp
  moreover have "Suc i + length qs < RDB_LOCATION_LIMIT \<longrightarrow> RdbPartitionTable_get table 0 (of_nat (Suc i + length qs)) = None"
    using Cons.prems(4) by simp
  ultimately have IH: "\<exists>h' w'. magic_loop ctx table [Suc i..<RDB_LOCATION_LIMIT] n (h # es) w
        = Some ((n + int (menu_count vs'), h' # es @ collected (Suc i) vs'), w')
      \<and> me_default_os h' = me_default_os h \<and> me_delay h' = me_delay h"
    if "\<forall>e \<in> set es. me_device_type e \<noteq> DEFAULT_TYPE" for n h es w
    using Cons.IH [OF v(2)] that by blast
  show ?case
  proof (cases "v = Other_volume")
    case True
    with v(1) no_volume_dev [of ctx q w] obtain w1 where "partition_dev ctx q w = Some (None, w1)"
      by (auto simp: stores_def)
    with IH [OF Cons.prems(5), of n h w1] show ?thesis
      unfolding i by (simp add: g vs True menu_count_def)
  next
    case False
    define ms where "ms = entries_of v"
    from stored_menu [OF alloc v(1) False, of "h # es" w, folded ms_def] obtain d d' w1 w2 where
      d: "partition_dev ctx q w = Some (Some d, w1)"
      "dev_load ctx (h # es) d w1 = Some ((if ms = [] then 0 else 1, (h # es) @ ms), d', w2)" by auto
    let ?es = "es @ map (set_partition i) ms"
    have "magic_loop ctx table (i # [Suc i..<RDB_LOCATION_LIMIT]) n (h # es) w
        = magic_loop ctx table [Suc i..<RDB_LOCATION_LIMIT] (n + (if ms = [] then 0 else 1)) (set_partition i h # ?es) w2"
      using d placed_fixed [OF Cons.prems(5)] by (simp add: g)
    moreover have "\<forall>e \<in> set ?es. me_device_type e \<noteq> DEFAULT_TYPE" using Cons.prems(5) by (auto simp: set_partition_type)
    from IH [OF this, of "n + (if ms = [] then 0 else 1)" "set_partition i h" w2] obtain h' w' where
      "magic_loop ctx table [Suc i..<RDB_LOCATION_LIMIT] (n + (if ms = [] then 0 else 1)) (set_partition i h # ?es) w2
        = Some ((n + (if ms = [] then 0 else 1) + int (menu_count vs'), h' # ?es @ collected (Suc i) vs'), w')"
      "me_default_os h' = me_default_os h" "me_delay h' = me_delay h" by auto
    ultimately show ?thesis
      unfolding i by (intro exI [of _ h'] exI [of _ w']) (simp add: vs ms_def menu_count_def set_partition_eq)
  qed
qed

text \<open>The partitions in the table.\<close>

definition in_table :: "'w rdb_table \<Rightarrow> 'w RdbPartition list \<Rightarrow> bool" where
  "in_table t qs \<longleftrightarrow> length qs \<le> RDB_LOCATION_LIMIT \<and> (\<forall>i < RDB_LOCATION_LIMIT. \<forall>d.
     RdbPartitionTable_get t d (of_nat i) = (if i < length qs then Some (qs ! i) else None))"

lemma disk_menu_load:
  assumes "alloc_ok ctx" and "list_all2 (stores ctx) qs vs" and t: "in_table table qs"
  shows "\<exists>h w'. menu_load ctx table None w = Some (if collected 0 vs = [] then None else Some (h # collected 0 vs), None, w')
    \<and> me_default_os h = Some 0 \<and> me_delay h = Some 5"
proof -
  have "\<forall>j < length qs. RdbPartitionTable_get table 0 (of_nat (0 + j)) = Some (qs ! j)"
    and "0 + length qs < RDB_LOCATION_LIMIT \<longrightarrow> RdbPartitionTable_get table 0 (of_nat (0 + length qs)) = None"
    using t by (auto simp: in_table_def)
  from magic_loop_volumes [OF assms(1,2) _ this, of "[]" 0 menu_head w] t [unfolded in_table_def] obtain h w' where
    l: "magic_loop ctx table [0..<RDB_LOCATION_LIMIT] 0 [menu_head] w = Some ((int (menu_count vs), h # collected 0 vs), w')"
    and h: "me_default_os h = me_default_os menu_head" "me_delay h = me_delay menu_head" by auto
  have "menu_load ctx table None w = Some (if collected 0 vs = [] then None else Some (h # collected 0 vs), None, w')"
    using l menu_count_pos [of vs 0] by (simp add: menu_load_def magic_load_def del: upt_rec_numeral)
  then show ?thesis using h by (auto simp: menu_head_def)
qed

subsection \<open>From power-on to the kernel\<close>

text \<open>A machine that was started from a hard disk, the first that a scan of its units finds.\<close>

definition disk_machine :: "'w context_t \<Rightarrow> 'w block_dev_desc \<Rightarrow> bool" where
  "disk_machine ctx dev \<longleftrightarrow>
     (\<exists>u. get_curr_device ctx = Some u \<and> bd_type (ush_device u) = DEV_TYPE_HARDDISK)
     \<and> (\<forall>w. \<exists>hnd bs w1 us h. start_unit_scan ctx get_scan_list w = ((hnd, bs), w1) \<and> scanned ctx hnd w1 us
          \<and> find is_disk us = Some h \<and> ush_device h = dev)"

text \<open>Partition \<open>i\<close> of the disk, as the table describes it, has the contents \<open>vs ! i\<close>.\<close>

definition disk_volumes :: "'w context_t \<Rightarrow> 'w block_dev_desc \<Rightarrow> byte list \<Rightarrow> byte list list \<Rightarrow> 'w volume list \<Rightarrow> bool" where
  "disk_volumes ctx dev rdb ps vs \<longleftrightarrow> length vs = length ps \<and> length ps \<le> RDB_LOCATION_LIMIT
     \<and> (\<forall>i < length ps. \<forall>q. describes rdb dev i (ps ! i) q \<longrightarrow> stores ctx q (vs ! i))"

lemma disk_table:
  assumes "alloc_ok ctx" and "disk_machine ctx dev" and "reads_from dev disk" and "boot_disk disk rdb ps"
    and "disk_volumes ctx dev rdb ps vs"
  shows "\<exists>t qs w'. RdbPartitionTable_init ctx w = Some (t, w') \<and> list_all2 (stores ctx) qs vs \<and> in_table t qs"
proof -
  from assms(2) obtain hnd bs w1 us h where
    "start_unit_scan ctx get_scan_list w = ((hnd, bs), w1)" "scanned ctx hnd w1 us" "find is_disk us = Some h" "ush_device h = dev"
    unfolding disk_machine_def by blast
  with get_dev_first obtain w2 where "get_dev ctx w = Some (Some dev, w2)" by fastforce
  from boot_disk_table [OF assms(1,3,4) this] obtain t w' where t: "RdbPartitionTable_init ctx w = Some (t, w')"
    and e: "\<forall>i < RDB_LOCATION_LIMIT. if i < length ps then \<exists>r. t ! i = Some r \<and> describes rdb dev i (ps ! i) r else t ! i = None"
    by blast
  have len: "length vs = length ps" "length ps \<le> RDB_LOCATION_LIMIT" using assms(5) by (simp_all add: disk_volumes_def)
  define qs where "qs = map (\<lambda>i. the (t ! i)) [0..<length ps]"
  have q: "t ! i = Some (qs ! i) \<and> describes rdb dev i (ps ! i) (qs ! i)" if "i < length ps" for i
  proof -
    from that len(2) e obtain r where "t ! i = Some r" "describes rdb dev i (ps ! i) r" by (metis less_le_trans)
    with that show ?thesis by (simp add: qs_def)
  qed
  have st: "list_all2 (stores ctx) qs vs"
    using q assms(5) len(1) by (auto simp: list_all2_conv_all_nth disk_volumes_def qs_def)
  have get: "RdbPartitionTable_get t d (of_nat i) = (if i < length qs then Some (qs ! i) else None)"
    if "i < RDB_LOCATION_LIMIT" for d i
    using table_get [OF that, of t d] q [of i] e that by (auto simp: qs_def)
  have "in_table t qs" using len(2) get by (simp add: in_table_def qs_def)
  with st t show ?thesis by blast
qed

lemma get_booting_device_disk:
  "disk_machine ctx dev \<Longrightarrow> get_booting_device ctx w = Some (None, w)"
  by (auto simp: disk_machine_def get_booting_device_def)

text \<open>Without an entry on any partition the program ends.\<close>

lemma disk_bootstrap_empty:
  assumes "alloc_ok ctx" and "disk_machine ctx dev" and "reads_from dev disk" and "boot_disk disk rdb ps"
    and "disk_volumes ctx dev rdb ps vs" and "collected 0 vs = []"
  shows "\<exists>w'. bootstrap ctx adr ver date m w = boot_exit ctx w'"
proof -
  define w1 where "w1 = video_draw_text ctx 5 4 0 ('' Parthenope (ub2lb) version 0.'' @ ver) 80
    (video_clear ctx (snd (malloc ctx 12 w)))"
  from disk_table [OF assms(1-5)] obtain t qs w2 where t: "RdbPartitionTable_init ctx w1 = Some (t, w2)"
    and q: "list_all2 (stores ctx) qs vs" "in_table t qs" by blast
  from disk_menu_load [OF assms(1) q, of w2] assms(6) obtain w3 where "menu_load ctx t None w2 = Some (None, None, w3)"
    by auto
  with t [unfolded w1_def] get_booting_device_disk [OF assms(2), of w2] show ?thesis
    by (intro exI [of _ w3]) (simp add: bootstrap_def case_prod_beta)
qed

lemma disk_bootstrap:
  assumes "alloc_ok ctx" and "disk_machine ctx dev" and "reads_from dev disk" and "boot_disk disk rdb ps"
    and "disk_volumes ctx dev rdb ps vs" and "quiet_serial ctx" and menu: "collected 0 vs = e # es"
    and e: "me_other e = None" "me_device_type e = IDE_TYPE" "me_partition e = int i"
    and i: "i < length ps" "vs ! i \<noteq> Other_volume"
  shows "\<exists>d w'. boot_choice ctx ver w = Some (e, d, w') \<and> vol_usable ctx (vs ! i) d w'"
proof -
  define w1 where "w1 = video_draw_text ctx 5 4 0 ('' Parthenope (ub2lb) version 0.'' @ ver) 80
    (video_clear ctx (snd (malloc ctx 12 w)))"
  from disk_table [OF assms(1-5)] obtain t qs w2 where t: "RdbPartitionTable_init ctx w1 = Some (t, w2)"
    and q: "list_all2 (stores ctx) qs vs" "in_table t qs" by blast
  from disk_menu_load [OF assms(1) q, of w2] menu obtain h w3 where
    l: "menu_load ctx t None w2 = Some (Some (h # e # es), None, w3)"
    and h: "me_default_os h = Some 0" "me_delay h = Some 5" by auto
  from quiet_display [OF assms(6) h, of e es w3] obtain w4 where
    p: "menu_display ctx (h # e # es) w3 = Some (Some e, w4)" by blast
  have lim: "i < length qs" "i < RDB_LOCATION_LIMIT"
    using i(1) assms(5) q(1) by (auto simp: disk_volumes_def dest: list_all2_lengthD)
  then have "stores ctx (qs ! i) (vs ! i)" using q(1) by (auto simp: list_all2_conv_all_nth)
  with vol_dev [OF _ i(2), of ctx "qs ! i" w4] obtain d w5 where
    d: "partition_dev ctx (qs ! i) w4 = Some (Some d, w5)" "vol_usable ctx (vs ! i) d w5" by (auto simp: stores_def)
  have "RdbPartitionTable_get t (of_int (me_device_num e)) (of_int (me_partition e)) = Some (qs ! i)"
    using q(2) lim e(3) by (simp add: in_table_def)
  with d(1) e(2) have d1: "entry_device ctx t e None w4 = Some (Some d, w5)" by (simp add: entry_device_def)
  have "boot_choice ctx ver w = Some (e, d, w5)"
    using t [unfolded w1_def] get_booting_device_disk [OF assms(2), of w2] l p e(1) d1
    by (simp add: boot_choice_def guard_def)
  with d(2) show ?thesis by blast
qed

end
