(* ===== verification/Samples_Boot.thy ===== *)
theory Samples_Boot
  imports Samples_Sfs Samples_Cdrom Samples_Elf Boot_Disk
begin

text \<open>
  Machines to boot from: one with a disk of one partition, an SFS file system with one file, which is the menu
  and the kernel and a module at once; one with a CD that has this file; one with a disk that has a menu and a
  kernel on SFS; one with two ext2 partitions, where the routines of U-Boot keep their state in the world; and
  one that is started from the network.
\<close>

definition disk_entry :: menu_t where
  "disk_entry = entry_alloc\<lparr>me_title := Some ''A'', me_kernel := Some ''menu.lst'',
     me_modules := [\<lparr>eo_name = ''menu.lst'', eo_args = None, eo_partition = None\<rparr>]\<rparr>"

lemma disk_entry_printable: "list_all printable [disk_entry]"
  by (simp add: printable_def disk_entry_def entry_alloc_def opt_ok_def word_def tidy_def plain_def
      isspace_def isblank_def root_ok_def modules_cnt_def)

definition disk_menu_bytes :: "byte list" where
  "disk_menu_bytes = bytes_of (menu_text [disk_entry])"

lemma disk_menu_bytes_eq:
  "disk_menu_bytes = bytes_of (''title A'' @ [chr_nl] @ ''kernel menu.lst'' @ [chr_nl] @ ''module menu.lst'' @ [chr_nl])"
  by (simp add: disk_menu_bytes_def menu_text_def render_def body_lines_def disk_entry_def entry_alloc_def keyword_line_def
      opt_line_def kernel_arg_def root_arg_def text_of_def)

lemma length_disk_menu [simp]: "length disk_menu_bytes = 40"
  by (simp add: disk_menu_bytes_eq bytes_of_def)

definition menu_dir_longs :: "nat \<Rightarrow> u32" where
  "menu_dir_longs = (\<lambda>_. 0)(0 := SOC_ID, 7 := 1, 9 := 4, 10 := 40, 12 := 0x006D656E, 13 := 0x752E6C73, 14 := 0x74000000)"

definition menu_object :: sfs_object where
  "menu_object = \<lparr>ob_fixed = concat (map split32 [0, 1, 0, 4, 40, 0]) @ [0],
     ob_name = [0x6D, 0x65, 0x6E, 0x75, 0x2E, 0x6C, 0x73, 0x74], ob_comment = []\<rparr>"

definition menu_fs :: "u32 \<Rightarrow> byte list option" where
  "menu_fs b = (if b = 2 then Some (block_of menu_dir_longs) else if b = 3 then Some (block_of sfs_node_longs)
     else if b = 4 then Some (disk_menu_bytes @ replicate 472 0) else if b = 5 then Some (block_of sfs_top_longs) else None)"

lemma menu_object_bytes:
  "object_bytes menu_object = concat (map split32 [0, 1, 0, 4, 40, 0, 0x006D656E, 0x752E6C73, 0x74000000])"
  by (simp add: object_bytes_def menu_object_def split32_def)

lemma menu_container: "container menu_fs 2 [menu_object] 0"
proof -
  have g: "sfs_good (block_of menu_dir_longs)"
    unfolding sfs_good_block_of by (simp add: menu_dir_longs_def sum_upd del: fun_upd_apply) simp
  have "\<forall>j < 9. menu_dir_longs (6 + j) = [0, 1, 0, 4, 40, 0, 0x006D656E, 0x752E6C73, 0x74000000] ! j"
    by (simp add: menu_dir_longs_def All_less_Suc numeral_eq_Suc)
  then have d: "drop 24 (block_of menu_dir_longs) = object_bytes menu_object @ drop 60 (block_of menu_dir_longs)"
    using drop_longs [of 6 "[0, 1, 0, 4, 40, 0, 0x006D656E, 0x752E6C73, 0x74000000]" menu_dir_longs]
    by (simp add: menu_object_bytes)
  have e: "container_end (drop 60 (block_of menu_dir_longs))"
    using be32_block_of [of 16 menu_dir_longs] by (simp add: container_end_def be32_drop menu_dir_longs_def)
  have "be32 (block_of menu_dir_longs) 0 = Some SOC_ID" "be32 (block_of menu_dir_longs) 16 = Some 0"
    using be32_block_of [of 0 menu_dir_longs] be32_block_of [of 4 menu_dir_longs] by (simp_all add: menu_dir_longs_def)
  moreover have "object_ok menu_object"
    by (simp add: object_ok_def menu_object_def split32_def be32_def join32_def)
  ultimately show ?thesis using g d e by (auto simp: container_def menu_fs_def)
qed

lemma menu_lookup: "lookup menu_fs 2 [''menu.lst''] (Some menu_object)"
proof -
  have d: "dir_chain menu_fs 2 ([menu_object] @ [])" using menu_container dir_end by (rule dir_more)
  have "object_matches ''menu.lst'' 0 menu_object"
    by (simp add: object_matches_def menu_object_def chars_def tolower_def char_of_def bit_Suc_0_iff)
  with look_last [OF d, of "''menu.lst''"] show ?thesis by simp
qed

lemma menu_holds: "sfs_holds menu_fs 2 3 ''menu.lst'' disk_menu_bytes"
proof -
  have "be32 (ob_fixed menu_object) 12 = Some 4" "be32 (ob_fixed menu_object) 16 = Some (of_nat 40)"
    by (simp_all add: menu_object_def split32_def be32_def join32_def)
  moreover have "extents menu_fs 3 4 [disk_menu_bytes @ replicate 472 0]"
    by (rule node_extents) (simp_all add: menu_fs_def)
  ultimately show ?thesis
    unfolding sfs_holds_def
    by (intro exI [of _ "[''menu.lst'']"] exI [of _ menu_object] exI [of _ 4] exI [of _ "[disk_menu_bytes @ replicate 472 0]"]
        exI [of _ 40])
      (simp add: path_ok_def menu_lookup)
qed

text \<open>The machine: the partition starts at sector 2, and the console is a serial line.\<close>

definition boot_dev :: "unit block_dev_desc" where
  "boot_dev = sample_dev sample_disk DEV_TYPE_HARDDISK"

definition boot_machine :: "unit context_t" where
  "boot_machine = sample_context\<lparr>c_curr_device := Some \<lparr>ush_device = boot_dev\<rparr>,
     c_start_unit_scan := (\<lambda>_ w. ((Some \<lparr>ush_device = boot_dev\<rparr>, 512), w)),
     c_getenv := (\<lambda>_ _. Some ''serial''), c_loadsector := sector_of menu_fs 2\<rparr>"

lemma boot_machine_alloc: "alloc_ok boot_machine"
  by (simp add: alloc_ok_def malloc_def boot_machine_def sample_context_def)

lemma boot_machine_disk: "disk_machine boot_machine boot_dev"
proof -
  have "scanned boot_machine (Some \<lparr>ush_device = boot_dev\<rparr>) w [\<lparr>ush_device = boot_dev\<rparr>]" for w
    by (rule scan_unit [OF _ scan_end, of _ _ _ 512]) (simp add: next_unit_scan_def boot_machine_def sample_context_def)
  then show ?thesis
    unfolding disk_machine_def
    by (auto simp: get_curr_device_def start_unit_scan_def boot_machine_def is_disk_def boot_dev_def sample_dev_def
        intro!: exI [of _ "[\<lparr>ush_device = sample_dev sample_disk 0\<rparr>]"])
qed

lemma boot_machine_quiet: "quiet_serial boot_machine"
  unfolding quiet_serial_def
  by (intro conjI exI [of _ "''serial''"])
    (simp_all add: getenv_def tstc_def boot_machine_def sample_context_def)

lemma boot_machine_volumes:
  "disk_volumes boot_machine boot_dev sample_rdb [sample_part IDNAME_FREE] [Sfs_volume menu_fs 2 3 [disk_entry]]"
proof -
  have "stores boot_machine q (Sfs_volume menu_fs 2 3 [disk_entry])"
    if "describes sample_rdb boot_dev 0 (sample_part IDNAME_FREE) q" for q
  proof -
    have "dp_start (rp_info q) = 2" using that by (simp add: describes_def sample_part_def)
    then have "sfs_partition boot_machine q menu_fs 2 3"
      by (intro sector_partition) (auto simp: boot_machine_def menu_fs_def split: if_splits)
    moreover have "no_ext2 boot_machine q"
      by (simp add: no_ext2_def ext2_create_def ext2fs_set_blk_dev_full_def boot_machine_def sample_context_def)
    moreover have "length (menu_text [disk_entry]) = 40"
      using length_disk_menu by (simp only: disk_menu_bytes_def bytes_of_def length_map)
    ultimately show ?thesis
      using menu_holds disk_entry_printable by (simp add: stores_def disk_menu_bytes_def)
  qed
  then show ?thesis by (simp add: disk_volumes_def)
qed

lemma disk_menu_raw: "raw_kernel disk_menu_bytes"
  by (simp add: raw_kernel_def disk_menu_bytes_eq bytes_of_def be32_def join32_def)

subsection \<open>The same file on a CD\<close>

definition menu_record :: "byte list" where
  "menu_record = [44, 0, 0, 0, 0, 0, 0, 0, 0, 18, 0, 0, 0, 0, 0, 0, 0, 40]
     @ [0, 0, 0, 0, 0, 0, 0, 0, 0, 0, 0, 0, 0, 0, 10] @ [0x4D, 0x45, 0x4E, 0x55, 0x2E, 0x4C, 0x53, 0x54, 0x3B, 0x31, 0]"

definition menu_disc :: "byte list" where
  "menu_disc = iso_layout [0, 0] (menu_record @ replicate 1968 0 @ disk_menu_bytes @ replicate 2008 0)"

lemma length_menu_record [simp]: "length menu_record = 44"
  by (simp add: menu_record_def)

lemma menu_disc_image: "disc_image menu_disc 19"
  by (simp add: disc_image_def menu_disc_def iso_layout_def)

lemma menu_disc_dir:
  "drop 34816 menu_disc = (36 # replicate 31 0 @ [1, 0, 0, 0]) @ menu_record @ replicate 1968 0 @ disk_menu_bytes @ replicate 2008 0"
  unfolding menu_disc_def iso_layout_drop by simp

lemma menu_disc_nth: "menu_disc ! (34816 + i) = drop 34816 menu_disc ! i"
  using menu_disc_image by (simp add: disc_image_def)

lemma menu_disc_bytes:
  "menu_disc ! 34816 = 36" "menu_disc ! 34848 = 1" "menu_disc ! 34852 = 44" "menu_disc ! 34884 = 10" "menu_disc ! 34896 = 0"
  using menu_disc_nth [of 0] menu_disc_nth [of 32] menu_disc_nth [of 36] menu_disc_nth [of 68] menu_disc_nth [of 80]
  by (simp_all add: menu_disc_dir nth_append nth_Cons' menu_record_def)

lemma menu_disc_rec: "rec_at menu_disc 34852 = take 33 menu_record"
  "ident_at menu_disc 34852 = [0x4D, 0x45, 0x4E, 0x55, 0x2E, 0x4C, 0x53, 0x54, 0x3B, 0x31]" "ident_at menu_disc 34816 = [0]"
proof -
  have "drop 36 (drop 34816 menu_disc) = menu_record @ replicate 1968 0 @ disk_menu_bytes @ replicate 2008 0"
    unfolding menu_disc_dir by simp
  then have d: "drop 34852 menu_disc = menu_record @ replicate 1968 0 @ disk_menu_bytes @ replicate 2008 0" by simp
  then show "rec_at menu_disc 34852 = take 33 menu_record" by (simp add: rec_at_def)
  have "drop 33 (drop 34852 menu_disc) = drop 33 menu_record @ replicate 1968 0 @ disk_menu_bytes @ replicate 2008 0"
    unfolding d by simp
  then show "ident_at menu_disc 34852 = [0x4D, 0x45, 0x4E, 0x55, 0x2E, 0x4C, 0x53, 0x54, 0x3B, 0x31]"
    by (simp add: ident_at_def menu_disc_bytes menu_record_def)
  have "drop 33 (drop 34816 menu_disc) = [0, 0, 0] @ menu_record @ replicate 1968 0 @ disk_menu_bytes @ replicate 2008 0"
    unfolding menu_disc_dir by simp
  then show "ident_at menu_disc 34816 = [0]" by (simp add: ident_at_def menu_disc_bytes)
qed

lemma menu_disc_names:
  "iso_string [0x4D, 0x45, 0x4E, 0x55, 0x2E, 0x4C, 0x53, 0x54, 0x3B, 0x31] = ''MENU.LST''" "iso_string [0] = ''.''"
proof -
  have "filter (\<lambda>i. ([0x4D, 0x45, 0x4E, 0x55, 0x2E, 0x4C, 0x53, 0x54, 0x3B, 0x31] :: byte list) ! i = 0x3B) [1..<10] = [8]"
    by (simp add: upt_conv_Cons)
  then show "iso_string [0x4D, 0x45, 0x4E, 0x55, 0x2E, 0x4C, 0x53, 0x54, 0x3B, 0x31] = ''MENU.LST''"
    by (simp add: iso_string_def iso_ident_def chars_def char_of_def bit_Suc_0_iff)
qed (simp add: iso_string_def)

lemma menu_disc_records:
  "dir_records menu_disc 19 17 2048 0 [(rec_at menu_disc 34816, ''.''), (take 33 menu_record, ''MENU.LST'')]"
proof -
  have e: "dir_records menu_disc 19 17 2048 2048 []" by (rule rec_end) simp
  have z: "dir_records menu_disc 19 17 2048 (36 + unat (menu_disc ! (2048 * 17 + 36))) []"
    by (rule rec_skip) (use e in \<open>simp_all add: menu_disc_bytes\<close>)
  have "dir_records menu_disc 19 17 2048 36
      [(rec_at menu_disc (2048 * 17 + 36), iso_string (ident_at menu_disc (2048 * 17 + 36)))]"
    by (rule rec_entry [OF _ _ _ _ _ z]) (simp_all add: menu_disc_bytes menu_disc_rec)
  then have f: "dir_records menu_disc 19 17 2048 (0 + unat (menu_disc ! (2048 * 17 + 0))) [(take 33 menu_record, ''MENU.LST'')]"
    by (simp add: menu_disc_rec menu_disc_names menu_disc_bytes)
  have "dir_records menu_disc 19 17 2048 0 ((rec_at menu_disc (2048 * 17 + 0), iso_string (ident_at menu_disc (2048 * 17 + 0)))
      # [(take 33 menu_record, ''MENU.LST'')])"
    by (rule rec_entry [OF _ _ _ _ _ f]) (simp_all add: menu_disc_bytes menu_disc_rec)
  then show ?thesis by (simp add: menu_disc_rec menu_disc_names)
qed

lemma menu_disc_lookup: "iso_lookup menu_disc 19 17 2048 [''menu.lst''] (Some (18, 40))"
proof -
  have "find (rec_matches ''menu.lst'' True) [(rec_at menu_disc 34816, ''.''), (take 33 menu_record, ''MENU.LST'')]
      = Some (take 33 menu_record, ''MENU.LST'')"
    by (simp add: rec_matches_def tolower_def char_of_def menu_record_def)
  moreover have "be32 (take 33 menu_record) 6 = Some 18" "be32 (take 33 menu_record) 14 = Some 40"
    by (simp_all add: be32_def menu_record_def join32_def)
  ultimately show ?thesis using iso_last [OF menu_disc_records] by force
qed

lemma menu_disc_holds: "cd_holds menu_disc 19 17 2048 ''menu.lst'' disk_menu_bytes"
proof -
  have "drop 2048 (drop 34816 menu_disc) = disk_menu_bytes @ replicate 2008 0" unfolding menu_disc_dir by simp
  then have "drop 36864 menu_disc = disk_menu_bytes @ replicate 2008 0" by simp
  then show ?thesis
    unfolding cd_holds_def using menu_disc_image
    by (intro exI [of _ "[''menu.lst'']"] exI [of _ 18] exI [of _ 40])
      (simp add: iso_path_def menu_disc_lookup disc_image_def)
qed

definition cd_boot_machine :: "unit context_t" where
  "cd_boot_machine = sample_context\<lparr>c_curr_device := Some \<lparr>ush_device = disc_drive menu_disc\<rparr>,
     c_start_unit_scan := (\<lambda>_ w. ((Some \<lparr>ush_device = disc_drive menu_disc\<rparr>, 2048), w)),
     c_getenv := (\<lambda>_ _. Some ''serial'')\<rparr>"

lemma cd_boot_machine_scan:
  "start_unit_scan cd_boot_machine l w = ((Some \<lparr>ush_device = disc_drive menu_disc\<rparr>, 2048), w)"
  "scanned cd_boot_machine (Some \<lparr>ush_device = disc_drive menu_disc\<rparr>) w [\<lparr>ush_device = disc_drive menu_disc\<rparr>]"
  using scan_unit [OF _ scan_end, of cd_boot_machine "\<lparr>ush_device = disc_drive menu_disc\<rparr>" w 512 w]
  by (simp_all add: next_unit_scan_def start_unit_scan_def cd_boot_machine_def sample_context_def)

lemma cd_boot_machine_ok:
  "alloc_ok cd_boot_machine" "quiet_serial cd_boot_machine" "disks_readable cd_boot_machine"
  "cd_machine cd_boot_machine menu_disc 19 17 2048"
proof -
  have m: "malloc cd_boot_machine n = (\<lambda>w. (replicate (nat n) 0, w))" for n
    by (simp add: malloc_def cd_boot_machine_def sample_context_def)
  then show "alloc_ok cd_boot_machine" by (simp add: alloc_ok_def)
  show "quiet_serial cd_boot_machine"
    unfolding quiet_serial_def
    by (intro conjI exI [of _ "''serial''"]) (simp_all add: getenv_def tstc_def cd_boot_machine_def sample_context_def)
  have "\<not> is_disk \<lparr>ush_device = disc_drive menu_disc\<rparr>" by (simp add: is_disk_def disc_drive_def sample_dev_def)
  then show "disks_readable cd_boot_machine"
    unfolding disks_readable_def using cd_boot_machine_scan
    by (intro allI exI [of _ "[\<lparr>ush_device = disc_drive menu_disc\<rparr>]"] exI) auto
  have a: "fresh_ok cd_boot_machine menu_disc 19" unfolding menu_disc_def by (rule layout_fresh [OF m]) simp
  have b: "iso_disc menu_disc 19 17 2048" unfolding menu_disc_def by (rule iso_layout_iso) simp_all
  have c: "rock_ridge (sua_of menu_disc 17) 0" by (simp add: menu_disc_def iso_layout_root rock_ridge_def)
  have "is_cd \<lparr>ush_device = disc_drive menu_disc\<rparr>" by (simp add: is_cd_def disc_drive_def sample_dev_def)
  then have "\<exists>hnd bs w1 us h. start_unit_scan cd_boot_machine get_scan_list (snd (start_unit_scan cd_boot_machine [] w)) = ((hnd, bs), w1)
      \<and> scanned cd_boot_machine hnd w1 us \<and> find is_cd us = Some h \<and> cd_reads (ush_device h) menu_disc 19" for w
    using cd_boot_machine_scan disc_drive_reads [OF menu_disc_image]
    by (intro exI [of _ "[\<lparr>ush_device = disc_drive menu_disc\<rparr>]"] exI) auto
  with a b c show "cd_machine cd_boot_machine menu_disc 19 17 2048"
    by (auto simp: cd_machine_def get_curr_device_def cd_boot_machine_def disc_drive_def sample_dev_def)
qed

subsection \<open>Other kernels on a disk\<close>

text \<open>
  The partition has a menu and a kernel \<open>d\<close> of 284 bytes. The world of this machine is the size of the last block it has
  allocated, so that a block for a kernel and one for modules have different addresses.
\<close>

definition aros_entry :: menu_t where
  "aros_entry = entry_alloc\<lparr>me_title := Some ''A'', me_kernel := Some ''k''\<rparr>"

lemma aros_entry_printable: "list_all printable [aros_entry]"
  by (simp add: printable_def aros_entry_def entry_alloc_def opt_ok_def word_def tidy_def plain_def
      isspace_def isblank_def root_ok_def modules_cnt_def)

definition aros_menu_bytes :: "byte list" where
  "aros_menu_bytes = bytes_of (menu_text [aros_entry])"

lemma length_aros_menu [simp]: "length aros_menu_bytes = 17"
  by (simp add: aros_menu_bytes_def menu_text_def render_def body_lines_def aros_entry_def entry_alloc_def keyword_line_def
      opt_line_def kernel_arg_def root_arg_def text_of_def bytes_of_def)

definition aros_dir_longs :: "nat \<Rightarrow> u32" where
  "aros_dir_longs = (\<lambda>_. 0)(0 := SOC_ID, 7 := 1, 9 := 4, 10 := 17, 12 := 0x006D656E, 13 := 0x752E6C73, 14 := 0x74000000,
     16 := 2, 18 := 6, 19 := 284, 21 := 0x006B0000)"

definition aros_node_longs :: "nat \<Rightarrow> u32" where
  "aros_node_longs = (\<lambda>_. 0)(3 := 0x00020110, 4 := 4, 7 := 0x00010000, 8 := 6, 11 := 0x00010000)"

definition aros_fs :: "byte list \<Rightarrow> u32 \<Rightarrow> byte list option" where
  "aros_fs d b = (if b = 2 then Some (block_of aros_dir_longs) else if b = 3 then Some (block_of aros_node_longs)
     else if b = 4 then Some (aros_menu_bytes @ replicate 495 0) else if b = 5 then Some (block_of sfs_top_longs)
     else if b = 6 then Some (d @ replicate 228 0) else None)"

definition aros_menu_object :: sfs_object where
  "aros_menu_object = menu_object\<lparr>ob_fixed := concat (map split32 [0, 1, 0, 4, 17, 0]) @ [0]\<rparr>"

definition aros_kernel_object :: sfs_object where
  "aros_kernel_object = \<lparr>ob_fixed = concat (map split32 [0, 2, 0, 6, 284, 0]) @ [0], ob_name = [0x6B], ob_comment = []\<rparr>"

lemma aros_object_bytes:
  "object_bytes aros_menu_object @ object_bytes aros_kernel_object
    = concat (map split32 [0, 1, 0, 4, 17, 0, 0x006D656E, 0x752E6C73, 0x74000000, 0, 2, 0, 6, 284, 0, 0x006B0000])"
  by (simp add: object_bytes_def aros_menu_object_def menu_object_def aros_kernel_object_def split32_def)

lemma aros_container: "container (aros_fs d) 2 [aros_menu_object, aros_kernel_object] 0"
proof -
  let ?ls = "[0, 1, 0, 4, 17, 0, 0x006D656E, 0x752E6C73, 0x74000000, 0, 2, 0, 6, 284, 0, 0x006B0000] :: u32 list"
  have g: "sfs_good (block_of aros_dir_longs)"
    unfolding sfs_good_block_of by (simp add: aros_dir_longs_def sum_upd del: fun_upd_apply) simp
  have "\<forall>j < 16. aros_dir_longs (6 + j) = ?ls ! j"
    by (simp add: aros_dir_longs_def All_less_Suc numeral_eq_Suc)
  then have d: "drop 24 (block_of aros_dir_longs)
      = (object_bytes aros_menu_object @ object_bytes aros_kernel_object) @ drop 88 (block_of aros_dir_longs)"
    using drop_longs [of 6 ?ls aros_dir_longs] unfolding aros_object_bytes by simp
  have e: "container_end (drop 88 (block_of aros_dir_longs))"
    using be32_block_of [of 23 aros_dir_longs] by (simp add: container_end_def be32_drop aros_dir_longs_def)
  have "be32 (block_of aros_dir_longs) 0 = Some SOC_ID" "be32 (block_of aros_dir_longs) 16 = Some 0"
    using be32_block_of [of 0 aros_dir_longs] be32_block_of [of 4 aros_dir_longs] by (simp_all add: aros_dir_longs_def)
  moreover have "object_ok aros_menu_object" "object_ok aros_kernel_object"
    by (simp_all add: object_ok_def aros_menu_object_def menu_object_def aros_kernel_object_def split32_def be32_def join32_def)
  ultimately show ?thesis using g d e by (auto simp: container_def aros_fs_def)
qed

lemma aros_lookup: "lookup (aros_fs d) 2 [''menu.lst''] (Some aros_menu_object)" "lookup (aros_fs d) 2 [''k''] (Some aros_kernel_object)"
proof -
  have d: "dir_chain (aros_fs d) 2 ([aros_menu_object, aros_kernel_object] @ [])" using aros_container dir_end by (rule dir_more)
  have "object_matches ''menu.lst'' 0 aros_menu_object" "\<not> object_matches ''k'' 0 aros_menu_object"
    "object_matches ''k'' 0 aros_kernel_object"
    by (simp_all add: object_matches_def aros_menu_object_def menu_object_def aros_kernel_object_def chars_def tolower_def
        char_of_def bit_Suc_0_iff)
  with look_last [OF d, of "''menu.lst''"] look_last [OF d, of "''k''"]
  show "lookup (aros_fs d) 2 [''menu.lst''] (Some aros_menu_object)" "lookup (aros_fs d) 2 [''k''] (Some aros_kernel_object)"
    by simp_all
qed

lemma aros_node:
  "btc_nodecount (block_of aros_node_longs) = Some 2" "btc_nodesize (block_of aros_node_longs) = Some 16"
  "btc_isleaf (block_of aros_node_longs) = Some 1"
  using nth_block_of [of 3 0 aros_node_longs] nth_block_of [of 3 1 aros_node_longs]
    nth_block_of [of 3 2 aros_node_longs] nth_block_of [of 3 3 aros_node_longs]
  by (simp_all add: btc_nodecount_def btc_nodesize_def btc_isleaf_def be16_def load_def aros_node_longs_def
      split32_def join16_def)

lemma aros_extents:
  assumes "i < 2" and "fs 3 = Some (block_of aros_node_longs)" and "fs (aros_node_longs (4 + 4 * i)) = Some data"
  shows "extents fs 3 (aros_node_longs (4 + 4 * i)) [data]"
proof -
  let ?k = "aros_node_longs (4 + 4 * i)"
  let ?e = "drop (i * unat (16 :: byte)) (btc_bnode (block_of aros_node_longs))"
  have i: "i = 0 \<or> i = 1" using assms(1) by auto
  have f: "bnode_key (drop (j * unat (16 :: byte)) (btc_bnode (block_of aros_node_longs))) = Some (aros_node_longs (4 + 4 * j))"
    if "j < 2" for j
  proof -
    have u: "unat (16 :: byte) = 16" by simp
    show ?thesis
      unfolding u using that be32_block_of [of "4 + 4 * j" aros_node_longs]
      by (simp add: bnode_key_def btc_bnode_def be32_drop ac_simps)
  qed
  have x: "sebn_next ?e = Some 0"
    using i be32_block_of [of 5 aros_node_longs] be32_block_of [of 9 aros_node_longs]
    by (auto simp: sebn_next_def btc_bnode_def be32_drop aros_node_longs_def)
  have n: "sebn_blocks ?e = Some 1"
    using i nth_block_of [of 7 0 aros_node_longs] nth_block_of [of 7 1 aros_node_longs]
      nth_block_of [of 11 0 aros_node_longs] nth_block_of [of 11 1 aros_node_longs]
    by (auto simp: sebn_blocks_def btc_bnode_def be16_def aros_node_longs_def split32_def join16_def)
  have g: "sfs_good (block_of aros_node_longs)"
    unfolding sfs_good_block_of by (simp add: aros_node_longs_def sum_upd del: fun_upd_apply) simp
  have "entry_for (block_of aros_node_longs) (unat (2 :: u16)) (unat (16 :: byte)) ?k i"
    unfolding entry_for_def using i f [of 0] f [of 1] by (auto simp: aros_node_longs_def less_2_cases_iff)
  then have "locates fs 3 ?k ?e"
    using g assms(2) by (intro loc_leaf [OF _ _ aros_node(1,2) _ aros_node(3)]) simp_all
  from ext_more [OF _ this n x _ ext_end, of "[data]"] show ?thesis
    using i assms(3) by (auto simp: aros_node_longs_def)
qed

lemma aros_holds: "sfs_holds (aros_fs d) 2 3 ''menu.lst'' aros_menu_bytes" "length d = 284 \<Longrightarrow> sfs_holds (aros_fs d) 2 3 ''k'' d"
proof -
  have "be32 (ob_fixed aros_menu_object) 12 = Some 4" "be32 (ob_fixed aros_menu_object) 16 = Some (of_nat 17)"
    by (simp_all add: aros_menu_object_def split32_def be32_def join32_def)
  moreover have "extents (aros_fs d) 3 4 [aros_menu_bytes @ replicate 495 0]"
    using aros_extents [of 0 "aros_fs d"] by (simp add: aros_fs_def aros_node_longs_def)
  ultimately show "sfs_holds (aros_fs d) 2 3 ''menu.lst'' aros_menu_bytes"
    unfolding sfs_holds_def
    by (intro exI [of _ "[''menu.lst'']"] exI [of _ aros_menu_object] exI [of _ 4]
        exI [of _ "[aros_menu_bytes @ replicate 495 0]"] exI [of _ 17])
      (simp add: path_ok_def aros_lookup)
  have "be32 (ob_fixed aros_kernel_object) 12 = Some 6" "be32 (ob_fixed aros_kernel_object) 16 = Some (of_nat 284)"
    by (simp_all add: aros_kernel_object_def split32_def be32_def join32_def)
  moreover have "extents (aros_fs d) 3 6 [d @ replicate 228 0]"
    using aros_extents [of 1 "aros_fs d"] by (simp add: aros_fs_def aros_node_longs_def)
  ultimately show "sfs_holds (aros_fs d) 2 3 ''k'' d" if "length d = 284"
    unfolding sfs_holds_def
    by (intro exI [of _ "[''k'']"] exI [of _ aros_kernel_object] exI [of _ 6] exI [of _ "[d @ replicate 228 0]"]
        exI [of _ 284])
      (simp add: path_ok_def aros_lookup that)
qed

definition aros_dev :: "int block_dev_desc" where
  "aros_dev = sample_dev sample_disk DEV_TYPE_HARDDISK"

definition aros_machine :: "byte list \<Rightarrow> int context_t" where
  "aros_machine d = sample_context\<lparr>c_curr_device := Some \<lparr>ush_device = aros_dev\<rparr>,
     c_start_unit_scan := (\<lambda>_ w. ((Some \<lparr>ush_device = aros_dev\<rparr>, 512), w)),
     c_getenv := (\<lambda>_ _. Some ''serial''), c_loadsector := sector_of (aros_fs d) 2,
     c_alloc_mem_for_anythingelse := (\<lambda>n w. (replicate (nat n) 0, n))\<rparr>"

definition aros_adr :: "int \<Rightarrow> u32" where
  "aros_adr w = (if w = 5242880 then 0x100000 else 0x2000000)"

lemma aros_machine_malloc: "malloc (aros_machine d) n w = (replicate (nat n) 0, n)"
  by (simp add: malloc_def aros_machine_def sample_context_def)

lemma aros_machine_ok: "alloc_ok (aros_machine d)" "quiet_serial (aros_machine d)" "disk_machine (aros_machine d) aros_dev"
proof -
  show "alloc_ok (aros_machine d)" by (simp add: alloc_ok_def aros_machine_malloc)
  show "quiet_serial (aros_machine d)"
    unfolding quiet_serial_def
    by (intro conjI exI [of _ "''serial''"]) (simp_all add: getenv_def tstc_def aros_machine_def sample_context_def)
  have "scanned (aros_machine d) (Some \<lparr>ush_device = aros_dev\<rparr>) w [\<lparr>ush_device = aros_dev\<rparr>]" for w
    by (rule scan_unit [OF _ scan_end, of _ _ _ 512]) (simp add: next_unit_scan_def aros_machine_def sample_context_def)
  then show "disk_machine (aros_machine d) aros_dev"
    unfolding disk_machine_def
    by (auto simp: get_curr_device_def start_unit_scan_def aros_machine_def is_disk_def aros_dev_def sample_dev_def
        intro!: exI [of _ "[\<lparr>ush_device = sample_dev sample_disk 0\<rparr>]"])
qed

lemma aros_machine_volumes:
  assumes "length d = 284"
  shows "disk_volumes (aros_machine d) aros_dev sample_rdb [sample_part IDNAME_FREE] [Sfs_volume (aros_fs d) 2 3 [aros_entry]]"
proof -
  have "stores (aros_machine d) q (Sfs_volume (aros_fs d) 2 3 [aros_entry])"
    if "describes sample_rdb aros_dev 0 (sample_part IDNAME_FREE) q" for q
  proof -
    have "dp_start (rp_info q) = 2" using that by (simp add: describes_def sample_part_def)
    then have "sfs_partition (aros_machine d) q (aros_fs d) 2 3"
      using assms by (intro sector_partition) (auto simp: aros_machine_def aros_fs_def split: if_splits)
    moreover have "no_ext2 (aros_machine d) q"
      by (simp add: no_ext2_def ext2_create_def ext2fs_set_blk_dev_full_def aros_machine_def sample_context_def)
    moreover have "length (menu_text [aros_entry]) = 17"
      using length_aros_menu by (simp only: aros_menu_bytes_def bytes_of_def length_map)
    ultimately show ?thesis
      using aros_holds(1) aros_entry_printable by (simp add: stores_def aros_menu_bytes_def)
  qed
  then show ?thesis by (simp add: disk_volumes_def)
qed

lemma aros_machine_ready:
  assumes "mem_loaded elf_mem 0x100000 0x100038 elf_bounds 5 m1" and "me_modules e = []"
  shows "aros_ready (aros_machine d) aros_adr w v (\<lambda>_. 0) e ''k'' elf_file []
    (\<lambda>es. file_loaded (elf_init elf_mem) m1 0x100000 0x100038 elf_bounds 5 ''k'' es)"
proof -
  have "drop (length elf_file) (replicate (nat 5242880) (0 :: byte)) = replicate (nat 5242880 - 284) 0"
    unfolding length_elf_file by (rule drop_replicate)
  then show ?thesis
    using elf_kernel_ready [OF elf_mem_padded assms(1)] assms(2)
    by (simp add: aros_ready_def aros_machine_malloc aros_adr_def)
qed

subsection \<open>Linux on one of two ext2 partitions\<close>

definition second_part :: "byte list" where
  "second_part = typed_block IDNAME_PARTITION
     ((\<lambda>_. 0)(4 := IDNAME_FREE, 9 := 0x03444831, 35 := 1, 37 := 1, 41 := 20, 42 := 35))"

lemma second_part_ok: "block_ok second_part" "name_ok second_part" "zero_sum second_part"
  "is_part second_part" "long_at second_part 4 = IDNAME_FREE"
proof -
  let ?f = "((\<lambda>_. 0)(4 := IDNAME_FREE, 9 := 0x03444831, 35 := 1, 37 := 1, 41 := 20, 42 := 35))
    (0 := IDNAME_PARTITION, 1 := 3, 2 := - (IDNAME_PARTITION + 3)) :: nat \<Rightarrow> u32"
  have "drop 36 (block_of ?f) = split32 (?f 9) @ split32 (?f 10) @ drop 44 (block_of ?f)"
    using drop_block_of [of 9 ?f] drop_block_of [of 10 ?f] by simp
  then have "drive_name second_part = [3, 0x44, 0x48, 0x31]"
    by (simp add: drive_name_def pb_DriveName_def second_part_def typed_block_def split32_def)
  then show "name_ok second_part" by (simp add: name_ok_def)
qed (simp_all add: second_part_def is_part_def)

definition two_disk :: "u32 \<Rightarrow> byte list option" where
  "two_disk b = (if b = 0 then Some sample_rdb else if b = 1 then Some (sample_part 2)
     else if b = 2 then Some second_part else None)"

lemma two_boot_disk: "boot_disk two_disk sample_rdb [sample_part 2, second_part]"
proof -
  have l: "long_at sample_rdb 7 = 1" and r: "is_rdb sample_rdb" "block_ok sample_rdb" by (simp_all add: sample_rdb_def is_rdb_def)
  have "chain two_disk 2 [second_part]"
    using chain.chain_free [of two_disk] by (intro chain.chain_part) (simp_all add: two_disk_def second_part_ok)
  then have c: "chain two_disk 1 [sample_part 2, second_part]"
    by (intro chain.chain_part [of 1]) (simp_all add: two_disk_def sample_part_ok)
  have "find (\<lambda>i. \<exists>b. two_disk (of_nat i) = Some b \<and> is_rdb b) [0..<RDB_LOCATION_LIMIT] = Some 0"
    using r by (simp add: two_disk_def upt_conv_Cons [of 0 16])
  with r have "has_rdb two_disk sample_rdb"
    by (auto simp: has_rdb_def two_disk_def sample_part_ok second_part_ok split: if_splits)
  with l c show ?thesis by (simp add: boot_disk_def sample_part_ok second_part_ok)
qed

text \<open>
  The first partition has a file \<open>k\<close>, too, but no menu; the second has the menu, the kernel \<open>d\<close> and the RAM disk.
\<close>

definition linux_entry :: menu_t where
  "linux_entry = entry_alloc\<lparr>me_title := Some ''A'', me_kernel := Some ''k'', me_initrd := Some ''r''\<rparr>"

lemma linux_entry_printable: "list_all printable [linux_entry]"
  by (simp add: printable_def linux_entry_def entry_alloc_def opt_ok_def word_def tidy_def plain_def
      isspace_def isblank_def root_ok_def modules_cnt_def)

lemma length_linux_menu: "length (menu_text [linux_entry]) = 26"
  by (simp add: menu_text_def render_def body_lines_def linux_entry_def entry_alloc_def keyword_line_def
      opt_line_def kernel_arg_def root_arg_def text_of_def)

definition first_files :: "string \<Rightarrow> byte list option" where
  "first_files = [''k'' \<mapsto> [9]]"

definition second_files :: "byte list \<Rightarrow> string \<Rightarrow> byte list option" where
  "second_files d = [''menu.lst'' \<mapsto> bytes_of (menu_text [linux_entry]), ''k'' \<mapsto> d, ''r'' \<mapsto> [1, 2, 3]]"

definition ext2_disk :: "byte list \<Rightarrow> u32 \<Rightarrow> (int \<times> (string \<Rightarrow> byte list option)) option" where
  "ext2_disk d s = (if s = 2 then Some (8, first_files) else if s = 20 then Some (16, second_files d) else None)"

text \<open>The world: the partition selected last, whether it is mounted, and the file that is open.\<close>

record ext2_world =
  ew_selected :: "disk_partition_t option"
  ew_mounted :: bool
  ew_file :: "string option"

definition ext2_found :: "byte list \<Rightarrow> string \<Rightarrow> ext2_world \<Rightarrow> byte list option" where
  "ext2_found d f w = (if ew_mounted w then do {
     p \<leftarrow> ew_selected w; (n, files) \<leftarrow> ext2_disk d (dp_start p); files f } else None)"

definition ext2_dev :: "ext2_world block_dev_desc" where
  "ext2_dev = sample_dev two_disk DEV_TYPE_HARDDISK"

definition ext2_machine :: "byte list \<Rightarrow> ext2_world context_t" where
  "ext2_machine d = sample_context\<lparr>c_curr_device := Some \<lparr>ush_device = ext2_dev\<rparr>,
     c_start_unit_scan := (\<lambda>_ w. ((Some \<lparr>ush_device = ext2_dev\<rparr>, 512), w)),
     c_getenv := (\<lambda>_ _. Some ''serial''),
     c_ext2fs_set_blk_dev_full := (\<lambda>_ p w. (case ext2_disk d (dp_start p) of Some (n, _) \<Rightarrow> n | None \<Rightarrow> 0,
       \<lparr>ew_selected = Some p, ew_mounted = False, ew_file = None\<rparr>)),
     c_ext2fs_mount := (\<lambda>_ w. case ew_selected w of
         Some p \<Rightarrow> if ext2_disk d (dp_start p) = None then (0, w) else (1, w\<lparr>ew_mounted := True\<rparr>)
       | None \<Rightarrow> (0, w)),
     c_ext2fs_open := (\<lambda>f w. case ext2_found d f w of Some c \<Rightarrow> (int (length c), w\<lparr>ew_file := Some f\<rparr>) | None \<Rightarrow> (-1, w)),
     c_ext2fs_read := (\<lambda>buf n w. case Option.bind (ew_file w) (\<lambda>f. ext2_found d f w) of
         Some c \<Rightarrow> ((int (length c), c @ drop (length c) buf), w) | None \<Rightarrow> ((-1, buf), w)),
     c_ext2fs_close := (\<lambda>w. w\<lparr>ew_mounted := False, ew_file := None\<rparr>)\<rparr>"

definition ext2_start :: ext2_world where
  "ext2_start = \<lparr>ew_selected = None, ew_mounted = False, ew_file = None\<rparr>"

definition ext2_sees :: "byte list \<Rightarrow> ext2_world ext2_view" where
  "ext2_sees d = \<lparr>ev_parts = \<lambda>(dv, p). if dv = ext2_dev then ext2_disk d (dp_start p) else None,
     ev_selected = \<lambda>w. map_option (Pair ext2_dev) (ew_selected w), ev_mounted = ew_mounted, ev_file = ew_file\<rparr>"

lemma ext2_machine_ok: "alloc_ok (ext2_machine d)" "quiet_serial (ext2_machine d)" "disk_machine (ext2_machine d) ext2_dev"
proof -
  show "alloc_ok (ext2_machine d)" by (simp add: alloc_ok_def malloc_def ext2_machine_def sample_context_def)
  show "quiet_serial (ext2_machine d)"
    unfolding quiet_serial_def
    by (intro conjI exI [of _ "''serial''"]) (simp_all add: getenv_def tstc_def ext2_machine_def sample_context_def)
  have "scanned (ext2_machine d) (Some \<lparr>ush_device = ext2_dev\<rparr>) w [\<lparr>ush_device = ext2_dev\<rparr>]" for w
    by (rule scan_unit [OF _ scan_end, of _ _ _ 512]) (simp add: next_unit_scan_def ext2_machine_def sample_context_def)
  then show "disk_machine (ext2_machine d) ext2_dev"
    unfolding disk_machine_def
    by (auto simp: get_curr_device_def start_unit_scan_def ext2_machine_def is_disk_def ext2_dev_def sample_dev_def
        intro!: exI [of _ "[\<lparr>ush_device = sample_dev two_disk 0\<rparr>]"])
qed

lemma ext2_machine_side: "side_calls (ext2_machine d) w w' \<Longrightarrow> w' = w"
  by (induction rule: side_calls.induct)
    (simp_all add: malloc_def video_clear_def video_draw_box_def video_draw_text_def video_repeat_char_def
      video_set_partial_scroll_limits_def ext2_machine_def sample_context_def)

lemma ext2_machine_driver: "ext2_driver (ext2_machine d) (ext2_sees d)"
proof -
  have "selects (ext2_machine d) (ext2_sees d)"
    by (auto simp: selects_def ext2_sees_def ext2fs_set_blk_dev_full_def ext2_machine_def split: if_splits)
  moreover have "mounts (ext2_machine d) (ext2_sees d)"
    by (auto simp: mounts_def ext2_sees_def ext2fs_mount_def ext2_machine_def)
  moreover have "opens (ext2_machine d) (ext2_sees d)"
    by (auto simp: opens_def ext2_sees_def ext2fs_open_def ext2_machine_def ext2_found_def split: option.splits)
  moreover have "reads (ext2_machine d) (ext2_sees d)"
    by (auto simp: reads_def ext2_sees_def ext2fs_read_def ext2_machine_def ext2_found_def)
  moreover have "keeps (ext2_machine d) (ext2_sees d)"
    using ext2_machine_side [of d]
    by (auto simp: keeps_def ext2_sees_def ext2fs_close_def setenv_def ext2_machine_def sample_context_def)
  ultimately show ?thesis by (simp add: ext2_driver_def)
qed

definition ext2_volumes :: "byte list \<Rightarrow> ext2_world volume list" where
  "ext2_volumes d = [Ext2_volume (ext2_sees d) 8 first_files [], Ext2_volume (ext2_sees d) 16 (second_files d) [linux_entry]]"

lemma ext2_machine_volumes:
  "disk_volumes (ext2_machine d) ext2_dev sample_rdb [sample_part 2, second_part] (ext2_volumes d)"
proof -
  have "stores (ext2_machine d) q (ext2_volumes d ! 0)" if "describes sample_rdb ext2_dev 0 (sample_part 2) q" for q
  proof -
    have "dp_start (rp_info q) = 2" "rp_dev_desc q = ext2_dev" using that by (simp_all add: describes_def sample_part_def)
    then show ?thesis
      using ext2_machine_driver
      by (simp add: stores_def ext2_volumes_def ext2_partition_def first_files_def ext2_sees_def ext2_disk_def)
  qed
  moreover have "stores (ext2_machine d) q (ext2_volumes d ! 1)" if "describes sample_rdb ext2_dev 1 second_part q" for q
  proof -
    have "dp_start (rp_info q) = 20" "rp_dev_desc q = ext2_dev" using that by (simp_all add: describes_def second_part_def)
    then have "ext2_partition (ext2_machine d) (ext2_sees d) 16 (second_files d) q"
      using ext2_machine_driver by (simp add: ext2_partition_def ext2_sees_def ext2_disk_def)
    then show ?thesis
      using linux_entry_printable
      by (simp add: stores_def ext2_volumes_def ext2_holds_def second_files_def length_linux_menu bytes_of_def)
  qed
  ultimately show ?thesis by (auto simp: disk_volumes_def ext2_volumes_def less_2_cases_iff less_Suc_eq)
qed

subsection \<open>A machine on a network\<close>

definition net_entry :: menu_t where
  "net_entry = entry_alloc\<lparr>me_title := Some ''A'', me_kernel := Some ''k'', me_append := Some ''a b'',
     me_initrd := Some ''r'', me_dtb := Some ''d''\<rparr>"

lemma net_entry_ok: "list_all printable [net_entry]" "length (menu_text [net_entry]) \<le> 65536"
  by (simp add: printable_def net_entry_def entry_alloc_def opt_ok_def word_def tidy_def plain_def
      isspace_def isblank_def root_ok_def modules_cnt_def)
    (simp add: menu_text_def render_def body_lines_def net_entry_def entry_alloc_def keyword_line_def
      opt_line_def kernel_arg_def root_arg_def text_of_def)

definition net_files :: "byte list \<Rightarrow> string \<Rightarrow> byte list option" where
  "net_files k = [''menu.lst'' \<mapsto> bytes_of (menu_text [net_entry]), ''k'' \<mapsto> k, ''r'' \<mapsto> [1, 2, 3], ''d'' \<mapsto> [4, 5]]"

text \<open>The world of this machine is the value of \<open>bootargs\<close>.\<close>

definition net_machine :: "byte list \<Rightarrow> string context_t" where
  "net_machine k = sample_context\<lparr>c_curr_device := Some \<lparr>ush_device = sample_dev (\<lambda>_. None) DEV_TYPE_NETBOOT\<rparr>,
     c_getenv := (\<lambda>var w. if var = ''bootargs'' then Some w else Some ''serial''),
     c_setenv := (\<lambda>var s w. if var = ''bootargs'' then s else w),
     c_my_netloop := (\<lambda>name buf w. case net_files k name of
         Some c \<Rightarrow> ((int (length c), c @ drop (length c) buf), w) | None \<Rightarrow> ((-1, buf), w))\<rparr>"

lemma net_machine_side: "side_calls (net_machine k) w w' \<Longrightarrow> w' = w"
  by (induction rule: side_calls.induct)
    (simp_all add: malloc_def video_clear_def video_draw_box_def video_draw_text_def video_repeat_char_def
      video_set_partial_scroll_limits_def net_machine_def sample_context_def)

lemma net_machine_ok:
  "alloc_ok (net_machine k)" "env_ok (net_machine k)" "quiet_serial (net_machine k)" "disks_readable (net_machine k)"
proof -
  show "alloc_ok (net_machine k)" by (simp add: alloc_ok_def malloc_def net_machine_def sample_context_def)
  have "env_string (net_machine k) ''bootargs'' w = w" "setenv (net_machine k) ''bootargs'' s w = s"
    "snd (netloop (net_machine k) f b w) = w" for s f b w
    by (simp_all add: env_string_def getenv_def setenv_def netloop_def net_machine_def split: option.split)
  then show "env_ok (net_machine k)" using net_machine_side unfolding env_ok_def by metis
  show "quiet_serial (net_machine k)"
    unfolding quiet_serial_def
    by (intro conjI exI [of _ "''serial''"]) (simp_all add: getenv_def tstc_def net_machine_def sample_context_def)
  have "start_unit_scan (net_machine k) get_scan_list w = ((None, 512), w)" for w
    by (simp add: start_unit_scan_def net_machine_def sample_context_def)
  then show "disks_readable (net_machine k)"
    unfolding disks_readable_def by (auto intro!: exI [of _ "[]"] scan_end)
qed

lemma net_machine_device: "get_curr_device (net_machine k) = Some \<lparr>ush_device = sample_dev (\<lambda>_. None) DEV_TYPE_NETBOOT\<rparr>"
  by (simp add: get_curr_device_def net_machine_def)

lemma net_machine_holds: "net_files k f = Some c \<Longrightarrow> net_holds (net_machine k) f c"
  by (simp add: net_holds_def netloop_def net_machine_def)

end
