(* ===== verification/Spec2Isabelle.thy ===== *)
theory Spec2Isabelle
  imports Machine Samples_Boot
begin

text \<open>
  A verification development of ub2lb (Parthenope), a second-level boot loader for AmigaOne and Sam
  PowerPC machines. U-Boot calls \<open>bootstrap\<close> with a table of callbacks. The program reads the partition
  table of the boot disk, reads a menu from the network, a CD or a partition (\<open>menu.lst\<close> or
  \<open>Kicklayout\<close>), lets the user choose an entry, loads its kernel from the entry's device and starts it
  as an image of U-Boot, an AROS kernel in ELF files, or an AmigaOS kernel. A separate tool writes the
  loader into the reserved blocks of a disk.

  Foundations. \<open>Prelude\<close>: the fault monad (\<open>None\<close> is undefined behaviour of C or no return; error returns
  of the code are ordinary values), the loop combinator with its rules for total and partial correctness,
  byte blocks and big-endian fields. \<open>Support\<close>: the C library of \<open>src/src/support.c\<close> on blocks. \<open>Context\<close>:
  the callbacks of \<open>context.h\<close>, a record of functions over an arbitrary world \<open>'w\<close> that is passed through
  every definition, and the wrappers of \<open>context.c\<close>. U-Boot itself is a parameter; what the theorems need
  of it are named hypotheses, and the theories \<open>Samples\<close>, \<open>Samples_Sfs\<close>, \<open>Samples_Cdrom\<close>, \<open>Samples_Elf\<close> and
  \<open>Samples_Boot\<close> have concrete machines, disks, discs and files that satisfy them.

  The parts and their theories, with the properties of each by their names.
    \<^item> Lists (\<open>support.h\<close>, \<open>support.c\<close>): \<open>Node_List\<close>, on a memory of words, with the interface \<open>deque_store\<close>
      that both ways to make a list satisfy: \<open>list_append_fifo\<close>, \<open>node_removed\<close>.
    \<^item> The machine (\<open>StackSwap\<close> of \<open>support.c\<close>, \<open>clear_bss\<close> and \<open>flush_cache\<close> of \<open>parthenope.c\<close>): \<open>Machine\<close>, with
      lemmas on what is copied, cleared and flushed.
    \<^item> Menu data and parsers (\<open>menu.h\<close>, \<open>menu.c\<close>): \<open>Menu_Entry\<close>, \<open>Menu_Text\<close> (lines, words, trimming),
      \<open>Menu_Fsm\<close> (the two state machines, one definition per \<open>case\<close>), \<open>Menu_Cases\<close> (each case as an equation
      over strings), \<open>Menu_Inv\<close> (the invariant), \<open>Menu_Run\<close> (termination and safety of both parsers by the
      interface \<open>menu_parser\<close>: \<open>menu_lst_parse_safe\<close>, \<open>kicklayout_parse_safe\<close>), \<open>Menu_Spec\<close> (an abstract
      reading of menu files by lines, the interface \<open>dialect_parser\<close> and the refinement of both parsers, for a
      text followed by anything: \<open>menu_lst_meaning\<close>, \<open>kicklayout_meaning\<close>), \<open>Menu_Roundtrip\<close> (print and parse:
      \<open>menu_lst_roundtrip\<close>), \<open>Menu_Lines\<close> (lines the parsers mistreat: \<open>menu_lst_dos_lines\<close>,
      \<open>menu_lst_module_overflow\<close>).
    \<^item> Partition table (\<open>rdb.c\<close>): \<open>Rdb\<close>, from the callbacks to the table, against a disk given as a function
      from block numbers to blocks with a chain of partition blocks: \<open>partition_table\<close>, \<open>partition_by_name\<close>,
      \<open>bad_partition_never_returns\<close>, \<open>checksum_value\<close>.
    \<^item> Installer (\<open>tools/parthenope-install.c\<close>): \<open>Install\<close>, on the bytes of the disk: \<open>install_writes_loader\<close>,
      \<open>install_reads_past_file\<close>, \<open>next_free_least\<close>, \<open>next_free_past_limit\<close>.
    \<^item> Devices (\<open>device.h\<close>, \<open>tftp.c\<close>, \<open>ext2.c\<close>, \<open>sfs.c\<close>, \<open>cdrom.c\<close>): \<open>Ext2_Tftp\<close>; \<open>Sfs\<close> with the proofs in
      \<open>Sfs_Dirs\<close> and \<open>Sfs_Files\<close> (\<open>sfs_reads_file\<close>, \<open>sfs_missing_file\<close>); \<open>Cdrom\<close> with \<open>Cdrom_Read\<close> (the sector
      cache: \<open>cd_read_bytes\<close>), \<open>Cdrom_Find\<close> (paths: \<open>iso_reads_file\<close>, \<open>iso_missing_file\<close>), \<open>Cdrom_Susp\<close> (system use
      entries: \<open>susp_search\<close>) and \<open>Cdrom_Create\<close> (opening a disc: \<open>cdrom_created\<close>, \<open>cd_without_area\<close>);
      \<open>Boot_Device\<close>, the union of the four and the dispatch of \<open>load_file\<close>.
    \<^item> The menu at run time (\<open>menu.c\<close>): \<open>Menu_Load\<close> (\<open>partition_menu_devices\<close>) and \<open>Menu_Display\<close>
      (\<open>video_menu_choice\<close>, \<open>video_menu_default\<close>, \<open>serial_menu_default\<close>).
    \<^item> ELF loader (\<open>elf.c\<close>): \<open>Elf\<close>, on a memory from addresses to bytes; \<open>Elf_Memory\<close>, \<open>Elf_Load\<close> (the layout
      of the sections: \<open>elf_sections_placed\<close>), \<open>Elf_Reloc\<close> (one relocation: \<open>elf_relocation_values\<close>) and
      \<open>Elf_File\<close> (all relocations, the registered module, the whole file: \<open>elf_file_loaded\<close>).
    \<^item> Main program (\<open>parthenope.c\<close>, \<open>image.h\<close>): \<open>Boot\<close>, which composes all of the above; \<open>Boot_Files\<close>, with the
      interfaces \<open>boot_files\<close>, that ext2 and SFS partitions, CDs and the network satisfy, and \<open>static_files\<close>, for
      those of them without a state in the world, and the start of AmigaOS and Linux through them
      (\<open>linux_arguments\<close>, \<open>failed_image_entered\<close>); \<open>Boot_Aros\<close>, the start of AROS; \<open>Boot_Menu\<close>, the way
      from the entry point to a kernel on the device the program came from (\<open>network_boot\<close>,
      \<open>amigaos_from_cd\<close>); \<open>Boot_Disk\<close>, the menus of the partitions of a disk and the way from the entry
      point to a kernel on one of them (\<open>disk_menu\<close>, \<open>amigaos_from_disk\<close>, \<open>aros_from_disk\<close>, \<open>linux_from_disk\<close>).

  Hypotheses on the outside. \<open>alloc_ok\<close>: a block has the size asked for. \<open>reads_from\<close>, \<open>cd_reads\<close>, \<open>sfs_reads\<close>
  and \<open>sfs_partition\<close>: a drive answers with the blocks of a fixed disk, and an SFS partition has a root block.
  \<open>iso_disc\<close> and \<open>rock_ridge\<close>: the volume descriptor and the system use area of a disc. \<open>net_holds\<close>: the server
  answers a request for a file with its bytes, at the start of a buffer that is large enough, and their number.
  \<open>ext2_driver\<close>: U-Boot's ext2 routines work on the partition that was selected last. A view says how to see in
  the world which that is, whether it is mounted and what file is open; a file is found only on the selected
  partition while it is mounted, only the open file is read, and the selection survives closing, allocating
  and drawing (\<open>side_calls\<close>) and the environment. \<open>env_ok\<close>: \<open>bootargs\<close> keeps the value it was set to
  last while memory is allocated, the screen drawn and files are loaded over the network.
  \<open>aros_ready\<close>: the ELF files of AROS fit at the addresses that \<open>malloc\<close> gives in the run.
  \<open>fresh_ok\<close>: fresh memory does not claim to hold a sector it does not hold.
  \<open>disk_machine\<close>, \<open>cd_machine\<close>: the device the machine was started from, and what a scan finds;
  \<open>disks_readable\<close>: the first hard disk has a valid RDB if there is one. \<open>disk_volumes\<close>: what is on the partitions.
  \<open>quiet_serial\<close>: a serial console where no key is pressed. \<open>keyboard\<close> and \<open>key_arrives\<close>: the keys to come, the
  first of which comes within some number of pauses. \<open>disk_ok\<close>: the blocks the installer looks at can be checksummed.
  Those of the properties are satisfied by machines of the \<open>Samples\<close> theories.

  Bounds. \<open>char\<close> is unsigned, \<open>int\<close>, \<open>long\<close> and pointers have 32 bits; fields and block numbers are words
  of their width, and a C \<open>int\<close> that cannot overflow is an \<open>int\<close>; the hundredths of a second of the menu's
  delay can, and an overflow there is \<open>None\<close>. Loops that may run for ever are \<open>loop\<close>,
  so that not returning is \<open>None\<close>; no definition has fuel. Images of CDs have less than \<open>2 ^ 20\<close> sectors
  in the theorems, disks of the installer a number of blocks whose offsets fit into 32 bits.

  Not modelled. Messages on the console; \<open>free\<close> and the \<open>destroy\<close> routines that only free; a \<open>malloc\<close> that
  returns NULL; the wrappers of \<open>context.c\<close> that nothing calls; the build files and the linker script. What a
  kernel does after the jump, and what U-Boot does in a callback, is outside the program.
\<close>

section \<open>The menu parsers\<close>

text \<open>
  C10. \<open>fsm\<close> is total and memory safe. On every buffer in which the end of the text can be reached and
  which has fewer than 100 lines, whatever its bytes, it returns 0 or 1 and never runs past a block,
  uses freed memory or loops; the menu it is given keeps its entries (its head may get new
  options), and every entry it appends has a title and a kernel or another loader, a known device
  type and at most 100 modules.
\<close>

theorem menu_lst_parse_safe:
  assumes "buf_ok src n" and "newlines src < MAX_MODULES" and "menu \<noteq> []"
  shows "\<exists>r menu' new. fsm src (int n) menu = Some (r, menu') \<and> menu_ext menu menu' new \<and> (r = 0 \<or> r = 1)"
proof -
  from assms(3) obtain h rest where m: "menu = h # rest" by (cases menu) auto
  from menu_lst.run [OF init_inv [OF assms(1,2), of h rest]] obtain r st' where
    "fsm src (int n) menu = Some r" "parser_inv src n menu st'" "quit n st' r"
    unfolding fsm_def m by auto
  with quit_menu [OF this(3,2)] fsm_result [OF this(1)] show ?thesis by (cases r) auto
qed

lemma menu_lst_parse_safe_witness:
  "\<exists>r menu' new. fsm (''title A'' @ [chr_nl]) (int 8) [entry_alloc] = Some (r, menu')
    \<and> menu_ext [entry_alloc] menu' new \<and> (r = 0 \<or> r = 1)"
proof (rule menu_lst_parse_safe)
  show "buf_ok (''title A'' @ [chr_nl]) 8"
    unfolding buf_ok_def by (intro conjI exI [of _ 7]) simp_all
qed (simp_all add: newlines_def)

text \<open>
  C16. \<open>kick_fsm\<close>, the parser of \<open>Kicklayout\<close> files, is total and memory safe on every buffer with fewer than
  100 lines in which the end of the text can be reached: it returns 0, 1 or the number of entries it
  appended, the menu keeps its entries, and those it appends are well formed.
\<close>

theorem kicklayout_parse_safe:
  assumes "buf_ok src n" and "newlines src < MAX_MODULES" and "menu \<noteq> []"
  shows "\<exists>r menu' new. kick_fsm src (int n) menu = Some (r, menu') \<and> menu_ext menu menu' new
    \<and> (r = 0 \<or> r = 1 \<or> r = int (length new))"
proof -
  from assms(3) obtain h rest where m: "menu = h # rest" by (cases menu) auto
  from kicklayout.run [OF init_inv [OF assms(1,2), of h rest]] obtain r st' where
    "kick_fsm src (int n) menu = Some r" "parser_inv src n menu st'" "quit n st' r"
    unfolding kick_fsm_def m by (auto simp: fsm_init_def)
  with quit_menu [OF this(3,2)] show ?thesis by (cases r) auto
qed

lemma kicklayout_parse_safe_witness:
  "\<exists>r menu' new. kick_fsm (''LABEL A'' @ [chr_nl]) (int 8) [entry_alloc] = Some (r, menu')
    \<and> menu_ext [entry_alloc] menu' new \<and> (r = 0 \<or> r = 1 \<or> r = int (length new))"
proof (rule kicklayout_parse_safe)
  show "buf_ok (''LABEL A'' @ [chr_nl]) 8"
    unfolding buf_ok_def by (intro conjI exI [of _ 7]) simp_all
qed (simp_all add: newlines_def)

text \<open>
  C3. \<open>fsm\<close> computes the line-by-line meaning \<open>spec_top\<close> of every text file, whatever its lines and
  whatever follows the terminator in the buffer; the meaning is undefined where an entry has more
  than 100 modules.
\<close>

theorem menu_lst_meaning:
  assumes "list_all plain ls" and "menu \<noteq> []"
  shows "fsm (buffer_of ls rest) (int (length (text_of ls))) menu
    = spec_top menu_lst_dialect 0 menu ls"
  using assms by (rule fsm_refines)

lemma menu_lst_meaning_witness:
  "fsm (buffer_of [''title A'', ''kernel k''] []) (int (length (text_of [''title A'', ''kernel k''])))
      [entry_alloc]
    = spec_top menu_lst_dialect 0 [entry_alloc] [''title A'', ''kernel k'']"
  by (rule menu_lst_meaning) (simp_all add: plain_def)

text \<open>C15. \<open>kick_fsm\<close> computes the line-by-line meaning of every \<open>Kicklayout\<close> file.\<close>

theorem kicklayout_meaning:
  assumes "list_all plain ls" and "menu \<noteq> []"
  shows "kick_fsm (buffer_of ls rest) (int (length (text_of ls))) menu
    = spec_top kick_dialect 0 menu ls"
  using assms by (rule kick_fsm_refines)

lemma kicklayout_meaning_witness:
  "kick_fsm (buffer_of [''LABEL A'', ''EXEC k''] []) (int (length (text_of [''LABEL A'', ''EXEC k''])))
      [entry_alloc]
    = spec_top kick_dialect 0 [entry_alloc] [''LABEL A'', ''EXEC k'']"
  by (rule kicklayout_meaning) (simp_all add: plain_def)

text \<open>
  C9. Round trip: parsing the printed form of a menu gives back its entries, in order, appended to
  the menu, with titles, kernels and their arguments, other loaders, ramdisks, device trees, modules
  and devices (disk and partition numbers included).
\<close>

theorem menu_lst_roundtrip:
  assumes "list_all printable es" and "es \<noteq> []" and "menu \<noteq> []"
  shows "fsm (buffer_of (concat (map render es)) rest)
      (int (length (text_of (concat (map render es))))) menu = Some (1, menu @ es)"
  using fsm_refines [OF menu_plain [OF assms(1)] assms(3)] render_menu [OF assms(1,2)] by simp

definition sample_entry :: "string \<Rightarrow> menu_t" where
  "sample_entry t = entry_alloc\<lparr>me_title := Some t, me_kernel := Some ''k'', me_append := Some ''a b'',
     me_device_type := IDE_TYPE, me_device_num := 1, me_partition := 2\<rparr>"

lemma sample_printable: "tidy t \<Longrightarrow> printable (sample_entry t)"
  by (simp add: printable_def sample_entry_def entry_alloc_def opt_ok_def word_def tidy_def plain_def
      isspace_def isblank_def root_ok_def modules_cnt_def)

lemma sample_tidy: "tidy ''A''" "tidy ''B''" "tidy ''C''"
  by (simp_all add: tidy_def plain_def isspace_def isblank_def)

lemma menu_lst_roundtrip_witness:
  "fsm (buffer_of (concat (map render [sample_entry ''A''])) [])
      (int (length (text_of (concat (map render [sample_entry ''A'']))))) [entry_alloc]
    = Some (1, [entry_alloc] @ [sample_entry ''A''])"
  by (rule menu_lst_roundtrip) (simp_all add: sample_printable sample_tidy)

text \<open>
  C33. A menu file with DOS line ends loses every second entry: a title line that ends an entry is put
  back by the length of its trimmed text, so its first character is not read again.
\<close>

theorem menu_lst_dos_lines:
  assumes "list_all printable es" and "menu \<noteq> []"
  shows "fsm (buffer_of (map cr (concat (map render es))) rest)
      (int (length (text_of (map cr (concat (map render es)))))) menu
    = Some (1, menu @ every_other es)"
proof -
  have "list_all plain (map cr (concat (map render es)))"
    using menu_plain [OF assms(1)] by (simp add: list_all_iff plain_cr)
  from fsm_refines [OF this assms(2)] dos_menu [OF assms(1)] show ?thesis by simp
qed

lemma menu_lst_dos_lines_witness:
  "fsm (buffer_of (map cr (concat (map render [sample_entry ''A'', sample_entry ''B'']))) [])
      (int (length (text_of (map cr (concat (map render [sample_entry ''A'', sample_entry ''B''])))))) [entry_alloc]
    = Some (1, [entry_alloc] @ every_other [sample_entry ''A'', sample_entry ''B''])"
  by (rule menu_lst_dos_lines) (simp_all add: sample_printable sample_tidy)

text \<open>
  A menu whose last entry has a title but no kernel is reported as empty: the return value is 0
  although the entries before it have been appended.
\<close>

lemma menu_lst_incomplete_last:
  assumes "list_all printable es" and "tidy t" and "menu \<noteq> []"
  shows "fsm (buffer_of (concat (map render es) @ [keyword_line ''title'' t]) rest)
      (int (length (text_of (concat (map render es) @ [keyword_line ''title'' t])))) menu
    = Some (0, menu @ es)"
proof -
  have "plain (keyword_line ''title'' t)"
    by (rule plain_keyword_line [OF _ assms(2)]) (simp add: plain_def)
  with menu_plain [OF assms(1)] have p: "list_all plain (concat (map render es) @ [keyword_line ''title'' t])"
    by simp
  show ?thesis
    unfolding fsm_refines [OF p assms(3)] by (rule incomplete_menu [OF assms(1,2)])
qed

lemma menu_lst_incomplete_last_witness:
  "fsm (buffer_of (concat (map render [sample_entry ''A'']) @ [keyword_line ''title'' ''B'']) [])
      (int (length (text_of (concat (map render [sample_entry ''A'']) @ [keyword_line ''title'' ''B'']))))
      [entry_alloc]
    = Some (0, [entry_alloc] @ [sample_entry ''A''])"
  by (rule menu_lst_incomplete_last) (simp_all add: sample_printable sample_tidy)

text \<open>
  C34. The array of modules is not bounds-checked: on a file whose entry has 101 module lines \<open>fsm\<close>
  writes past \<open>modules[MAX_MODULES]\<close>, so it has no defined result.
\<close>

theorem menu_lst_module_overflow:
  assumes "tidy t" and "list_all word ms" and "length ms = MAX_MODULES + 1" and "menu \<noteq> []"
  shows "fsm (buffer_of (keyword_line ''title'' t # map (keyword_line ''module'') ms) rest)
      (int (length (text_of (keyword_line ''title'' t # map (keyword_line ''module'') ms)))) menu = None"
  using fsm_refines [OF overflow_plain [OF assms(1,2)] assms(4)] overflow_menu [OF assms(1,2)] assms(3)
  by simp

lemma menu_lst_module_overflow_witness:
  "fsm (buffer_of (keyword_line ''title'' ''A'' # map (keyword_line ''module'') (replicate 101 ''m'')) [])
      (int (length (text_of (keyword_line ''title'' ''A''
        # map (keyword_line ''module'') (replicate 101 ''m''))))) [entry_alloc] = None"
  by (rule menu_lst_module_overflow)
    (simp_all add: sample_tidy list_all_iff word_def isspace_def isblank_def)

section \<open>Lists\<close>

text \<open>
  C27. \<open>list_append\<close> on a header from \<open>list_new\<close> builds the list of the appended nodes in order,
  whatever memory held before, as long as nodes and header do not overlap.
\<close>

theorem list_append_fifo:
  assumes "separate l ns"
  shows "is_list (fold (list_append l) ns (list_new l m)) l ns"
  using assms by (rule heap_header.build_fifo)

lemma list_append_fifo_witness:
  "is_list (fold (list_append 100) [200, 300] (list_new 100 (\<lambda>_. 0))) 100 [200, 300]"
  by (rule list_append_fifo) (simp add: separate_def)

text \<open>C28. \<open>remove\<close> takes a node out of the list it is in, its neighbours keep their order.\<close>

theorem node_removed:
  assumes "is_list m l (xs @ n # ys)"
  shows "is_list (remove_node n m) l (xs @ ys)"
  using assms by (rule is_list_remove_node)

lemma node_removed_witness:
  "is_list (remove_node 300 (fold (add_head 100) [400, 300, 200] (new_list 100 (\<lambda>_. 0)))) 100 ([200] @ [400])"
proof (rule node_removed)
  have "is_list (fold (add_head 100) [400, 300, 200] (new_list 100 (\<lambda>_. 0))) 100 (rev [400, 300, 200])"
    by (rule header.build_lifo) (simp add: separate_def)
  then show "is_list (fold (add_head 100) [400, 300, 200] (new_list 100 (\<lambda>_. 0))) 100 ([200] @ 300 # [400])"
    by simp
qed

section \<open>The partition table\<close>

text \<open>
  C7. \<open>RdbPartitionTable_init\<close> on a machine whose first hard disk has a valid RDB: it returns, and entry
  \<open>i\<close> of the table describes the \<open>i\<close>-th block of the partition list (name, first block, size, block
  size, device), entries past the list being empty.
\<close>

theorem partition_table:
  assumes "alloc_ok ctx" and "start_unit_scan ctx get_scan_list w = ((hnd, bs), w1)"
    and "scanned ctx hnd w1 us" and "find is_disk us = Some h"
    and "reads_from (ush_device h) disk" and "boot_disk disk rdb ps"
  shows "\<exists>t w'. RdbPartitionTable_init ctx w = Some (t, w')
    \<and> (\<forall>i < RDB_LOCATION_LIMIT. \<forall>d. if i < length ps
         then \<exists>r. RdbPartitionTable_get t d (of_nat i) = Some r \<and> describes rdb (ush_device h) i (ps ! i) r
         else RdbPartitionTable_get t d (of_nat i) = None)"
proof -
  from get_dev_first [OF assms(2,3)] assms(4) obtain w' where
    "get_dev ctx w = Some (Some (ush_device h), w')" by auto
  from boot_disk_table [OF assms(1,5,6) this] show ?thesis by (auto simp: table_get)
qed

lemma partition_table_witness:
  "\<exists>t w'. RdbPartitionTable_init (sample_machine (sample_dev sample_disk 0)) () = Some (t, w')
    \<and> (\<forall>i < RDB_LOCATION_LIMIT. \<forall>d. if i < length [sample_part IDNAME_FREE]
         then \<exists>r. RdbPartitionTable_get t d (of_nat i) = Some r
           \<and> describes sample_rdb (ush_device \<lparr>ush_device = sample_dev sample_disk 0\<rparr>) i
               ([sample_part IDNAME_FREE] ! i) r
         else RdbPartitionTable_get t d (of_nat i) = None)"
proof (rule partition_table [OF sample_machine_alloc sample_scan _ _ sample_boot_disk])
  show "find is_disk [\<lparr>ush_device = sample_dev sample_disk 0\<rparr>] = Some \<lparr>ush_device = sample_dev sample_disk 0\<rparr>"
    by (simp add: is_disk_def sample_dev_def)
qed (simp add: sample_reads_from)

text \<open>
  C29. \<open>RdbPartitionTable_getbyname\<close> finds the first partition of the used part of the table whose name is
  the given one up to the case of letters, and NULL if there is none.
\<close>

theorem partition_by_name:
  assumes "\<forall>r. Some r \<in> set t \<longrightarrow> terminated (chars (rp_name r))" and "NUL \<notin> set name"
  shows "RdbPartitionTable_getbyname t (lit name)
    = Some (find (\<lambda>r. map tolower (table_name r) = map tolower name) (used_entries t))"
  using getbyname_loop_eq [of "lit name" "take RDB_LOCATION_LIMIT t"] assms
  by (auto simp: RdbPartitionTable_getbyname_def used_entries_def cstr_lit dest: in_set_takeD)

definition sample_entry_named :: "byte list \<Rightarrow> unit RdbPartition" where
  "sample_entry_named name = \<lparr>rp_name = name, rp_disk = 0, rp_partition = 0, rp_dev_desc = sample_dev sample_disk 0,
     rp_info = \<lparr>dp_start = 0, dp_size = 0, dp_blksz = 512, dp_name = name, dp_type = []\<rparr>\<rparr>"

lemma partition_by_name_witness:
  "RdbPartitionTable_getbyname [Some (sample_entry_named [0x44, 0]), Some (sample_entry_named [0x45, 0]), None] (lit ''e'')
    = Some (find (\<lambda>r. map tolower (table_name r) = map tolower ''e'')
        (used_entries [Some (sample_entry_named [0x44, 0]), Some (sample_entry_named [0x45, 0]), None]))"
  by (rule partition_by_name) (auto simp: sample_entry_named_def chars_def char_of_def)

text \<open>
  C35. A partition block with a bad checksum is read for ever: when it is the first of the list,
  \<open>RdbPartitionTable_init\<close> does not return.
\<close>

theorem bad_partition_never_returns:
  assumes "start_unit_scan ctx get_scan_list w = ((hnd, bs), w1)"
    and "scanned ctx hnd w1 us" and "find is_disk us = Some h"
    and "reads_from (ush_device h) disk" and "has_rdb disk rdb"
    and "long_at rdb 7 \<noteq> IDNAME_FREE" and "disk (long_at rdb 7) = Some p" and "is_part p" and "\<not> zero_sum p"
  shows "RdbPartitionTable_init ctx w = None"
proof -
  from get_dev_first [OF assms(1,2)] assms(3) obtain w' where
    "get_dev ctx w = Some (Some (ush_device h), w')" by auto
  from bad_partition_hang [OF assms(4,5) this assms(6-9)] show ?thesis .
qed

definition corrupt_part :: "byte list" where
  "corrupt_part = block_of ((\<lambda>_. 0)(0 := IDNAME_PARTITION, 1 := 1))"

definition corrupt_disk :: "u32 \<Rightarrow> byte list option" where
  "corrupt_disk b = (if b = 0 then Some sample_rdb else if b = 1 then Some corrupt_part else None)"

lemma bad_partition_never_returns_witness:
  "RdbPartitionTable_init (sample_machine (sample_dev corrupt_disk 0)) () = None"
proof (rule bad_partition_never_returns [OF sample_scan])
  show "find is_disk [\<lparr>ush_device = sample_dev corrupt_disk 0\<rparr>] = Some \<lparr>ush_device = sample_dev corrupt_disk 0\<rparr>"
    by (simp add: is_disk_def sample_dev_def)
  have rdb: "is_rdb sample_rdb" "block_ok sample_rdb" by (simp_all add: sample_rdb_def is_rdb_def)
  then have "find (\<lambda>i. \<exists>b. corrupt_disk (of_nat i) = Some b \<and> is_rdb b) [0..<RDB_LOCATION_LIMIT] = Some 0"
    by (simp add: corrupt_disk_def upt_conv_Cons [of 0 16])
  with rdb show "has_rdb corrupt_disk sample_rdb"
    by (auto simp: has_rdb_def corrupt_disk_def corrupt_part_def block_ok_block_of split: if_splits)
  show "corrupt_disk (long_at sample_rdb 7) = Some corrupt_part" "long_at sample_rdb 7 \<noteq> IDNAME_FREE"
    by (simp_all add: corrupt_disk_def sample_rdb_def)
  have "unat (((\<lambda>_. 0)(0 := IDNAME_PARTITION, 1 := 1)) (1 :: nat) :: u32) = 1" by simp
  then show "is_part corrupt_part" "\<not> zero_sum corrupt_part"
    unfolding corrupt_part_def is_part_def zero_sum_def summed_block_of
    by (simp_all add: block_ok_block_of lessThan_Suc)
qed (simp add: sample_reads_from)

text \<open>
  C31. The count of the checksum is not bounded by the block: a block that claims up to 128 longs gets the
  sum of them, one that claims more is read past its end.
\<close>

theorem checksum_value:
  assumes "512 \<le> length b"
  shows "checksum b = (if summed_longs b \<le> 128 then Some (sum (long_at b) {..<summed_longs b}) else None)"
  using checksum_eq [OF assms] checksum_overread [OF assms] by simp

lemma checksum_value_witness:
  "checksum sample_rdb = (if summed_longs sample_rdb \<le> 128
     then Some (sum (long_at sample_rdb) {..<summed_longs sample_rdb}) else None)"
  by (rule checksum_value) (simp add: sample_rdb_def)

section \<open>The installer\<close>

text \<open>
  C8. \<open>main\<close> of the installer, on a disk with a valid RDB and \<open>k\<close> blocks of boot loader to write, more
  than \<open>k\<close> blocks of the reserved area being free or held by the old loader: it exits with 0; the RDB
  is valid and links to a chain of valid boot blocks whose data are the file; the old blocks that are
  not used again are marked free; no other block and no other field of the RDB changes. It looks at the first
  \<open>N\<close> blocks, which have to hold the reserved area, the chain of the old loader and the 16 blocks that are
  searched for the RDB, and none of which may claim a checksum over more than 128 longs; the rest of the
  disk may hold anything.
\<close>

theorem install_writes_loader:
  assumes "installable dev N r bs fs" and "length fresh = 512"
    and "length slb = 492 * k" and "0 < k" and "k < length fs" and "length fresh_slb = length slb"
  shows "\<exists>dev'. install_main 2 (Some (True, dev)) (Some (length slb)) (Some slb) fresh fresh_slb = Some (0, Some dev')
    \<and> length dev' = length dev \<and> disk_ok dev' N \<and> is_rdb (blk_at dev' r)
    \<and> boot_chain dev' (long_at (blk_at dev' r) 10) (take k fs) (map (long_at slb) [0..<123 * k])
    \<and> (\<forall>j < 128. j \<notin> {2, 10} \<longrightarrow> long_at (blk_at dev' r) j = long_at (blk_at dev r) j)
    \<and> (\<forall>j \<in> set bs - set (take k fs). long_at (blk_at dev' j) 0 = IDNAME_FREE)
    \<and> (\<forall>j. j \<notin> {r} \<union> set bs \<union> set (take k fs) \<longrightarrow> blk_at dev' j = blk_at dev j)"
  using assms by (rule install_main_ok)

lemma install_writes_loader_witness:
  "\<exists>dev'. install_main 2 (Some (True, sample_device)) (Some (length (replicate 984 (1 :: byte)))) (Some (replicate 984 1))
      (replicate 512 0) (replicate 984 7) = Some (0, Some dev')
    \<and> length dev' = length sample_device \<and> disk_ok dev' 16 \<and> is_rdb (blk_at dev' 0)
    \<and> boot_chain dev' (long_at (blk_at dev' 0) 10) (take 2 [1, 2, 3, 4])
        (map (long_at (replicate 984 1)) [0..<123 * 2])
    \<and> (\<forall>j < 128. j \<notin> {2, 10} \<longrightarrow> long_at (blk_at dev' 0) j = long_at (blk_at sample_device 0) j)
    \<and> (\<forall>j \<in> set [] - set (take 2 [1, 2, 3, 4]). long_at (blk_at dev' j) 0 = IDNAME_FREE)
    \<and> (\<forall>j. j \<notin> {0} \<union> set [] \<union> set (take 2 [1, 2, 3, 4]) \<longrightarrow> blk_at dev' j = blk_at sample_device j)"
  by (rule install_writes_loader [OF sample_installable]) simp_all

text \<open>
  C36. When the size of the file is not a multiple of 492 bytes (but has at least one long more), the last
  block is filled from behind the end of the file's buffer: no defined result. The disk is one that the
  loader could be written to, as for a file of the right size.
\<close>

theorem install_reads_past_file:
  assumes "installable dev N r bs fs" and "length fresh = 512"
    and "492 * k + 4 \<le> length slb" and "length slb < 492 * (k + 1)" and "k + 1 < length fs"
    and "length fresh_slb = length slb"
  shows "install_main 2 (Some (True, dev)) (Some (length slb)) (Some slb) fresh fresh_slb = None"
  using assms by (rule install_main_overread)

lemma install_reads_past_file_witness:
  "install_main 2 (Some (True, sample_device)) (Some (length (replicate 1000 (1 :: byte)))) (Some (replicate 1000 1))
    (replicate 512 0) (replicate 1000 7) = None"
  by (rule install_reads_past_file [OF sample_installable, of _ 2]) simp_all

text \<open>
  C30. \<open>next_free_block\<close> finds the least free block after the pointer, up to the limit, if none of the blocks up to
  the limit claims a checksum over more than 128 longs (such a block would be read past its end). What
  follows the limit may be anything.
\<close>

theorem next_free_least:
  assumes "disk_ok dev (Suc nb)" and "length fresh = 512" and "b < nb"
  shows "next_free_block dev (of_nat b) (of_nat nb) fresh
    = Some (case free_after dev nb b of f # _ \<Rightarrow> (Some (of_nat f), of_nat f) | [] \<Rightarrow> (None, of_nat nb))"
  unfolding next_free_block_def using assms(1) lessI assms(2,3) by (rule next_free_ok)

lemma sample_disk_ok: "n \<le> 16 \<Longrightarrow> disk_ok sample_device n"
  using sample_installable by (auto simp: installable_def disk_ok_def)

lemma next_free_least_witness:
  "next_free_block sample_device (of_nat 0) (of_nat 4) (replicate 512 0)
    = Some (case free_after sample_device 4 0 of f # _ \<Rightarrow> (Some (of_nat f), of_nat f) | [] \<Rightarrow> (None, of_nat 4))"
  by (rule next_free_least) (simp_all add: sample_disk_ok)

text \<open>
  C37. Once the pointer has reached the limit, the block behind it is still taken when it looks free: the
  installer can write outside the reserved area. (A block there that claims a checksum over more than 128 longs
  is read past its end; of the other blocks of the disk nothing is assumed.)
\<close>

theorem next_free_past_limit:
  assumes "512 * (b + 2) \<le> length dev" and "b + 2 \<le> 2 ^ 22" and "summed_longs (blk_at dev (Suc b)) \<le> 128"
    and "length fresh = 512" and "nb \<le> b"
  shows "next_free_block dev (of_nat b) (of_nat nb) fresh
    = Some (if is_free (blk_at dev (Suc b)) then Some (of_nat (Suc b)) else None, of_nat (Suc b))"
  using assms by (rule next_free_beyond)

lemma next_free_past_limit_witness:
  "next_free_block sample_device (of_nat 4) (of_nat 4) (replicate 512 0)
    = Some (if is_free (blk_at sample_device (Suc 4)) then Some (of_nat (Suc 4)) else None, of_nat (Suc 4))"
  by (rule next_free_past_limit) (simp_all add: length_sample_device blk_at_sample)

section \<open>The menu\<close>

lemma render_text_pos: "es \<noteq> [] \<Longrightarrow> 0 < length (text_of (concat (map render es)))"
  by (cases es) (simp_all add: render_def text_of_def)

text \<open>
  A menu file with an unfinished entry at its end gives no menu at all, although the entries before it have
  been parsed; here it is read over the network.
\<close>

lemma network_menu_lost:
  assumes "alloc_ok ctx" and "list_all printable es" and "tidy t"
    and "net_holds ctx ''menu.lst'' (bytes_of (text_of (concat (map render es) @ [keyword_line ''title'' t])))"
    and "length (text_of (concat (map render es) @ [keyword_line ''title'' t])) \<le> 65536"
  shows "\<exists>w'. menu_load ctx table (Some Tftp_dev) w = Some (None, Some Tftp_dev, w')"
proof -
  let ?ls = "concat (map render es) @ [keyword_line ''title'' t]"
  have p: "list_all plain ?ls"
    using menu_plain [OF assms(2)] plain_keyword_line [OF _ assms(3), of "''title''"] by (simp add: plain_def)
  have "fsm (text_of ?ls @ rest) (int (length (text_of ?ls))) [menu_head] = Some (0, [menu_head] @ es)" for rest
    unfolding fsm_refines_text [OF p list.distinct(2) buf_ok_text [OF snoc_eq_iff_butlast [THEN iffD1, THEN conjunct1, OF refl]]]
    by (rule incomplete_menu [OF assms(2,3)])
  moreover have "0 < length (text_of ?ls)" by (simp add: text_of_def)
  moreover from net.load_in_block [OF assms(1) refl assms(4), of 65536 w] assms(5) obtain r w' where
    "dev_load_file ctx Tftp_dev ''menu.lst'' (fst (malloc ctx 65536 w)) (snd (malloc ctx 65536 w))
      = Some ((int (length (text_of ?ls)), bytes_of (text_of ?ls) @ r), Tftp_dev, w')" by (auto simp: bytes_of_def)
  ultimately show ?thesis by (simp add: menu_load_def dev_load_def case_prod_beta chars_append)
qed

text \<open>
  C26. Whatever the partitions hold: in a menu that \<open>menu_load\<close> found on them every entry, the head too,
  has a device to boot from.
\<close>

theorem partition_menu_devices:
  assumes "menu_load ctx table None w = Some (Some menu, boot, w')"
  shows "\<forall>e \<in> set menu. me_device_type e \<noteq> DEFAULT_TYPE"
proof -
  from assms obtain n self w1 where
    m: "magic_loop ctx table [0..<RDB_LOCATION_LIMIT] 0 [menu_head] w = Some ((n, self), w1)"
    and n: "n \<noteq> 0" "menu = self"
    by (auto simp: menu_load_def magic_load_def bind_eq_Some_conv split: if_splits simp del: magic_loop.simps)
  from magic_loop_types [OF m] n show ?thesis by simp
qed

definition sample_file :: "string list" where
  "sample_file = concat (map render [sample_entry ''A''])"

definition menu_machine :: "unit context_t" where
  "menu_machine = sample_context\<lparr>
     c_ext2fs_set_blk_dev_full := \<lambda>_ _ w. (1, w), c_ext2fs_mount := \<lambda>_ w. (1, w),
     c_ext2fs_open := \<lambda>_ w. (int (length (text_of sample_file)), w),
     c_ext2fs_read := \<lambda>buf n w. ((n, bytes_of (buffer_of sample_file [])), w)\<rparr>"

lemma menu_machine_dev_load:
  "dev_load menu_machine [menu_head] (Ext2_dev d) () = Some ((1, [menu_head, sample_entry ''A'']), Ext2_dev d, ())"
proof -
  have f: "fsm (buffer_of sample_file []) (int (length (text_of sample_file))) [menu_head]
      = Some (1, [menu_head] @ [sample_entry ''A''])"
    unfolding sample_file_def
    using fsm_refines [OF menu_plain [of "[sample_entry ''A'']"], of "[menu_head]"] render_menu [of "[sample_entry ''A'']"]
    by (simp add: sample_printable sample_tidy)
  have "0 < length (text_of sample_file)" unfolding sample_file_def by (rule render_text_pos) simp
  with f show ?thesis
    by (simp add: dev_load_def malloc_def menu_machine_def sample_context_def dev_load_file_def ext2_load_file_def
        ext2fs_mount_def ext2fs_open_def ext2fs_read_def ext2fs_close_def)
qed

lemma partition_menu_devices_witness:
  "me_device_type (set_partition 0 menu_head) \<noteq> DEFAULT_TYPE \<and> me_device_type (sample_entry ''A'') \<noteq> DEFAULT_TYPE"
proof -
  let ?p = "\<lparr>rp_name = [0], rp_disk = 0, rp_partition = 0, rp_dev_desc = sample_dev sample_disk 0,
     rp_info = \<lparr>dp_start = 0, dp_size = 0, dp_blksz = 512, dp_name = [], dp_type = []\<rparr>\<rparr>"
  have p: "partition_dev menu_machine ?p () = Some (Some (Ext2_dev \<lparr>e2_discno = 0, e2_partno = 0, e2_part_length = 1\<rparr>), ())"
    by (simp add: partition_dev_def ext2_create_def menu_machine_def sample_context_def malloc_def
        ext2fs_set_blk_dev_full_def ext2fs_mount_def ext2fs_close_def)
  have s: "set_partition 0 (sample_entry ''A'') = sample_entry ''A''"
    by (simp add: set_partition_def sample_entry_def)
  have g: "RdbPartitionTable_get [Some ?p, None] 0 0 = Some ?p" "RdbPartitionTable_get [Some ?p, None] 0 1 = None"
    by (simp_all add: RdbPartitionTable_get_def)
  have u: "[0..<RDB_LOCATION_LIMIT] = 0 # 1 # [2..<RDB_LOCATION_LIMIT]"
    by (simp add: upt_conv_Cons [of 0 16] upt_conv_Cons [of "Suc 0" 16] numeral_2_eq_2)
  have "menu_load menu_machine [Some ?p, None] None ()
    = Some (Some [set_partition 0 menu_head, sample_entry ''A''], None, ())"
    unfolding menu_load_def magic_load_def u by (simp add: g p s menu_machine_dev_load del: upt_rec_numeral)
  from partition_menu_devices [OF this] show ?thesis by simp
qed

text \<open>
  C11. The menu of a hard disk: on a machine whose disk has a valid RDB, and whose partitions hold ext2 or
  SFS file systems with printed menu files (or without any) or something else, the table is read and \<open>menu_load\<close>
  puts together the entries of all partitions, in the order of the partitions and of their files; an
  entry without a device gets the partition it was read from. Without any entry there is no menu.
\<close>

theorem disk_menu:
  assumes "alloc_ok ctx" and "disk_machine ctx dev" and "reads_from dev disk" and "boot_disk disk rdb ps"
    and "disk_volumes ctx dev rdb ps vs"
  shows "\<exists>t w1 h w2. RdbPartitionTable_init ctx w = Some (t, w1)
    \<and> menu_load ctx t None w1 = Some (if collected 0 vs = [] then None else Some (h # collected 0 vs), None, w2)
    \<and> me_default_os h = Some 0 \<and> me_delay h = Some 5"
proof -
  from disk_table [OF assms, of w] obtain t qs w1 where
    "RdbPartitionTable_init ctx w = Some (t, w1)" "list_all2 (stores ctx) qs vs" "in_table t qs" by blast
  with disk_menu_load [OF assms(1), of qs vs t w1] show ?thesis by blast
qed

lemma disk_menu_witness:
  "\<exists>t w1 h w2. RdbPartitionTable_init (ext2_machine []) ext2_start = Some (t, w1)
    \<and> menu_load (ext2_machine []) t None w1 = Some (if collected 0 (ext2_volumes []) = [] then None
        else Some (h # collected 0 (ext2_volumes [])), None, w2)
    \<and> me_default_os h = Some 0 \<and> me_delay h = Some 5"
  by (rule disk_menu [OF ext2_machine_ok(1,3) _ two_boot_disk ext2_machine_volumes])
    (simp add: ext2_dev_def sample_reads_from)

text \<open>
  C22. The menu on the screen: from the default entry on (at most the twelfth), the keys choose the entry
  that \<open>pick\<close> says, whatever the number of entries and however far the window has to move. The delay is one
  for which 100 times the delay is an \<open>int\<close> of C; when it is not 0 or negative, the first key comes
  before the count-down is over.
\<close>

theorem video_menu_choice:
  assumes "\<forall>e \<in> set es. drawable e" and "es \<noteq> []" and "keyboard ctx keys"
    and "me_default_os h = Some d" and "0 \<le> d" and "d \<le> 11"
    and "me_delay h = Some t" and "- 21474836 \<le> t" and "t \<le> 21474836"
    and "t \<le> 0 \<or> key_arrives ctx keys wait \<and> int (wait w) < 100 * t"
    and "pick (int (length es) - 1) (min d (int (length es) - 1)) (keys w) = Some r"
  shows "\<exists>w'. menu_display_video ctx (h # es) w = Some (map_option (\<lambda>i. es ! nat i) r, w')"
  using assms by (rule video_keys)

text \<open>The world of this machine: the keys to come, and the number of pauses before the first of them.\<close>

definition key_machine :: "(int list \<times> nat) context_t" where
  "key_machine = sample_context\<lparr>c_video_get_key := \<lambda>(ks, n). (hd ks, (tl ks, n)),
     c_tstc := \<lambda>(ks, n). (if n = 0 then 1 else 0, (ks, n)), c_udelay := \<lambda>_ (ks, n). (ks, n - 1)\<rparr>"

lemma key_machine_keyboard: "keyboard key_machine fst" "key_arrives key_machine fst snd"
  by (auto simp: keyboard_def key_arrives_def key_machine_def sample_context_def video_get_key_def video_draw_text_def
      video_draw_box_def tstc_def udelay_def)

definition sample_menu :: "int \<Rightarrow> int \<Rightarrow> menu_t" where
  "sample_menu d t = menu_head\<lparr>me_default_os := Some d, me_delay := Some t\<rparr>"

lemma sample_drawable: "length t \<le> 98 \<Longrightarrow> drawable (sample_entry t)"
  by (simp add: drawable_def sample_entry_def)

lemma video_menu_choice_witness:
  "\<exists>w'. menu_display_video key_machine (sample_menu 0 5 # [sample_entry ''A'', sample_entry ''B'']) ([3, 3, 4, 3, 1], 250)
    = Some (map_option (\<lambda>i. [sample_entry ''A'', sample_entry ''B''] ! nat i) (Some 1), w')"
  by (rule video_menu_choice [OF _ _ key_machine_keyboard(1), where d = 0 and t = 5 and wait = snd])
    (simp_all add: sample_drawable sample_menu_def key_machine_keyboard(2) move_key_def)

text \<open>
  C23. With no key pressed the screen menu boots the default entry (or the last one, if the default is past
  it) when the delay, from 1 to 21474836 seconds, is over; but a default past the twelfth entry is not in the
  window and nothing is booted. (A longer delay overflows: 100 times the delay is no \<open>int\<close> of C.)
\<close>

theorem video_menu_default:
  assumes "\<forall>e \<in> set es. drawable e" and "es \<noteq> []" and "\<forall>w. fst (tstc ctx w) = 0"
    and "me_default_os h = Some d" and "0 \<le> d" and "me_delay h = Some t" and "0 < t" and "t \<le> 21474836"
  shows "\<exists>w'. menu_display_video ctx (h # es) w
    = Some (if min d (int (length es) - 1) \<le> 11 then Some (es ! nat (min d (int (length es) - 1))) else None, w')"
  using assms by (rule video_timeout)

lemma video_menu_default_witness:
  "\<exists>w'. menu_display_video sample_context (sample_menu 20 5 # replicate 13 (sample_entry ''A'')) ()
    = Some (if min 20 (int (length (replicate 13 (sample_entry ''A''))) - 1) \<le> 11
        then Some (replicate 13 (sample_entry ''A'') ! nat (min 20 (int (length (replicate 13 (sample_entry ''A''))) - 1)))
        else None, w')"
  by (rule video_menu_default [where t = 5])
    (simp_all add: sample_drawable sample_menu_def tstc_def sample_context_def)

text \<open>
  C24. With no key pressed the serial menu boots the default entry, wherever it is, for every default that is not
  negative and every delay from 0 to 21474836 seconds.
\<close>

theorem serial_menu_default:
  assumes "es \<noteq> []" and "\<forall>w. fst (tstc ctx w) = 0"
    and "me_default_os h = Some d" and "0 \<le> d" and "me_delay h = Some t" and "0 \<le> t" and "t \<le> 21474836"
  shows "\<exists>w'. menu_display_serial ctx (h # es) w = Some (Some (es ! nat (min d (int (length es) - 1))), w')"
  using assms by (rule serial_timeout)

lemma serial_menu_default_witness:
  "\<exists>w'. menu_display_serial sample_context (sample_menu 1 5 # [sample_entry ''A'', sample_entry ''B'']) ()
    = Some (Some ([sample_entry ''A'', sample_entry ''B'']
        ! nat (min 1 (int (length [sample_entry ''A'', sample_entry ''B'']) - 1))), w')"
  by (rule serial_menu_default [where t = 5]) (simp_all add: sample_menu_def tstc_def sample_context_def)

text \<open>A delay that is too long has no defined result, on the screen and on the serial line.\<close>

lemma menu_delay_overflow:
  assumes "me_default_os h = Some d" and "me_delay h = Some t" and "21474836 < t"
  shows "menu_display_serial ctx (h # es) w = None" and "menu_display_video ctx (h # es) w = None"
  using assms by (auto simp: menu_display_serial_def menu_display_video_def default_entry_def guard_def)

text \<open>
  A key on the serial line chooses the entry of its letter, from \<open>a\<close> on; \<open>z\<close> leaves the menu, so the
  26th entry can never be chosen.
\<close>

lemma serial_menu_key:
  assumes "tstc ctx w = (k, w1)" and "k \<noteq> 0" and "getc ctx w1 = (c, w2)" and "length es \<le> 159"
    and "me_default_os h = Some d" and "me_delay h = Some t" and "0 < t" and "t \<le> 21474836"
  shows "menu_display_serial ctx (h # es) w
    = Some (if c \<noteq> 122 \<and> 97 \<le> c \<and> c < 97 + int (length es) then Some (es ! nat (c - 97)) else None, w2)"
  using assms by (rule serial_key)

section \<open>Smart File System\<close>

text \<open>
  C5. \<open>sfs_loadfile\<close> on an SFS partition whose blocks do not change: a path that leads through the
  directories to a file puts the first bytes of the blocks of its extents into the buffer, as many as
  the size of the file says, leaves the rest of the buffer alone and returns the size.
\<close>

theorem sfs_reads_file:
  assumes "sfs_reads ctx self fs" and "lookup fs b path (Some ob)" and "path_ok path" and "hd path \<noteq> []"
    and "be32 (sd_root self) 16 = Some b" and "filename = join_path path \<or> filename = CHR ''/'' # join_path path"
    and "be32 (ob_fixed ob) 12 = Some first" and "be32 (ob_fixed ob) 16 = Some (of_nat n)"
    and "extents fs (sd_extentbnoderoot self) first blks" and "n \<le> length (concat blks)" and "n < 2 ^ 31"
    and "n \<le> length fb"
  shows "\<exists>w'. sfs_loadfile ctx self filename fb w = Some ((int n, take n (concat blks) @ drop n fb), w')"
  using assms by (rule sfs_loadfile_eq)

lemma sfs_reads_file_witness:
  "\<exists>w'. sfs_loadfile sfs_machine sample_sfs ''/a'' (replicate 10 0) ()
    = Some ((int 5, take 5 (concat [sfs_data]) @ drop 5 (replicate 10 0)), w')"
  by (rule sfs_reads_file [OF sample_sfs_reads sample_lookup(1) _ _ sample_sfs_root _ _ _ _, where first = 4])
    (simp_all add: path_ok_def sample_file_object_def split32_def be32_def join32_def sample_extents sample_sfs_def)

text \<open>C38. A path that leads nowhere is answered with -1, and the buffer is not touched.\<close>

theorem sfs_missing_file:
  assumes "sfs_reads ctx self fs" and "lookup fs b path None" and "path_ok path" and "hd path \<noteq> []"
    and "be32 (sd_root self) 16 = Some b" and "filename = join_path path \<or> filename = CHR ''/'' # join_path path"
  shows "\<exists>w'. sfs_loadfile ctx self filename fb w = Some ((-1, fb), w')"
  using assms by (rule sfs_loadfile_missing)

lemma sfs_missing_file_witness:
  "\<exists>w'. sfs_loadfile sfs_machine sample_sfs ''b'' [1, 2] () = Some ((-1, [1, 2]), w')"
  by (rule sfs_missing_file [OF sample_sfs_reads sample_lookup(2) _ _ sample_sfs_root])
    (simp_all add: path_ok_def)

text \<open>
  The checksum stored in an SFS block has no influence: it is cleared before the sum is taken, and
  the sum is compared with 0 only.
\<close>

lemma sfs_checksum_ignored:
  assumes "length stored = 4" and "8 \<le> length block"
  shows "calcchecksum (take 4 block @ stored @ drop 8 block) n = calcchecksum block n"
  using assms by (simp add: calcchecksum_def put32_cleared cleared_def)

section \<open>ISO 9660 discs\<close>

text \<open>
  C20. Opening a CD whose root directory record has a system use area: with an ISO 9660 disc in the first CD
  drive of the scan, \<open>cdrom_create\<close> returns a device object for that drive that is well formed: its sector
  cache agrees with the disc, its volume descriptor has the place and the size of the root directory, and
  \<open>rr\<close> is set exactly when the system use area of the root directory starts with \<open>SP\<close> and has an \<open>RR\<close> entry. The
  area has at least 2 bytes, or at least 7 and no continuation (\<open>CE\<close>) if it starts with \<open>SP\<close> (a record
  without an area is the case of \<open>cd_without_area\<close>), and the fresh memory of the cache does not claim to
  hold a sector of the disc unless it does.
\<close>

theorem cdrom_created:
  assumes "alloc_ok ctx" and "fresh_ok ctx img N"
    and "start_unit_scan ctx get_scan_list (snd (start_unit_scan ctx [] w)) = ((hnd, bs), w1)"
    and "scanned ctx hnd w1 us" and "find is_cd us = Some h"
    and "cd_reads (ush_device h) img N" and "iso_disc img N b s" and "rock_ridge (sua_of img b) rr"
  shows "\<exists>boot w'. cdrom_create ctx w = Some (Some boot, w') \<and> cd_phys boot = ush_device h \<and> cache_ok boot img N
    \<and> root_extent boot b s \<and> cd_rr boot = rr"
  using assms by (rule cdrom_create_ok)

lemma cdrom_created_witness:
  "\<exists>boot w'. cdrom_create (iso_machine rr_area) () = Some (Some boot, w')
    \<and> cd_phys boot = ush_device \<lparr>ush_device = disc_drive (iso_image rr_area)\<rparr> \<and> cache_ok boot (iso_image rr_area) 18
    \<and> root_extent boot 17 2048 \<and> cd_rr boot = 1"
  using iso_machine_ok [OF rr_area_rr(1)] iso_image_iso [OF rr_area_rr(1)] iso_image_root(4) [OF rr_area_rr(1)] rr_area_rr(2)
  by (intro cdrom_created [OF _ _ iso_scan]) simp_all

text \<open>
  C40. A disc without a system use area, as the standard has it: \<open>cdrom_create\<close> reads the two bytes of a
  signature from the block of no bytes it has allocated for the area, so it has no defined result.
\<close>

theorem cd_without_area:
  assumes "alloc_ok ctx" and "fresh_ok ctx img N"
    and "start_unit_scan ctx get_scan_list (snd (start_unit_scan ctx [] w)) = ((hnd, bs), w1)"
    and "scanned ctx hnd w1 us" and "find is_cd us = Some h"
    and "cd_reads (ush_device h) img N" and "iso_disc img N b s" and "sua_start img b = sua_end img b"
  shows "cdrom_create ctx w = None"
  using assms by (rule cdrom_create_empty)

lemma cd_without_area_witness: "cdrom_create (iso_machine []) () = None"
  using iso_machine_ok [of "[]"] iso_image_iso [of "[]"] iso_image_root(2,3) [of "[]"]
  by (intro cd_without_area [OF _ _ iso_scan, where h = "\<lparr>ush_device = disc_drive (iso_image [])\<rparr>" and img = "iso_image []" and N = 18 and b = 17 and s = 2048]) simp_all

text \<open>
  C19. \<open>cdrom_read\<close> on a drive with an image in it: \<open>l\<close> bytes from offset \<open>off\<close> of sector \<open>b\<close> on are the
  bytes of the image there, whatever sectors they cross and whatever the one-sector cache holds; only
  the cache changes, and it stays a sector of the image.
\<close>

theorem cd_read_bytes:
  assumes "cd_reads (cd_phys boot) img N" and "cache_ok boot img N"
    and "2048 * b + off + l \<le> 2048 * N" and "l \<le> length dest"
  shows "\<exists>boot'. cdrom_read boot (of_nat b) (of_nat off) (of_nat l) dest w
      = Some ((0, take l (drop (2048 * b + off) img) @ drop l dest), boot', w)
    \<and> same_disc boot boot' \<and> cache_ok boot' img N"
  using assms by (rule cdrom_read_ok)

lemma cd_read_bytes_witness:
  "\<exists>boot'. cdrom_read sample_cdrom (of_nat 1) (of_nat 2040) (of_nat 12) (replicate 20 0) ()
      = Some ((0, take 12 (drop (2048 * 1 + 2040) sample_disc) @ drop 12 (replicate 20 0)), boot', ())
    \<and> same_disc sample_cdrom boot' \<and> cache_ok boot' sample_disc 3"
  by (rule cd_read_bytes [OF sample_cdrom_reads]) simp_all

text \<open>
  A sector the cache claims to hold is never read from the drive. \<open>cdrom_create\<close> does not set the
  number of the cached sector, so with the wrong number in the fresh memory its first read yields that
  memory instead of the disc.
\<close>

lemma cd_read_stale_cache:
  assumes "cd_sector_in_buf boot = block" and "length (cd_tmpbuf boot) = 2048"
    and "0 < l" and "l < 2048" and "l \<le> length dest"
  shows "cdrom_read boot block 0 (of_nat l) dest w = Some ((0, take l (cd_tmpbuf boot) @ drop l dest), boot, w)"
  using assms by (rule cdrom_read_cached)

text \<open>
  C6. \<open>fs_cdrom_load_file\<close> on a disc without Rock Ridge names: a path that leads through the directory
  records to a file (compared without case and version) puts the bytes of its extent into the buffer
  and returns its size.
\<close>

theorem iso_reads_file:
  assumes "alloc_ok ctx" and "plain_disc this img N" and "root_extent this b size'"
    and "iso_lookup img N b size' path (Some (blk, sz))" and "iso_path path"
    and "filename = join_path path \<or> filename = CHR ''/'' # join_path path"
    and "2048 * blk + sz \<le> 2048 * N" and "sz \<le> length buffer"
  shows "\<exists>this' w'. fs_cdrom_load_file ctx this filename buffer w
      = Some ((int sz, take sz (drop (2048 * blk) img) @ drop sz buffer), this', w')
    \<and> same_disc this this' \<and> plain_disc this' img N"
  using assms by (rule load_file_ok)

lemma iso_reads_file_witness:
  "\<exists>this' w'. fs_cdrom_load_file sample_context sample_cdrom ''/a'' (replicate 10 0) ()
      = Some ((int 5, take 5 (drop (2048 * 2) sample_disc) @ drop 5 (replicate 10 0)), this', w')
    \<and> same_disc sample_cdrom this' \<and> plain_disc this' sample_disc 3"
  by (rule iso_reads_file [OF sample_context_alloc sample_plain sample_root sample_iso_lookup(1)])
    (simp_all add: iso_path_def)

text \<open>
  C39. A path that leads nowhere on a disc is answered with 0, not with an error: for the callers, that
  test for a negative result, the file is there and empty.
\<close>

theorem iso_missing_file:
  assumes "alloc_ok ctx" and "plain_disc this img N" and "root_extent this b size'"
    and "iso_lookup img N b size' path None" and "iso_path path"
    and "filename = join_path path \<or> filename = CHR ''/'' # join_path path"
  shows "\<exists>this' w'. fs_cdrom_load_file ctx this filename buffer w = Some ((0, buffer), this', w')
    \<and> same_disc this this' \<and> plain_disc this' img N"
  using assms by (rule load_file_missing)

lemma iso_missing_file_witness:
  "\<exists>this' w'. fs_cdrom_load_file sample_context sample_cdrom ''b'' [1] () = Some ((0, [1]), this', w')
    \<and> same_disc sample_cdrom this' \<and> plain_disc this' sample_disc 3"
  by (rule iso_missing_file [OF sample_context_alloc sample_plain sample_root sample_iso_lookup(2)])
    (simp_all add: iso_path_def)

text \<open>
  C21. \<open>get_entry\<close> on a system use area without continuation: it returns the first entry with the signature,
  NULL if the area or an \<open>ST\<close> entry ends before one, and it never returns if it comes to an entry of
  length 0 first.
\<close>

theorem susp_search:
  assumes "alloc_ok ctx" and "cd_reads (cd_phys dev) img N" and "cache_ok dev img N"
    and "2048 * b + off + n \<le> 2048 * N" and "susp_result sig (take n (drop (2048 * b + off) img)) 0 r"
  shows "case r of
      None \<Rightarrow> get_entry ctx dev (of_nat b) (of_nat off) (of_nat n) sig w = None
    | Some e \<Rightarrow> \<exists>dev' w'. get_entry ctx dev (of_nat b) (of_nat off) (of_nat n) sig w = Some (e, dev', w')
        \<and> same_disc dev dev' \<and> cache_ok dev' img N"
  using assms by (rule get_entry_ok)

lemma susp_search_witness:
  "(\<exists>dev' w'. get_entry sample_context susp_cdrom (of_nat 2) (of_nat 0) (of_nat 9) (0x52, 0x52) ()
      = Some (Some [0x52, 0x52, 5, 1, 0x81], dev', w'))
    \<and> get_entry sample_context susp_cdrom (of_nat 2) (of_nat 0) (of_nat 9) (0x50, 0x58) () = None"
  using susp_search [OF sample_context_alloc susp_cdrom_reads _ susp_results(1), of "()"]
    susp_search [OF sample_context_alloc susp_cdrom_reads _ susp_results(2), of "()"]
  by auto

section \<open>ELF files\<close>

text \<open>
  C17. The section loop of \<open>load_elf_file\<close>, for a file whose hunks fit outside it: every hunk gets an
  address with its alignment, no two overlap, its bytes there are the bytes of the file (zeros for
  \<open>.bss\<close>), its header has the address, each \<open>.bss\<close> its marker, and no other memory changes.
\<close>

theorem elf_sections_placed:
  assumes "loadable m F L H n B" and "bss + bss_count (sec_of m H) n \<le> MAX_BSS_SECTIONS"
    and "es_mem st = m" and "ptr_ro st = of_nat (fst B)" and "ptr_rw st = of_nat (snd B)"
    and "length (tracker st) = MAX_BSS_SECTIONS" and "bss_next st = bss"
  shows "(\<exists>st'. load_sections (of_nat F) (of_nat F) (of_nat H) 0 st = Some (1, st') \<and> loaded m F H B bss n st')
    \<and> (\<forall>i < n. is_hunk (sec_of m H i) \<longrightarrow> sc_align (sec_of m H i) dvd hunk_addr (sec_of m H) B i
        \<and> (\<forall>j < n. is_hunk (sec_of m H j) \<and> i \<noteq> j
            \<longrightarrow> hunk_range (sec_of m H) B i \<inter> hunk_range (sec_of m H) B j = {}))"
proof -
  have b: "snd B \<le> fst B" using assms(1) by (simp add: loadable_def)
  note h = loadable_hunks [OF assms(1)]
  show ?thesis
    using load_sections_ok [OF assms(1,2) loaded_0 [OF assms(3-7)]] hunks_disjoint [OF h b] hunk_aligned h
    by auto
qed

lemma elf_sections_placed_witness:
  "(\<exists>st'. load_sections (of_nat 0x100000) (of_nat 0x100000) (of_nat 0x100038) 0 (elf_init elf_mem) = Some (1, st')
      \<and> loaded elf_mem 0x100000 0x100038 elf_bounds 0 5 st')
    \<and> \<not> (\<exists>i < 5. is_hunk (sec_of elf_mem 0x100038 i)
        \<and> \<not> sc_align (sec_of elf_mem 0x100038 i) dvd hunk_addr (sec_of elf_mem 0x100038) elf_bounds i)"
  using elf_sections_placed [OF elf_loadable, of 0 "elf_init elf_mem"] elf_bss
  by (simp add: elf_init_def KERNEL_PHYS_BASE_def MAX_BSS_SECTIONS_def)

text \<open>
  C4. \<open>load_elf_file\<close> on a relocatable PowerPC file that can be loaded: it succeeds; every relocation of
  every table has made of the bytes it covers (four, or two for a half word) what it makes of them alone in the
  memory with all sections loaded, and nothing else is changed; the bounds of the kernel are moved, the \<open>.bss\<close>
  markers added, and a module is registered whose bounds hold all code and whose symbols are those of the
  first symbol table that are in code. A file can be loaded when its hunks fit outside it, the markers fit
  into the tracker, its string tables have less than \<open>2 ^ 31\<close> bytes, and its relocation tables have entries of
  12 bytes, of known types, over symbols that are not undefined and not common (one of these, or an unknown type,
  makes the loader fail: \<open>Elf_Reloc.reloc_loop_fails\<close>), where the bytes the relocations cover overlap neither each
  other nor what is read: section headers, tables, symbols and names of absolute symbols. A symbol of a section
  has its value behind the address of the section, an absolute one its value, and the first absolute one
  that is called \<open>SysBase\<close> is 4, whatever the offset to the virtual base.
\<close>

theorem elf_file_loaded:
  assumes "alloc_ok ctx" and "check_header (es_mem st) (of_nat F)" and "of_nat F + eh_shoff (es_mem st) (of_nat F) = of_nat H"
    and "loadable (es_mem st) F L H n B" and "bss_next st + bss_count (sec_of (es_mem st) H) n \<le> MAX_BSS_SECTIONS"
    and "\<forall>i < n. sc_type (sec_of (es_mem st) H i) = SHT_STRTAB \<longrightarrow> sc_size (sec_of (es_mem st) H i) < 2 ^ 31"
    and "mem_loaded (es_mem st) F H B n m1" and "file_relocatable m1 F H n"
    and "ptr_ro st = of_nat (fst B)" and "ptr_rw st = of_nat (snd B)" and "length (tracker st) = MAX_BSS_SECTIONS"
  shows "\<exists>st' w'. load_elf_file ctx name (of_nat F) st w = Some ((1, st'), w') \<and> file_loaded st m1 F H B n name st'"
  using assms by (rule load_elf_file_ok)

lemma sample_elf_loads: "\<exists>m1. mem_loaded elf_mem 0x100000 0x100038 elf_bounds 5 m1"
  using load_sections_ok [OF elf_loadable _ loaded_0 [of "elf_init elf_mem"], of 0] elf_bss
  by (auto simp: elf_init_def KERNEL_PHYS_BASE_def MAX_BSS_SECTIONS_def loaded_def)

lemma elf_file_loaded_witness:
  "\<exists>m1 st' w'. mem_loaded elf_mem 0x100000 0x100038 elf_bounds 5 m1
    \<and> load_elf_file sample_context ''k'' (of_nat 0x100000) (elf_init elf_mem) () = Some ((1, st'), w')
    \<and> file_loaded (elf_init elf_mem) m1 0x100000 0x100038 elf_bounds 5 ''k'' st'"
proof -
  have m: "es_mem (elf_init elf_mem) = elf_mem" by (simp add: elf_init_def)
  from sample_elf_loads obtain m1 where m1: "mem_loaded elf_mem 0x100000 0x100038 elf_bounds 5 m1" by blast
  have "\<exists>st' w'. load_elf_file sample_context ''k'' (of_nat 0x100000) (elf_init elf_mem) () = Some ((1, st'), w')
    \<and> file_loaded (elf_init elf_mem) m1 0x100000 0x100038 elf_bounds 5 ''k'' st'"
    by (rule elf_file_loaded [where L = 284, OF sample_context_alloc, unfolded m])
      (use elf_check_header elf_loadable elf_bss m1 elf_file_relocatable [OF m1] in
        \<open>simp_all add: all_5 elf_secs elf_init_def KERNEL_PHYS_BASE_def MAX_BSS_SECTIONS_def\<close>)
  with m1 show ?thesis by blast
qed

text \<open>
  C18. What the relocations mean for the program: a word holds the address, a relative word leads to it,
  and the two halves that \<open>lis\<close> and \<open>addi\<close> load add up to it, whatever carries there are.
\<close>

theorem elf_relocation_values:
  "(\<exists>m'. reloc_store m R_PPC_ADDR32 p s ad virt = Some m' \<and> ld32 m' p = s + ad + virt)
    \<and> (\<exists>m'. reloc_store m R_PPC_REL32 p s ad virt = Some m' \<and> p + ld32 m' p = s + ad)
    \<and> (\<exists>mh ml. reloc_store m R_PPC_ADDR16_HA p s ad virt = Some mh \<and> reloc_store mh R_PPC_ADDR16_LO q s ad virt = Some ml
        \<and> push_bit 16 (ucast (ld16 mh p)) + scast (ld16 ml q) = s + ad + virt)"
  by (simp add: reloc_ADDR32 reloc_REL32 reloc_ADDR16_HA reloc_ADDR16_LO ha_lo del: add_uminus_conv_diff)

text \<open>
  A relocated branch leads to its symbol and keeps its opcode and link bits, if the symbol is within
  32 MB and on a word.
\<close>

lemma elf_branch_relocated:
  assumes "- (2 ^ 25) \<le> sint (s + ad - p)" and "sint (s + ad - p) < 2 ^ 25" and "4 dvd sint (s + ad - p)"
  shows "\<exists>m'. reloc_store m R_PPC_REL24 p s ad virt = Some m' \<and> branch_target (ld32 m' p) p = s + ad
    \<and> ld32 m' p AND NOT LI_mask = ld32 m p AND NOT LI_mask"
proof -
  have "((x AND NOT LI_mask) OR (y AND LI_mask)) AND NOT LI_mask = x AND NOT LI_mask" for x y :: u32
    by (rule bit_eqI) (auto simp: bit_simps)
  with branch_field [OF assms] show ?thesis by (simp add: reloc_REL24)
qed

section \<open>Booting\<close>

text \<open>
  C25. What Linux gets, over the network: \<open>testboot_linux\<close> returns, and the last thing it does is \<open>bootm\<close> with the
  image, then the initial RAM disk, \<open>-\<close> in its place if there is only a device tree, then the device tree,
  as far as the entry names them; each of the two is a block that starts with the bytes of its file on the server,
  and \<open>bootargs\<close> holds the arguments of the entry. The RAM disk has at most 18 MB, the device tree at most 1 MB;
  nothing but \<open>setenv\<close> changes \<open>bootargs\<close>.
\<close>

theorem linux_arguments:
  assumes "alloc_ok ctx" and "env_ok ctx" and "is_linux krnl"
    and "\<forall>f. me_initrd e = Some f \<longrightarrow> net_holds ctx f ci \<and> length ci \<le> 18874368"
    and "\<forall>f. me_dtb e = Some f \<longrightarrow> net_holds ctx f cd \<and> length cd \<le> 1048576"
  shows "\<exists>ri rd w'. testboot_linux ctx e krnl Tftp_dev w
      = Some (Tftp_dev, snd (bootm ctx 0 (linux_args e krnl (ci @ ri) (cd @ rd)) w'))
    \<and> env_string ctx ''bootargs'' w' = (case me_append e of Some a \<Rightarrow> a | None \<Rightarrow> [])"
  using assms by (rule net_linux)

definition sample_image :: "char list" where
  "sample_image = [CHR 0x27, CHR 0x05, CHR 0x19, CHR 0x56] @ replicate 24 NUL @ [CHR 0x05, NUL, CHR 0x02, NUL] @ replicate 32 NUL"

lemma sample_image_linux: "is_linux (bytes_of sample_image)"
  by (simp add: is_linux_def ih_magic_def ih_os_def ih_type_def be32_def load_def bytes_of_def sample_image_def
      nth_append join32_def)

definition linux_file :: "byte list" where
  "linux_file = bytes_of sample_image @ replicate 220 0"

lemma linux_file_ok: "length linux_file = 284" "is_linux linux_file"
  by (simp_all add: linux_file_def is_linux_def ih_magic_def ih_os_def ih_type_def be32_def load_def bytes_of_def
      sample_image_def nth_append join32_def)

lemma net_entry_files:
  "\<forall>f. me_initrd net_entry = Some f \<longrightarrow> net_holds (net_machine k) f [1, 2, 3] \<and> length [1 :: byte, 2, 3] \<le> 18874368"
  "\<forall>f. me_dtb net_entry = Some f \<longrightarrow> net_holds (net_machine k) f [4, 5] \<and> length [4 :: byte, 5] \<le> 1048576"
  "net_holds (net_machine k) ''menu.lst'' (bytes_of (menu_text [net_entry]))" "net_holds (net_machine k) ''k'' k"
  by (auto simp: net_entry_def entry_alloc_def net_files_def intro: net_machine_holds)

lemma linux_arguments_witness:
  "\<exists>ri rd w'. testboot_linux (net_machine linux_file) net_entry linux_file Tftp_dev ''x''
      = Some (Tftp_dev, snd (bootm (net_machine linux_file) 0 (linux_args net_entry linux_file ([1, 2, 3] @ ri) ([4, 5] @ rd)) w'))
    \<and> env_string (net_machine linux_file) ''bootargs'' w' = (case me_append net_entry of Some a \<Rightarrow> a | None \<Rightarrow> [])"
  by (rule linux_arguments [OF net_machine_ok(1,2) linux_file_ok(2) net_entry_files(1,2)])

text \<open>
  C2. From the entry point to the kernel over the network: with a printed menu file (at most 64 KB) and a Linux
  image (at most 5 MB) on the server and no key pressed at the serial menu, \<open>bootstrap\<close> shows the menu, waits,
  loads the kernel of the first entry, sets \<open>bootargs\<close> from it, loads its initial RAM disk and device tree, if it
  names them, and calls \<open>bootm\<close> with the three blocks (and goes on to the other kinds of kernels only if \<open>bootm\<close>
  returns). The server answers a request for a file with its bytes at the start of the block, the rest of
  which stays as it is, and with their number; the entry names the network or no device; the first hard disk, if
  there is one, has a valid RDB, since \<open>bootstrap\<close> reads that first; nothing but \<open>setenv\<close> changes \<open>bootargs\<close>.
\<close>

theorem network_boot:
  assumes "alloc_ok ctx" and "env_ok ctx" and "disks_readable ctx" and "quiet_serial ctx"
    and "get_curr_device ctx = Some u" and "bd_type (ush_device u) = DEV_TYPE_NETBOOT"
    and "net_holds ctx ''menu.lst'' (bytes_of (menu_text (e # es)))" and "length (menu_text (e # es)) \<le> 65536"
    and "list_all printable (e # es)" and "me_other e = None" and "me_device_type e \<in> {DEFAULT_TYPE, TFTP_TYPE}"
    and "me_kernel e = Some f" and "net_holds ctx f k" and "length k \<le> 5242880" and "is_linux k"
    and "\<forall>f. me_initrd e = Some f \<longrightarrow> net_holds ctx f ci \<and> length ci \<le> 18874368"
    and "\<forall>f. me_dtb e = Some f \<longrightarrow> net_holds ctx f cd \<and> length cd \<le> 1048576"
  shows "\<exists>kat r ri rd w'. bootstrap ctx adr ver date m w
    = boot_native ctx adr ver date m e kat (k @ r) Tftp_dev
        (snd (bootm ctx 0 (linux_args e (k @ r) (ci @ ri) (cd @ rd)) w'))
    \<and> env_string ctx ''bootargs'' w' = (case me_append e of Some a \<Rightarrow> a | None \<Rightarrow> [])"
proof -
  have rdb: "\<forall>w. \<exists>t w'. RdbPartitionTable_init ctx w = Some (t, w')" using table_read [OF assms(1,3)] by blast
  have dev: "\<exists>d' w'. entry_device ctx table e (Some d) w = Some (Some d', w') \<and> d' = Tftp_dev" if "d = Tftp_dev" for table d w
    unfolding that by (rule entry_device_net [OF assms(11)])
  from net.device_bootstrap [OF assms(1) get_booting_device_net [OF assms(5,6)] rdb assms(4,7-10) dev, of ver w]
  obtain w1 where "boot_choice ctx ver w = Some (e, Tftp_dev, w1)" by blast
  from boot_choice_starts [OF this] net_linux_started [OF assms(1,2,12-17), of adr ver date m w1] show ?thesis
    by metis
qed

lemma network_boot_witness:
  "\<exists>kat r ri rd w'. bootstrap (net_machine linux_file) (\<lambda>_. 0x2000000) ''7'' ''d'' (\<lambda>_. 0) []
    = boot_native (net_machine linux_file) (\<lambda>_. 0x2000000) ''7'' ''d'' (\<lambda>_. 0) net_entry kat (linux_file @ r) Tftp_dev
        (snd (bootm (net_machine linux_file) 0 (linux_args net_entry (linux_file @ r) ([1, 2, 3] @ ri) ([4, 5] @ rd)) w'))
    \<and> env_string (net_machine linux_file) ''bootargs'' w' = (case me_append net_entry of Some a \<Rightarrow> a | None \<Rightarrow> [])"
  by (rule network_boot [OF net_machine_ok(1,2,4,3) net_machine_device _ net_entry_files(3) net_entry_ok(2,1),
        OF _ _ _ _ net_entry_files(4) _ linux_file_ok(2) net_entry_files(1,2)])
    (simp_all add: sample_dev_def net_entry_def entry_alloc_def linux_file_ok(1))

text \<open>
  C32. When \<open>bootm\<close> comes back from a Linux image (a bad checksum is enough), the image is not an error: from
  \<open>bootm\<close> the loader goes on to load the modules of the entry, if it has any, and jumps to the header of the
  image as if it were a kernel of AmigaOS. The files of the entry, its modules included, are on the server, its
  title fits on the screen.
\<close>

theorem failed_image_entered:
  assumes "alloc_ok ctx" and "bootable e"
    and "me_kernel e = Some f" and "net_holds ctx f k" and "length k \<le> 5242880" and "is_linux k"
    and "\<forall>f. me_initrd e = Some f \<longrightarrow> net_holds ctx f ci \<and> length ci \<le> 18874368"
    and "\<forall>f. me_dtb e = Some f \<longrightarrow> net_holds ctx f cd \<and> length cd \<le> 1048576"
    and "list_all2 (\<lambda>mo c. net_holds ctx (eo_name mo) c \<and> length c \<le> 5242880) (me_modules e) cs"
  shows "\<exists>kat r ri rd d w1 w'. start_kernel ctx adr ver date m e Tftp_dev w
      = boot_native ctx adr ver date m e kat (k @ r) d (snd (bootm ctx 0 (linux_args e (k @ r) (ci @ ri) (cd @ rd)) w1))
    \<and> boot_native ctx adr ver date m e kat (k @ r) d (snd (bootm ctx 0 (linux_args e (k @ r) (ci @ ri) (cd @ rd)) w1))
      = Some (Enter (Jump_aos (k @ r) (map2 aos_module_of (me_modules e) cs) (getenv ctx ''os4_commandline'' w')), w')"
  using net.image_entered_after_bootm [OF assms(1) refl assms(2-9)] .

lemma failed_image_entered_witness:
  "\<exists>kat r ri rd d w1 w'. start_kernel (net_machine linux_file) (\<lambda>_. 0x2000000) ''7'' ''d'' (\<lambda>_. 0) net_entry Tftp_dev []
      = boot_native (net_machine linux_file) (\<lambda>_. 0x2000000) ''7'' ''d'' (\<lambda>_. 0) net_entry kat (linux_file @ r) d
        (snd (bootm (net_machine linux_file) 0 (linux_args net_entry (linux_file @ r) ([1, 2, 3] @ ri) ([4, 5] @ rd)) w1))
    \<and> boot_native (net_machine linux_file) (\<lambda>_. 0x2000000) ''7'' ''d'' (\<lambda>_. 0) net_entry kat (linux_file @ r) d
        (snd (bootm (net_machine linux_file) 0 (linux_args net_entry (linux_file @ r) ([1, 2, 3] @ ri) ([4, 5] @ rd)) w1))
      = Some (Enter (Jump_aos (linux_file @ r) (map2 aos_module_of (me_modules net_entry) [])
          (getenv (net_machine linux_file) ''os4_commandline'' w')), w')"
  by (rule failed_image_entered [OF net_machine_ok(1) _ _ net_entry_files(4) _ linux_file_ok(2) net_entry_files(1,2)])
    (simp_all add: bootable_def net_entry_def entry_alloc_def linux_file_ok(1))

text \<open>
  An entry for AmigaOS on a partition of the table with an SFS file system: the partition is opened, and
  a kernel that is neither an image of U-Boot nor an ELF file is entered with the modules of the entry, in
  their order, each with its name, its bytes and their number, and with the value of \<open>os4_commandline\<close>.
\<close>

lemma amigaos_from_partition:
  assumes "alloc_ok ctx" and "me_device_type e = IDE_TYPE"
    and "RdbPartitionTable_get table (of_int (me_device_num e)) (of_int (me_partition e)) = Some p"
    and "sfs_partition ctx p fs b x" and "\<forall>w. fst (ext2_create ctx p w) = None"
    and "bootable e" and "me_kernel e = Some f" and "sfs_holds fs b x f k" and "length k \<le> 5242880" and "raw_kernel k"
    and "list_all2 (\<lambda>mo c. sfs_holds fs b x (eo_name mo) c \<and> length c \<le> 5242880) (me_modules e) cs"
  shows "\<exists>d w1 r w'. entry_device ctx table e boot w = Some (Some d, w1) \<and> start_kernel ctx adr ver date m e d w1
    = Some (Enter (Jump_aos (k @ r) (map2 aos_module_of (me_modules e) cs) (getenv ctx ''os4_commandline'' w')), w')"
proof -
  from entry_device_sfs [OF assms(2-4), of boot w] assms(5) obtain d w1 where
    "entry_device ctx table e boot w = Some (Some d, w1)" "sfs_usable ctx fs b x d" by blast
  with sfs.aos_started [where w = w1, OF assms(1) this(2) assms(6-11), of adr ver date m] show ?thesis by blast
qed

lemma sample_sfs_holds: "sfs_holds sample_fs 2 3 ''a'' (take 5 sfs_data)"
proof -
  have "be32 (ob_fixed sample_file_object) 12 = Some 4" "be32 (ob_fixed sample_file_object) 16 = Some (of_nat 5)"
    by (simp_all add: sample_file_object_def split32_def be32_def join32_def)
  then show ?thesis
    unfolding sfs_holds_def
    by (intro exI [of _ "[''a'']"] exI [of _ sample_file_object] exI [of _ 4] exI [of _ "[sfs_data]"] exI [of _ 5])
      (simp add: path_ok_def sample_lookup(1) sample_extents)
qed

definition aos_entry :: menu_t where
  "aos_entry = entry_alloc\<lparr>me_title := Some ''A'', me_kernel := Some ''a'', me_device_type := IDE_TYPE,
     me_device_num := 0, me_partition := 0,
     me_modules := [\<lparr>eo_name = ''a'', eo_args = None, eo_partition = None\<rparr>]\<rparr>"

lemma sample_raw_kernel: "raw_kernel (take 5 sfs_data)"
proof -
  have "be32 (take 5 sfs_data) 0 = be32 sfs_data 0" by (simp add: be32_def)
  also have "\<dots> = Some 0x01020304" using be32_block_of [of 0 "\<lambda>_. 0x01020304"] by (simp add: sfs_data_def)
  finally show ?thesis by (simp add: raw_kernel_def)
qed

lemma sample_no_ext2: "\<forall>w. fst (ext2_create sfs_machine p w) = None"
  by (simp add: ext2_create_def ext2fs_set_blk_dev_full_def sfs_machine_def sample_context_def)

lemma amigaos_from_partition_witness:
  "\<exists>d w1 r w'. entry_device sfs_machine [Some (sd_partition sample_sfs)] aos_entry None () = Some (Some d, w1)
    \<and> start_kernel sfs_machine (\<lambda>_. 0x2000000) ''7'' ''d'' (\<lambda>_. 0) aos_entry d w1
    = Some (Enter (Jump_aos (take 5 sfs_data @ r) (map2 aos_module_of (me_modules aos_entry) [take 5 sfs_data])
        (getenv sfs_machine ''os4_commandline'' w')), w')"
proof (rule amigaos_from_partition [OF _ _ _ sample_sfs_partition sample_no_ext2 _ _ sample_sfs_holds _ sample_raw_kernel])
  show "alloc_ok sfs_machine" by (simp add: alloc_ok_def malloc_def sfs_machine_def sample_context_def)
qed (simp_all add: aos_entry_def entry_alloc_def bootable_def sample_sfs_holds RdbPartitionTable_get_def)

text \<open>
  C14. From the entry point to Linux on a hard disk: with no key pressed at the serial menu, \<open>bootstrap\<close>
  reads the partition table, collects the menus of the partitions, opens the ext2 or SFS partition the first entry
  belongs to, and calls \<open>bootm\<close> with the image (at most 5 MB), with the initial RAM disk (at most 18 MB) and the
  device tree (at most 1 MB) that the entry names: blocks that start with the bytes of their files on that
  partition (it goes on to the other kinds of kernels only if \<open>bootm\<close> returns). An ext2 partition is read through
  U-Boot, which opens files of the partition that was selected last, while it is mounted.
\<close>

theorem linux_from_disk:
  assumes "alloc_ok ctx" and "disk_machine ctx dev" and "reads_from dev disk" and "boot_disk disk rdb ps"
    and "disk_volumes ctx dev rdb ps vs" and "quiet_serial ctx" and "collected 0 vs = e # es"
    and "me_other e = None" and "me_device_type e = IDE_TYPE" and "me_partition e = int i"
    and "i < length ps"
    and "me_kernel e = Some f" and "vol_holds ctx (vs ! i) f k" and "length k \<le> 5242880" and "is_linux k"
    and "\<forall>f. me_initrd e = Some f \<longrightarrow> vol_holds ctx (vs ! i) f ci \<and> length ci \<le> 18874368"
    and "\<forall>f. me_dtb e = Some f \<longrightarrow> vol_holds ctx (vs ! i) f cd \<and> length cd \<le> 1048576"
  shows "\<exists>kat r ri rd d w'. bootstrap ctx adr ver date m w = boot_native ctx adr ver date m e kat (k @ r) d
    (snd (bootm ctx 0 (linux_args e (k @ r) (ci @ ri) (cd @ rd)) w'))"
proof -
  from disk_bootstrap [OF assms(1-11) vol_holds_some [OF assms(13)], of ver w] obtain d w1 where
    c: "boot_choice ctx ver w = Some (e, d, w1)" "vol_usable ctx (vs ! i) d w1" by blast
  from vol.linux_kernel_started [where P = "vol_usable ctx (vs ! i)", OF assms(1) c(2) assms(12-15)
      vol.linux_loaded [OF assms(1) vol_setenv _ assms(16,17)], of adr ver date m] boot_choice_starts [OF c(1), of adr date m]
  show ?thesis by fastforce
qed

lemma linux_from_disk_witness:
  "\<exists>kat r ri rd d w'. bootstrap (ext2_machine linux_file) (\<lambda>_. 0x1000000) ''7'' ''d'' (\<lambda>_. 0) ext2_start
    = boot_native (ext2_machine linux_file) (\<lambda>_. 0x1000000) ''7'' ''d'' (\<lambda>_. 0) (read_from 1 linux_entry) kat (linux_file @ r) d
        (snd (bootm (ext2_machine linux_file) 0
          (linux_args (read_from 1 linux_entry) (linux_file @ r) ([1, 2, 3] @ ri) ([] @ rd)) w'))"
  by (intro linux_from_disk [OF ext2_machine_ok(1,3) _ two_boot_disk ext2_machine_volumes ext2_machine_ok(2),
        where i = 1 and es = "[]" and f = "''k''"])
    (simp_all add: ext2_dev_def sample_reads_from read_from_def linux_entry_def entry_alloc_def linux_file_ok ext2_volumes_def
      ext2_holds_def second_files_def)

text \<open>
  C1. From the entry point to AmigaOS on a hard disk: with no key pressed at the serial menu, \<open>bootstrap\<close>
  reads the partition table, collects the menus of the partitions, opens the SFS partition the first
  entry belongs to, loads its kernel, neither an image of U-Boot nor an ELF file, and its modules from
  there, and enters the kernel with the modules in their order, each with its name, its bytes and their
  number, and with the value of \<open>os4_commandline\<close>.
\<close>

theorem amigaos_from_disk:
  assumes "alloc_ok ctx" and "disk_machine ctx dev" and "reads_from dev disk" and "boot_disk disk rdb ps"
    and "disk_volumes ctx dev rdb ps vs" and "quiet_serial ctx" and "collected 0 vs = e # es"
    and "me_other e = None" and "me_device_type e = IDE_TYPE" and "me_partition e = int i"
    and "i < length ps"
    and "bootable e" and "me_kernel e = Some f" and "vol_holds ctx (vs ! i) f k" and "length k \<le> 5242880" and "raw_kernel k"
    and "list_all2 (\<lambda>mo c. vol_holds ctx (vs ! i) (eo_name mo) c \<and> length c \<le> 5242880) (me_modules e) cs"
  shows "\<exists>r w'. bootstrap ctx adr ver date m w
    = Some (Enter (Jump_aos (k @ r) (map2 aos_module_of (me_modules e) cs) (getenv ctx ''os4_commandline'' w')), w')"
proof -
  from disk_bootstrap [OF assms(1-11) vol_holds_some [OF assms(14)], of ver w] obtain d w1 where
    c: "boot_choice ctx ver w = Some (e, d, w1)" "vol_usable ctx (vs ! i) d w1" by blast
  from vol.aos_started [OF assms(1) c(2) assms(12-17), of adr ver date m] show ?thesis
    unfolding boot_choice_starts [OF c(1)] .
qed

lemma amigaos_from_disk_witness:
  "\<exists>r w'. bootstrap boot_machine (\<lambda>_. 0x2000000) ''7'' ''d'' (\<lambda>_. 0) ()
    = Some (Enter (Jump_aos (disk_menu_bytes @ r)
        (map2 aos_module_of (me_modules (read_from 0 disk_entry)) [disk_menu_bytes])
        (getenv boot_machine ''os4_commandline'' w')), w')"
  by (rule amigaos_from_disk [OF boot_machine_alloc boot_machine_disk _ sample_boot_disk boot_machine_volumes boot_machine_quiet,
        where i = 0 and e = "read_from 0 disk_entry" and es = "[]" and f = "''menu.lst''"])
    (simp_all add: disk_menu_raw boot_dev_def sample_reads_from read_from_def disk_entry_def entry_alloc_def bootable_def menu_holds)

text \<open>
  C12. From the entry point to AmigaOS on a CD: with no key pressed at the serial menu,
  \<open>bootstrap\<close> opens the disc, reads the menu and, for a first entry that names no device, the kernel, neither
  an image of U-Boot nor an ELF file, and the modules from it, and enters the kernel with the modules. The
  disc has plain ISO 9660 names, and yet its root directory record has a system use area, of at least 2 bytes,
  that makes no Rock Ridge of it: a disc without an area is that of \<open>cd_without_area\<close>, where the program reads
  past a block. The fresh memory of the cache does not claim to hold a sector of the disc unless it does; the
  first hard disk, if there is one, has a valid RDB.
\<close>

theorem amigaos_from_cd:
  assumes "alloc_ok ctx" and "cd_machine ctx img N b s" and "disks_readable ctx" and "quiet_serial ctx"
    and "cd_holds img N b s ''menu.lst'' (bytes_of (menu_text (e # es)))" and "length (menu_text (e # es)) \<le> 65536"
    and "list_all printable (e # es)" and "me_other e = None" and "me_device_type e = DEFAULT_TYPE"
    and "bootable e" and "me_kernel e = Some f" and "cd_holds img N b s f k" and "length k \<le> 5242880" and "raw_kernel k"
    and "list_all2 (\<lambda>mo c. cd_holds img N b s (eo_name mo) c \<and> length c \<le> 5242880) (me_modules e) cs"
  shows "\<exists>r w'. bootstrap ctx adr ver date m w
    = Some (Enter (Jump_aos (k @ r) (map2 aos_module_of (me_modules e) cs) (getenv ctx ''os4_commandline'' w')), w')"
proof -
  have "\<forall>w. \<exists>t w'. RdbPartitionTable_init ctx w = Some (t, w')" using table_read [OF assms(1,3)] by blast
  from cd.device_bootstrap [OF assms(1) get_booting_device_cd [OF assms(1,2)] this assms(4-8) entry_device_default [OF assms(9)],
      of ver w]
  obtain d w1 where c: "boot_choice ctx ver w = Some (e, d, w1)" "cd_usable ctx img N b s d" by blast
  from cd.aos_started [OF assms(1) c(2) assms(10-15), of adr ver date m] show ?thesis
    unfolding boot_choice_starts [OF c(1)] .
qed

lemma amigaos_from_cd_witness:
  "\<exists>r w'. bootstrap cd_boot_machine (\<lambda>_. 0x2000000) ''7'' ''d'' (\<lambda>_. 0) ()
    = Some (Enter (Jump_aos (disk_menu_bytes @ r) (map2 aos_module_of (me_modules disk_entry) [disk_menu_bytes])
        (getenv cd_boot_machine ''os4_commandline'' w')), w')"
proof (rule amigaos_from_cd [OF cd_boot_machine_ok(1,4,3,2) menu_disc_holds [unfolded disk_menu_bytes_def] _
      disk_entry_printable, OF _ _ _ _ _ menu_disc_holds _ disk_menu_raw])
  show "length (menu_text [disk_entry]) \<le> 65536"
    using length_disk_menu by (simp only: disk_menu_bytes_def bytes_of_def length_map)
qed (simp_all add: disk_entry_def entry_alloc_def bootable_def menu_disc_holds)

text \<open>
  C13. From the entry point to AROS on a hard disk: with no key pressed at the serial menu, \<open>bootstrap\<close> reads
  the partition table, collects the menus of the partitions, chooses the first entry, whose device is the ext2 or SFS
  partition it belongs to, and reads its kernel (at most 5 MB) from there; \<open>w1\<close> is the world before the block for
  the kernel is allocated, \<open>v\<close> that before the block for the modules (each at most 10 MB) is. When
  the ELF files can be loaded one after the other into the blocks that \<open>malloc\<close> gives then, they are, and
  the kernel is entered with its tags, in a state that satisfies whatever follows from their loading.
\<close>

theorem aros_from_disk:
  assumes "alloc_ok ctx" and "disk_machine ctx dev" and "reads_from dev disk" and "boot_disk disk rdb ps"
    and "disk_volumes ctx dev rdb ps vs" and "quiet_serial ctx" and "collected 0 vs = e # es"
    and "me_other e = None" and "me_device_type e = IDE_TYPE" and "me_partition e = int i"
    and "i < length ps"
    and "bootable e" and "me_kernel e = Some f" and "vol_holds ctx (vs ! i) f k" and "length k \<le> 5242880"
    and "list_all2 (\<lambda>mo c. vol_holds ctx (vs ! i) (eo_name mo) c \<and> length c \<le> 10485760) (me_modules e) cs"
  shows "\<exists>d w1 r d' v. boot_choice ctx ver w = Some (e, d, w1)
    \<and> dev_load_file ctx d f (fst (malloc ctx 5242880 w1)) (snd (malloc ctx 5242880 w1)) = Some ((int (length k), k @ r), d', v)
    \<and> (aros_ready ctx adr w1 v m e f k cs Q
       \<longrightarrow> (\<exists>st w'. bootstrap ctx adr ver date m w = Some (Enter (Jump_aros (aros_tags ver date e st) st), w') \<and> Q st))"
proof -
  from disk_bootstrap [OF assms(1-11) vol_holds_some [OF assms(14)], of ver w] obtain d w1 where
    c: "boot_choice ctx ver w = Some (e, d, w1)" "vol_usable ctx (vs ! i) d w1" by blast
  from vol.aros_kernel_started [OF assms(1) c(2) assms(12-16), of adr m Q ver date] c(1) show ?thesis
    unfolding boot_choice_starts [OF c(1)] by blast
qed

lemma aros_from_disk_witness:
  "\<exists>m1 st w'. mem_loaded elf_mem 0x100000 0x100038 elf_bounds 5 m1
    \<and> bootstrap (aros_machine elf_file) aros_adr ''7'' ''d'' (\<lambda>_. 0) 0
      = Some (Enter (Jump_aros (aros_tags ''7'' ''d'' (read_from 0 aros_entry) st) st), w')
    \<and> file_loaded (elf_init elf_mem) m1 0x100000 0x100038 elf_bounds 5 ''k'' st"
proof -
  from sample_elf_loads obtain m1 where m1: "mem_loaded elf_mem 0x100000 0x100038 elf_bounds 5 m1" by blast
  let ?Q = "\<lambda>st. file_loaded (elf_init elf_mem) m1 0x100000 0x100038 elf_bounds 5 ''k'' st"
  have e: "me_modules (read_from 0 aros_entry) = []" by (simp add: read_from_def aros_entry_def entry_alloc_def)
  have "\<exists>d w1 r d' v. boot_choice (aros_machine elf_file) ''7'' 0 = Some (read_from 0 aros_entry, d, w1)
    \<and> dev_load_file (aros_machine elf_file) d ''k'' (fst (malloc (aros_machine elf_file) 5242880 w1))
        (snd (malloc (aros_machine elf_file) 5242880 w1)) = Some ((int (length elf_file), elf_file @ r), d', v)
    \<and> (aros_ready (aros_machine elf_file) aros_adr w1 v (\<lambda>_. 0) (read_from 0 aros_entry) ''k'' elf_file [] ?Q
       \<longrightarrow> (\<exists>st w'. bootstrap (aros_machine elf_file) aros_adr ''7'' ''d'' (\<lambda>_. 0) 0
            = Some (Enter (Jump_aros (aros_tags ''7'' ''d'' (read_from 0 aros_entry) st) st), w') \<and> ?Q st))"
    by (rule aros_from_disk [OF aros_machine_ok(1,3) _ sample_boot_disk aros_machine_volumes [OF length_elf_file] aros_machine_ok(2),
          where i = 0 and e = "read_from 0 aros_entry" and es = "[]"])
      (simp_all add: aros_holds(2) aros_dev_def sample_reads_from read_from_def aros_entry_def entry_alloc_def bootable_def)
  with aros_machine_ready [OF m1 e] m1 show ?thesis by blast
qed

end
